(* ===== verification/Prelude.thy ===== *)
theory Prelude
  imports Complex_Main "HOL-Library.AList"
begin

text \<open>
  Shared vocabulary of the development.

  \<^item> JavaScript's \<open>Map\<close> keeps its entries in insertion order; \<open>set\<close> on a present key
    keeps the entry's position and \<open>delete\<close> removes it. It is modelled as an association
    list with \<open>map_of\<close>, \<open>AList.update\<close> and \<open>AList.delete\<close>, which behave exactly so.
  \<^item> \<open>splice_first\<close> is the idiom \<open>findIndex\<close> then \<open>splice(idx, 1)\<close>.
  \<^item> \<open>keep_last\<close> is the idiom \<open>if (a.length > n) a.splice(0, a.length - n)\<close>.
  \<^item> Times are epoch milliseconds of type \<open>int\<close>, passed in where the code reads
    \<open>Date.now()\<close>.
\<close>

named_theorems map_simps \<open>lookups, updates and deletions of insertion-ordered maps\<close>
named_theorems list_simps \<open>the list idioms of the program\<close>

type_synonym time = int
type_synonym ('k, 'v) omap = "('k \<times> 'v) list"

section \<open>Insertion-ordered maps\<close>

abbreviation keys_of :: "('k, 'v) omap \<Rightarrow> 'k list" where
  "keys_of m \<equiv> map fst m"

lemma map_of_update [map_simps]: "map_of (AList.update k v m) = (map_of m)(k \<mapsto> v)"
  by (rule AList.update_conv')

lemma map_of_delete [map_simps]: "map_of (AList.delete k m) = (map_of m)(k := None)"
  by (rule AList.delete_conv')

lemma keys_delete [map_simps]: "keys_of (AList.delete k m) = filter (\<lambda>x. x \<noteq> k) (keys_of m)"
  by (induction m) (auto simp: AList.delete_eq)

lemma keys_update_new [map_simps]: "k \<notin> set (keys_of m) \<Longrightarrow> AList.update k v m = m @ [(k, v)]"
  by (induction m) auto

lemma keys_update_old [map_simps]: "k \<in> set (keys_of m) \<Longrightarrow> keys_of (AList.update k v m) = keys_of m"
  by (induction m) auto

lemma delete_absent [map_simps]: "k \<notin> set (keys_of m) \<Longrightarrow> AList.delete k m = m"
  by (simp add: AList.delete_eq filter_id_conv) force

lemma delete_eq_filter: "AList.delete k m = filter (\<lambda>e. fst e \<noteq> k) m"
  by (induction m) (auto simp: AList.delete_eq)

lemma length_delete_present:
  "distinct (keys_of m) \<Longrightarrow> k \<in> set (keys_of m) \<Longrightarrow> Suc (length (AList.delete k m)) = length m"
proof (induction m)
  case Nil
  then show ?case by simp
next
  case (Cons e m)
  show ?case
  proof (cases "fst e = k")
    case True
    with Cons.prems have "k \<notin> set (keys_of m)" by auto
    with True show ?thesis by (simp add: delete_eq_filter delete_absent [unfolded delete_eq_filter])
  next
    case False
    with Cons show ?thesis by (simp add: delete_eq_filter)
  qed
qed

lemma map_of_None_keys: "(map_of m k = None) = (k \<notin> set (keys_of m))"
  by (simp add: map_of_eq_None_iff)

lemma map_of_Some_key: "map_of m k = Some v \<Longrightarrow> k \<in> set (keys_of m)"
  by (metis map_of_None_keys option.distinct(1))

lemma distinct_keys_delete [intro]: "distinct (keys_of m) \<Longrightarrow> distinct (keys_of (AList.delete k m))"
  by (simp add: keys_delete)

text \<open>The idiom \<open>m.delete(k); m.set(k, v)\<close>, which moves the key to the end.\<close>

lemma map_of_reinsert: "map_of (AList.update k v (AList.delete k m)) = (map_of m)(k \<mapsto> v)"
  by (simp add: map_of_update map_of_delete)

lemma keys_reinsert: "set (keys_of (AList.update k v (AList.delete k m))) = insert k (set (keys_of m))"
proof -
  have "k \<notin> set (keys_of (AList.delete k m))" by (simp only: keys_delete) simp
  then have "set (keys_of (AList.update k v (AList.delete k m))) = insert k (set (keys_of (AList.delete k m)))"
    by (simp add: keys_update_new)
  then show ?thesis by (simp only: keys_delete) auto
qed

lemma distinct_reinsert: "distinct (keys_of m) \<Longrightarrow> distinct (keys_of (AList.update k v (AList.delete k m)))"
  by (intro distinct_update distinct_keys_delete)

lemma distinct_keys_filter: "distinct (keys_of m) \<Longrightarrow> distinct (keys_of (filter P m))"
  by (induction m) auto

lemma map_of_filter_distinct:
  "distinct (keys_of m) \<Longrightarrow>
   map_of (filter P m) k = (case map_of m k of None \<Rightarrow> None | Some v \<Rightarrow> if P (k, v) then Some v else None)"
proof (induction m)
  case Nil
  then show ?case by simp
next
  case (Cons e m)
  then show ?case by (cases e) (auto simp: map_of_None_keys split: option.splits)
qed

section \<open>List idioms\<close>

fun splice_first :: "('a \<Rightarrow> bool) \<Rightarrow> 'a list \<Rightarrow> ('a \<times> 'a list) option" where
  "splice_first P [] = None"
| "splice_first P (x # xs) =
     (if P x then Some (x, xs)
      else map_option (\<lambda>(y, ys). (y, x # ys)) (splice_first P xs))"

lemma splice_first_None [list_simps]: "(splice_first P xs = None) = (\<forall>x \<in> set xs. \<not> P x)"
  by (induction xs) auto

lemma splice_first_SomeE:
  assumes "splice_first P xs = Some (y, ys)"
  obtains us vs where "xs = us @ y # vs" "ys = us @ vs" "P y" "\<forall>u \<in> set us. \<not> P u"
  using assms
proof (induction xs arbitrary: ys thesis)
  case Nil
  then show ?case by simp
next
  case (Cons x xs)
  show ?case
  proof (cases "P x")
    case True
    with Cons.prems show ?thesis by (intro Cons.prems(1) [of "[]" xs]) auto
  next
    case False
    with Cons.prems(2) obtain zs where zs: "splice_first P xs = Some (y, zs)" "ys = x # zs"
      by auto
    obtain us vs where "xs = us @ y # vs" "zs = us @ vs" "P y" "\<forall>u \<in> set us. \<not> P u"
      by (rule Cons.IH [OF _ zs(1)])
    with False zs(2) show ?thesis by (intro Cons.prems(1) [of "x # us" vs]) auto
  qed
qed

definition keep_last :: "nat \<Rightarrow> 'a list \<Rightarrow> 'a list" where
  "keep_last n xs = drop (length xs - n) xs"

lemma length_keep_last [list_simps]: "length (keep_last n xs) = min n (length xs)"
  by (simp add: keep_last_def)

lemma keep_last_all [list_simps]: "length xs \<le> n \<Longrightarrow> keep_last n xs = xs"
  by (simp add: keep_last_def)

lemma set_keep_last: "set (keep_last n xs) \<subseteq> set xs"
  by (simp add: keep_last_def set_drop_subset)

lemma keep_last_snoc: "0 < n \<Longrightarrow> last (keep_last n (xs @ [x])) = x"
  by (simp add: keep_last_def)

section \<open>Results\<close>

lemma map_sum_Inr: "map_sum f g x = Inr y \<longleftrightarrow> (\<exists>z. x = Inr z \<and> y = g z)"
  by (cases x) auto

lemma map_sum_Inl: "map_sum f g x = Inl y \<longleftrightarrow> (\<exists>z. x = Inl z \<and> y = f z)"
  by (cases x) auto

end
