(* ===== verification/Js_String.thy ===== *)
theory Js_String
  imports Prelude
begin

text \<open>
  The JavaScript string operations the program uses.

  A string of the program is a list of characters, one per UTF-16 code unit, in the range
  U+0000 to U+00FF. HTTP header values are byte strings and URL paths are ASCII, so this
  is the whole range of the inputs that are modelled as \<open>string\<close>. Text that can hold any
  code unit (the results of percent-decoding) is a \<open>ustring\<close>, a list of code units.

  \<^item> \<open>split_on c s\<close> is \<open>s.split(c)\<close> for a one-character separator, \<open>join\<close> is \<open>Array.join\<close>.
  \<^item> \<open>trim\<close> strips white space and line terminators (U+0009 to U+000D, U+0020, U+00A0 in
    this range); \<open>to_lower\<close> and \<open>to_upper\<close> are the case mappings.
\<close>

type_synonym ustring = "nat list"

definition uni :: "string \<Rightarrow> ustring" where
  "uni s = map of_char s"

section \<open>Splitting and joining\<close>

fun split_on :: "char \<Rightarrow> string \<Rightarrow> string list" where
  "split_on c [] = [[]]"
| "split_on c (x # xs) =
     (if x = c then [] # split_on c xs
      else (case split_on c xs of [] \<Rightarrow> [[x]] | p # ps \<Rightarrow> (x # p) # ps))"

fun join :: "string \<Rightarrow> string list \<Rightarrow> string" where
  "join sep [] = []"
| "join sep [p] = p"
| "join sep (p # q # ps) = p @ sep @ join sep (q # ps)"

lemma split_on_not_Nil [simp]: "split_on c s \<noteq> []"
  by (induction s) (auto split: list.splits)

lemma join_Cons: "ps \<noteq> [] \<Longrightarrow> join sep (p # ps) = p @ sep @ join sep ps"
  by (cases ps) auto

lemma join_split [simp]: "join [c] (split_on c s) = s"
proof (induction s)
  case Nil
  then show ?case by simp
next
  case (Cons x s)
  show ?case
  proof (cases "x = c")
    case True
    with Cons show ?thesis by (simp add: join_Cons)
  next
    case False
    obtain p ps where ps: "split_on c s = p # ps"
      by (cases "split_on c s") auto
    with Cons False show ?thesis by (cases ps) auto
  qed
qed

lemma join_set: "c \<in> set (join sep ps) \<Longrightarrow> c \<in> set sep \<or> (\<exists>p \<in> set ps. c \<in> set p)"
  by (induction sep ps rule: join.induct) auto

lemma split_no_sep: "c \<notin> set s \<Longrightarrow> split_on c s = [s]"
  by (induction s) auto

lemma split_append_sep: "c \<notin> set p \<Longrightarrow> split_on c (p @ c # s) = p # split_on c s"
  by (induction p) auto

lemma split_join:
  "ps \<noteq> [] \<Longrightarrow> \<forall>p \<in> set ps. c \<notin> set p \<Longrightarrow> split_on c (join [c] ps) = ps"
proof (induction ps rule: induct_list012)
  case (3 p q ps)
  then show ?case by (simp add: split_append_sep)
qed (auto simp: split_no_sep)

lemma split_pieces_no_sep: "p \<in> set (split_on c s) \<Longrightarrow> c \<notin> set p"
proof (induction s arbitrary: p)
  case Nil
  then show ?case by simp
next
  case (Cons x s)
  then show ?case by (cases "split_on c s") (auto split: if_splits)
qed

lemma split_append: "split_on c (s @ c # t) = split_on c s @ split_on c t"
proof (induction s)
  case Nil
  then show ?case by simp
next
  case (Cons x s)
  then show ?case by (cases "split_on c s") auto
qed

section \<open>Prefixes and suffixes\<close>

fun starts_with :: "string \<Rightarrow> string \<Rightarrow> bool" where
  "starts_with s [] = True"
| "starts_with [] (p # ps) = False"
| "starts_with (x # xs) (p # ps) = (x = p \<and> starts_with xs ps)"

definition ends_with :: "string \<Rightarrow> string \<Rightarrow> bool" where
  "ends_with s t = starts_with (rev s) (rev t)"

lemma starts_with_iff: "starts_with s p = (\<exists>t. s = p @ t)"
  by (induction s p rule: starts_with.induct) auto

lemma ends_with_iff: "ends_with s t = (\<exists>u. s = u @ t)"
proof
  assume "ends_with s t"
  then obtain u where "rev s = rev t @ u" by (auto simp: ends_with_def starts_with_iff)
  then have "s = rev u @ t" by (metis rev_append rev_rev_ident)
  then show "\<exists>u. s = u @ t" ..
qed (auto simp: ends_with_def starts_with_iff)

lemma ends_with_single [simp]: "ends_with s [c] = (s \<noteq> [] \<and> last s = c)"
  by (cases s rule: rev_cases) (auto simp: ends_with_def)

text \<open>\<open>s.includes(t)\<close>.\<close>

fun includes_str :: "string \<Rightarrow> string \<Rightarrow> bool" where
  "includes_str [] t = (t = [])"
| "includes_str (x # xs) t = (starts_with (x # xs) t \<or> includes_str xs t)"

lemma includes_str_iff: "includes_str s t = (\<exists>u v. s = u @ t @ v)"
proof (induction s)
  case Nil
  then show ?case by auto
next
  case (Cons x s)
  have "(\<exists>u v. x # s = u @ t @ v) = ((\<exists>v. x # s = t @ v) \<or> (\<exists>u v. s = u @ t @ v))"
    (is "?L = ?R")
  proof
    assume ?L
    then obtain u v where "x # s = u @ t @ v" by auto
    then show ?R by (cases u) auto
  next
    assume ?R
    then show ?L
    proof
      assume "\<exists>v. x # s = t @ v"
      then obtain v where "x # s = [] @ t @ v" by auto
      then show ?L by blast
    next
      assume "\<exists>u v. s = u @ t @ v"
      then obtain u v where "x # s = (x # u) @ t @ v" by auto
      then show ?L by blast
    qed
  qed
  with Cons show ?case by (simp only: includes_str.simps starts_with_iff)
qed

text \<open>\<open>indexOf\<close> and \<open>lastIndexOf\<close> of a character, \<open>None\<close> for \<open>-1\<close>.\<close>

fun index_of :: "char \<Rightarrow> string \<Rightarrow> nat option" where
  "index_of c [] = None"
| "index_of c (x # xs) = (if x = c then Some 0 else map_option Suc (index_of c xs))"

fun last_index_of :: "char \<Rightarrow> string \<Rightarrow> nat option" where
  "last_index_of c [] = None"
| "last_index_of c (x # xs) =
     (case last_index_of c xs of Some i \<Rightarrow> Some (Suc i) | None \<Rightarrow> if x = c then Some 0 else None)"

lemma index_of_None: "(index_of c s = None) = (c \<notin> set s)"
  by (induction s) auto

lemma index_of_append: "c \<notin> set p \<Longrightarrow> index_of c (p @ c # s) = Some (length p)"
  by (induction p) auto

lemma last_index_of_None: "(last_index_of c s = None) = (c \<notin> set s)"
  by (induction s) (auto split: option.splits)

lemma last_index_of_SomeD: "last_index_of c s = Some i \<Longrightarrow> c \<notin> set (drop (Suc i) s)"
proof (induction s arbitrary: i)
  case (Cons x s)
  then show ?case by (auto split: option.splits if_splits simp: last_index_of_None)
qed simp

section \<open>White space and case\<close>

definition is_ws :: "char \<Rightarrow> bool" where
  "is_ws c = (let n = (of_char c :: nat) in 9 \<le> n \<and> n \<le> 13 \<or> n = 32 \<or> n = 160)"

definition trim :: "string \<Rightarrow> string" where
  "trim s = rev (dropWhile is_ws (rev (dropWhile is_ws s)))"

definition lower_char :: "char \<Rightarrow> char" where
  "lower_char c = (let n = (of_char c :: nat) in
     if 65 \<le> n \<and> n \<le> 90 \<or> 192 \<le> n \<and> n \<le> 222 \<and> n \<noteq> 215 then char_of (n + 32) else c)"

definition to_lower :: "string \<Rightarrow> string" where
  "to_lower s = map lower_char s"

text \<open>
  \<open>toUpperCase\<close> on ASCII text; it is applied to HTTP method names only. (U+00B5, U+00DF
  and U+00FF have upper-case forms outside the range of a \<open>char\<close>.)
\<close>

definition upper_char :: "char \<Rightarrow> char" where
  "upper_char c = (let n = (of_char c :: nat) in if 97 \<le> n \<and> n \<le> 122 then char_of (n - 32) else c)"

definition to_upper :: "string \<Rightarrow> string" where
  "to_upper s = map upper_char s"

lemma lower_char_lower [simp]: "lower_char (lower_char c) = lower_char c"
  by (cases "65 \<le> (of_char c :: nat) \<and> (of_char c :: nat) \<le> 90
      \<or> 192 \<le> (of_char c :: nat) \<and> (of_char c :: nat) \<le> 222 \<and> (of_char c :: nat) \<noteq> 215")
    (auto simp: lower_char_def Let_def)

lemma to_lower_idem [simp]: "to_lower (to_lower s) = to_lower s"
  by (simp add: to_lower_def)

lemma trim_id:
  "s = [] \<or> \<not> is_ws (hd s) \<and> \<not> is_ws (last s) \<Longrightarrow> trim s = s"
  by (cases "s = []") (simp_all add: trim_def dropWhile_eq_self_iff [THEN iffD2] hd_rev)

lemma trim_no_ws: "\<forall>c \<in> set s. \<not> is_ws c \<Longrightarrow> trim s = s"
  by (cases "s = []") (auto intro!: trim_id)

lemma trim_ends: "trim s \<noteq> [] \<Longrightarrow> \<not> is_ws (hd (trim s)) \<and> \<not> is_ws (last (trim s))"
proof -
  assume ne: "trim s \<noteq> []"
  let ?t = "dropWhile is_ws s"
  from ne have d: "dropWhile is_ws (rev ?t) \<noteq> []" by (simp add: trim_def)
  then have l: "\<not> is_ws (last (trim s))"
    by (metis hd_dropWhile last_rev rev_rev_ident trim_def)
  have "?t \<noteq> []" using d by (metis dropWhile.simps(1) rev.simps(1))
  then have h: "\<not> is_ws (hd ?t)" by (rule hd_dropWhile)
  obtain us where "rev ?t = us @ dropWhile is_ws (rev ?t)"
    by (metis takeWhile_dropWhile_id)
  then have "?t = trim s @ rev us" by (metis rev_append rev_rev_ident trim_def)
  with ne h have "\<not> is_ws (hd (trim s))" by (metis hd_append2)
  with l show ?thesis by simp
qed

lemma trim_idem [simp]: "trim (trim s) = trim s"
  using trim_ends [of s] by (intro trim_id) auto

lemma set_trim: "set (trim s) \<subseteq> set s"
proof
  fix c
  assume "c \<in> set (trim s)"
  then have "c \<in> set (dropWhile is_ws (rev (dropWhile is_ws s)))" by (simp add: trim_def)
  then have "c \<in> set (dropWhile is_ws s)" by (auto dest: set_dropWhileD)
  then show "c \<in> set s" by (auto dest: set_dropWhileD)
qed

section \<open>Digits and decimal text\<close>

definition is_digit :: "char \<Rightarrow> bool" where
  "is_digit c = (let n = (of_char c :: nat) in 48 \<le> n \<and> n \<le> 57)"

definition digit_val :: "char \<Rightarrow> nat" where
  "digit_val c = of_char c - 48"

definition digit_char :: "nat \<Rightarrow> char" where
  "digit_char d = char_of (48 + d)"

definition dec_val :: "string \<Rightarrow> nat" where
  "dec_val s = foldl (\<lambda>a c. 10 * a + digit_val c) 0 s"

fun show_nat :: "nat \<Rightarrow> string" where
  "show_nat n = (if n < 10 then [digit_char n] else show_nat (n div 10) @ [digit_char (n mod 10)])"

declare show_nat.simps [simp del]

text \<open>\<open>String(n)\<close> of an integer.\<close>

definition show_int :: "int \<Rightarrow> string" where
  "show_int i = (if i < 0 then CHR ''-'' # show_nat (nat (- i)) else show_nat (nat i))"

lemma digit_char_props [simp]:
  assumes "d < 10"
  shows "is_digit (digit_char d)" "digit_val (digit_char d) = d"
  using assms by (simp_all add: is_digit_def digit_val_def digit_char_def)

lemma show_nat_digits: "c \<in> set (show_nat n) \<Longrightarrow> is_digit c"
proof (induction n rule: show_nat.induct)
  case (1 n)
  show ?case
  proof (cases "n < 10")
    case True
    with 1 show ?thesis by (simp add: show_nat.simps [of n])
  next
    case False
    with 1 show ?thesis by (auto simp: show_nat.simps [of n])
  qed
qed

lemma show_nat_not_Nil [simp]: "show_nat n \<noteq> []"
  by (subst show_nat.simps) simp

lemma dec_val_snoc: "dec_val (s @ [c]) = 10 * dec_val s + digit_val c"
  by (simp add: dec_val_def)

lemma dec_val_show [simp]: "dec_val (show_nat n) = n"
proof (induction n rule: show_nat.induct)
  case (1 n)
  show ?case
  proof (cases "n < 10")
    case True
    then show ?thesis by (simp add: show_nat.simps [of n] dec_val_def)
  next
    case False
    with 1 show ?thesis by (simp add: show_nat.simps [of n] dec_val_snoc)
  qed
qed

text \<open>\<open>parseInt(raw, 10)\<close>; \<open>None\<close> is \<open>NaN\<close>.\<close>

definition parse_int :: "string \<Rightarrow> int option" where
  "parse_int raw =
     (let s = dropWhile is_ws raw;
          neg = (s \<noteq> [] \<and> hd s = CHR ''-'');
          t = (if s \<noteq> [] \<and> (hd s = CHR ''-'' \<or> hd s = CHR ''+'') then tl s else s);
          ds = takeWhile is_digit t
      in if ds = [] then None else Some (if neg then - int (dec_val ds) else int (dec_val ds)))"

end
