(* ===== verification/Errors.thy ===== *)
theory Errors
  imports Js_String
begin

text \<open>
  The error classes of \<open>packages/core/src/errors.ts\<close> and the default error handling of
  \<open>packages/core/src/error-handler.ts\<close>.

  \<^item> \<open>json\<close> is the JSON value a response body carries; an object is the list of its
    properties in insertion order, a number is a rational: JSON has no others.
  \<^item> \<open>http_error\<close> and \<open>validation_error\<close> are the classes \<open>HttpError\<close> and
    \<open>ValidationError\<close>; \<open>js_error\<close> is what \<open>handleError\<close> distinguishes with \<open>instanceof\<close>.
  \<^item> The module constant \<open>isDev\<close> and the environment test \<open>isProduction\<close> are parameters:
    both are read from the process environment.
  \<^item> A user-supplied handler is a function from the error and the state (request, reply, and what
    lies outside) to what it did, a \<open>Response\<close>, something else or a throw, and the state it left.
  \<^item> \<open>mk\<close> turns the parts of a default response into the platform's \<open>Response\<close>.
\<close>

datatype json =
    JNull
  | JBool bool
  | JNum rat
  | JStr string
  | JArr "json list"
  | JObj "(string \<times> json) list"

record response =
  rstatus :: int
  rheaders :: "(string, string) omap"
  rbody :: json

section \<open>HttpError\<close>

record http_error =
  statusCode :: int
  emessage :: string
  ecode :: string
  estack :: "string option"
  ecause :: "(string \<times> string) option"

definition defaultMessage :: "int \<Rightarrow> string" where
  "defaultMessage n =
     (case map_of
       [(400, ''Bad Request''), (401, ''Unauthorized''), (403, ''Forbidden''),
        (404, ''Not Found''), (405, ''Method Not Allowed''), (408, ''Request Timeout''),
        (409, ''Conflict''), (413, ''Payload Too Large''), (422, ''Unprocessable Entity''),
        (429, ''Too Many Requests''), (500, ''Internal Server Error''), (502, ''Bad Gateway''),
        (503, ''Service Unavailable''), (504, ''Gateway Timeout'')] n of
        Some s \<Rightarrow> s | None \<Rightarrow> ''Unknown Error'')"

definition defaultCode :: "int \<Rightarrow> string" where
  "defaultCode n =
     (case map_of
       [(400, ''BAD_REQUEST''), (401, ''UNAUTHORIZED''), (403, ''FORBIDDEN''),
        (404, ''NOT_FOUND''), (405, ''METHOD_NOT_ALLOWED''), (408, ''REQUEST_TIMEOUT''),
        (409, ''CONFLICT''), (413, ''PAYLOAD_TOO_LARGE''), (422, ''UNPROCESSABLE_ENTITY''),
        (429, ''TOO_MANY_REQUESTS''), (500, ''INTERNAL_SERVER_ERROR''), (502, ''BAD_GATEWAY''),
        (503, ''SERVICE_UNAVAILABLE''), (504, ''GATEWAY_TIMEOUT'')] n of
        Some s \<Rightarrow> s | None \<Rightarrow> ''UNKNOWN_ERROR'')"

text \<open>The constructor; \<open>stack\<close> is what the runtime attaches.\<close>

definition mkHttpError ::
  "int \<Rightarrow> string option \<Rightarrow> string option \<Rightarrow> (string \<times> string) option \<Rightarrow> string option \<Rightarrow> http_error" where
  "mkHttpError n msg cd cs st =
     \<lparr>statusCode = n,
      emessage = (case msg of Some m \<Rightarrow> m | None \<Rightarrow> defaultMessage n),
      ecode = (case cd of Some c \<Rightarrow> c | None \<Rightarrow> defaultCode n),
      estack = st, ecause = cs\<rparr>"

definition http_toJSON :: "bool \<Rightarrow> http_error \<Rightarrow> json" where
  "http_toJSON isDev e =
     JObj ([(''error'', JStr (if 500 \<le> statusCode e \<and> \<not> isDev then defaultMessage (statusCode e) else emessage e)),
            (''statusCode'', JNum (of_int (statusCode e))),
            (''code'', JStr (ecode e))]
       @ (case estack e of
            Some st \<Rightarrow> if isDev \<and> st \<noteq> [] then [(''stack'', JStr st)] else []
          | None \<Rightarrow> [])
       @ (case ecause e of
            Some (m, st) \<Rightarrow> if isDev then [(''cause'', JObj [(''message'', JStr m), (''stack'', JStr st)])] else []
          | None \<Rightarrow> []))"

section \<open>ValidationError\<close>

text \<open>An issue's path element is a string or a number.\<close>

datatype path_elem = PStr string | PNum int

record issue =
  imessage :: string
  ipath :: "path_elem list option"

fun show_elem :: "path_elem \<Rightarrow> string" where
  "show_elem (PStr s) = s"
| "show_elem (PNum n) = show_int n"

text \<open>The bullet character U+2022 is a parameter of the message, being outside \<open>char\<close>.\<close>

definition formatMessage :: "string \<Rightarrow> issue list \<Rightarrow> string" where
  "formatMessage bullet is =
     (if is = [] then ''Validation failed''
      else ''Validation failed: '' @ join '' ''
        (map (\<lambda>i. bullet @ '' '' @
           (case ipath i of
              Some (p # ps) \<Rightarrow> join ''.'' (map show_elem (p # ps)) @ '': ''
            | _ \<Rightarrow> []) @ imessage i) is))"

definition issue_json :: "issue \<Rightarrow> json" where
  "issue_json i = JObj ((''message'', JStr (imessage i)) #
     (case ipath i of
        None \<Rightarrow> []
      | Some ps \<Rightarrow> [(''path'', JArr (map (\<lambda>p. case p of PStr s \<Rightarrow> JStr s | PNum n \<Rightarrow> JNum (of_int n)) ps))]))"

record validation_error =
  vissues :: "issue list"
  vmessage :: string
  vstack :: "string option"

definition mkValidationError :: "string \<Rightarrow> issue list \<Rightarrow> string option \<Rightarrow> validation_error" where
  "mkValidationError bullet is st = \<lparr>vissues = is, vmessage = formatMessage bullet is, vstack = st\<rparr>"

definition validation_toJSON :: "bool \<Rightarrow> validation_error \<Rightarrow> json" where
  "validation_toJSON isDev e =
     JObj ([(''error'', JStr ''Validation failed''), (''message'', JStr (vmessage e)),
            (''statusCode'', JNum 400), (''code'', JStr ''VALIDATION_FAILED''),
            (''issues'', JArr (map issue_json (vissues e)))]
       @ (case vstack e of
            Some st \<Rightarrow> if isDev \<and> st \<noteq> [] then [(''stack'', JStr st)] else []
          | None \<Rightarrow> []))"

section \<open>handleError\<close>

datatype js_error =
    HttpErr http_error
  | ValidationErr validation_error
  | OtherErr (omessage: string) (ocode: "string option") (ostack: "string option")

datatype 'r handled = Returned 'r | NoResponse | Threw

type_synonym ('s, 'r) error_handler = "js_error \<Rightarrow> 's \<Rightarrow> 'r handled \<times> 's"

definition json_headers :: "(string, string) omap" where
  "json_headers = [(''content-type'', ''application/json; charset=utf-8'')]"

text \<open>The \<open>onError\<close> loop: the first hook that returns a \<open>Response\<close> wins; a throwing hook is
  logged and skipped.\<close>

fun run_onError :: "('s, 'r) error_handler list \<Rightarrow> js_error \<Rightarrow> 's \<Rightarrow> 'r option \<times> 's" where
  "run_onError [] e s = (None, s)"
| "run_onError (h # hs) e s =
     (case h e s of (Returned r, s') \<Rightarrow> (Some r, s') | (NoResponse, s') \<Rightarrow> run_onError hs e s' | (Threw, s') \<Rightarrow> run_onError hs e s')"

fun error_reply :: "bool \<Rightarrow> bool \<Rightarrow> js_error \<Rightarrow> response" where
  "error_reply isDev isProduction (ValidationErr v) =
     \<lparr>rstatus = 400, rheaders = json_headers, rbody = validation_toJSON isDev v\<rparr>"
| "error_reply isDev isProduction (HttpErr h) =
     \<lparr>rstatus = statusCode h, rheaders = json_headers, rbody = http_toJSON isDev h\<rparr>"
| "error_reply isDev isProduction (OtherErr msg cd st) =
     \<lparr>rstatus = 500, rheaders = json_headers,
      rbody = JObj ([(''error'', JStr (if isProduction then ''Internal Server Error''
                                      else if msg \<noteq> [] then msg else ''Internal Server Error'')),
                    (''statusCode'', JNum 500),
                    (''code'', JStr (case cd of Some c \<Rightarrow> c | None \<Rightarrow> ''INTERNAL_SERVER_ERROR''))]
         @ (case st of Some t \<Rightarrow> if \<not> isProduction \<and> t \<noteq> [] then [(''stack'', JStr t)] else [] | None \<Rightarrow> []))\<rparr>"

text \<open>
  \<open>new Response\<close> throws a \<open>RangeError\<close> for a status outside 200 to 599 and a \<open>TypeError\<close> for a body with a status that
  has none. Only an \<open>HttpError\<close> can have such a status; the throw is \<open>None\<close>.
\<close>

definition body_status :: "int \<Rightarrow> bool" where
  "body_status n = (200 \<le> n \<and> n \<le> 599 \<and> n \<notin> {204, 205, 304})"

definition default_response :: "bool \<Rightarrow> bool \<Rightarrow> js_error \<Rightarrow> response option" where
  "default_response isDev isProduction e =
     (let r = error_reply isDev isProduction e in if body_status (rstatus r) then Some r else None)"

definition handleError ::
  "bool \<Rightarrow> bool \<Rightarrow> (response \<Rightarrow> 'r) \<Rightarrow> ('s, 'r) error_handler option \<Rightarrow> ('s, 'r) error_handler list \<Rightarrow> js_error \<Rightarrow> 's \<Rightarrow> 'r option \<times> 's" where
  "handleError isDev isProduction mk customHandler onErrorHooks e s =
     (let rest = (\<lambda>s. case run_onError onErrorHooks e s of
                    (Some r, s') \<Rightarrow> (Some r, s') | (None, s') \<Rightarrow> (map_option mk (default_response isDev isProduction e), s')) in
      case customHandler of
        None \<Rightarrow> rest s
      | Some h \<Rightarrow> (case h e s of (Returned r, s') \<Rightarrow> (Some r, s') | (NoResponse, s') \<Rightarrow> rest s' | (Threw, s') \<Rightarrow> rest s'))"

section \<open>Properties\<close>

lemma run_onError_append:
  "run_onError (us @ hs) e s =
     (case run_onError us e s of (Some r, s') \<Rightarrow> (Some r, s') | (None, s') \<Rightarrow> run_onError hs e s')"
  by (induction us arbitrary: s) (auto split: handled.splits prod.splits)

text \<open>Whatever handlers and hooks do, an error is answered.\<close>

lemma run_onError_threw:
  "(\<And>h s. h \<in> set hs \<Longrightarrow> fst (h e s) \<in> {NoResponse, Threw}) \<Longrightarrow> fst (run_onError hs e s) = None"
proof (induction hs arbitrary: s)
  case (Cons h hs)
  then have "fst (h e s) \<in> {NoResponse, Threw}" by simp
  then show ?case using Cons by (cases "h e s") auto
qed simp

text \<open>The properties of an object value.\<close>

fun obj_props :: "json \<Rightarrow> (string \<times> json) list" where
  "obj_props (JObj ps) = ps"
| "obj_props _ = []"

text \<open>
  Production never leaks an internal message: outside development and in production
  mode the default response to an unknown error, or to an \<open>HttpError\<close> of status 500 or
  above, has a \<open>error\<close> property that does not depend on the error's message, and carries
  no \<open>stack\<close> or \<open>cause\<close> property.
\<close>

theorem production_sanitised:
  "map_of (obj_props (rbody (error_reply False True (OtherErr msg cd st)))) ''error''
     = Some (JStr ''Internal Server Error'') \<and>
   map_of (obj_props (rbody (error_reply False True (OtherErr msg cd st)))) ''stack'' = None \<and>
   map_of (obj_props (http_toJSON False h)) ''error''
     = Some (JStr (if statusCode h < 500 then emessage h else defaultMessage (statusCode h))) \<and>
   map_of (obj_props (http_toJSON False h)) ''stack'' = None \<and>
   map_of (obj_props (http_toJSON False h)) ''cause'' = None"
  by (auto simp: http_toJSON_def split: option.splits)

end
