(* ===== verification/Uri_Codec.thy ===== *)
theory Uri_Codec
  imports Js_String
begin

text \<open>
  \<open>decodeURIComponent\<close> and \<open>encodeURIComponent\<close> of the JavaScript standard library, which
  the router, the cookie jar and the edge router call. Decoding reads percent escapes
  into octets and requires every run of escaped octets above 127 to be well-formed UTF-8
  (no overlong form, no surrogate, at most U+10FFFF); anything else is the \<open>URIError\<close>,
  here \<open>None\<close>. Encoding fails on a lone surrogate. The results of decoding and the
  inputs of encoding are UTF-16 code unit lists.
\<close>

section \<open>Percent escapes\<close>

datatype uitem = Raw char | Esc nat

definition hex_val :: "char \<Rightarrow> nat option" where
  "hex_val c = (let n = (of_char c :: nat) in
     if 48 \<le> n \<and> n \<le> 57 then Some (n - 48)
     else if 65 \<le> n \<and> n \<le> 70 then Some (n - 55)
     else if 97 \<le> n \<and> n \<le> 102 then Some (n - 87)
     else None)"

definition hex_digit :: "nat \<Rightarrow> char" where
  "hex_digit d = (if d < 10 then char_of (48 + d) else char_of (55 + d))"

definition pct :: "nat \<Rightarrow> string" where
  "pct b = [CHR ''%'', hex_digit (b div 16), hex_digit (b mod 16)]"

fun unescape :: "string \<Rightarrow> uitem list option" where
  "unescape [] = Some []"
| "unescape (c # cs) =
     (if c \<noteq> CHR ''%'' then map_option ((#) (Raw c)) (unescape cs)
      else (case cs of
          a # b # ds \<Rightarrow>
            (case (hex_val a, hex_val b) of
               (Some x, Some y) \<Rightarrow> map_option ((#) (Esc (16 * x + y))) (unescape ds)
             | _ \<Rightarrow> None)
        | _ \<Rightarrow> None))"

lemma hex_val_digit [simp]: "d < 16 \<Longrightarrow> hex_val (hex_digit d) = Some d"
  by (auto simp: hex_val_def hex_digit_def Let_def)

lemma unescape_pct [simp]:
  "b < 256 \<Longrightarrow> unescape (pct b @ s) = map_option ((#) (Esc b)) (unescape s)"
  by (simp add: pct_def less_mult_imp_div_less)

lemma append_sections:
  "(@) [] = (\<lambda>ys. ys)" "(@) (x # xs) = (\<lambda>ys. x # xs @ ys)"
  by auto

lemma unescape_pcts:
  "\<forall>b \<in> set bs. b < 256 \<Longrightarrow>
   unescape (concat (map pct bs) @ s) = map_option ((@) (map Esc bs)) (unescape s)"
  by (induction bs) (auto simp: append_sections option.map_comp o_def option.map_ident)

section \<open>UTF-8 and UTF-16\<close>

text \<open>The code units of a code point, and its UTF-8 octets.\<close>

definition units_of_cp :: "nat \<Rightarrow> ustring" where
  "units_of_cp cp =
     (if cp < 0x10000 then [cp]
      else [0xD800 + (cp - 0x10000) div 0x400, 0xDC00 + (cp - 0x10000) mod 0x400])"

definition utf8_of_cp :: "nat \<Rightarrow> nat list" where
  "utf8_of_cp cp =
     (if cp < 0x80 then [cp]
      else if cp < 0x800 then [0xC0 + cp div 64, 0x80 + cp mod 64]
      else if cp < 0x10000 then [0xE0 + cp div 4096, 0x80 + cp div 64 mod 64, 0x80 + cp mod 64]
      else [0xF0 + cp div 262144, 0x80 + cp div 4096 mod 64, 0x80 + cp div 64 mod 64, 0x80 + cp mod 64])"

definition is_cont :: "nat \<Rightarrow> bool" where
  "is_cont b = (0x80 \<le> b \<and> b < 0xC0)"

fun utf8_units :: "uitem list \<Rightarrow> ustring option" where
  "utf8_units [] = Some []"
| "utf8_units (Raw c # is) = map_option ((#) (of_char c)) (utf8_units is)"
| "utf8_units (Esc b # is) =
     (if b < 0x80 then map_option ((#) b) (utf8_units is)
      else if 0xC0 \<le> b \<and> b < 0xE0 then
        (case is of
           Esc b1 # is' \<Rightarrow>
             (let cp = (b - 0xC0) * 64 + (b1 - 0x80) in
              if is_cont b1 \<and> 0x80 \<le> cp then map_option ((@) (units_of_cp cp)) (utf8_units is') else None)
         | _ \<Rightarrow> None)
      else if 0xE0 \<le> b \<and> b < 0xF0 then
        (case is of
           Esc b1 # Esc b2 # is' \<Rightarrow>
             (let cp = (b - 0xE0) * 4096 + (b1 - 0x80) * 64 + (b2 - 0x80) in
              if is_cont b1 \<and> is_cont b2 \<and> 0x800 \<le> cp \<and> \<not> (0xD800 \<le> cp \<and> cp < 0xE000)
              then map_option ((@) (units_of_cp cp)) (utf8_units is') else None)
         | _ \<Rightarrow> None)
      else if 0xF0 \<le> b \<and> b < 0xF8 then
        (case is of
           Esc b1 # Esc b2 # Esc b3 # is' \<Rightarrow>
             (let cp = (b - 0xF0) * 262144 + (b1 - 0x80) * 4096 + (b2 - 0x80) * 64 + (b3 - 0x80) in
              if is_cont b1 \<and> is_cont b2 \<and> is_cont b3 \<and> 0x10000 \<le> cp \<and> cp < 0x110000
              then map_option ((@) (units_of_cp cp)) (utf8_units is') else None)
         | _ \<Rightarrow> None)
      else None)"

definition decodeURIComponent :: "string \<Rightarrow> ustring option" where
  "decodeURIComponent s = Option.bind (unescape s) utf8_units"

text \<open>The characters \<open>encodeURIComponent\<close> leaves alone: \<open>A-Z a-z 0-9 - _ . ! ~ * ' ( )\<close>.\<close>

definition uri_unreserved :: "nat \<Rightarrow> bool" where
  "uri_unreserved u =
     (65 \<le> u \<and> u \<le> 90 \<or> 97 \<le> u \<and> u \<le> 122 \<or> 48 \<le> u \<and> u \<le> 57 \<or>
      u \<in> {45, 95, 46, 33, 126, 42, 39, 40, 41})"

definition pct_cp :: "nat \<Rightarrow> string" where
  "pct_cp cp = concat (map pct (utf8_of_cp cp))"

fun encodeURIComponent :: "ustring \<Rightarrow> string option" where
  "encodeURIComponent [] = Some []"
| "encodeURIComponent (u # us) =
     (if uri_unreserved u then map_option ((#) (char_of u)) (encodeURIComponent us)
      else if 0xDC00 \<le> u \<and> u < 0xE000 then None
      else if 0xD800 \<le> u \<and> u < 0xDC00 then
        (case us of
           [] \<Rightarrow> None
         | v # vs \<Rightarrow>
             (if 0xDC00 \<le> v \<and> v < 0xE000
              then map_option ((@) (pct_cp ((u - 0xD800) * 0x400 + (v - 0xDC00) + 0x10000)))
                     (encodeURIComponent vs)
              else None))
      else map_option ((@) (pct_cp u)) (encodeURIComponent us))"

section \<open>Round trip\<close>

definition valid_cp :: "nat \<Rightarrow> bool" where
  "valid_cp cp = (cp < 0x110000 \<and> \<not> (0xD800 \<le> cp \<and> cp < 0xE000))"

lemma utf8_of_cp_bytes: "cp < 0x110000 \<Longrightarrow> b \<in> set (utf8_of_cp cp) \<Longrightarrow> b < 256"
  by (auto simp: utf8_of_cp_def split: if_splits)

lemma cont_mod [simp]: "is_cont (0x80 + n mod 64)"
  by (simp add: is_cont_def)

lemma recompose2: "(n::nat) div 64 * 64 + n mod 64 = n"
  by simp

lemma recompose3: "(n::nat) div 4096 * 4096 + n div 64 mod 64 * 64 + n mod 64 = n"
proof -
  have "n div 4096 = n div 64 div 64" by (simp add: div_mult2_eq [symmetric])
  with recompose2 [of n] recompose2 [of "n div 64"] show ?thesis by linarith
qed

lemma recompose4:
  "(n::nat) div 262144 * 262144 + n div 4096 mod 64 * 4096 + n div 64 mod 64 * 64 + n mod 64 = n"
proof -
  have "n div 262144 = n div 4096 div 64" by (simp add: div_mult2_eq [symmetric])
  with recompose3 [of n] recompose2 [of "n div 4096"] show ?thesis by linarith
qed

lemma utf8_units_2:
  "0x80 \<le> cp \<Longrightarrow> cp < 0x800 \<Longrightarrow>
   utf8_units (Esc (0xC0 + cp div 64) # Esc (0x80 + cp mod 64) # is) =
   map_option ((@) (units_of_cp cp)) (utf8_units is)"
  using recompose2 [of cp] less_mult_imp_div_less [of cp 32 64] by simp

lemma utf8_units_3:
  assumes "0x800 \<le> cp" "cp < 0x10000" "\<not> (0xD800 \<le> cp \<and> cp < 0xE000)"
  shows "utf8_units (Esc (0xE0 + cp div 4096) # Esc (0x80 + cp div 64 mod 64) # Esc (0x80 + cp mod 64) # is) =
   map_option ((@) (units_of_cp cp)) (utf8_units is)"
proof -
  have "cp div 4096 < 16" using assms by (simp add: less_mult_imp_div_less)
  moreover have "(0xE0 + cp div 4096 - 0xE0) * 4096 + (0x80 + cp div 64 mod 64 - 0x80) * 64 +
      (0x80 + cp mod 64 - 0x80) = cp"
    using recompose3 [of cp] by simp
  ultimately show ?thesis using assms by (simp only: utf8_units.simps Let_def cont_mod) simp
qed

lemma utf8_units_4:
  assumes "0x10000 \<le> cp" "cp < 0x110000"
  shows "utf8_units (Esc (0xF0 + cp div 262144) # Esc (0x80 + cp div 4096 mod 64) #
      Esc (0x80 + cp div 64 mod 64) # Esc (0x80 + cp mod 64) # is) =
   map_option ((@) (units_of_cp cp)) (utf8_units is)"
proof -
  have "cp div 262144 < 8" using assms by (simp add: less_mult_imp_div_less)
  moreover have "(0xF0 + cp div 262144 - 0xF0) * 262144 + (0x80 + cp div 4096 mod 64 - 0x80) * 4096 +
      (0x80 + cp div 64 mod 64 - 0x80) * 64 + (0x80 + cp mod 64 - 0x80) = cp"
    using recompose4 [of cp] by simp
  ultimately show ?thesis using assms by (simp only: utf8_units.simps Let_def cont_mod) simp
qed

lemma utf8_units_cp:
  assumes "valid_cp cp"
  shows "utf8_units (map Esc (utf8_of_cp cp) @ is) = map_option ((@) (units_of_cp cp)) (utf8_units is)"
proof -
  consider "cp < 0x80" | "0x80 \<le> cp" "cp < 0x800" | "0x800 \<le> cp" "cp < 0x10000"
    | "0x10000 \<le> cp" "cp < 0x110000"
    using assms unfolding valid_cp_def by linarith
  then show ?thesis
  proof cases
    case 1
    then show ?thesis by (simp add: utf8_of_cp_def units_of_cp_def append_sections)
  next
    case 2
    then show ?thesis using utf8_units_2 [of cp "is"] by (simp add: utf8_of_cp_def del: utf8_units.simps)
  next
    case 3
    with assms show ?thesis
      using utf8_units_3 [of cp "is"] by (simp add: utf8_of_cp_def valid_cp_def del: utf8_units.simps)
  next
    case 4
    then show ?thesis
      using utf8_units_4 [of cp "is"] by (simp add: utf8_of_cp_def del: utf8_units.simps)
  qed
qed

lemma unescape_pct_cp:
  "cp < 0x110000 \<Longrightarrow> unescape (pct_cp cp @ s) = map_option ((@) (map Esc (utf8_of_cp cp))) (unescape s)"
  unfolding pct_cp_def by (rule unescape_pcts) (auto dest: utf8_of_cp_bytes)

lemma decode_pct_cp:
  assumes "valid_cp cp"
  shows "decodeURIComponent (pct_cp cp @ s) = map_option ((@) (units_of_cp cp)) (decodeURIComponent s)"
proof -
  from assms have "cp < 0x110000" by (simp add: valid_cp_def)
  then show ?thesis
    by (cases "unescape s") (simp_all add: decodeURIComponent_def unescape_pct_cp utf8_units_cp [OF assms])
qed

lemma decode_plain:
  "c \<noteq> CHR ''%'' \<Longrightarrow> decodeURIComponent (c # s) = map_option ((#) (of_char c)) (decodeURIComponent s)"
  by (cases "unescape s") (simp_all add: decodeURIComponent_def)

lemma decode_Nil [simp]: "decodeURIComponent [] = Some []"
  by (simp add: decodeURIComponent_def)

lemma decode_no_escape: "CHR ''%'' \<notin> set s \<Longrightarrow> decodeURIComponent s = Some (uni s)"
  by (induction s) (auto simp: decode_plain uni_def)

lemma uri_unreserved_char:
  "uri_unreserved u \<Longrightarrow> u < 256 \<and> char_of u \<noteq> CHR ''%''"
proof -
  assume "uri_unreserved u"
  then have "u < 256" and "u \<noteq> 37" by (auto simp: uri_unreserved_def)
  moreover have "char_of u = CHR ''%'' \<Longrightarrow> u = 37" if "u < 256"
  proof -
    assume "char_of u = CHR ''%''"
    then have "(of_char (char_of u) :: nat) = of_char (CHR ''%'')" by simp
    with that show "u = 37" by simp
  qed
  ultimately show ?thesis by blast
qed

lemma surrogate_pair_units:
  assumes "0xD800 \<le> u" "u < 0xDC00" "0xDC00 \<le> v" "v < (0xE000::nat)"
  shows "valid_cp ((u - 0xD800) * 0x400 + (v - 0xDC00) + 0x10000)"
    and "units_of_cp ((u - 0xD800) * 0x400 + (v - 0xDC00) + 0x10000) = [u, v]"
proof -
  define h l where "h = u - 0xD800" and "l = v - 0xDC00"
  with assms have h: "h < 0x400" "u = h + 0xD800" and l: "l < 0x400" "v = l + 0xDC00" by simp_all
  from h l show "valid_cp ((u - 0xD800) * 0x400 + (v - 0xDC00) + 0x10000)" by (simp add: valid_cp_def)
  have "(h * 0x400 + l) div 0x400 = h" "(h * 0x400 + l) mod 0x400 = l" using l(1) by simp_all
  then have "units_of_cp (h * 0x400 + l + 0x10000) = [u, v]"
    using h l by (simp add: units_of_cp_def)
  then show "units_of_cp ((u - 0xD800) * 0x400 + (v - 0xDC00) + 0x10000) = [u, v]"
    by (simp only: h_def l_def)
qed

lemma decode_encode:
  "encodeURIComponent us = Some s \<Longrightarrow> \<forall>u \<in> set us. u < 0x10000 \<Longrightarrow> decodeURIComponent s = Some us"
proof (induction us arbitrary: s rule: encodeURIComponent.induct)
  case 1
  then show ?case by simp
next
  case (2 u us)
  note IH1 = "2.IH"(1) and IH2 = "2.IH"(2) and IH3 = "2.IH"(3)
  consider (plain) "uri_unreserved u"
    | (pair) "\<not> uri_unreserved u" "0xD800 \<le> u" "u < 0xDC00"
    | (bmp) "\<not> uri_unreserved u" "\<not> (0xD800 \<le> u \<and> u < 0xE000)"
    using "2.prems"(1) by (auto split: if_splits)
  then show ?case
  proof cases
    case plain
    with "2.prems" obtain t where t: "encodeURIComponent us = Some t" "s = char_of u # t" by auto
    with IH1 plain "2.prems" have "decodeURIComponent t = Some us" by simp
    with t uri_unreserved_char [OF plain] show ?thesis by (simp add: decode_plain)
  next
    case pair
    with "2.prems"(1) obtain v vs t where v: "us = v # vs" "0xDC00 \<le> v" "v < 0xE000"
      and t: "encodeURIComponent vs = Some t"
        "s = pct_cp ((u - 0xD800) * 0x400 + (v - 0xDC00) + 0x10000) @ t"
      by (auto split: list.splits if_splits)
    have "decodeURIComponent t = Some vs"
      using IH2 pair v t "2.prems" by auto
    with t v pair surrogate_pair_units [of u v] show ?thesis by (simp add: decode_pct_cp)
  next
    case bmp
    with "2.prems"(1) obtain t where t: "encodeURIComponent us = Some t" "s = pct_cp u @ t"
      by (auto split: if_splits)
    have u: "valid_cp u" "units_of_cp u = [u]"
      using bmp "2.prems"(2) by (auto simp: valid_cp_def units_of_cp_def)
    have "decodeURIComponent t = Some us"
      using IH3 bmp t "2.prems" by auto
    with t u show ?thesis by (simp add: decode_pct_cp)
  qed
qed

text \<open>What \<open>encodeURIComponent\<close> emits: unreserved characters and \<open>%\<close>.\<close>

definition uri_safe_char :: "char \<Rightarrow> bool" where
  "uri_safe_char c = (uri_unreserved (of_char c) \<or> c = CHR ''%'')"

lemma hex_digit_unreserved: "d < 16 \<Longrightarrow> uri_unreserved (of_char (hex_digit d))"
  by (auto simp: hex_digit_def uri_unreserved_def)

lemma pct_safe: "b < 256 \<Longrightarrow> c \<in> set (pct b) \<Longrightarrow> uri_safe_char c"
  by (auto simp: pct_def uri_safe_char_def intro!: hex_digit_unreserved)

lemma pct_cp_safe: "cp < 0x110000 \<Longrightarrow> c \<in> set (pct_cp cp) \<Longrightarrow> uri_safe_char c"
  by (auto simp: pct_cp_def dest: utf8_of_cp_bytes intro: pct_safe)

lemma encode_safe:
  "encodeURIComponent us = Some s \<Longrightarrow> \<forall>u \<in> set us. u < 0x10000 \<Longrightarrow> c \<in> set s \<Longrightarrow> uri_safe_char c"
proof (induction us arbitrary: s rule: encodeURIComponent.induct)
  case 1
  then show ?case by simp
next
  case (2 u us)
  have *: "c = char_of u \<Longrightarrow> uri_unreserved u \<Longrightarrow> uri_safe_char c"
    using uri_unreserved_char [of u] by (simp add: uri_safe_char_def)
  from 2 * show ?case
    by (auto split: if_splits list.splits dest!: pct_cp_safe [rotated])
qed

end
