(* ===== verification/Router.thy ===== *)
theory Router
  imports Errors Uri_Codec
begin

text \<open>
  The radix-tree router of \<open>packages/core/src/router.ts\<close>.

  \<^item> \<open>node\<close> is \<open>RadixNode\<close>; its \<open>Map\<close> fields are insertion-ordered maps. \<open>router\<close> is the
    class \<open>Router\<close>: the tree, the static fast-path table and the two options.
  \<^item> \<open>addRoute\<close> returns the error it throws, if any, with the router as it leaves it: a
    refused registration may have created nodes on its path.
  \<^item> \<open>matchNode\<close> threads the two parameter objects it mutates. They are plain objects, so a
    parameter called \<open>__proto__\<close> is not stored (\<open>obj_set\<close>).
  \<^item> A handler is a value of type \<open>'h\<close>, schema and OpenAPI metadata values of type \<open>'x\<close>.
\<close>

section \<open>Data\<close>

datatype methd = GET | POST | PUT | PATCH | DELETE | HEAD | OPTIONS

datatype route_kind = Serverless | Hot | Task

record 'h route_hooks =
  onRequest :: "'h list"
  preHandler :: "'h list"
  preSerialization :: "'h list"
  onSend :: "'h list"

record ('h, 'x) route =
  rmethod :: methd
  rurl :: string
  rhandler :: 'h
  rkind :: route_kind
  rschema :: "'x option"
  ropenapi :: "'x option"
  rhooks :: "'h route_hooks"

datatype ('h, 'x) node =
  Node (segment: string)
    (children: "(string \<times> ('h, 'x) node) list")
    (paramChild: "('h, 'x) node option") (paramName: "string option")
    (wildcardChild: "('h, 'x) node option") (wildcardName: "string option")
    (routes: "(methd \<times> ('h, 'x) route) list")

definition createNode :: "string \<Rightarrow> ('h, 'x) node" where
  "createNode seg = Node seg [] None None None None []"

record ('h, 'x) router =
  root :: "('h, 'x) node"
  staticRoutes :: "(string, (methd, ('h, 'x) route) omap) omap"
  ignoreTrailingSlash :: bool
  strictParams :: bool

text \<open>The constructor: \<open>options.ignoreTrailingSlash !== false\<close>, \<open>options.strictParams === true\<close>.\<close>

definition newRouter :: "bool option \<Rightarrow> bool option \<Rightarrow> ('h, 'x) router" where
  "newRouter its sp =
     \<lparr>root = createNode [], staticRoutes = [],
      ignoreTrailingSlash = (its \<noteq> Some False), strictParams = (sp = Some True)\<rparr>"

datatype ('h, 'x) route_error =
    ParamConflict string string string string \<comment> \<open>url, name, existing url, existing name\<close>
  | DuplicateRoute methd string string \<comment> \<open>method, url, url of the registered route\<close>

section \<open>Module-level helpers\<close>

definition splitPath :: "string \<Rightarrow> string list" where
  "splitPath path = filter (\<lambda>s. s \<noteq> []) (split_on CHR ''/'' path)"

definition normalizePathname :: "string \<Rightarrow> string" where
  "normalizePathname p =
     (if p = ''/'' \<or> p = [] then ''/'' else if ends_with p ''/'' then butlast p else p)"

definition no_dot_segment :: "string \<Rightarrow> bool" where
  "no_dot_segment path = list_all (\<lambda>s. s \<noteq> ''.'' \<and> s \<noteq> ''..'') (split_on CHR ''/'' path)"

definition canonicalizePath :: "string \<Rightarrow> bool \<Rightarrow> string option" where
  "canonicalizePath pathname its =
     (if pathname = [] \<or> pathname = ''/'' then Some ''/''
      else if hd pathname \<noteq> CHR ''/'' then None
      else if includes_str pathname ''//'' then None
      else if ends_with pathname ''/'' then
        (if \<not> its then None
         else let path = butlast pathname in
           if path = [] then Some ''/''
           else if no_dot_segment path then Some path else None)
      else if no_dot_segment pathname then Some pathname else None)"

definition first_some :: "'a option list \<Rightarrow> 'a option" where
  "first_some xs = (case filter (\<lambda>x. x \<noteq> None) xs of [] \<Rightarrow> None | x # _ \<Rightarrow> x)"

text \<open>\<open>if (found) return found\<close>: an empty string is not returned.\<close>

definition truthy :: "string option \<Rightarrow> string option" where
  "truthy x = (if x = Some [] then None else x)"

fun findFirstRouteUrl :: "('h, 'x) node \<Rightarrow> string option" where
  "findFirstRouteUrl (Node sg cs pc pn wc wn rs) =
     (case rs of
        (m, r) # _ \<Rightarrow> Some (rurl r)
      | [] \<Rightarrow>
        (case first_some (map (\<lambda>(k, c). truthy (findFirstRouteUrl c)) cs) of
           Some u \<Rightarrow> Some u
         | None \<Rightarrow>
           (case (case pc of None \<Rightarrow> None | Some c \<Rightarrow> truthy (findFirstRouteUrl c)) of
              Some u \<Rightarrow> Some u
            | None \<Rightarrow> (case wc of None \<Rightarrow> None | Some c \<Rightarrow> findFirstRouteUrl c))))"

section \<open>addRoute\<close>

abbreviation is_param_seg :: "string \<Rightarrow> bool" where
  "is_param_seg s \<equiv> starts_with s '':''"

abbreviation is_wild_seg :: "string \<Rightarrow> bool" where
  "is_wild_seg s \<equiv> starts_with s ''*''"

definition is_static_seg :: "string \<Rightarrow> bool" where
  "is_static_seg s = (\<not> is_param_seg s \<and> \<not> is_wild_seg s)"

fun set_route :: "methd \<Rightarrow> ('h, 'x) route \<Rightarrow> ('h, 'x) node \<Rightarrow> ('h, 'x) route_error option \<times> ('h, 'x) node" where
  "set_route m r (Node sg cs pc pn wc wn rs) =
     (case map_of rs m of
        Some dup \<Rightarrow> (Some (DuplicateRoute m (rurl r) (rurl dup)), Node sg cs pc pn wc wn rs)
      | None \<Rightarrow> (None, Node sg cs pc pn wc wn (AList.update m r rs)))"

text \<open>The walk of \<open>addRoute\<close> over the segments, then the registration at the node reached. A
  wildcard segment ends the walk.\<close>

fun insert_at ::
  "methd \<Rightarrow> ('h, 'x) route \<Rightarrow> string list \<Rightarrow> ('h, 'x) node \<Rightarrow> ('h, 'x) route_error option \<times> ('h, 'x) node" where
  "insert_at m r [] n = set_route m r n"
| "insert_at m r (seg # segs) (Node sg cs pc pn wc wn rs) =
     (if is_param_seg seg then
        (let name = tl seg in
         case pc of
           None \<Rightarrow>
             (let (e, c) = insert_at m r segs (createNode seg)
              in (e, Node sg cs (Some c) (Some name) wc wn rs))
         | Some c0 \<Rightarrow>
             if pn \<noteq> Some name then
               (let pname = (case pn of None \<Rightarrow> [] | Some x \<Rightarrow> x);
                    existing = (case findFirstRouteUrl c0 of Some u \<Rightarrow> u | None \<Rightarrow> '':'' @ pname)
                in (Some (ParamConflict (rurl r) name existing pname), Node sg cs pc pn wc wn rs))
             else
               (let (e, c) = insert_at m r segs c0
                in (e, Node sg cs (Some c) pn wc wn rs)))
      else if is_wild_seg seg then
        (let (c0, name) = (case wc of
             None \<Rightarrow> (createNode seg, Some (if tl seg = [] then ''*'' else tl seg))
           | Some c \<Rightarrow> (c, wn));
             (e, c) = set_route m r c0
         in (e, Node sg cs pc pn (Some c) name rs))
      else
        (let c0 = (case map_of cs seg of None \<Rightarrow> createNode seg | Some c \<Rightarrow> c);
             (e, c) = insert_at m r segs c0
         in (e, Node sg (AList.update seg c cs) pc pn wc wn rs)))"

definition opt_list :: "'a list option \<Rightarrow> 'a list" where
  "opt_list x = (case x of None \<Rightarrow> [] | Some xs \<Rightarrow> xs)"

text \<open>The hooks argument \<open>Partial<RouteHooks>\<close>, optional as a whole and field by field.\<close>

record 'h partial_hooks =
  pOnRequest :: "'h list option"
  pPreHandler :: "'h list option"
  pPreSerialization :: "'h list option"
  pOnSend :: "'h list option"

definition mkRoute ::
  "methd \<Rightarrow> string \<Rightarrow> 'h \<Rightarrow> route_kind \<Rightarrow> 'x option \<Rightarrow> 'h partial_hooks option \<Rightarrow> 'x option \<Rightarrow> ('h, 'x) route" where
  "mkRoute m url handler kind schema hooks openapi =
     \<lparr>rmethod = m, rurl = url, rhandler = handler, rkind = kind, rschema = schema, ropenapi = openapi,
      rhooks = \<lparr>onRequest = opt_list (Option.bind hooks pOnRequest),
                preHandler = opt_list (Option.bind hooks pPreHandler),
                preSerialization = opt_list (Option.bind hooks pPreSerialization),
                onSend = opt_list (Option.bind hooks pOnSend)\<rparr>\<rparr>"

definition addRouteObj :: "('h, 'x) router \<Rightarrow> ('h, 'x) route \<Rightarrow> ('h, 'x) route_error option \<times> ('h, 'x) router" where
  "addRouteObj rt r =
     (let m = rmethod r; url = rurl r; segments = splitPath url;
          (e, n) = insert_at m r segments (root rt); rt1 = rt\<lparr>root := n\<rparr> in
      case e of
        Some err \<Rightarrow> (Some err, rt1)
      | None \<Rightarrow>
          (None,
           if list_all is_static_seg segments then
             (let key = normalizePathname url;
                  methodMap = (case map_of (staticRoutes rt1) key of None \<Rightarrow> [] | Some mm \<Rightarrow> mm)
              in rt1\<lparr>staticRoutes := AList.update key (AList.update m r methodMap) (staticRoutes rt1)\<rparr>)
           else rt1))"

definition addRoute ::
  "('h, 'x) router \<Rightarrow> methd \<Rightarrow> string \<Rightarrow> 'h \<Rightarrow> route_kind \<Rightarrow> 'x option \<Rightarrow> 'h partial_hooks option \<Rightarrow> 'x option
     \<Rightarrow> ('h, 'x) route_error option \<times> ('h, 'x) router" where
  "addRoute rt m url handler kind schema hooks openapi =
     addRouteObj rt (mkRoute m url handler kind schema hooks openapi)"

section \<open>match\<close>

definition httpError400 :: "string \<Rightarrow> string \<Rightarrow> http_error" where
  "httpError400 msg cd = mkHttpError 400 (Some msg) (Some cd) None None"

definition malformedURI :: http_error where
  "malformedURI = httpError400 ''Malformed URI in path'' ''MALFORMED_URI''"

definition invalidPathParam :: http_error where
  "invalidPathParam = httpError400 ''Path parameter contains an illegal separator'' ''INVALID_PATH_PARAM''"

definition decodeSegment :: "string \<Rightarrow> http_error + ustring" where
  "decodeSegment seg = (case decodeURIComponent seg of None \<Rightarrow> Inl malformedURI | Some u \<Rightarrow> Inr u)"

text \<open>The test \<open>/[/\\\0]/\<close>: slash, backslash or NUL.\<close>

definition decodeParam :: "bool \<Rightarrow> string \<Rightarrow> http_error + ustring" where
  "decodeParam strict seg =
     (case decodeSegment seg of
        Inl e \<Rightarrow> Inl e
      | Inr u \<Rightarrow> if strict \<and> list_ex (\<lambda>c. c = 47 \<or> c = 92 \<or> c = 0) u then Inl invalidPathParam else Inr u)"

type_synonym params = "(string, ustring) omap"
type_synonym raw_params = "(string, string) omap"

definition obj_set :: "string \<Rightarrow> 'v \<Rightarrow> (string, 'v) omap \<Rightarrow> (string, 'v) omap" where
  "obj_set k v ob = (if k = ''__proto__'' then ob else AList.update k v ob)"

type_synonym ('h, 'x) walk = "http_error + (('h, 'x) node option \<times> params \<times> raw_params)"

text \<open>\<open>if (result) return result;\<close> and on to the next alternative, with the objects as the
  failed one left them.\<close>

fun or_else :: "('h, 'x) walk \<Rightarrow> (params \<Rightarrow> raw_params \<Rightarrow> ('h, 'x) walk) \<Rightarrow> ('h, 'x) walk" where
  "or_else (Inl e) k = Inl e"
| "or_else (Inr (Some n, ps, rs)) k = Inr (Some n, ps, rs)"
| "or_else (Inr (None, ps, rs)) k = k ps rs"

fun matchNode ::
  "bool \<Rightarrow> methd \<Rightarrow> ('h, 'x) node \<Rightarrow> string list \<Rightarrow> params \<Rightarrow> raw_params \<Rightarrow> ('h, 'x) walk" where
  "matchNode strict m n [] ps rs = Inr (if map_of (routes n) m \<noteq> None then Some n else None, ps, rs)"
| "matchNode strict m n (seg # segs) ps rs =
     or_else
       (case map_of (children n) seg of
          None \<Rightarrow> Inr (None, ps, rs)
        | Some c \<Rightarrow> matchNode strict m c segs ps rs)
       (\<lambda>ps rs. or_else
          (case (paramChild n, paramName n) of
             (Some pc, Some name) \<Rightarrow>
               if name = [] then Inr (None, ps, rs)
               else (case decodeParam strict seg of
                   Inl e \<Rightarrow> Inl e
                 | Inr v \<Rightarrow>
                     or_else (matchNode strict m pc segs (obj_set name v ps) (obj_set name seg rs))
                       (\<lambda>ps rs. Inr (None, AList.delete name ps, AList.delete name rs)))
           | _ \<Rightarrow> Inr (None, ps, rs))
          (\<lambda>ps rs.
             case (wildcardChild n, wildcardName n) of
               (Some wc, Some name) \<Rightarrow>
                 if name \<noteq> [] \<and> map_of (routes wc) m \<noteq> None then
                   (let raw = join ''/'' (seg # segs) in
                    case decodeSegment raw of
                      Inl e \<Rightarrow> Inl e
                    | Inr v \<Rightarrow> Inr (Some wc, obj_set name v ps, obj_set name raw rs))
                 else Inr (None, ps, rs)
             | _ \<Rightarrow> Inr (None, ps, rs)))"

record ('h, 'x) route_match =
  mhandler :: 'h
  mparams :: params
  mrawParams :: raw_params
  mroute :: "('h, 'x) route"

definition slow_match :: "('h, 'x) router \<Rightarrow> methd \<Rightarrow> string \<Rightarrow> http_error + ('h, 'x) route_match option" where
  "slow_match rt m canonical =
     (case matchNode (strictParams rt) m (root rt) (splitPath canonical) [] [] of
        Inl e \<Rightarrow> Inl e
      | Inr (None, _, _) \<Rightarrow> Inr None
      | Inr (Some n, ps, rs) \<Rightarrow>
          (case map_of (routes n) m of
             None \<Rightarrow> Inr None
           | Some r \<Rightarrow> Inr (Some \<lparr>mhandler = rhandler r, mparams = ps, mrawParams = rs, mroute = r\<rparr>)))"

definition static_lookup :: "('h, 'x) router \<Rightarrow> string \<Rightarrow> methd \<Rightarrow> ('h, 'x) route option" where
  "static_lookup rt key m = Option.bind (map_of (staticRoutes rt) key) (\<lambda>mm. map_of mm m)"

definition match_route :: "('h, 'x) router \<Rightarrow> methd \<Rightarrow> string \<Rightarrow> http_error + ('h, 'x) route_match option" where
  "match_route rt m pathname =
     (case canonicalizePath pathname (ignoreTrailingSlash rt) of
        None \<Rightarrow> Inr None
      | Some canonical \<Rightarrow>
          (case static_lookup rt canonical m of
             Some r \<Rightarrow> Inr (Some \<lparr>mhandler = rhandler r, mparams = [], mrawParams = [], mroute = r\<rparr>)
           | None \<Rightarrow> slow_match rt m canonical))"

section \<open>hasPath, allowedMethods, getAllRoutes\<close>

fun has_path_at :: "('h, 'x) node \<Rightarrow> string list \<Rightarrow> bool" where
  "has_path_at n [] = (routes n \<noteq> [])"
| "has_path_at n (seg # segs) =
     ((case map_of (children n) seg of None \<Rightarrow> False | Some c \<Rightarrow> has_path_at c segs)
      \<or> (case paramChild n of None \<Rightarrow> False | Some c \<Rightarrow> has_path_at c segs))"

definition hasPath :: "('h, 'x) router \<Rightarrow> string \<Rightarrow> bool" where
  "hasPath rt pathname =
     (case canonicalizePath pathname (ignoreTrailingSlash rt) of
        None \<Rightarrow> False
      | Some canonical \<Rightarrow>
          map_of (staticRoutes rt) canonical \<noteq> None \<or> has_path_at (root rt) (splitPath canonical))"

fun collectMethods :: "('h, 'x) node \<Rightarrow> string list \<Rightarrow> methd list" where
  "collectMethods n [] = map fst (routes n)"
| "collectMethods n (seg # segs) =
     (case map_of (children n) seg of None \<Rightarrow> [] | Some c \<Rightarrow> collectMethods c segs)
     @ (case paramChild n of None \<Rightarrow> [] | Some c \<Rightarrow> collectMethods c segs)"

definition METHOD_ORDER :: "methd list" where
  "METHOD_ORDER = [GET, HEAD, POST, PUT, PATCH, DELETE, OPTIONS]"

definition allowedMethods :: "('h, 'x) router \<Rightarrow> string \<Rightarrow> methd list" where
  "allowedMethods rt pathname =
     (case canonicalizePath pathname (ignoreTrailingSlash rt) of
        None \<Rightarrow> []
      | Some canonical \<Rightarrow>
          (let found = (case map_of (staticRoutes rt) canonical of None \<Rightarrow> [] | Some mm \<Rightarrow> keys_of mm)
                       @ collectMethods (root rt) (splitPath canonical);
               found' = (if GET \<in> set found then HEAD # found else found)
           in filter (\<lambda>m. m \<in> set found') METHOD_ORDER))"

fun collectRoutes :: "('h, 'x) node \<Rightarrow> ('h, 'x) route list" where
  "collectRoutes (Node sg cs pc pn wc wn rs) =
     map snd rs
     @ concat (map (\<lambda>(k, c). collectRoutes c) cs)
     @ (case pc of None \<Rightarrow> [] | Some c \<Rightarrow> collectRoutes c)
     @ (case wc of None \<Rightarrow> [] | Some c \<Rightarrow> collectRoutes c)"

definition getAllRoutes :: "('h, 'x) router \<Rightarrow> ('h, 'x) route list" where
  "getAllRoutes rt = collectRoutes (root rt)"

end
