(* ===== verification/Router_Spec.thy ===== *)
theory Router_Spec
  imports Router
begin

text \<open>
  What the router promises, and that the tree of \<open>Router\<close> implements it.

  The abstract view of a router is the partial map \<open>route_at\<close> from patterns and methods
  to routes. Inserting is a map update that refuses a present key, matching finds a
  registered pattern that matches (\<open>pat_match\<close>) if there is one, and the fast path, the
  405 detection and the \<open>Allow\<close> header agree with matching.
\<close>

section \<open>Methods in the order of the Allow header\<close>

definition method_rank :: "methd \<Rightarrow> nat" where
  "method_rank m = (case m of GET \<Rightarrow> 0 | HEAD \<Rightarrow> 1 | POST \<Rightarrow> 2 | PUT \<Rightarrow> 3 | PATCH \<Rightarrow> 4 | DELETE \<Rightarrow> 5 | OPTIONS \<Rightarrow> 6)"

instantiation methd :: linorder
begin

definition less_eq_methd :: "methd \<Rightarrow> methd \<Rightarrow> bool" where
  "less_eq_methd a b = (method_rank a \<le> method_rank b)"

definition less_methd :: "methd \<Rightarrow> methd \<Rightarrow> bool" where
  "less_methd a b = (method_rank a < method_rank b)"

instance
  by standard (auto simp: less_eq_methd_def less_methd_def method_rank_def split: methd.splits)

end

lemma METHOD_ORDER_sorted: "sorted METHOD_ORDER \<and> distinct METHOD_ORDER"
  by (simp add: METHOD_ORDER_def less_eq_methd_def method_rank_def)

lemma METHOD_ORDER_all: "m \<in> set METHOD_ORDER"
  by (cases m) (simp_all add: METHOD_ORDER_def)

section \<open>Canonical paths\<close>

lemma splitPath_canonical_slash [simp]: "splitPath ''/'' = []"
  by (simp add: splitPath_def)

lemma splitPath_append_slash: "splitPath (p @ ''/'') = splitPath p"
  by (simp add: splitPath_def split_append [where t = "[]", simplified])

lemma splitPath_normalize: "splitPath (normalizePathname url) = splitPath url"
proof (cases "url \<noteq> [] \<and> url \<noteq> ''/'' \<and> last url = CHR ''/''")
  case True
  then have "url = butlast url @ ''/''" by (metis append_butlast_last_id)
  with True show ?thesis
    by (metis ends_with_single normalizePathname_def splitPath_append_slash)
next
  case False
  then show ?thesis by (auto simp: normalizePathname_def splitPath_def)
qed

lemma splitPath_nonempty: "s \<in> set (splitPath p) \<Longrightarrow> s \<noteq> []"
  by (simp add: splitPath_def)

lemma includes_append1: "includes_str s t \<Longrightarrow> includes_str (s @ u) t"
  unfolding includes_str_iff by (metis append.assoc)

lemma canonicalize_cases:
  assumes "canonicalizePath p its = Some c"
  shows "p = [] \<and> c = ''/'' \<or> p = c \<or> its \<and> c \<noteq> ''/'' \<and> p = c @ ''/''"
proof (cases "p = [] \<or> p = ''/''")
  case True
  with assms show ?thesis by (auto simp: canonicalizePath_def)
next
  case False
  show ?thesis
  proof (cases "last p = CHR ''/''")
    case True
    with False have p: "p = butlast p @ ''/''" by (metis append_butlast_last_id)
    have "butlast p \<noteq> []" using False p by (metis append_Nil)
    moreover have "butlast p \<noteq> ''/''"
    proof
      assume "butlast p = ''/''"
      with p have "p = ''//''" by (metis append_Cons append_Nil)
      then have "includes_str p ''//''" by simp
      with assms False show False by (simp add: canonicalizePath_def split: if_splits)
    qed
    moreover have "its \<and> c = butlast p"
      using assms False True \<open>butlast p \<noteq> []\<close>
      by (simp add: canonicalizePath_def Let_def split: if_splits)
    ultimately show ?thesis using p by metis
  next
    case last: False
    with assms False show ?thesis by (simp add: canonicalizePath_def split: if_splits)
  qed
qed

lemma canonical_form:
  assumes "canonicalizePath p its = Some c"
  shows "c = ''/'' \<or> (hd c = CHR ''/'' \<and> last c \<noteq> CHR ''/'' \<and> \<not> includes_str c ''//'' \<and> no_dot_segment c \<and> c \<noteq> [])"
proof (cases "p = [] \<or> p = ''/''")
  case True
  with assms show ?thesis by (auto simp: canonicalizePath_def)
next
  case ne: False
  with assms have h: "hd p = CHR ''/''" and nn: "\<not> includes_str p ''//''"
    by (simp_all add: canonicalizePath_def split: if_splits)
  show ?thesis
  proof (cases "last p = CHR ''/''")
    case True
    with ne have p: "p = butlast p @ ''/''" by (metis append_butlast_last_id)
    have bn: "butlast p \<noteq> []" using ne p by (metis append_Nil)
    with assms ne True h nn have c: "c = butlast p" "no_dot_segment c"
      by (simp_all add: canonicalizePath_def Let_def split: if_splits)
    have "last c \<noteq> CHR ''/''"
    proof
      assume "last c = CHR ''/''"
      with c bn have "c = butlast c @ ''/''" by (metis append_butlast_last_id)
      with p c have "p = butlast c @ ''//'' @ []" by (metis append.assoc append_Cons append_Nil)
      then have "includes_str p ''//''" unfolding includes_str_iff by blast
      with nn show False by simp
    qed
    moreover have "\<not> includes_str c ''//''" using nn p c includes_append1 by metis
    moreover have "hd c = CHR ''/''" using h p c bn by (metis hd_append2)
    ultimately show ?thesis using c bn by simp
  next
    case False
    with assms ne h nn show ?thesis by (simp add: canonicalizePath_def split: if_splits)
  qed
qed

lemma canonicalize_id:
  assumes "c = ''/'' \<or> (hd c = CHR ''/'' \<and> last c \<noteq> CHR ''/'' \<and> \<not> includes_str c ''//'' \<and> no_dot_segment c \<and> c \<noteq> [])"
  shows "canonicalizePath c its = Some c"
  using assms by (auto simp: canonicalizePath_def)

text \<open>
  One spelling per path: a path that is accepted is its canonical form, up to one
  trailing slash when \<open>ignoreTrailingSlash\<close> is on (and the empty path for the root); the
  canonical form has no empty segment, no dot segment and no trailing slash; and
  canonicalising is idempotent. No other alias of a path reaches its handler.
\<close>

theorem canonical_spelling:
  assumes "canonicalizePath p its = Some c"
  shows "(p = c \<or> its \<and> p = c @ ''/'' \<or> p = [] \<and> c = ''/'') \<and>
         (c = ''/'' \<or> last c \<noteq> CHR ''/'' \<and> \<not> includes_str c ''//'' \<and> no_dot_segment c) \<and>
         canonicalizePath c its = Some c"
  using canonicalize_cases [OF assms] canonical_form [OF assms] canonicalize_id [of c its] by blast

theorem canonical_spelling_witness:
  "canonicalizePath ''/users/'' True = Some ''/users'' \<and> canonicalizePath ''/users'' True = Some ''/users'' \<and>
   canonicalizePath ''//users'' True = None \<and> canonicalizePath ''/users/../admin'' True = None"
proof -
  have h: "canonicalizePath ''/users/'' True = Some ''/users''"
    by (simp add: canonicalizePath_def no_dot_segment_def)
  from canonical_spelling [OF h] h show ?thesis
    by (simp add: canonicalizePath_def no_dot_segment_def)
qed

section \<open>The abstract view\<close>

fun route_at :: "('h, 'x) node \<Rightarrow> string list \<Rightarrow> methd \<Rightarrow> ('h, 'x) route option" where
  "route_at n [] m = map_of (routes n) m"
| "route_at n (p # ps) m =
     (if is_param_seg p then
        (if paramName n = Some (tl p)
         then (case paramChild n of None \<Rightarrow> None | Some c \<Rightarrow> route_at c ps m) else None)
      else if is_wild_seg p then
        (case wildcardChild n of None \<Rightarrow> None | Some c \<Rightarrow> map_of (routes c) m)
      else (case map_of (children n) p of None \<Rightarrow> None | Some c \<Rightarrow> route_at c ps m))"

fun norm_pat :: "string list \<Rightarrow> string list" where
  "norm_pat [] = []"
| "norm_pat (p # ps) = (if is_wild_seg p then [''*''] else p # norm_pat ps)"

text \<open>Which request segments a pattern matches.\<close>

fun pat_match :: "string list \<Rightarrow> string list \<Rightarrow> bool" where
  "pat_match [] ss = (ss = [])"
| "pat_match (p # ps) [] = False"
| "pat_match (p # ps) (s # ss) =
     (if is_wild_seg p then True
      else if is_param_seg p then tl p \<noteq> [] \<and> pat_match ps ss
      else p = s \<and> pat_match ps ss)"

definition leaf_node :: "('h, 'x) node \<Rightarrow> bool" where
  "leaf_node n = (children n = [] \<and> paramChild n = None \<and> wildcardChild n = None)"

fun wf_node :: "('h, 'x) node \<Rightarrow> bool" where
  "wf_node (Node sg cs pc pn wc wn rs) =
     (distinct (map fst cs) \<and> list_all (\<lambda>(k, c). is_static_seg k \<and> wf_node c) cs \<and>
      (pc = None \<longleftrightarrow> pn = None) \<and> (case pc of None \<Rightarrow> True | Some c \<Rightarrow> wf_node c) \<and>
      (wc = None \<longleftrightarrow> wn = None) \<and> wn \<noteq> Some [] \<and>
      (case wc of None \<Rightarrow> True | Some c \<Rightarrow> wf_node c \<and> leaf_node c) \<and>
      distinct (map fst rs))"

lemma wf_createNode [simp]: "wf_node (createNode s)"
  by (simp add: createNode_def)

lemma leaf_createNode [simp]: "leaf_node (createNode s)"
  by (simp add: createNode_def leaf_node_def)

lemma route_at_createNode [simp]: "route_at (createNode s) ps m = None"
  by (cases ps) (simp_all add: createNode_def)

lemma routes_createNode [simp]: "routes (createNode s) = []"
  by (simp add: createNode_def)

lemma param_not_wild: "is_param_seg p \<Longrightarrow> \<not> is_wild_seg p"
  by (cases p) auto

lemma param_seg_eq: "is_param_seg p \<Longrightarrow> p = CHR '':'' # tl p"
  by (cases p) auto

lemma route_at_norm: "route_at n (norm_pat ps) m = route_at n ps m"
  by (induction n ps m rule: route_at.induct) (auto split: option.splits dest: param_not_wild)

lemma norm_pat_static: "list_all is_static_seg ps \<Longrightarrow> norm_pat ps = ps"
  by (induction ps) (auto simp: is_static_seg_def)

lemma pat_match_norm: "pat_match (norm_pat ps) ss = pat_match ps ss"
  by (induction ps ss rule: pat_match.induct) auto

lemma wf_child:
  "wf_node n \<Longrightarrow> map_of (children n) s = Some c \<Longrightarrow> wf_node c \<and> is_static_seg s"
  by (cases n) (auto simp: list_all_iff dest!: map_of_SomeD)

lemma wf_param: "wf_node n \<Longrightarrow> paramChild n = Some c \<Longrightarrow> wf_node c"
  by (cases n) auto

lemma wf_wild: "wf_node n \<Longrightarrow> wildcardChild n = Some c \<Longrightarrow> wf_node c \<and> leaf_node c"
  by (cases n) auto

lemma wf_names:
  "wf_node n \<Longrightarrow> (paramChild n = None \<longleftrightarrow> paramName n = None) \<and>
     (wildcardChild n = None \<longleftrightarrow> wildcardName n = None) \<and> wildcardName n \<noteq> Some []"
  by (cases n) auto

section \<open>Insertion is a map update\<close>

lemma set_route_law:
  "set_route m r n = (e, n') \<Longrightarrow> wf_node n \<Longrightarrow>
     wf_node n' \<and> (leaf_node n \<longrightarrow> leaf_node n') \<and> children n' = children n \<and>
     paramChild n' = paramChild n \<and> paramName n' = paramName n \<and>
     wildcardChild n' = wildcardChild n \<and>
     (e = None \<longrightarrow> map_of (routes n) m = None \<and> map_of (routes n') = (map_of (routes n))(m \<mapsto> r)) \<and>
     (e \<noteq> None \<longrightarrow> n' = n)"
  by (cases n) (auto simp: leaf_node_def AList.update_conv' AList.distinct_update split: option.splits)

lemma insert_wf: "insert_at m r segs n = (e, n') \<Longrightarrow> wf_node n \<Longrightarrow> wf_node n'"
proof (induction m r segs n arbitrary: e n' rule: insert_at.induct)
  case (1 m r n)
  then show ?case using set_route_law [of m r n e n'] by simp
next
  case (2 m r seg segs sg cs pc pn wc wn rs)
  consider (param) "is_param_seg seg" | (wild) "\<not> is_param_seg seg" "is_wild_seg seg"
    | (static) "\<not> is_param_seg seg" "\<not> is_wild_seg seg" by blast
  then show ?case
  proof cases
    case param
    show ?thesis
    proof (cases pc)
      case None
      obtain e1 c where c: "insert_at m r segs (createNode seg) = (e1, c)" by force
      with "2.IH"(1) [OF param refl None] have "wf_node c" by simp
      with "2.prems" param None c show ?thesis by (auto simp: Let_def)
    next
      case (Some c0)
      obtain e1 c where c: "insert_at m r segs c0 = (e1, c)" by force
      from "2.prems"(2) Some have "wf_node c0" by simp
      with "2.IH"(2) [OF param refl Some _ c] have "pn = Some (tl seg) \<Longrightarrow> wf_node c" by blast
      with "2.prems" param Some c show ?thesis by (auto simp: Let_def split: if_splits)
    qed
  next
    case wild
    define c0 where "c0 = (case wc of None \<Rightarrow> createNode seg | Some c \<Rightarrow> c)"
    obtain e1 c where c: "set_route m r c0 = (e1, c)" by force
    from "2.prems"(2) have "wf_node c0 \<and> leaf_node c0" by (simp add: c0_def split: option.splits)
    with set_route_law [OF c] have "wf_node c \<and> leaf_node c" by blast
    with "2.prems" wild c show ?thesis by (auto simp: Let_def c0_def split: option.splits)
  next
    case static
    define c0 where "c0 = (case map_of cs seg of None \<Rightarrow> createNode seg | Some c \<Rightarrow> c)"
    obtain e1 c where c: "insert_at m r segs c0 = (e1, c)" by force
    have "wf_node c0"
      using "2.prems"(2) by (auto simp: c0_def list_all_iff split: option.splits dest!: map_of_SomeD)
    with "2.IH"(3) [OF static c0_def] c have wc': "wf_node c" by blast
    have "set (AList.update seg c cs) \<subseteq> insert (seg, c) (set cs)"
      by (induction cs) auto
    with wc' static "2.prems"(2) have "list_all (\<lambda>(k, c). is_static_seg k \<and> wf_node c) (AList.update seg c cs)"
      by (force simp: list_all_iff is_static_seg_def)
    moreover have "distinct (map fst (AList.update seg c cs))"
      using "2.prems"(2) by (simp add: AList.distinct_update)
    moreover have "n' = Node sg (AList.update seg c cs) pc pn wc wn rs"
      using "2.prems"(1) static c by (simp add: Let_def c0_def)
    ultimately show ?thesis using "2.prems"(2) by simp
  qed
qed

lemma insert_route_at:
  "insert_at m r segs n = (e, n') \<Longrightarrow> wf_node n \<Longrightarrow>
   route_at n' ps m' = (if e = None \<and> norm_pat ps = norm_pat segs \<and> m' = m then Some r else route_at n ps m')
   \<and> (e = None \<longrightarrow> route_at n segs m = None)"
proof (induction m r segs n arbitrary: e n' ps rule: insert_at.induct)
  case (1 m r n)
  note law = set_route_law [of m r n e n']
  show ?case
  proof (cases ps)
    case Nil
    with 1 law show ?thesis by auto
  next
    case (Cons p qs)
    with 1 law show ?thesis by auto
  qed
next
  case (2 m r seg segs sg cs pc pn wc wn rs)
  consider (param) "is_param_seg seg" | (wild) "\<not> is_param_seg seg" "is_wild_seg seg"
    | (static) "\<not> is_param_seg seg" "\<not> is_wild_seg seg" by blast
  then show ?case
  proof cases
    case param
    note nw = param_not_wild [OF param]
    have same: "is_param_seg p \<and> tl p = tl seg \<longleftrightarrow> p = seg" for p
      using param param_seg_eq by metis
    show ?thesis
    proof (cases pc)
      case None
      obtain e1 c where c: "insert_at m r segs (createNode seg) = (e1, c)" by force
      have IH: "route_at c qs m' = (if e1 = None \<and> norm_pat qs = norm_pat segs \<and> m' = m then Some r else None)" for qs
        using "2.IH"(1) [OF param refl None c, of qs] by simp
      have pn: "pn = None" using "2.prems"(2) None by simp
      have n': "n' = Node sg cs (Some c) (Some (tl seg)) wc wn rs" "e = e1"
        using "2.prems"(1) param None c by (auto simp: Let_def)
      show ?thesis
      proof (cases ps)
        case Nil
        with nw n' param None pn show ?thesis by simp
      next
        case (Cons p qs)
        with nw n' param None pn IH [of qs] same [of p] show ?thesis
          by (auto simp: dest: param_not_wild)
      qed
    next
      case (Some c0)
      show ?thesis
      proof (cases "pn = Some (tl seg)")
        case False
        with "2.prems" param Some show ?thesis by (auto simp: Let_def split: if_splits)
      next
        case True
        obtain e1 c where c: "insert_at m r segs c0 = (e1, c)" by force
        from "2.prems"(2) Some have w: "wf_node c0" by simp
        note IH = "2.IH"(2) [OF param refl Some _ c w]
        have n': "n' = Node sg cs (Some c) pn wc wn rs" "e = e1"
          using "2.prems"(1) param Some c True by (auto simp: Let_def)
        show ?thesis
        proof (cases ps)
          case Nil
          with nw n' param Some True IH show ?thesis by simp
        next
          case (Cons p qs)
          with nw n' param Some True IH [of qs] same [of p] show ?thesis
            by (auto dest: param_not_wild)
        qed
      qed
    qed
  next
    case wild
    define c0 where "c0 = (case wc of None \<Rightarrow> createNode seg | Some c \<Rightarrow> c)"
    obtain e1 c where c: "set_route m r c0 = (e1, c)" by force
    from "2.prems"(2) have "wf_node c0" by (simp add: c0_def split: option.splits)
    note law = set_route_law [OF c this]
    obtain wn' where n': "n' = Node sg cs pc pn (Some c) wn' rs" "e = e1"
      using "2.prems"(1) wild c by (auto simp: Let_def c0_def split: option.splits)
    have r0: "(case wc of None \<Rightarrow> None | Some c \<Rightarrow> map_of (routes c) m'') = map_of (routes c0) m''" for m''
      by (simp add: c0_def split: option.splits)
    show ?thesis
    proof (cases ps)
      case Nil
      with n' wild law r0 show ?thesis by auto
    next
      case (Cons p qs)
      show ?thesis
      proof (cases "is_wild_seg p")
        case True
        then have "\<not> is_param_seg p" using param_not_wild by blast
        with True Cons n' wild law r0 show ?thesis by auto
      next
        case False
        with Cons n' wild law r0 show ?thesis by auto
      qed
    qed
  next
    case static
    define c0 where "c0 = (case map_of cs seg of None \<Rightarrow> createNode seg | Some c \<Rightarrow> c)"
    obtain e1 c where c: "insert_at m r segs c0 = (e1, c)" by force
    have w: "wf_node c0"
      using "2.prems"(2) by (auto simp: c0_def list_all_iff split: option.splits dest!: map_of_SomeD)
    note IH = "2.IH"(3) [OF static c0_def c w]
    have n': "n' = Node sg (AList.update seg c cs) pc pn wc wn rs" "e = e1"
      using "2.prems"(1) static c by (auto simp: Let_def c0_def)
    have r0: "(case map_of cs seg of None \<Rightarrow> None | Some c \<Rightarrow> route_at c qs m'') = route_at c0 qs m''" for qs m''
      by (simp add: c0_def split: option.splits)
    show ?thesis
    proof (cases ps)
      case Nil
      with n' static IH r0 show ?thesis by auto
    next
      case (Cons p qs)
      show ?thesis
      proof (cases "p = seg")
        case True
        with Cons n' static IH [of qs] r0 [of qs] r0 [of segs] show ?thesis
          by (auto simp: map_of_update)
      next
        case False
        with Cons n' static IH [of segs] r0 [of segs] show ?thesis
          by (auto simp: map_of_update)
      qed
    qed
  qed
qed

end
