(* ===== verification/Router_Names.thy ===== *)
theory Router_Names
  imports Router_Spec
begin

text \<open>
  The parameters a match returns: the walk of \<open>matchNode\<close> leaves exactly the bindings of the pattern it
  followed, those of abandoned branches removed, if no parameter name occurs twice on a way down the tree.
\<close>

section \<open>Names on a way down\<close>

text \<open>\<open>used\<close> are the names bound above. A plain object cannot hold \<open>__proto__\<close>.\<close>

definition usable_name :: "string set \<Rightarrow> string \<Rightarrow> bool" where
  "usable_name used name = (name \<notin> used \<and> name \<noteq> ''__proto__'')"

fun clean_names :: "string set \<Rightarrow> ('h, 'x) node \<Rightarrow> bool" where
  "clean_names used (Node sg cs pc pn wc wn rs) =
     (list_all (\<lambda>(k, c). clean_names used c) cs \<and>
      (case pn of None \<Rightarrow> True | Some name \<Rightarrow> usable_name used name
         \<and> (case pc of None \<Rightarrow> True | Some c \<Rightarrow> clean_names (insert name used) c)) \<and>
      (case wn of None \<Rightarrow> True | Some name \<Rightarrow> usable_name used name))"

text \<open>The names a pattern declares, up to its wildcard.\<close>

definition wild_name :: "string \<Rightarrow> string" where
  "wild_name seg = (if tl seg = [] then ''*'' else tl seg)"

fun declared_names :: "string list \<Rightarrow> string list" where
  "declared_names [] = []"
| "declared_names (p # ps) =
     (if is_param_seg p then tl p # declared_names ps else if is_wild_seg p then [wild_name p] else declared_names ps)"

definition names_distinct :: "('h, 'x) route \<Rightarrow> bool" where
  "names_distinct r = (distinct (declared_names (splitPath (rurl r))) \<and> ''__proto__'' \<notin> set (declared_names (splitPath (rurl r))))"

lemma clean_createNode [simp]: "clean_names used (createNode s)"
  by (simp add: createNode_def)

lemma insert_clean:
  "insert_at m r segs n = (e, n') \<Longrightarrow> clean_names used n \<Longrightarrow> distinct (declared_names segs) \<Longrightarrow>
   ''__proto__'' \<notin> set (declared_names segs) \<Longrightarrow> set (declared_names segs) \<inter> used = {} \<Longrightarrow> wf_node n \<Longrightarrow> clean_names used n'"
proof (induction m r segs n arbitrary: e n' used rule: insert_at.induct)
  case (1 m r n)
  then show ?case by (cases n) (auto split: option.splits)
next
  case (2 m r seg segs sg cs pc pn wc wn rs)
  consider (param) "is_param_seg seg" | (wild) "\<not> is_param_seg seg" "is_wild_seg seg"
    | (static) "\<not> is_param_seg seg" "\<not> is_wild_seg seg" by blast
  then show ?case
  proof cases
    case param
    then have names: "declared_names (seg # segs) = tl seg # declared_names segs" by simp
    show ?thesis
    proof (cases pc)
      case None
      obtain e1 c where c: "insert_at m r segs (createNode seg) = (e1, c)" by force
      have "clean_names (insert (tl seg) used) c"
        by (rule "2.IH"(1) [OF param refl None c]) (use "2.prems" names in auto)
      then show ?thesis using "2.prems" param None c names by (auto simp: Let_def usable_name_def)
    next
      case (Some c0)
      show ?thesis
      proof (cases "pn = Some (tl seg)")
        case False
        with "2.prems" param Some show ?thesis by (auto simp: Let_def split: if_splits)
      next
        case True
        obtain e1 c where c: "insert_at m r segs c0 = (e1, c)" by force
        have "clean_names (insert (tl seg) used) c"
          by (rule "2.IH"(2) [OF param refl Some _ c]) (use "2.prems" names True Some in auto)
        then show ?thesis using "2.prems" param Some True c by (auto simp: Let_def)
      qed
    qed
  next
    case wild
    then show ?thesis using "2.prems"
      by (auto simp: Let_def usable_name_def wild_name_def split: option.splits prod.splits if_splits)
  next
    case static
    define c0 where "c0 = (case map_of cs seg of None \<Rightarrow> createNode seg | Some c \<Rightarrow> c)"
    obtain e1 c where c: "insert_at m r segs c0 = (e1, c)" by force
    have c0: "clean_names used c0" "wf_node c0"
      using "2.prems"(2,6) by (auto simp: c0_def list_all_iff split: option.splits dest!: map_of_SomeD)
    have "clean_names used c"
      by (rule "2.IH"(3) [OF static c0_def c c0(1)]) (use "2.prems" static c0(2) in auto)
    moreover have "n' = Node sg (AList.update seg c cs) pc pn wc wn rs"
      using "2.prems"(1) static c by (simp add: Let_def c0_def)
    moreover have "set (AList.update seg c cs) \<subseteq> insert (seg, c) (set cs)" by (induction cs) auto
    ultimately show ?thesis using "2.prems"(2) by (auto simp: list_all_iff)
  qed
qed

section \<open>What a pattern binds\<close>

text \<open>The values of the parameters, and of the wildcard under the name \<open>w\<close> of its node.\<close>

fun raw_bindings :: "string \<Rightarrow> string list \<Rightarrow> string list \<Rightarrow> (string \<times> string) list" where
  "raw_bindings w (p # ps) (s # ss) =
     (if is_wild_seg p then [(w, join ''/'' (s # ss))]
      else if is_param_seg p then (tl p, s) # raw_bindings w ps ss
      else raw_bindings w ps ss)"
| "raw_bindings w ps ss = []"

definition decodes_to :: "(string \<times> string) list \<Rightarrow> (string \<times> ustring) list \<Rightarrow> bool" where
  "decodes_to raws vals = list_all2 (\<lambda>(k, s) (l, u). l = k \<and> decodeURIComponent s = Some u) raws vals"

lemma clean_child: "clean_names used n \<Longrightarrow> map_of (children n) s = Some c \<Longrightarrow> clean_names used c"
  by (cases n) (auto simp: list_all_iff dest!: map_of_SomeD)

lemma clean_param:
  "clean_names used n \<Longrightarrow> paramChild n = Some c \<Longrightarrow> paramName n = Some name \<Longrightarrow> usable_name used name \<and> clean_names (insert name used) c"
  by (cases n) auto

lemma clean_wild: "clean_names used n \<Longrightarrow> wildcardName n = Some name \<Longrightarrow> usable_name used name"
  by (cases n) auto

lemma obj_set_new: "usable_name used name \<Longrightarrow> set (keys_of ob) \<subseteq> used \<Longrightarrow> obj_set name v ob = ob @ [(name, v)]"
  using keys_update_new [of name ob v] by (auto simp: obj_set_def usable_name_def)

lemma delete_new: "usable_name used name \<Longrightarrow> set (keys_of ob) \<subseteq> used \<Longrightarrow> AList.delete name (ob @ [(name, v)]) = ob"
  by (auto simp: delete_eq_filter usable_name_def filter_id_conv intro!: filter_True)

lemma decodeParam_Inr: "decodeParam strict s = Inr u \<Longrightarrow> decodeURIComponent s = Some u"
  by (auto simp: decodeParam_def decodeSegment_def split: option.splits sum.splits if_splits)

text \<open>What the walk leaves: nothing where it fails, the bindings of the pattern where it succeeds.\<close>

definition walk_binds ::
    "('h, 'x) node \<Rightarrow> methd \<Rightarrow> string list \<Rightarrow> params \<Rightarrow> raw_params \<Rightarrow> ('h, 'x) node option \<Rightarrow> params \<Rightarrow> raw_params \<Rightarrow> bool" where
  "walk_binds n m segs ps rs res ps' rs' =
     (case res of
        None \<Rightarrow> ps' = ps \<and> rs' = rs
      | Some n' \<Rightarrow> \<exists>pat r w us. pat_match pat segs \<and> route_at n pat m = Some r \<and> map_of (routes n') m = Some r
          \<and> rs' = rs @ raw_bindings w pat segs \<and> ps' = ps @ us \<and> decodes_to (raw_bindings w pat segs) us)"

lemma or_else_binds:
  assumes "or_else x k = Inr (res, ps', rs')" and "\<And>r0 p0 q0. x = Inr (r0, p0, q0) \<Longrightarrow> walk_binds n m segs ps rs r0 p0 q0"
    and "k ps rs = Inr (res, ps', rs') \<Longrightarrow> walk_binds n m segs ps rs res ps' rs'"
  shows "walk_binds n m segs ps rs res ps' rs'"
proof (cases x)
  case (Inl e)
  then show ?thesis using assms(1) by simp
next
  case (Inr t)
  obtain r0 p0 q0 where t: "t = (r0, p0, q0)" by (cases t)
  show ?thesis
  proof (cases r0)
    case None
    then have "p0 = ps" "q0 = rs" using assms(2) [of r0 p0 q0] Inr t by (auto simp: walk_binds_def)
    then show ?thesis using assms(1,3) Inr t None by simp
  next
    case (Some n0)
    then show ?thesis using assms(1,2) Inr t by simp
  qed
qed

lemma matchNode_binds:
  "matchNode strict m n segs ps rs = Inr (res, ps', rs') \<Longrightarrow> wf_node n \<Longrightarrow> clean_names used n \<Longrightarrow>
   set (keys_of ps) \<subseteq> used \<Longrightarrow> set (keys_of rs) \<subseteq> used \<Longrightarrow> walk_binds n m segs ps rs res ps' rs'"
proof (induction segs arbitrary: n ps rs res ps' rs' used)
  case Nil
  show ?case
  proof (cases "map_of (routes n) m")
    case None
    then show ?thesis using Nil(1) by (simp add: walk_binds_def)
  next
    case (Some r)
    then have "res = Some n" "ps' = ps" "rs' = rs" using Nil(1) by simp_all
    moreover have "pat_match [] [] \<and> route_at n [] m = Some r \<and> map_of (routes n) m = Some r
        \<and> rs = rs @ raw_bindings [] [] [] \<and> ps = ps @ [] \<and> decodes_to (raw_bindings [] [] []) []"
      using Some by (simp add: decodes_to_def)
    ultimately show ?thesis unfolding walk_binds_def \<open>res = Some n\<close> option.case by blast
  qed
next
  case (Cons seg segs)
  note names = wf_names [OF Cons.prems(2)]
  let ?A = "case map_of (children n) seg of None \<Rightarrow> Inr (None, ps, rs) | Some c \<Rightarrow> matchNode strict m c segs ps rs"
  let ?B = "\<lambda>ps rs. case (paramChild n, paramName n) of
             (Some pc, Some name) \<Rightarrow>
               if name = [] then Inr (None, ps, rs)
               else (case decodeParam strict seg of
                   Inl e \<Rightarrow> Inl e
                 | Inr v \<Rightarrow>
                     or_else (matchNode strict m pc segs (obj_set name v ps) (obj_set name seg rs))
                       (\<lambda>ps rs. Inr (None, AList.delete name ps, AList.delete name rs)))
           | _ \<Rightarrow> Inr (None, ps, rs)"
  let ?C = "\<lambda>ps rs. case (wildcardChild n, wildcardName n) of
               (Some wc, Some name) \<Rightarrow>
                 if name \<noteq> [] \<and> map_of (routes wc) m \<noteq> None then
                   (let raw = join ''/'' (seg # segs) in
                    case decodeSegment raw of
                      Inl e \<Rightarrow> Inl e
                    | Inr v \<Rightarrow> Inr (Some wc, obj_set name v ps, obj_set name raw rs))
                 else Inr (None, ps, rs)
             | _ \<Rightarrow> Inr (None, ps, rs)"
  have static: "walk_binds n m (seg # segs) ps rs r0 p0 q0" if A: "?A = Inr (r0, p0, q0)" for r0 p0 q0
  proof (cases "map_of (children n) seg")
    case None
    then show ?thesis using A by (auto simp: walk_binds_def)
  next
    case (Some c)
    then have w: "walk_binds c m segs ps rs r0 p0 q0"
      using A wf_child [OF Cons.prems(2) Some] clean_child [OF Cons.prems(3) Some] Cons.prems(4,5) by (intro Cons.IH) auto
    have st: "\<not> is_param_seg seg" "\<not> is_wild_seg seg" using wf_child [OF Cons.prems(2) Some] by (auto simp: is_static_seg_def)
    show ?thesis
    proof (cases r0)
      case None
      then show ?thesis using w by (simp add: walk_binds_def)
    next
      case r0: (Some n0)
      with w obtain pat r w us where "pat_match pat segs" "route_at c pat m = Some r" "map_of (routes n0) m = Some r"
        "q0 = rs @ raw_bindings w pat segs" "p0 = ps @ us" "decodes_to (raw_bindings w pat segs) us" by (auto simp: walk_binds_def)
      then have "pat_match (seg # pat) (seg # segs) \<and> route_at n (seg # pat) m = Some r \<and> map_of (routes n0) m = Some r
        \<and> q0 = rs @ raw_bindings w (seg # pat) (seg # segs) \<and> p0 = ps @ us \<and> decodes_to (raw_bindings w (seg # pat) (seg # segs)) us"
        using st Some by simp
      then show ?thesis unfolding walk_binds_def r0 option.case by blast
    qed
  qed
  have param: "walk_binds n m (seg # segs) ps rs r0 p0 q0" if B: "?B ps rs = Inr (r0, p0, q0)" for r0 p0 q0
  proof (cases "\<exists>c name v. paramChild n = Some c \<and> paramName n = Some name \<and> name \<noteq> [] \<and> decodeParam strict seg = Inr v")
    case False
    then show ?thesis using B by (auto simp: walk_binds_def split: option.splits if_splits sum.splits)
  next
    case True
    then obtain c name v where c: "paramChild n = Some c" "paramName n = Some name" "name \<noteq> []" "decodeParam strict seg = Inr v" by blast
    note cl = clean_param [OF Cons.prems(3) c(1,2)]
    have os: "obj_set name v ps = ps @ [(name, v)]" "obj_set name seg rs = rs @ [(name, seg)]"
      by (rule obj_set_new [OF cl [THEN conjunct1] Cons.prems(4)], rule obj_set_new [OF cl [THEN conjunct1] Cons.prems(5)])
    have or: "or_else (matchNode strict m c segs (ps @ [(name, v)]) (rs @ [(name, seg)]))
        (\<lambda>ps rs. Inr (None, AList.delete name ps, AList.delete name rs)) = Inr (r0, p0, q0)"
      using B c by (simp add: os)
    obtain r1 p1 q1 where M: "matchNode strict m c segs (ps @ [(name, v)]) (rs @ [(name, seg)]) = Inr (r1, p1, q1)"
      using or by (cases "matchNode strict m c segs (ps @ [(name, v)]) (rs @ [(name, seg)])") auto
    have w: "walk_binds c m segs (ps @ [(name, v)]) (rs @ [(name, seg)]) r1 p1 q1"
      by (rule Cons.IH [OF M wf_param [OF Cons.prems(2) c(1)] cl [THEN conjunct2]]) (use Cons.prems(4,5) in auto)
    show ?thesis
    proof (cases r1)
      case None
      then have "p1 = ps @ [(name, v)]" "q1 = rs @ [(name, seg)]" using w by (auto simp: walk_binds_def)
      moreover have "AList.delete name (ps @ [(name, v)]) = ps" "AList.delete name (rs @ [(name, seg)]) = rs"
        by (rule delete_new [OF cl [THEN conjunct1] Cons.prems(4)], rule delete_new [OF cl [THEN conjunct1] Cons.prems(5)])
      ultimately have "r0 = None \<and> p0 = ps \<and> q0 = rs"
        using or unfolding M None by simp
      then show ?thesis by (simp add: walk_binds_def)
    next
      case r1: (Some n0)
      then have e: "r0 = Some n0" "p0 = p1" "q0 = q1" using or M by auto
      obtain pat r w us where b: "pat_match pat segs" "route_at c pat m = Some r" "map_of (routes n0) m = Some r"
        "q1 = rs @ [(name, seg)] @ raw_bindings w pat segs" "p1 = ps @ [(name, v)] @ us" "decodes_to (raw_bindings w pat segs) us"
        using w r1 by (auto simp: walk_binds_def)
      let ?p = "CHR '':'' # name"
      have "pat_match (?p # pat) (seg # segs) \<and> route_at n (?p # pat) m = Some r \<and> map_of (routes n0) m = Some r
        \<and> q0 = rs @ raw_bindings w (?p # pat) (seg # segs) \<and> p0 = ps @ ((name, v) # us)
        \<and> decodes_to (raw_bindings w (?p # pat) (seg # segs)) ((name, v) # us)"
        using b c e decodeParam_Inr [OF c(4)] by (simp add: decodes_to_def)
      then show ?thesis unfolding walk_binds_def e(1) option.case by blast
    qed
  qed
  have wild: "walk_binds n m (seg # segs) ps rs res ps' rs'" if C: "?C ps rs = Inr (res, ps', rs')"
  proof (cases "\<exists>c name u r. wildcardChild n = Some c \<and> wildcardName n = Some name \<and> name \<noteq> [] \<and> map_of (routes c) m = Some r
      \<and> decodeSegment (join ''/'' (seg # segs)) = Inr u")
    case False
    then show ?thesis using C by (auto simp: walk_binds_def Let_def split: option.splits if_splits sum.splits)
  next
    case True
    then obtain c name u r where c: "wildcardChild n = Some c" "wildcardName n = Some name" "name \<noteq> []" "map_of (routes c) m = Some r"
      "decodeSegment (join ''/'' (seg # segs)) = Inr u" by blast
    note cl = clean_wild [OF Cons.prems(3) c(2)]
    have os: "obj_set name u ps = ps @ [(name, u)]" "obj_set name t rs = rs @ [(name, t)]" for t
      by (rule obj_set_new [OF cl Cons.prems(4)], rule obj_set_new [OF cl Cons.prems(5)])
    have "res = Some c" "ps' = ps @ [(name, u)]" "rs' = rs @ [(name, join ''/'' (seg # segs))]" using C c os by (auto simp: Let_def)
    moreover have "decodeURIComponent (join ''/'' (seg # segs)) = Some u" using c(5) by (auto simp: decodeSegment_def split: option.splits)
    moreover have "pat_match [''*''] (seg # segs) \<and> route_at n [''*''] m = Some r" using c by simp
    ultimately have "pat_match [''*''] (seg # segs) \<and> route_at n [''*''] m = Some r \<and> map_of (routes c) m = Some r
        \<and> rs' = rs @ raw_bindings name [''*''] (seg # segs) \<and> ps' = ps @ [(name, u)]
        \<and> decodes_to (raw_bindings name [''*''] (seg # segs)) [(name, u)]"
      using c(4) by (simp add: decodes_to_def)
    then show ?thesis unfolding walk_binds_def \<open>res = Some c\<close> option.case by blast
  qed
  have "or_else ?A (\<lambda>ps rs. or_else (?B ps rs) ?C) = Inr (res, ps', rs')" using Cons.prems(1) by simp
  then show ?case
    by (rule or_else_binds) (use static param wild in \<open>auto elim!: or_else_binds\<close>)
qed

end
