(* ===== verification/Registry.thy ===== *)
theory Registry
  imports Prelude
begin

text \<open>
  The interface of a registry that refuses a duplicate: an operation that adds a value
  under the key the value determines, or reports an error and leaves the registry as it
  was. The router is one (key: pattern and method). What a client relies on is proved once
  here: a registered value stays what it is whatever is added afterwards.
\<close>

locale exclusive_registry =
  fixes lookup :: "'s \<Rightarrow> 'k \<Rightarrow> 'v option"
    and add :: "'s \<Rightarrow> 'v \<Rightarrow> 'e option \<times> 's"
    and key :: "'v \<Rightarrow> 'k"
    and inv :: "'s \<Rightarrow> bool"
  assumes add_ok: "inv s \<Longrightarrow> add s v = (None, s') \<Longrightarrow>
      lookup s (key v) = None \<and> lookup s' = (lookup s)(key v \<mapsto> v)"
    and add_error: "inv s \<Longrightarrow> add s v = (Some e, s') \<Longrightarrow> lookup s' = lookup s"
    and add_inv: "inv s \<Longrightarrow> inv (snd (add s v))"
begin

lemma add_duplicate: "inv s \<Longrightarrow> lookup s (key v) \<noteq> None \<Longrightarrow> fst (add s v) \<noteq> None"
  by (metis add_ok prod.collapse)

lemma add_stable: "inv s \<Longrightarrow> lookup s k = Some v \<Longrightarrow> lookup (snd (add s w)) k = Some v"
proof (cases "fst (add s w)")
  case None
  assume "inv s" and "lookup s k = Some v"
  moreover from this None have "lookup s (key w) = None \<and> lookup (snd (add s w)) = (lookup s)(key w \<mapsto> w)"
    by (metis add_ok prod.collapse)
  ultimately show ?thesis by auto
next
  case (Some e)
  assume "inv s" and "lookup s k = Some v"
  with Some show ?thesis by (metis add_error prod.collapse)
qed

lemma adds_stable:
  "inv s \<Longrightarrow> lookup s k = Some v \<Longrightarrow>
   inv (fold (\<lambda>w s. snd (add s w)) ws s) \<and> lookup (fold (\<lambda>w s. snd (add s w)) ws s) k = Some v"
  by (induction ws arbitrary: s) (simp_all add: add_inv add_stable)

lemma adds_inv: "inv s \<Longrightarrow> inv (fold (\<lambda>w s. snd (add s w)) ws s)"
  by (induction ws arbitrary: s) (simp_all add: add_inv)

lemma adds_registered:
  assumes "inv s" and "lookup s = Map.empty"
    and "lookup (fold (\<lambda>w s. snd (add s w)) ws s) k = Some v"
  shows "v \<in> set ws \<and> key v = k"
  using assms
proof (induction ws arbitrary: k v rule: rev_induct)
  case Nil
  then show ?case by simp
next
  case (snoc w ws)
  define t where "t = fold (\<lambda>w s. snd (add s w)) ws s"
  have t: "inv t" using snoc.prems(1) by (simp add: t_def adds_inv)
  obtain e t' where a: "add t w = (e, t')" by force
  have l: "lookup t' k = Some v" using snoc.prems(3) a by (simp add: t_def)
  show ?case
  proof (cases e)
    case None
    with add_ok [OF t] a have "lookup t' = (lookup t)(key w \<mapsto> w)" by simp
    with l snoc.IH [OF snoc.prems(1,2)] show ?thesis by (auto simp: t_def split: if_splits)
  next
    case (Some e')
    with add_error [OF t] a have "lookup t' = lookup t" by simp
    with l snoc.IH [OF snoc.prems(1,2)] show ?thesis by (auto simp: t_def)
  qed
qed

end

end
