(* ===== verification/Router_Match.thy ===== *)
theory Router_Match
  imports Router_Names Registry
begin

text \<open>
  Matching finds exactly the registered patterns; the fast path, \<open>hasPath\<close> and
  \<open>allowedMethods\<close> agree with it. \<open>router_inv\<close> is the invariant every sequence of
  registrations keeps.
\<close>

section \<open>matchNode against the patterns\<close>

lemma matchNode_sound:
  "matchNode strict m n segs ps rs = Inr (Some n', ps', rs') \<Longrightarrow> wf_node n \<Longrightarrow>
   \<exists>pat r. pat_match pat segs \<and> route_at n pat m = Some r \<and> map_of (routes n') m = Some r"
proof (induction segs arbitrary: n ps rs n' ps' rs')
  case Nil
  then obtain r where "map_of (routes n') m = Some r" "n' = n" by (auto split: if_splits)
  then have "pat_match [] [] \<and> route_at n [] m = Some r \<and> map_of (routes n') m = Some r" by simp
  then show ?case by blast
next
  case (Cons seg segs)
  note names = wf_names [OF Cons.prems(2)]
  have static: ?case if c: "map_of (children n) seg = Some c"
    and r: "matchNode strict m c segs qs ts = Inr (Some n', ps', rs')" for c qs ts
  proof -
    from wf_child [OF Cons.prems(2) c] have "wf_node c" and st: "is_static_seg seg" by auto
    with Cons.IH [OF r] obtain pat r0 where
      "pat_match pat segs" "route_at c pat m = Some r0" "map_of (routes n') m = Some r0" by blast
    with c st show ?thesis
      by (intro exI [of _ "seg # pat"] exI [of _ r0]) (auto simp: is_static_seg_def)
  qed
  have param: ?case if c: "paramChild n = Some c" and nm: "paramName n = Some name" "name \<noteq> []"
    and r: "matchNode strict m c segs qs ts = Inr (Some n', ps', rs')" for c name qs ts
  proof -
    from Cons.IH [OF r wf_param [OF Cons.prems(2) c]] obtain pat r0 where
      "pat_match pat segs" "route_at c pat m = Some r0" "map_of (routes n') m = Some r0" by blast
    with c nm show ?thesis
      by (intro exI [of _ "(CHR '':'' # name) # pat"] exI [of _ r0]) auto
  qed
  have wild: ?case if c: "wildcardChild n = Some n'" and "map_of (routes n') m = Some r0" for r0
    using that by (intro exI [of _ "[''*'']"] exI [of _ r0]) auto
  obtain ps1 rs1 res1 where step1: "(case map_of (children n) seg of
        None \<Rightarrow> Inr (None, ps, rs) | Some c \<Rightarrow> matchNode strict m c segs ps rs) = Inr (res1, ps1, rs1)"
    using Cons.prems(1) by (cases "map_of (children n) seg") (auto split: sum.splits elim: or_else.elims)
  show ?case
  proof (cases res1)
    case (Some n1)
    with step1 Cons.prems(1) have "Inr (Some n1, ps1, rs1) = Inr (Some n', ps', rs')" by simp
    with Some step1 static show ?thesis by (cases "map_of (children n) seg") auto
  next
    case None
    with step1 Cons.prems(1) have rest: "or_else
          (case (paramChild n, paramName n) of
             (Some pc, Some name) \<Rightarrow>
               if name = [] then Inr (None, ps1, rs1)
               else (case decodeParam strict seg of
                   Inl e \<Rightarrow> Inl e
                 | Inr v \<Rightarrow>
                     or_else (matchNode strict m pc segs (obj_set name v ps1) (obj_set name seg rs1))
                       (\<lambda>ps rs. Inr (None, AList.delete name ps, AList.delete name rs)))
           | _ \<Rightarrow> Inr (None, ps1, rs1))
          (\<lambda>ps rs.
             case (wildcardChild n, wildcardName n) of
               (Some wc, Some name) \<Rightarrow>
                 if name \<noteq> [] \<and> map_of (routes wc) m \<noteq> None then
                   (let raw = join ''/'' (seg # segs) in
                    case decodeSegment raw of
                      Inl e \<Rightarrow> Inl e
                    | Inr v \<Rightarrow> Inr (Some wc, obj_set name v ps, obj_set name raw rs))
                 else Inr (None, ps, rs)
             | _ \<Rightarrow> Inr (None, ps, rs)) = Inr (Some n', ps', rs')"
      by simp
    show ?thesis
    proof (cases "\<exists>pc name v. paramChild n = Some pc \<and> paramName n = Some name \<and> name \<noteq> [] \<and>
        decodeParam strict seg = Inr v \<and>
        matchNode strict m pc segs (obj_set name v ps1) (obj_set name seg rs1) = Inr (Some n', ps', rs')")
      case True
      with param show ?thesis by blast
    next
      case False
      with rest have "wildcardChild n = Some n' \<and> map_of (routes n') m \<noteq> None"
        by (auto simp: Let_def split: option.splits if_splits sum.splits prod.splits elim!: or_else.elims)
      with wild show ?thesis by auto
    qed
  qed
qed

lemma matchNode_complete:
  "matchNode strict m n segs ps rs = Inr (None, ps', rs') \<Longrightarrow> wf_node n \<Longrightarrow> pat_match pat segs \<Longrightarrow>
   route_at n pat m = None"
proof (induction segs arbitrary: n ps rs ps' rs' pat)
  case Nil
  then show ?case by (cases pat) (auto split: if_splits)
next
  case (Cons seg segs)
  note names = wf_names [OF Cons.prems(2)]
  from Cons.prems(3) obtain p qs where pat: "pat = p # qs" by (cases pat) auto
  from Cons.prems(1) have st: "map_of (children n) seg = Some c \<Longrightarrow> \<exists>ps1 rs1. matchNode strict m c segs ps rs = Inr (None, ps1, rs1)" for c
    by (auto elim!: or_else.elims)
  from Cons.prems(1) obtain ps1 rs1 where s1: "(case map_of (children n) seg of
        None \<Rightarrow> Inr (None, ps, rs) | Some c \<Rightarrow> matchNode strict m c segs ps rs) = Inr (None, ps1, rs1)"
    by (auto elim!: or_else.elims)
  have pa: "\<exists>qs ts ps2 rs2. matchNode strict m c segs qs ts = Inr (None, ps2, rs2)"
    if "paramChild n = Some c" "paramName n = Some name" "name \<noteq> []" for c name
    using Cons.prems(1) that s1 by (auto split: sum.splits elim!: or_else.elims)
  obtain ps2 rs2 where s2: "(case (paramChild n, paramName n) of
             (Some pc, Some name) \<Rightarrow>
               if name = [] then Inr (None, ps1, rs1)
               else (case decodeParam strict seg of
                   Inl e \<Rightarrow> Inl e
                 | Inr v \<Rightarrow>
                     or_else (matchNode strict m pc segs (obj_set name v ps1) (obj_set name seg rs1))
                       (\<lambda>ps rs. Inr (None, AList.delete name ps, AList.delete name rs)))
           | _ \<Rightarrow> Inr (None, ps1, rs1)) = Inr (None, ps2, rs2)"
    using Cons.prems(1) s1 by (auto elim!: or_else.elims)
  have wi: "map_of (routes c) m = None" if c: "wildcardChild n = Some c" for c
  proof -
    from names c obtain name where "wildcardName n = Some name" "name \<noteq> []" by (cases "wildcardName n") auto
    with Cons.prems(1) s1 s2 c show ?thesis
      by (auto simp: Let_def split: if_splits sum.splits)
  qed
  show ?case
  proof (cases "is_param_seg p")
    case True
    then have "\<not> is_wild_seg p" by (rule param_not_wild)
    with Cons.prems(3) pat True have q: "tl p \<noteq> []" "pat_match qs segs" by auto
    show ?thesis
    proof (cases "paramName n = Some (tl p)")
      case True': True
      with names obtain c where c: "paramChild n = Some c" by (cases "paramChild n") auto
      from pa [OF c True' q(1)] obtain a b d e where "matchNode strict m c segs a b = Inr (None, d, e)" by blast
      from Cons.IH [OF this wf_param [OF Cons.prems(2) c] q(2)] c True' True pat show ?thesis by simp
    next
      case False
      with True pat show ?thesis by simp
    qed
  next
    case False
    show ?thesis
    proof (cases "is_wild_seg p")
      case True
      with False pat wi show ?thesis by (auto split: option.splits)
    next
      case F: False
      with False Cons.prems(3) pat have q: "p = seg" "pat_match qs segs" by auto
      show ?thesis
      proof (cases "map_of (children n) seg")
        case None
        with False F pat q show ?thesis by simp
      next
        case (Some c)
        from st [OF Some] obtain a b where "matchNode strict m c segs ps rs = Inr (None, a, b)" by blast
        from Cons.IH [OF this _ q(2)] wf_child [OF Cons.prems(2) Some] Some False F pat q
        show ?thesis by simp
      qed
    qed
  qed
qed

lemma matchNode_static:
  "list_all is_static_seg segs \<Longrightarrow> route_at n segs m = Some r \<Longrightarrow>
   \<exists>n'. matchNode strict m n segs ps rs = Inr (Some n', ps, rs) \<and> map_of (routes n') m = Some r"
proof (induction segs arbitrary: n)
  case Nil
  then show ?case by simp
next
  case (Cons seg segs)
  then have "\<not> is_param_seg seg" "\<not> is_wild_seg seg" by (auto simp: is_static_seg_def)
  with Cons.prems(2) obtain c where c: "map_of (children n) seg = Some c" "route_at c segs m = Some r"
    by (auto split: option.splits)
  from Cons.IH [OF _ c(2)] Cons.prems(1) obtain n' where
    "matchNode strict m c segs ps rs = Inr (Some n', ps, rs)" "map_of (routes n') m = Some r" by auto
  with c show ?case by simp
qed

section \<open>The routes of the tree\<close>

lemma leaf_routes:
  "leaf_node n \<Longrightarrow> collectRoutes n = map snd (routes n)"
  by (cases n) (simp add: leaf_node_def)

lemma distinct_map_of_iff: "distinct (map fst rs) \<Longrightarrow> r \<in> set (map snd rs) \<longleftrightarrow> (\<exists>m. map_of rs m = Some r)"
  by (force dest: map_of_SomeD intro: map_of_is_SomeI)

lemma route_at_ConsE:
  assumes "route_at n (p # ps) m = Some r"
  obtains (param) c where "is_param_seg p" "paramName n = Some (tl p)" "paramChild n = Some c" "route_at c ps m = Some r"
    | (wild) c where "is_wild_seg p" "wildcardChild n = Some c" "map_of (routes c) m = Some r"
    | (static) c where "is_static_seg p" "map_of (children n) p = Some c" "route_at c ps m = Some r"
  using assms by (auto simp: is_static_seg_def split: if_splits option.splits)

lemma collectRoutes_iff:
  "wf_node n \<Longrightarrow> r \<in> set (collectRoutes n) \<longleftrightarrow> (\<exists>pat m. route_at n pat m = Some r)"
proof (induction n rule: collectRoutes.induct)
  case (1 sg cs pc pn wc wn rs)
  let ?n = "Node sg cs pc pn wc wn rs"
  note IHc = "1.IH"(1) and IHp = "1.IH"(2)
  have w: "list_all (\<lambda>(k, c). is_static_seg k \<and> wf_node c) cs" "distinct (map fst rs)" "distinct (map fst cs)"
    using "1.prems" by auto
  have own: "r \<in> set (map snd rs) \<longleftrightarrow> (\<exists>m. route_at ?n [] m = Some r)"
    using distinct_map_of_iff [OF w(2)] by simp
  have stat: "(\<exists>(k, c) \<in> set cs. r \<in> set (collectRoutes c)) \<longleftrightarrow>
      (\<exists>p ps m c. is_static_seg p \<and> map_of cs p = Some c \<and> route_at c ps m = Some r)"
  proof -
    have "\<And>k c. (k, c) \<in> set cs \<Longrightarrow> is_static_seg k \<and> map_of cs k = Some c \<and>
        (r \<in> set (collectRoutes c) \<longleftrightarrow> (\<exists>pat m. route_at c pat m = Some r))"
      using w IHc by (force simp: list_all_iff intro: map_of_is_SomeI)
    then show ?thesis by (fastforce dest: map_of_SomeD)
  qed
  have par: "pc = Some c \<Longrightarrow> r \<in> set (collectRoutes c) \<longleftrightarrow> (\<exists>pat m. route_at c pat m = Some r)" for c
    using IHp "1.prems" by auto
  have wld: "wc = Some c \<Longrightarrow> r \<in> set (collectRoutes c) \<longleftrightarrow> (\<exists>m. map_of (routes c) m = Some r)" for c
  proof -
    assume "wc = Some c"
    with "1.prems" have "leaf_node c" "distinct (map fst (routes c))" by (cases c; auto)+
    then show ?thesis by (simp only: leaf_routes distinct_map_of_iff)
  qed
  show ?case
  proof
    assume "r \<in> set (collectRoutes ?n)"
    then consider "r \<in> set (map snd rs)" | "\<exists>(k, c) \<in> set cs. r \<in> set (collectRoutes c)"
      | c where "pc = Some c" "r \<in> set (collectRoutes c)" | c where "wc = Some c" "r \<in> set (collectRoutes c)"
      by (auto split: option.splits)
    then show "\<exists>pat m. route_at ?n pat m = Some r"
    proof cases
      case 1
      with own show ?thesis by blast
    next
      case 2
      with stat obtain p ps m c where "is_static_seg p" "map_of cs p = Some c" "route_at c ps m = Some r"
        by blast
      then have "route_at ?n (p # ps) m = Some r" by (simp add: is_static_seg_def)
      then show ?thesis by blast
    next
      case (3 c)
      with par obtain ps m where "route_at c ps m = Some r" by blast
      moreover from 3 "1.prems" obtain nm where "pn = Some nm" by auto
      ultimately have "route_at ?n ((CHR '':'' # nm) # ps) m = Some r" using 3 by simp
      then show ?thesis by blast
    next
      case (4 c)
      with wld obtain m where "map_of (routes c) m = Some r" by blast
      with 4 have "route_at ?n [''*''] m = Some r" by simp
      then show ?thesis by blast
    qed
  next
    assume "\<exists>pat m. route_at ?n pat m = Some r"
    then obtain pat m where r: "route_at ?n pat m = Some r" by blast
    show "r \<in> set (collectRoutes ?n)"
    proof (cases pat)
      case Nil
      with r own show ?thesis by auto
    next
      case (Cons p ps)
      from r [unfolded Cons] show ?thesis
      proof (cases rule: route_at_ConsE)
        case (param c)
        with par show ?thesis by auto
      next
        case (wild c)
        with wld show ?thesis by auto
      next
        case (static c)
        then have "is_static_seg p" "map_of cs p = Some c" "route_at c ps m = Some r" by simp_all
        with stat have "\<exists>(k, c) \<in> set cs. r \<in> set (collectRoutes c)" by blast
        then have "r \<in> set (concat (map (\<lambda>(k, c). collectRoutes c) cs))" by auto
        then show ?thesis by simp
      qed
    qed
  qed
qed

section \<open>The invariant of a router\<close>

definition router_inv :: "('h, 'x) router \<Rightarrow> bool" where
  "router_inv rt \<longleftrightarrow>
     wf_node (root rt) \<and>
     (\<forall>pat m r. route_at (root rt) pat m = Some r \<longrightarrow>
        rmethod r = m \<and> norm_pat (splitPath (rurl r)) = norm_pat pat) \<and>
     (\<forall>key m r. static_lookup rt key m = Some r \<longrightarrow>
        list_all is_static_seg (splitPath key) \<and> route_at (root rt) (splitPath key) m = Some r) \<and>
     (\<forall>key. map_of (staticRoutes rt) key \<noteq> Some [])"

text \<open>The abstract map: from a pattern (up to the name of a wildcard) and a method.\<close>

definition route_lookup :: "('h, 'x) router \<Rightarrow> string list \<times> methd \<Rightarrow> ('h, 'x) route option" where
  "route_lookup rt k = (if norm_pat (fst k) = fst k then route_at (root rt) (fst k) (snd k) else None)"

definition route_key :: "('h, 'x) route \<Rightarrow> string list \<times> methd" where
  "route_key r = (norm_pat (splitPath (rurl r)), rmethod r)"

lemma router_inv_new: "router_inv (newRouter a b)"
  by (simp add: router_inv_def newRouter_def static_lookup_def)

lemma norm_pat_idem [simp]: "norm_pat (norm_pat ps) = norm_pat ps"
  by (induction ps) auto

lemma route_lookup_key: "route_lookup rt (norm_pat ps, m) = route_at (root rt) ps m"
  by (simp add: route_lookup_def route_at_norm)

lemma addRouteObj_root:
  assumes "addRouteObj rt r = (e, rt')"
  shows "insert_at (rmethod r) r (splitPath (rurl r)) (root rt) = (e, root rt') \<and>
         ignoreTrailingSlash rt' = ignoreTrailingSlash rt \<and> strictParams rt' = strictParams rt"
  using assms by (auto simp: addRouteObj_def Let_def split: prod.splits option.splits if_splits)

lemma static_lookup_add:
  assumes "addRouteObj rt r = (e, rt')"
  shows "static_lookup rt' key m =
    (if e = None \<and> list_all is_static_seg (splitPath (rurl r)) \<and> key = normalizePathname (rurl r) \<and> m = rmethod r
     then Some r else static_lookup rt key m)"
  using assms
  by (auto simp: addRouteObj_def Let_def static_lookup_def map_of_update split: prod.splits option.splits if_splits)

lemma staticRoutes_add_nonempty:
  assumes "addRouteObj rt r = (e, rt')" and "\<forall>key. map_of (staticRoutes rt) key \<noteq> Some []"
  shows "\<forall>key. map_of (staticRoutes rt') key \<noteq> Some []"
proof -
  have ne: "AList.update m x al \<noteq> []" for m and x :: "('h, 'x) route" and al by (cases al) auto
  from assms ne show ?thesis
    by (auto simp: addRouteObj_def Let_def map_of_update split: prod.splits option.splits if_splits)
qed

lemma add_lookup:
  assumes "router_inv rt" and "addRouteObj rt r = (e, rt')"
  shows "route_at (root rt') ps m =
      (if e = None \<and> norm_pat ps = norm_pat (splitPath (rurl r)) \<and> m = rmethod r then Some r
       else route_at (root rt) ps m)"
    and "e = None \<Longrightarrow> route_at (root rt) (splitPath (rurl r)) (rmethod r) = None"
  using insert_route_at [of "rmethod r" r "splitPath (rurl r)" "root rt" e "root rt'"]
    addRouteObj_root [OF assms(2)] assms(1)
  by (auto simp: router_inv_def)

lemma addRoute_inv:
  assumes inv: "router_inv rt" and a: "addRouteObj rt r = (e, rt')"
  shows "router_inv rt'"
proof -
  have wf: "wf_node (root rt')"
    using insert_wf addRouteObj_root [OF a] inv by (auto simp: router_inv_def)
  have tree: "rmethod q = m \<and> norm_pat (splitPath (rurl q)) = norm_pat pat"
    if "route_at (root rt') pat m = Some q" for pat m q
    using that add_lookup(1) [OF inv a, of pat m] inv by (auto simp: router_inv_def split: if_splits)
  have fast: "list_all is_static_seg (splitPath key) \<and> route_at (root rt') (splitPath key) m = Some q"
    if s: "static_lookup rt' key m = Some q" for key m q
  proof (cases "e = None \<and> list_all is_static_seg (splitPath (rurl r)) \<and> key = normalizePathname (rurl r) \<and> m = rmethod r")
    case True
    with s static_lookup_add [OF a, of key m] add_lookup(1) [OF inv a, of "splitPath key" m]
    show ?thesis by (simp add: splitPath_normalize)
  next
    case False
    with s static_lookup_add [OF a, of key m] have "static_lookup rt key m = Some q" by (auto split: if_splits)
    with inv have old: "list_all is_static_seg (splitPath key)" "route_at (root rt) (splitPath key) m = Some q"
      by (auto simp: router_inv_def)
    with add_lookup(1) [OF inv a, of "splitPath key" m] add_lookup(2) [OF inv a] show ?thesis
      by (metis option.distinct(1) route_at_norm)
  qed
  show ?thesis
    using wf tree fast staticRoutes_add_nonempty [OF a] inv unfolding router_inv_def by metis
qed

interpretation routes_registry: exclusive_registry route_lookup addRouteObj route_key router_inv
proof unfold_locales
  fix s :: "('h, 'x) router" and v s'
  assume i: "router_inv s" and a: "addRouteObj s v = (None, s')"
  from add_lookup [OF i a]
  show "route_lookup s (route_key v) = None \<and> route_lookup s' = (route_lookup s)(route_key v \<mapsto> v)"
    by (auto simp: route_key_def route_lookup_def route_at_norm fun_eq_iff)
next
  fix s :: "('h, 'x) router" and v e s'
  assume i: "router_inv s" and a: "addRouteObj s v = (Some e, s')"
  from add_lookup(1) [OF i a] show "route_lookup s' = route_lookup s"
    by (simp add: route_lookup_def fun_eq_iff)
next
  fix s :: "('h, 'x) router" and v
  assume "router_inv s"
  then show "router_inv (snd (addRouteObj s v))" by (metis addRoute_inv prod.collapse)
qed

text \<open>A router as an application builds it: registrations in order, refused ones included.\<close>

definition build_router :: "bool option \<Rightarrow> bool option \<Rightarrow> ('h, 'x) route list \<Rightarrow> ('h, 'x) router" where
  "build_router its sp rs = fold (\<lambda>r rt. snd (addRouteObj rt r)) rs (newRouter its sp)"

lemma build_inv: "router_inv (build_router its sp rs)"
  unfolding build_router_def by (rule routes_registry.adds_inv [OF router_inv_new])

lemma all_routes_iff:
  assumes "router_inv rt"
  shows "r \<in> set (getAllRoutes rt) \<longleftrightarrow> route_at (root rt) (splitPath (rurl r)) (rmethod r) = Some r"
proof -
  from assms have "wf_node (root rt)" by (simp add: router_inv_def)
  then have "r \<in> set (getAllRoutes rt) \<longleftrightarrow> (\<exists>pat m. route_at (root rt) pat m = Some r)"
    unfolding getAllRoutes_def by (rule collectRoutes_iff)
  moreover have "route_at (root rt) pat m = Some r \<Longrightarrow> route_at (root rt) (splitPath (rurl r)) (rmethod r) = Some r" for pat m
    using assms unfolding router_inv_def by (metis route_at_norm)
  ultimately show ?thesis by blast
qed

section \<open>Properties of the router\<close>

text \<open>
  Registration is exclusive and permanent: in a router built by any sequence of
  registrations, a route that is reachable under its pattern and method was one of those
  registered; it stays registered under every further registration; and a second route
  with the same pattern and method is refused.
\<close>

theorem registration_exclusive:
  assumes "route_lookup (build_router its sp rs) (route_key r) = Some q"
  shows "q \<in> set rs \<and> route_key q = route_key r \<and>
         route_lookup (build_router its sp (rs @ later)) (route_key r) = Some q \<and>
         fst (addRouteObj (build_router its sp rs) r) \<noteq> None"
proof -
  have "route_lookup (newRouter its sp :: ('a, 'b) router) = Map.empty"
    by (simp add: route_lookup_def newRouter_def fun_eq_iff)
  note reg = routes_registry.adds_registered [OF router_inv_new this, of rs]
  have "build_router its sp (rs @ later) = fold (\<lambda>r rt. snd (addRouteObj rt r)) later (build_router its sp rs)"
    by (simp add: build_router_def)
  with assms reg routes_registry.adds_stable [OF build_inv assms, of later]
    routes_registry.add_duplicate [OF build_inv, of its sp rs r]
  show ?thesis by (auto simp: build_router_def)
qed

theorem registration_exclusive_witness:
  "(let r = mkRoute GET ''/users'' (0::nat) Serverless (None :: nat option) None None in
    route_lookup (build_router None None [r]) (route_key r) = Some r \<and>
    fst (addRouteObj (build_router None None [r]) r) \<noteq> None)"
proof -
  define r where "r = mkRoute GET ''/users'' (0::nat) Serverless (None :: nat option) None None"
  have h: "route_lookup (build_router None None [r]) (route_key r) = Some r"
    by (simp add: r_def build_router_def newRouter_def addRouteObj_def mkRoute_def route_lookup_def
        route_key_def splitPath_def createNode_def is_static_seg_def Let_def)
  from registration_exclusive [OF h] h show ?thesis by (simp add: Let_def r_def [symmetric])
qed

lemma matchNode_error:
  "matchNode strict m n segs ps rs = Inl e \<Longrightarrow> e = malformedURI \<or> e = invalidPathParam"
proof (induction segs arbitrary: n ps rs)
  case Nil
  then show ?case by simp
next
  case (Cons seg segs)
  have oe: "or_else x k = Inl e \<Longrightarrow> x = Inl e \<or> (\<exists>ps rs. x = Inr (None, ps, rs) \<and> k ps rs = Inl e)"
    for x :: "('a, 'b) walk" and k by (induction x k rule: or_else.induct) auto
  have ds: "decodeSegment s = Inl e \<Longrightarrow> e = malformedURI" for s
    by (auto simp: decodeSegment_def split: option.splits)
  have dp: "decodeParam strict s = Inl e \<Longrightarrow> e = malformedURI \<or> e = invalidPathParam" for s
    by (auto simp: decodeParam_def dest: ds split: sum.splits if_splits)
  show ?case
  proof (rule ccontr)
    assume "\<not> ?case"
    with Cons.prems dp ds Cons.IH show False
      by (auto simp: Let_def dest!: oe split: option.splits if_splits sum.splits)
  qed
qed

lemma slow_match_error: "slow_match rt m c = Inl e \<Longrightarrow> e = malformedURI \<or> e = invalidPathParam"
  by (auto simp: slow_match_def dest: matchNode_error split: sum.splits option.splits prod.splits)

lemma slow_match_None:
  assumes inv: "router_inv rt" and none: "slow_match rt m c = Inr None"
    and r: "r \<in> set (getAllRoutes rt)" "rmethod r = m"
  shows "\<not> pat_match (splitPath (rurl r)) (splitPath c)"
proof
  assume pm: "pat_match (splitPath (rurl r)) (splitPath c)"
  from inv have wf: "wf_node (root rt)" by (simp add: router_inv_def)
  let ?w = "matchNode (strictParams rt) m (root rt) (splitPath c) [] []"
  have "\<exists>ps rs. ?w = Inr (None, ps, rs)"
  proof (rule ccontr)
    assume "\<not> ?thesis"
    with none obtain n ps rs where w: "?w = Inr (Some n, ps, rs)" and "map_of (routes n) m = None"
      by (auto simp: slow_match_def split: sum.splits option.splits prod.splits)
    with matchNode_sound [OF w wf] show False by auto
  qed
  then obtain ps rs where "?w = Inr (None, ps, rs)" by blast
  from matchNode_complete [OF this wf pm] r all_routes_iff [OF inv, of r] show False by simp
qed

lemma slow_match_Some:
  assumes inv: "router_inv rt" and some: "slow_match rt m c = Inr (Some mt)"
  shows "mroute mt \<in> set (getAllRoutes rt) \<and> rmethod (mroute mt) = m \<and>
         mhandler mt = rhandler (mroute mt) \<and> pat_match (splitPath (rurl (mroute mt))) (splitPath c)"
proof -
  from inv have wf: "wf_node (root rt)" by (simp add: router_inv_def)
  from some obtain n ps rs r where w: "matchNode (strictParams rt) m (root rt) (splitPath c) [] [] = Inr (Some n, ps, rs)"
    and r: "map_of (routes n) m = Some r" and mt: "mroute mt = r" "mhandler mt = rhandler r"
    by (auto simp: slow_match_def split: sum.splits option.splits prod.splits)
  from matchNode_sound [OF w wf] r obtain pat where
    q: "pat_match pat (splitPath c)" "route_at (root rt) pat m = Some r" by auto
  with inv have n: "rmethod r = m" "norm_pat (splitPath (rurl r)) = norm_pat pat" by (auto simp: router_inv_def)
  with q have "route_at (root rt) (splitPath (rurl r)) (rmethod r) = Some r" by (metis route_at_norm)
  moreover have "pat_match (splitPath (rurl r)) (splitPath c)" using q n by (metis pat_match_norm)
  ultimately show ?thesis using n mt all_routes_iff [OF inv, of r] by simp
qed

lemma static_fast_slow:
  assumes "router_inv rt"
  shows "(case static_lookup rt c m of
     Some r \<Rightarrow> Inr (Some \<lparr>mhandler = rhandler r, mparams = [], mrawParams = [], mroute = r\<rparr>)
   | None \<Rightarrow> slow_match rt m c) = slow_match rt m c"
proof (cases "static_lookup rt c m")
  case (Some r)
  with assms have "list_all is_static_seg (splitPath c)" "route_at (root rt) (splitPath c) m = Some r"
    by (auto simp: router_inv_def)
  from matchNode_static [OF this, of "strictParams rt" "[]" "[]"] Some show ?thesis
    by (auto simp: slow_match_def)
qed simp

text \<open>
  C28. The fast path is an optimisation only: for every request the answer through the
  static table is the answer of the tree walk alone.
\<close>

theorem fast_path_equiv:
  assumes "router_inv rt"
  shows "match_route rt m p =
     (case canonicalizePath p (ignoreTrailingSlash rt) of None \<Rightarrow> Inr None | Some c \<Rightarrow> slow_match rt m c)"
  using static_fast_slow [OF assms] by (simp add: match_route_def split: option.splits)

theorem fast_path_equiv_witness:
  "(let rt = build_router None None [mkRoute GET ''/users'' (0::nat) Serverless (None :: nat option) None None] in
    match_route rt GET ''/users/'' = slow_match rt GET ''/users'')"
proof -
  define rt where "rt = build_router None None [mkRoute GET ''/users'' (0::nat) Serverless (None :: nat option) None None]"
  have i: "router_inv rt" unfolding rt_def by (rule build_inv)
  have "ignoreTrailingSlash rt"
    by (simp add: rt_def build_router_def newRouter_def addRouteObj_def Let_def split: prod.splits option.splits)
  moreover have "canonicalizePath ''/users/'' True = Some ''/users''"
    by (simp add: canonicalizePath_def no_dot_segment_def)
  ultimately have "match_route rt GET ''/users/'' = slow_match rt GET ''/users''"
    using fast_path_equiv [OF i, of GET "''/users/''"] by simp
  then show ?thesis by (simp add: rt_def)
qed

lemma raw_bindings_norm: "raw_bindings w (norm_pat ps) ss = raw_bindings w ps ss"
  by (induction w ps ss rule: raw_bindings.induct) auto

text \<open>Registrations whose patterns repeat no name keep the names on every way down the tree apart.\<close>

lemma build_names:
  fixes rs :: "('h, 'x) route list"
  assumes "\<forall>r \<in> set rs. names_distinct r"
  shows "clean_names {} (root (build_router its sp rs))"
proof -
  have "clean_names {} (root (snd (addRouteObj rt r)))"
    if "clean_names {} (root rt)" "wf_node (root rt)" "names_distinct r" for rt and r :: "('h, 'x) route"
    using insert_clean [of "rmethod r" r "splitPath (rurl r)" "root rt" _ _ "{}"] that
      addRouteObj_root [of rt r "fst (addRouteObj rt r)" "snd (addRouteObj rt r)"]
    by (auto simp: names_distinct_def)
  then have "router_inv rt \<Longrightarrow> clean_names {} (root rt) \<Longrightarrow> clean_names {} (root (fold (\<lambda>r rt. snd (addRouteObj rt r)) rs rt))" for rt :: "('h, 'x) router"
    using assms
  proof (induction rs arbitrary: rt)
    case (Cons r rs)
    moreover have "router_inv (snd (addRouteObj rt r))" using addRoute_inv [OF Cons.prems(1), of r] by (metis prod.collapse)
    moreover have "wf_node (root rt)" using Cons.prems(1) by (simp add: router_inv_def)
    ultimately show ?case by simp
  qed simp
  moreover have "clean_names {} (root (newRouter its sp))" by (simp add: newRouter_def)
  ultimately show ?thesis unfolding build_router_def using router_inv_new by blast
qed

lemma slow_match_params:
  assumes inv: "router_inv rt" and names: "clean_names {} (root rt)" and some: "slow_match rt m c = Inr (Some mt)"
  shows "\<exists>w. mrawParams mt = raw_bindings w (splitPath (rurl (mroute mt))) (splitPath c) \<and> decodes_to (mrawParams mt) (mparams mt)"
proof -
  from some obtain n ps rs r where w: "matchNode (strictParams rt) m (root rt) (splitPath c) [] [] = Inr (Some n, ps, rs)"
    and r: "map_of (routes n) m = Some r" and mt: "mroute mt = r" "mparams mt = ps" "mrawParams mt = rs"
    by (auto simp: slow_match_def split: sum.splits option.splits prod.splits)
  have "walk_binds (root rt) m (splitPath c) [] [] (Some n) ps rs"
    by (rule matchNode_binds [OF w _ names]) (use inv in \<open>simp_all add: router_inv_def\<close>)
  then obtain pat w where b: "route_at (root rt) pat m = Some r" "rs = raw_bindings w pat (splitPath c)" "decodes_to rs ps"
    using r by (auto simp: walk_binds_def)
  have "norm_pat (splitPath (rurl r)) = norm_pat pat" using inv b(1) by (auto simp: router_inv_def)
  then have "rs = raw_bindings w (splitPath (rurl r)) (splitPath c)" using b(2) by (metis raw_bindings_norm)
  then show ?thesis unfolding mt using b(3) by blast
qed


lemma match_route_sound:
  assumes "router_inv rt" and "match_route rt m p = Inr (Some mt)"
  shows "mroute mt \<in> set (getAllRoutes rt)"
proof -
  obtain c where c: "canonicalizePath p (ignoreTrailingSlash rt) = Some c"
    using assms(2) by (auto simp: match_route_def split: option.splits)
  have "match_route rt m p = slow_match rt m c"
    using static_fast_slow [OF assms(1), of m c] by (simp add: match_route_def c)
  then show ?thesis using slow_match_Some [OF assms(1), of m c] assms(2) by auto
qed

definition demo_router :: "(nat, nat) router" where
  "demo_router = build_router None None
     [mkRoute GET ''/users/me'' 0 Serverless None None None,
      mkRoute GET ''/users/:id'' 1 Serverless None None None,
      mkRoute DELETE ''/users/:id'' 2 Serverless None None None,
      mkRoute GET ''/files/*path'' 3 Serverless None None None]"

lemmas router_eval = demo_router_def build_router_def newRouter_def addRouteObj_def mkRoute_def
  splitPath_def createNode_def is_static_seg_def Let_def normalizePathname_def static_lookup_def
  match_route_def slow_match_def canonicalizePath_def no_dot_segment_def opt_list_def
  getAllRoutes_def decodeParam_def decodeSegment_def obj_set_def

lemma demo_match: "case match_route demo_router GET ''/users/7'' of
    Inr (Some mt) \<Rightarrow> mhandler mt = 1 \<and> mparams mt = [(''id'', uni ''7'')] | _ \<Rightarrow> False"
  by (simp add: router_eval decode_no_escape)


section \<open>405 detection and the Allow header\<close>

lemma has_path_collect: "has_path_at n segs \<longleftrightarrow> collectMethods n segs \<noteq> []"
  by (induction n segs rule: has_path_at.induct) (auto split: option.splits)

lemma collectMethods_route:
  "m \<in> set (collectMethods n segs) \<Longrightarrow> wf_node n \<Longrightarrow>
   \<exists>pat r. route_at n pat m = Some r \<and> norm_pat pat = pat \<and> ('':'' \<notin> set pat \<longrightarrow> pat_match pat segs)"
proof (induction n segs rule: collectMethods.induct)
  case (1 n)
  then obtain r where "map_of (routes n) m = Some r" by (auto dest: weak_map_of_SomeI)
  then show ?case by (intro exI [of _ "[]"] exI [of _ r]) simp
next
  case (2 n seg segs)
  from "2.prems"(1) consider (st) c where "map_of (children n) seg = Some c" "m \<in> set (collectMethods c segs)"
    | (pa) c where "paramChild n = Some c" "m \<in> set (collectMethods c segs)"
    by (cases "map_of (children n) seg"; cases "paramChild n") auto
  then show ?case
  proof cases
    case (st c)
    from wf_child [OF "2.prems"(2) st(1)] have w: "wf_node c" "is_static_seg seg" by auto
    from "2.IH"(1) [OF st w(1)] obtain pat r where "route_at c pat m = Some r" "norm_pat pat = pat"
      "'':'' \<notin> set pat \<longrightarrow> pat_match pat segs" by blast
    with st w show ?thesis
      by (intro exI [of _ "seg # pat"] exI [of _ r]) (auto simp: is_static_seg_def)
  next
    case (pa c)
    from "2.IH"(2) [OF pa wf_param [OF "2.prems"(2) pa(1)]] obtain pat r where
      "route_at c pat m = Some r" "norm_pat pat = pat" "'':'' \<notin> set pat \<longrightarrow> pat_match pat segs" by blast
    moreover obtain nm where "paramName n = Some nm" using wf_names [OF "2.prems"(2)] pa by (cases "paramName n") auto
    ultimately show ?thesis
      using pa by (intro exI [of _ "(CHR '':'' # nm) # pat"] exI [of _ r]) auto
  qed
qed

text \<open>A route whose URL has an empty parameter name (\<open>/:\<close>) is never matched by the walk.\<close>

definition named_params :: "('h, 'x) router \<Rightarrow> bool" where
  "named_params rt = list_all (\<lambda>r. '':'' \<notin> set (splitPath (rurl r))) (getAllRoutes rt)"

lemma norm_pat_subset: "'':'' \<in> set (norm_pat ps) \<Longrightarrow> '':'' \<in> set ps"
  by (induction ps) (auto split: if_splits)

lemma pat_match_static_self: "list_all is_static_seg ss \<Longrightarrow> pat_match ss ss"
  by (induction ss) (auto simp: is_static_seg_def)

definition found_methods :: "('h, 'x) router \<Rightarrow> string \<Rightarrow> methd list" where
  "found_methods rt c = (case map_of (staticRoutes rt) c of None \<Rightarrow> [] | Some mm \<Rightarrow> keys_of mm) @
                 collectMethods (root rt) (splitPath c)"

lemma found_route:
  assumes inv: "router_inv rt" and nm: "named_params rt" and found: "m \<in> set (found_methods rt c)"
  shows "\<exists>r \<in> set (getAllRoutes rt). rmethod r = m \<and> pat_match (splitPath (rurl r)) (splitPath c)"
proof -
  have wf: "wf_node (root rt)" using inv by (simp add: router_inv_def)
  obtain pat r where r: "route_at (root rt) pat m = Some r" "norm_pat pat = pat"
    "'':'' \<notin> set pat \<longrightarrow> pat_match pat (splitPath c)"
  proof (cases "m \<in> set (collectMethods (root rt) (splitPath c))")
    case True
    with collectMethods_route [OF _ wf] that show ?thesis by blast
  next
    case False
    with found obtain mm where "map_of (staticRoutes rt) c = Some mm" "m \<in> set (keys_of mm)"
      by (cases "map_of (staticRoutes rt) c") (auto simp: found_methods_def)
    then obtain q where "static_lookup rt c m = Some q"
      by (auto simp: static_lookup_def dest: weak_map_of_SomeI)
    with inv have "list_all is_static_seg (splitPath c)" "route_at (root rt) (splitPath c) m = Some q"
      by (auto simp: router_inv_def)
    with that [of "splitPath c" q] show ?thesis by (simp add: norm_pat_static pat_match_static_self)
  qed
  from r inv have n: "rmethod r = m" "norm_pat (splitPath (rurl r)) = pat" by (auto simp: router_inv_def)
  then have "route_at (root rt) (splitPath (rurl r)) (rmethod r) = Some r" using r by (metis route_at_norm)
  then have mem: "r \<in> set (getAllRoutes rt)" by (simp add: all_routes_iff [OF inv])
  with nm have "'':'' \<notin> set (splitPath (rurl r))" by (simp add: named_params_def list_all_iff)
  with n norm_pat_subset have "'':'' \<notin> set pat" by metis
  with r n have "pat_match (splitPath (rurl r)) (splitPath c)" by (metis pat_match_norm)
  with mem n show ?thesis by blast
qed

lemma found_matches:
  assumes inv: "router_inv rt" and nm: "named_params rt"
    and c: "canonicalizePath p (ignoreTrailingSlash rt) = Some c" and found: "m \<in> set (found_methods rt c)"
  shows "match_route rt m p \<noteq> Inr None"
proof
  assume "match_route rt m p = Inr None"
  then have "slow_match rt m c = Inr None"
    using static_fast_slow [OF inv, of m c] by (simp add: match_route_def c)
  with found_route [OF inv nm found] slow_match_None [OF inv] show False by blast
qed

lemma allowedMethods_found:
  "canonicalizePath p (ignoreTrailingSlash rt) = Some c \<Longrightarrow>
   set (allowedMethods rt p) = set (found_methods rt c) \<union> (if GET \<in> set (found_methods rt c) then {HEAD} else {})"
  by (auto simp: allowedMethods_def found_methods_def Let_def METHOD_ORDER_all)

text \<open>
  The \<open>Allow\<close> header is right: the methods come in the canonical order without
  repetition; there is one exactly when \<open>hasPath\<close> reports the path (so a 405 always has a
  non-empty \<open>Allow\<close>); and every method listed is answered by a registered route, \<open>HEAD\<close>
  possibly through the route of \<open>GET\<close>.
\<close>

theorem allow_header_correct:
  assumes inv: "router_inv rt" and nm: "named_params rt"
  shows "sorted (allowedMethods rt p) \<and> distinct (allowedMethods rt p) \<and>
         (hasPath rt p \<longleftrightarrow> allowedMethods rt p \<noteq> []) \<and>
         (\<forall>m \<in> set (allowedMethods rt p). match_route rt m p \<noteq> Inr None \<or> m = HEAD \<and> match_route rt GET p \<noteq> Inr None)"
proof (cases "canonicalizePath p (ignoreTrailingSlash rt)")
  case None
  then show ?thesis by (simp add: allowedMethods_def hasPath_def)
next
  case (Some c)
  note set = allowedMethods_found [OF Some]
  have so: "sorted (allowedMethods rt p) \<and> distinct (allowedMethods rt p)"
    using METHOD_ORDER_sorted Some by (simp add: allowedMethods_def Let_def sorted_wrt_filter)
  have "hasPath rt p \<longleftrightarrow> set (found_methods rt c) \<noteq> {}"
    using inv Some by (auto simp: hasPath_def found_methods_def has_path_collect router_inv_def split: option.splits)
  then have hp: "hasPath rt p \<longleftrightarrow> allowedMethods rt p \<noteq> []"
    using set by (metis Un_empty set_empty2 empty_iff)
  have "\<forall>m \<in> set (allowedMethods rt p). match_route rt m p \<noteq> Inr None \<or> m = HEAD \<and> match_route rt GET p \<noteq> Inr None"
    using set found_matches [OF inv nm Some] by (auto split: if_splits)
  with so hp show ?thesis by blast
qed

theorem allow_header_correct_witness:
  "allowedMethods demo_router ''/users/7'' = [GET, HEAD, DELETE] \<and> hasPath demo_router ''/users/7'' \<and>
   match_route demo_router DELETE ''/users/7'' \<noteq> Inr None"
proof -
  have i: "router_inv demo_router" unfolding demo_router_def by (rule build_inv)
  have n: "named_params demo_router" by (simp add: named_params_def router_eval)
  have a: "allowedMethods demo_router ''/users/7'' = [GET, HEAD, DELETE]"
    by (simp add: allowedMethods_def METHOD_ORDER_def router_eval)
  from allow_header_correct [OF i n, of "''/users/7''"] a show ?thesis by simp
qed

end
