(* ===== verification/Lease_Queue.thy ===== *)
theory Lease_Queue
  imports Js_String
begin

text \<open>
  The queue interface of \<open>packages/core/src/queue.ts\<close>: the message and dead-letter types
  and what a worker relies on when it settles a job under a lease (\<open>QueueBackend\<close>).

  \<open>lease_queue\<close> states the contract of \<open>ack\<close>, \<open>nack\<close> and \<open>deadLetter\<close> over two views of a
  backend's state: who holds the lease of a job, and which jobs are pending. The operations
  act only under the current lease; a stale lease changes neither view.
\<close>

record task_failure =
  fattempt :: nat
  ferror :: string
  failedAt :: time

record 'i queue_message =
  mid :: string
  taskName :: string
  input :: 'i
  attempt :: nat
  maxRetries :: int
  createdAt :: time
  availableAt :: time
  deliveries :: "nat option"
  leaseToken :: "string option"
  failures :: "task_failure list option"

record 'i dead_entry =
  dmessage :: "'i queue_message"
  derror :: string
  dfailures :: "task_failure list"
  deadLetteredAt :: time

definition add_failure :: "task_failure \<Rightarrow> task_failure list option \<Rightarrow> task_failure list" where
  "add_failure f fs = (case fs of None \<Rightarrow> [f] | Some xs \<Rightarrow> xs @ [f])"

lemma add_failure_nonempty [simp]: "add_failure f fs \<noteq> []"
  by (simp add: add_failure_def split: option.splits)

locale lease_queue =
  fixes ack :: "string \<Rightarrow> string option \<Rightarrow> 'q \<Rightarrow> 'q"
    and nack :: "time \<Rightarrow> string \<Rightarrow> int \<Rightarrow> string option \<Rightarrow> task_failure option \<Rightarrow> 'q \<Rightarrow> 'q"
    and dead_letter :: "'i dead_entry \<Rightarrow> string option \<Rightarrow> 'q \<Rightarrow> 'q"
    and holder :: "'q \<Rightarrow> string \<Rightarrow> string option"
    and pending :: "'q \<Rightarrow> string set"
    and inv :: "'q \<Rightarrow> bool"
  assumes leased_not_pending: "inv q \<Longrightarrow> holder q i = Some t \<Longrightarrow> i \<notin> pending q"
    and ack_held: "inv q \<Longrightarrow> holder q i = Some t \<Longrightarrow>
        inv (ack i (Some t) q) \<and> holder (ack i (Some t) q) = (holder q)(i := None) \<and>
        pending (ack i (Some t) q) = pending q"
    and ack_stale: "inv q \<Longrightarrow> holder q i \<noteq> Some t \<Longrightarrow> ack i (Some t) q = q"
    and nack_held: "inv q \<Longrightarrow> holder q i = Some t \<Longrightarrow>
        inv (nack now i d (Some t) f q) \<and> holder (nack now i d (Some t) f q) = (holder q)(i := None) \<and>
        pending (nack now i d (Some t) f q) = insert i (pending q)"
    and nack_stale: "inv q \<Longrightarrow> holder q i \<noteq> Some t \<Longrightarrow> nack now i d (Some t) f q = q"
    and dead_held: "inv q \<Longrightarrow> holder q (mid (dmessage e)) = Some t \<Longrightarrow>
        inv (dead_letter e (Some t) q) \<and>
        holder (dead_letter e (Some t) q) = (holder q)(mid (dmessage e) := None) \<and>
        pending (dead_letter e (Some t) q) = pending q"
    and dead_stale: "inv q \<Longrightarrow> holder q (mid (dmessage e)) \<noteq> Some t \<Longrightarrow>
        inv (dead_letter e (Some t) q) \<and> holder (dead_letter e (Some t) q) = holder q \<and>
        pending (dead_letter e (Some t) q) = pending q"

end
