(* ===== verification/Task_Worker.thy ===== *)
theory Task_Worker
  imports Lease_Queue
begin

text \<open>
  The task system of \<open>packages/core/src/task.ts\<close>: the registry and its timeout check, the
  worker's handling of one message, its polling loop, and \<open>createEnqueue\<close>.

  \<^item> \<open>backend\<close> is a \<open>QueueBackend\<close> as the worker sees it; \<open>deadLetter\<close> and \<open>extend\<close> are
    optional. Every call returns whether its promise resolved, with the backend's state.
  \<^item> A handler runs between the delivery and the settling of a message, and the backend
    may change meanwhile. \<open>outcome\<close> is how the race of the handler against its timer ended,
    and \<open>settle_message\<close> is the rest of \<open>processMessage\<close>, applied to the backend's state at
    that moment. User hooks and the log are the \<open>wevent\<close>s it emits, in order.
  \<^item> \<open>worker_step\<close> is the polling loop with several jobs in progress. \<open>start()\<close> while a
    loop stopped earlier still waits for \<open>pop()\<close> is not covered.
\<close>

section \<open>Definitions and registry\<close>

record task_definition =
  tname :: string
  tretries :: "int option"
  ttimeout :: "int option"
  tlongRunning :: bool

definition DEFAULT_TASK_TIMEOUT :: int where
  "DEFAULT_TASK_TIMEOUT = 25000"

datatype task_error =
    TimeoutNotBelowVisibility string int int
  | LongRunningWithoutHeartbeat string int
  | UnknownTask string

record registry =
  tasks :: "(string, task_definition) omap"
  visibilityTimeout :: "int option"
  backendCanHeartbeat :: bool

definition newRegistry :: registry where
  "newRegistry = \<lparr>tasks = [], visibilityTimeout = None, backendCanHeartbeat = False\<rparr>"

definition assertTimeoutIsSafe :: "registry \<Rightarrow> task_definition \<Rightarrow> task_error option" where
  "assertTimeoutIsSafe reg d =
     (case (visibilityTimeout reg, ttimeout d) of
        (Some visibility, Some timeout) \<Rightarrow>
          if timeout < visibility then None
          else if \<not> tlongRunning d then Some (TimeoutNotBelowVisibility (tname d) timeout visibility)
          else if \<not> backendCanHeartbeat reg then Some (LongRunningWithoutHeartbeat (tname d) visibility)
          else None
      | _ \<Rightarrow> None)"

definition register :: "task_definition \<Rightarrow> registry \<Rightarrow> task_error + registry" where
  "register d reg =
     (case assertTimeoutIsSafe reg d of
        Some e \<Rightarrow> Inl e
      | None \<Rightarrow> Inr (reg\<lparr>tasks := AList.update (tname d) d (tasks reg)\<rparr>))"

fun first_error :: "('a \<Rightarrow> 'e option) \<Rightarrow> 'a list \<Rightarrow> 'e option" where
  "first_error f [] = None"
| "first_error f (x # xs) = (case f x of Some e \<Rightarrow> Some e | None \<Rightarrow> first_error f xs)"

text \<open>The constraints are stored before the registered tasks are checked, and stay stored when
  a task fails the check.\<close>

definition setQueueConstraints :: "int option \<Rightarrow> bool \<Rightarrow> registry \<Rightarrow> task_error option \<times> registry" where
  "setQueueConstraints vis canHeartbeat reg =
     (let reg' = reg\<lparr>visibilityTimeout := vis, backendCanHeartbeat := canHeartbeat\<rparr>
      in (first_error (assertTimeoutIsSafe reg') (map snd (tasks reg')), reg'))"

definition reg_get :: "registry \<Rightarrow> string \<Rightarrow> task_definition option" where
  "reg_get reg name = map_of (tasks reg) name"

definition reg_has :: "registry \<Rightarrow> string \<Rightarrow> bool" where
  "reg_has reg name = (map_of (tasks reg) name \<noteq> None)"

definition reg_list :: "registry \<Rightarrow> task_definition list" where
  "reg_list reg = map snd (tasks reg)"

section \<open>The backend\<close>

record ('q, 'i) backend =
  b_ack :: "string \<Rightarrow> string option \<Rightarrow> 'q \<Rightarrow> bool \<times> 'q"
  b_nack :: "time \<Rightarrow> string \<Rightarrow> int \<Rightarrow> string option \<Rightarrow> task_failure option \<Rightarrow> 'q \<Rightarrow> bool \<times> 'q"
  b_deadLetter :: "('i dead_entry \<Rightarrow> string option \<Rightarrow> 'q \<Rightarrow> bool \<times> 'q) option"
  b_extend :: "(time \<Rightarrow> string \<Rightarrow> string \<Rightarrow> int option \<Rightarrow> 'q \<Rightarrow> bool option \<times> 'q) option"
  b_visibility :: "int option"

section \<open>Settling one message\<close>

datatype outcome = Resolved | Rejected string | TimedOut

datatype 'i wevent =
    OnFailure "'i queue_message" string "task_failure list" bool "int option"
  | OnDeadLetter "'i dead_entry"
  | LogWarn string
  | LogError string

text \<open>The worker's configuration. A user hook is given by whether it throws on an event.\<close>

record 'i worker_config =
  concurrency :: nat
  onFailure :: "('i wevent \<Rightarrow> bool) option"
  onDeadLetter :: "('i wevent \<Rightarrow> bool) option"
  wvisibility :: int

definition emit :: "string \<Rightarrow> ('i wevent \<Rightarrow> bool) option \<Rightarrow> 'i wevent \<Rightarrow> 'i wevent list" where
  "emit name hook ev =
     (case hook of
        None \<Rightarrow> []
      | Some throws \<Rightarrow> ev # (if throws ev then [LogError (''Task worker '' @ name @ '' hook threw'')] else []))"

definition safeAck ::
  "('q, 'i) backend \<Rightarrow> string \<Rightarrow> string option \<Rightarrow> 'q \<Rightarrow> 'i wevent list \<times> 'q" where
  "safeAck b i tok q =
     (case b_ack b i tok q of
        (True, q') \<Rightarrow> ([], q')
      | (False, q') \<Rightarrow> ([LogError ''Failed to ack queue message''], q'))"

definition safeNack ::
  "('q, 'i) backend \<Rightarrow> time \<Rightarrow> string \<Rightarrow> int \<Rightarrow> string option \<Rightarrow> task_failure option \<Rightarrow> 'q \<Rightarrow> 'i wevent list \<times> 'q" where
  "safeNack b now i delay tok failure q =
     (case b_nack b now i delay tok failure q of
        (True, q') \<Rightarrow> ([], q')
      | (False, q') \<Rightarrow> ([LogError ''Failed to nack queue message''], q'))"

definition failPermanently ::
  "'i worker_config \<Rightarrow> ('q, 'i) backend \<Rightarrow> time \<Rightarrow> 'i queue_message \<Rightarrow> string option \<Rightarrow> string \<Rightarrow>
     task_failure list \<Rightarrow> 'q \<Rightarrow> 'i wevent list \<times> 'q" where
  "failPermanently cfg b now m tok err fs q =
     (let entry = \<lparr>dmessage = m\<lparr>failures := Some fs\<rparr>, derror = err, dfailures = fs, deadLetteredAt = now\<rparr> in
      case b_deadLetter b of
        Some dl \<Rightarrow>
          (case dl entry tok q of
             (True, q') \<Rightarrow>
               (LogError ''Task dead-lettered'' # emit ''onDeadLetter'' (onDeadLetter cfg) (OnDeadLetter entry), q')
           | (False, q') \<Rightarrow>
               ([LogError ''Failed to dead-letter task; leaving it in-flight for redelivery''], q'))
      | None \<Rightarrow>
          (let (evs, q') = safeAck b (mid m) tok q
           in (LogError ''Discarding permanently failed task: queue backend has no dead-letter queue''
               # emit ''onDeadLetter'' (onDeadLetter cfg) (OnDeadLetter entry) @ evs, q')))"

definition retries_of :: "task_definition \<Rightarrow> int" where
  "retries_of d = (case tretries d of None \<Rightarrow> 0 | Some r \<Rightarrow> r)"

definition retry_delay :: "nat \<Rightarrow> int" where
  "retry_delay attempts = min (1000 * 2 ^ attempts) 30000"

definition handleFailure ::
  "'i worker_config \<Rightarrow> ('q, 'i) backend \<Rightarrow> time \<Rightarrow> 'i queue_message \<Rightarrow> string option \<Rightarrow> task_definition \<Rightarrow>
     string \<Rightarrow> 'q \<Rightarrow> 'i wevent list \<times> 'q" where
  "handleFailure cfg b now m tok d err q =
     (let retries = retries_of d;
          failure = \<lparr>fattempt = attempt m, ferror = err, failedAt = now\<rparr>;
          fs = add_failure failure (failures m);
          willRetry = int (attempt m) < retries;
          retryDelay = (if willRetry then Some (retry_delay (attempt m)) else None);
          evs = emit ''onFailure'' (onFailure cfg) (OnFailure m err fs willRetry retryDelay)
      in if willRetry then
           (let (evs', q') = safeNack b now (mid m) (case retryDelay of None \<Rightarrow> 1000 | Some x \<Rightarrow> x) tok (Some failure) q
            in (evs @ LogWarn ''Task failed, retrying'' # evs', q'))
         else
           (let (evs', q') = failPermanently cfg b now m tok err fs q
            in (evs @ LogError ''Task failed permanently'' # evs', q')))"

text \<open>\<open>Math.floor(visibility * 0.8)\<close> is \<open>4 * visibility div 5\<close>.\<close>

definition resolveTimeout :: "int \<Rightarrow> task_definition \<Rightarrow> int" where
  "resolveTimeout vis d =
     (case ttimeout d of Some t \<Rightarrow> t | None \<Rightarrow> max 1 (min DEFAULT_TASK_TIMEOUT (4 * vis div 5)))"

definition timeout_error :: "string \<Rightarrow> int \<Rightarrow> string" where
  "timeout_error name t = ''Task '' @ [CHR 0x22] @ name @ [CHR 0x22] @ '' timed out after '' @ show_int t @ ''ms''"

definition unknown_task_error :: "string \<Rightarrow> string" where
  "unknown_task_error name = ''Unknown task: '' @ [CHR 0x22] @ name @ [CHR 0x22]"

definition settle_message ::
  "'i worker_config \<Rightarrow> registry \<Rightarrow> ('q, 'i) backend \<Rightarrow> time \<Rightarrow> 'i queue_message \<Rightarrow> outcome \<Rightarrow> 'q \<Rightarrow>
     'i wevent list \<times> 'q" where
  "settle_message cfg reg b now m out q =
     (let tok = leaseToken m in
      case reg_get reg (taskName m) of
        None \<Rightarrow>
          (let (evs, q') = failPermanently cfg b now m tok (unknown_task_error (taskName m)) [] q
           in (LogError ''Unknown task'' # evs, q'))
      | Some d \<Rightarrow>
          (case out of
             Resolved \<Rightarrow> safeAck b (mid m) tok q
           | Rejected err \<Rightarrow> handleFailure cfg b now m tok d err q
           | TimedOut \<Rightarrow> handleFailure cfg b now m tok d
               (timeout_error (taskName m) (resolveTimeout (wvisibility cfg) d)) q))"

definition heartbeat ::
  "('q, 'i) backend \<Rightarrow> time \<Rightarrow> 'i queue_message \<Rightarrow> int option \<Rightarrow> 'q \<Rightarrow> bool \<times> 'i wevent list \<times> 'q" where
  "heartbeat b now m extraMs q =
     (case (b_extend b, leaseToken m) of
        (Some ext, Some tok) \<Rightarrow>
          if tok = [] then (False, [], q)
          else (case ext now (mid m) tok extraMs q of
              (Some True, q') \<Rightarrow> (True, [], q')
            | (Some False, q') \<Rightarrow> (False, [LogWarn ''Task lease lost; another worker may now own this job''], q')
            | (None, q') \<Rightarrow> (False, [LogError ''Failed to extend task lease''], q'))
      | _ \<Rightarrow> (False, [], q))"

text \<open>The interval of the automatic heartbeat, when there is one.\<close>

definition startHeartbeat :: "'i worker_config \<Rightarrow> ('q, 'i) backend \<Rightarrow> 'i queue_message \<Rightarrow> int option" where
  "startHeartbeat cfg b m =
     (case (b_extend b, leaseToken m) of
        (Some _, Some tok) \<Rightarrow> if tok = [] then None else Some (max 250 (wvisibility cfg div 3))
      | _ \<Rightarrow> None)"

section \<open>Construction and enqueueing\<close>

definition newTaskWorker ::
  "registry \<Rightarrow> ('q, 'i) backend \<Rightarrow> nat option \<Rightarrow> ('i wevent \<Rightarrow> bool) option \<Rightarrow> ('i wevent \<Rightarrow> bool) option \<Rightarrow>
     (task_error + 'i worker_config \<times> 'i wevent list) \<times> registry" where
  "newTaskWorker reg b conc onF onD =
     (let (e, reg') = setQueueConstraints (b_visibility b) (b_extend b \<noteq> None) reg;
          cfg = \<lparr>concurrency = (case conc of None \<Rightarrow> 1 | Some n \<Rightarrow> n), onFailure = onF, onDeadLetter = onD,
                 wvisibility = (case b_visibility b of None \<Rightarrow> 30000 | Some v \<Rightarrow> v)\<rparr>
      in (case e of
            Some err \<Rightarrow> Inl err
          | None \<Rightarrow> Inr (cfg, if b_deadLetter b = None
              then [LogWarn ''Queue backend has no dead-letter support; permanently failed jobs will be dropped after their retries are exhausted'']
              else []), reg'))"

definition enqueue ::
  "registry \<Rightarrow> ('i queue_message \<Rightarrow> 'q \<Rightarrow> 'q) \<Rightarrow> string \<Rightarrow> time \<Rightarrow> string \<Rightarrow> 'i \<Rightarrow> 'q \<Rightarrow> task_error + string \<times> 'q" where
  "enqueue reg push i now name inp q =
     (case reg_get reg name of
        None \<Rightarrow> Inl (UnknownTask name)
      | Some d \<Rightarrow>
          Inr (i, push \<lparr>mid = i, taskName = name, input = inp, attempt = 0, maxRetries = retries_of d,
                        createdAt = now, availableAt = now, deliveries = Some 0, leaseToken = None,
                        failures = Some []\<rparr> q))"

section \<open>The polling loop\<close>

datatype loop_state = Stopped | Checking | Popping | Sleeping

record ('q, 'i) wstate =
  running :: bool
  loop :: loop_state
  active :: "'i queue_message list"
  wqueue :: 'q

text \<open>
  One step of a worker whose backend pops with \<open>pop\<close> (the resulting message and state are
  related to the state before) and settles a message with \<open>settle\<close>.
\<close>

inductive worker_step ::
  "nat \<Rightarrow> ('q \<Rightarrow> 'i queue_message option \<Rightarrow> 'q \<Rightarrow> bool) \<Rightarrow> ('i queue_message \<Rightarrow> 'q \<Rightarrow> 'q \<Rightarrow> bool) \<Rightarrow>
     ('q, 'i) wstate \<Rightarrow> ('q, 'i) wstate \<Rightarrow> bool"
  for conc :: nat and pop :: "'q \<Rightarrow> 'i queue_message option \<Rightarrow> 'q \<Rightarrow> bool"
    and settle :: "'i queue_message \<Rightarrow> 'q \<Rightarrow> 'q \<Rightarrow> bool" where
  start: "\<not> running w \<Longrightarrow> loop w = Stopped \<Longrightarrow>
    worker_step conc pop settle w (w\<lparr>running := True, loop := Checking\<rparr>)"
| check_pop: "loop w = Checking \<Longrightarrow> running w \<Longrightarrow> length (active w) < conc \<Longrightarrow>
    worker_step conc pop settle w (w\<lparr>loop := Popping\<rparr>)"
| check_full: "loop w = Checking \<Longrightarrow> running w \<Longrightarrow> conc \<le> length (active w) \<Longrightarrow>
    worker_step conc pop settle w (w\<lparr>loop := Sleeping\<rparr>)"
| check_stop: "loop w = Checking \<Longrightarrow> \<not> running w \<Longrightarrow>
    worker_step conc pop settle w (w\<lparr>loop := Stopped\<rparr>)"
| pop_some: "loop w = Popping \<Longrightarrow> pop (wqueue w) (Some m) q \<Longrightarrow>
    worker_step conc pop settle w (w\<lparr>loop := Checking, active := active w @ [m], wqueue := q\<rparr>)"
| pop_none: "loop w = Popping \<Longrightarrow> pop (wqueue w) None q \<Longrightarrow>
    worker_step conc pop settle w (w\<lparr>loop := (if running w then Sleeping else Stopped), wqueue := q\<rparr>)"
| pop_rejected: "loop w = Popping \<Longrightarrow>
    worker_step conc pop settle w (w\<lparr>loop := (if running w then Sleeping else Stopped)\<rparr>)"
| wake: "loop w = Sleeping \<Longrightarrow> running w \<Longrightarrow> worker_step conc pop settle w (w\<lparr>loop := Checking\<rparr>)"
| finish: "m \<in> set (active w) \<Longrightarrow> settle m (wqueue w) q \<Longrightarrow>
    worker_step conc pop settle w (w\<lparr>active := remove1 m (active w), wqueue := q\<rparr>)"
| stop: "worker_step conc pop settle w
    (w\<lparr>running := False, loop := (if loop w = Sleeping then Stopped else loop w)\<rparr>)"

inductive worker_run ::
  "nat \<Rightarrow> ('q \<Rightarrow> 'i queue_message option \<Rightarrow> 'q \<Rightarrow> bool) \<Rightarrow> ('i queue_message \<Rightarrow> 'q \<Rightarrow> 'q \<Rightarrow> bool) \<Rightarrow> 'q \<Rightarrow>
     ('q, 'i) wstate \<Rightarrow> bool"
  for conc :: nat and pop :: "'q \<Rightarrow> 'i queue_message option \<Rightarrow> 'q \<Rightarrow> bool"
    and settle :: "'i queue_message \<Rightarrow> 'q \<Rightarrow> 'q \<Rightarrow> bool" and q0 :: 'q where
  init: "worker_run conc pop settle q0 \<lparr>running = False, loop = Stopped, active = [], wqueue = q0\<rparr>"
| step: "worker_run conc pop settle q0 w \<Longrightarrow> worker_step conc pop settle w w' \<Longrightarrow> worker_run conc pop settle q0 w'"

inductive_cases worker_stepE: "worker_step conc pop settle w w'"

section \<open>Properties of the registry\<close>

definition timeout_safe :: "registry \<Rightarrow> task_definition \<Rightarrow> bool" where
  "timeout_safe reg d = (assertTimeoutIsSafe reg d = None)"

definition registry_safe :: "registry \<Rightarrow> bool" where
  "registry_safe reg = list_all (timeout_safe reg) (map snd (tasks reg))"

lemma first_error_None: "first_error f xs = None \<longleftrightarrow> (\<forall>x \<in> set xs. f x = None)"
  by (induction xs) (auto split: option.splits)

lemma set_update_subset: "set (AList.update k v m) \<subseteq> insert (k, v) (set m)"
  by (induction m) auto

lemma register_safe: "registry_safe reg \<Longrightarrow> register d reg = Inr reg' \<Longrightarrow> registry_safe reg'"
  using set_update_subset [of "tname d" d "tasks reg"]
  by (fastforce simp: register_def registry_safe_def timeout_safe_def list_all_iff assertTimeoutIsSafe_def
      split: option.splits)

lemma constraints_safe: "setQueueConstraints vis hb reg = (None, reg') \<Longrightarrow> registry_safe reg' \<and> visibilityTimeout reg' = vis \<and> backendCanHeartbeat reg' = hb"
  by (auto simp: setQueueConstraints_def Let_def registry_safe_def timeout_safe_def list_all_iff first_error_None)

lemma safe_timeout:
  assumes "timeout_safe reg d" and "visibilityTimeout reg = Some vis" and "1 < vis"
  shows "resolveTimeout vis d < vis \<or> tlongRunning d \<and> backendCanHeartbeat reg"
  using assms
  by (auto simp: timeout_safe_def assertTimeoutIsSafe_def resolveTimeout_def DEFAULT_TASK_TIMEOUT_def
      split: option.splits if_splits)

section \<open>Settling under a lease\<close>

text \<open>The backend made of operations that never reject.\<close>

definition reliable ::
  "(string \<Rightarrow> string option \<Rightarrow> 'q \<Rightarrow> 'q) \<Rightarrow>
   (time \<Rightarrow> string \<Rightarrow> int \<Rightarrow> string option \<Rightarrow> task_failure option \<Rightarrow> 'q \<Rightarrow> 'q) \<Rightarrow>
   ('i dead_entry \<Rightarrow> string option \<Rightarrow> 'q \<Rightarrow> 'q) \<Rightarrow>
   (time \<Rightarrow> string \<Rightarrow> string \<Rightarrow> int option \<Rightarrow> 'q \<Rightarrow> bool \<times> 'q) \<Rightarrow> int \<Rightarrow> ('q, 'i) backend" where
  "reliable ack nack dl ext vis =
     \<lparr>b_ack = (\<lambda>i t q. (True, ack i t q)),
      b_nack = (\<lambda>now i d t f q. (True, nack now i d t f q)),
      b_deadLetter = Some (\<lambda>e t q. (True, dl e t q)),
      b_extend = Some (\<lambda>now i t x q. let (r, q') = ext now i t x q in (Some r, q')),
      b_visibility = Some vis\<rparr>"

text \<open>Whether the worker will retry the job after this outcome.\<close>

definition will_retry :: "registry \<Rightarrow> 'i queue_message \<Rightarrow> outcome \<Rightarrow> bool" where
  "will_retry reg m out =
     (case reg_get reg (taskName m) of
        None \<Rightarrow> False
      | Some d \<Rightarrow> out \<noteq> Resolved \<and> int (attempt m) < retries_of d)"

context lease_queue
begin

lemma settle_held:
  assumes "inv q" and "leaseToken m = Some t" and "holder q (mid m) = Some t"
  shows "let q' = snd (settle_message cfg reg (reliable ack nack dead_letter ext vis) now m out q) in
     inv q' \<and> holder q' = (holder q)(mid m := None) \<and>
     pending q' = (if will_retry reg m out then insert (mid m) (pending q) else pending q)"
  using assms ack_held [OF assms(1,3)] nack_held [OF assms(1,3)] dead_held [of q _ t]
  by (auto simp: settle_message_def Let_def will_retry_def reliable_def safeAck_def safeNack_def
      handleFailure_def failPermanently_def split: option.splits outcome.splits)

lemma settle_stale:
  assumes "inv q" and "leaseToken m = Some t" and "holder q (mid m) \<noteq> Some t"
  shows "let q' = snd (settle_message cfg reg (reliable ack nack dead_letter ext vis) now m out q) in
     inv q' \<and> holder q' = holder q \<and> pending q' = pending q"
  using assms ack_stale [OF assms(1,3)] nack_stale [OF assms(1,3)] dead_stale [of q _ t]
  by (auto simp: settle_message_def Let_def reliable_def safeAck_def safeNack_def
      handleFailure_def failPermanently_def split: option.splits outcome.splits)

end

lemma worker_step_bound:
  assumes "worker_step conc pop settle w w'"
    and "length (active w) + (if loop w = Popping then 1 else 0) \<le> conc"
  shows "length (active w') + (if loop w' = Popping then 1 else 0) \<le> conc"
  using assms by (cases rule: worker_step.cases) (auto simp: length_remove1 split: if_splits)

end
