(* ===== verification/Mem_Queue.thy ===== *)
theory Mem_Queue
  imports Task_Worker "HOL-Library.Multiset"
begin

text \<open>
  The in-memory backend \<open>MemoryQueue\<close> of \<open>packages/core/src/queue.ts\<close>: pending messages,
  leases and the dead-letter list.

  \<^item> \<open>memq\<close> is the class's state. \<open>inFlight\<close> is an insertion-ordered map from message id to
    lease. The clock (\<open>Date.now()\<close>) and the fresh lease token (\<open>crypto.randomUUID()\<close>) are
    arguments; one call reads the clock once.
  \<^item> An optional argument or field is an \<open>option\<close>. \<open>push\<close> stores the message, \<open>pop\<close> hands
    out a copy, so no message object is shared with a worker.
  \<^item> The limits \<open>maxCompletedJobs\<close> and \<open>maxDeadLetters\<close> are natural numbers.
\<close>

named_theorems queue_simps \<open>unfolding the queue's operations\<close>

record 'i inflight_entry =
  imessage :: "'i queue_message"
  itoken :: string
  expiresAt :: time

record 'i memq =
  messages :: "'i queue_message list"
  inFlight :: "(string, 'i inflight_entry) omap"
  dead :: "'i dead_entry list"
  completed :: "string list"
  maxCompletedJobs :: nat
  maxDeadLetters :: nat
  visibilityTimeoutMs :: int

definition DEFAULT_VISIBILITY_TIMEOUT :: int where
  "DEFAULT_VISIBILITY_TIMEOUT = 30000"

definition newMemoryQueue :: "nat option \<Rightarrow> nat option \<Rightarrow> int option \<Rightarrow> 'i memq" where
  "newMemoryQueue maxC maxD vis =
     \<lparr>messages = [], inFlight = [], dead = [], completed = [],
      maxCompletedJobs = (case maxC of None \<Rightarrow> 1000 | Some n \<Rightarrow> n),
      maxDeadLetters = (case maxD of None \<Rightarrow> 1000 | Some n \<Rightarrow> n),
      visibilityTimeoutMs = (case vis of None \<Rightarrow> DEFAULT_VISIBILITY_TIMEOUT | Some v \<Rightarrow> v)\<rparr>"

section \<open>Operations\<close>

definition push :: "'i queue_message \<Rightarrow> 'i memq \<Rightarrow> 'i memq" where
  "push m q = q\<lparr>messages := messages q @ [m]\<rparr>"

definition pushDead :: "'i dead_entry \<Rightarrow> 'i memq \<Rightarrow> 'i memq" where
  "pushDead e q = q\<lparr>dead := keep_last (maxDeadLetters q) (dead q @ [e])\<rparr>"

definition lease_error :: "'i memq \<Rightarrow> string" where
  "lease_error q = ''Lease expired after '' @ show_int (visibilityTimeoutMs q) @ ''ms without ack or heartbeat''"

text \<open>The body of the loop of \<open>reclaimExpired\<close>.\<close>

definition reclaim_one :: "time \<Rightarrow> string \<times> 'i inflight_entry \<Rightarrow> 'i memq \<Rightarrow> 'i memq" where
  "reclaim_one now ie q =
     (let (i, entry) = ie in
      if now < expiresAt entry then q
      else
        (let q1 = q\<lparr>inFlight := AList.delete i (inFlight q)\<rparr>;
             m = imessage entry;
             err = lease_error q;
             failure = \<lparr>fattempt = attempt m, ferror = err, failedAt = now\<rparr>;
             fs = add_failure failure (failures m);
             m1 = m\<lparr>leaseToken := None, failures := Some fs, attempt := Suc (attempt m)\<rparr>
         in if maxRetries m1 < int (attempt m1)
            then pushDead \<lparr>dmessage = m1, derror = err, dfailures = fs, deadLetteredAt = now\<rparr> q1
            else q1\<lparr>messages := messages q1 @ [m1\<lparr>availableAt := now\<rparr>]\<rparr>))"

definition reclaimExpired :: "time \<Rightarrow> 'i memq \<Rightarrow> 'i memq" where
  "reclaimExpired now q = fold (reclaim_one now) (inFlight q) q"

definition pop :: "time \<Rightarrow> string \<Rightarrow> 'i memq \<Rightarrow> 'i queue_message option \<times> 'i memq" where
  "pop now token q0 =
     (let q = reclaimExpired now q0 in
      case splice_first (\<lambda>m. availableAt m \<le> now) (messages q) of
        None \<Rightarrow> (None, q)
      | Some (m, rest) \<Rightarrow>
          (let m1 = m\<lparr>deliveries := Some (case deliveries m of None \<Rightarrow> 1 | Some d \<Rightarrow> d + 1),
                      leaseToken := Some token\<rparr>
           in (Some m1,
               q\<lparr>messages := rest,
                 inFlight := AList.update (mid m)
                   \<lparr>imessage = m1, itoken = token, expiresAt = now + visibilityTimeoutMs q\<rparr> (inFlight q)\<rparr>)))"

text \<open>\<open>!entry || (leaseToken !== undefined && entry.leaseToken !== leaseToken)\<close>, negated.\<close>

definition lease_ok :: "'i memq \<Rightarrow> string \<Rightarrow> string option \<Rightarrow> 'i inflight_entry option" where
  "lease_ok q i tok =
     (case map_of (inFlight q) i of
        None \<Rightarrow> None
      | Some entry \<Rightarrow> (case tok of None \<Rightarrow> Some entry
                       | Some t \<Rightarrow> if itoken entry = t then Some entry else None))"

definition ack :: "string \<Rightarrow> string option \<Rightarrow> 'i memq \<Rightarrow> 'i memq" where
  "ack i tok q =
     (case lease_ok q i tok of
        None \<Rightarrow> q
      | Some entry \<Rightarrow> q\<lparr>inFlight := AList.delete i (inFlight q),
                        completed := keep_last (maxCompletedJobs q) (completed q @ [i])\<rparr>)"

definition nack :: "time \<Rightarrow> string \<Rightarrow> int \<Rightarrow> string option \<Rightarrow> task_failure option \<Rightarrow> 'i memq \<Rightarrow> 'i memq" where
  "nack now i delay tok failure q =
     (case lease_ok q i tok of
        None \<Rightarrow> q
      | Some entry \<Rightarrow>
          (let m = imessage entry;
               m1 = m\<lparr>attempt := Suc (attempt m), availableAt := now + delay, leaseToken := None\<rparr>;
               m2 = (case failure of None \<Rightarrow> m1 | Some f \<Rightarrow> m1\<lparr>failures := Some (add_failure f (failures m1))\<rparr>)
           in q\<lparr>inFlight := AList.delete i (inFlight q), messages := messages q @ [m2]\<rparr>))"

definition extend :: "time \<Rightarrow> string \<Rightarrow> string \<Rightarrow> int option \<Rightarrow> 'i memq \<Rightarrow> bool \<times> 'i memq" where
  "extend now i tok extraMs q =
     (case lease_ok q i (Some tok) of
        None \<Rightarrow> (False, q)
      | Some entry \<Rightarrow>
          (True, q\<lparr>inFlight := AList.update i
             (entry\<lparr>expiresAt := now + (case extraMs of None \<Rightarrow> visibilityTimeoutMs q | Some x \<Rightarrow> x)\<rparr>)
             (inFlight q)\<rparr>))"

definition deadLetter :: "'i dead_entry \<Rightarrow> string option \<Rightarrow> 'i memq \<Rightarrow> 'i memq" where
  "deadLetter e tok q =
     (let i = mid (dmessage e) in
      pushDead e
        (case lease_ok q i tok of
           None \<Rightarrow> q
         | Some entry \<Rightarrow> q\<lparr>inFlight := AList.delete i (inFlight q)\<rparr>))"

text \<open>\<open>xs.slice(-limit)\<close>: a positive limit takes the last entries, 0 takes all of them and
  a negative limit skips from the front.\<close>

definition slice_neg :: "int \<Rightarrow> 'a list \<Rightarrow> 'a list" where
  "slice_neg limit xs = (if 0 < limit then keep_last (nat limit) xs else drop (nat (- limit)) xs)"

definition listDeadLetters :: "int option \<Rightarrow> 'i memq \<Rightarrow> 'i dead_entry list" where
  "listDeadLetters limit q = rev (slice_neg (case limit of None \<Rightarrow> 100 | Some l \<Rightarrow> l) (dead q))"

definition resetForRedrive :: "time \<Rightarrow> 'i queue_message \<Rightarrow> 'i queue_message" where
  "resetForRedrive now m = m\<lparr>attempt := 0, deliveries := Some 0, leaseToken := None, availableAt := now\<rparr>"

definition redriveDeadLetter :: "time \<Rightarrow> string \<Rightarrow> 'i memq \<Rightarrow> bool \<times> 'i memq" where
  "redriveDeadLetter now i q =
     (case splice_first (\<lambda>e. mid (dmessage e) = i) (dead q) of
        None \<Rightarrow> (False, q)
      | Some (e, rest) \<Rightarrow>
          (True, q\<lparr>dead := rest, messages := messages q @ [resetForRedrive now (dmessage e)]\<rparr>))"

text \<open>\<open>limit\<close> is \<open>None\<close> for the default, \<open>Number.POSITIVE_INFINITY\<close>.\<close>

definition redriveDeadLetters :: "time \<Rightarrow> int option \<Rightarrow> 'i memq \<Rightarrow> nat \<times> 'i memq" where
  "redriveDeadLetters now limit q =
     (let n = (case limit of None \<Rightarrow> length (dead q) | Some l \<Rightarrow> nat (min (int (length (dead q))) l));
          batch = take n (dead q)
      in (length batch,
          q\<lparr>dead := drop n (dead q),
            messages := messages q @ map (\<lambda>e. resetForRedrive now (dmessage e)) batch\<rparr>))"

definition purgeDeadLetters :: "'i memq \<Rightarrow> nat \<times> 'i memq" where
  "purgeDeadLetters q = (length (dead q), q\<lparr>dead := []\<rparr>)"

definition deadLetterSize :: "'i memq \<Rightarrow> nat" where
  "deadLetterSize q = length (dead q)"

definition queue_size :: "'i memq \<Rightarrow> nat" where
  "queue_size q = length (messages q)"

definition inFlightSize :: "'i memq \<Rightarrow> nat" where
  "inFlightSize q = length (inFlight q)"

section \<open>The invariant\<close>

definition pending_ids :: "'i memq \<Rightarrow> string multiset" where
  "pending_ids q = mset (map mid (messages q))"

definition leased_ids :: "'i memq \<Rightarrow> string multiset" where
  "leased_ids q = mset (keys_of (inFlight q))"

definition dead_ids :: "'i memq \<Rightarrow> string multiset" where
  "dead_ids q = mset (map (\<lambda>e. mid (dmessage e)) (dead q))"

text \<open>The jobs the queue still owes an execution, or an inspection.\<close>

definition live_ids :: "'i memq \<Rightarrow> string multiset" where
  "live_ids q = pending_ids q + leased_ids q"

definition entry_ok :: "string \<times> 'i inflight_entry \<Rightarrow> bool" where
  "entry_ok ie = (mid (imessage (snd ie)) = fst ie \<and> leaseToken (imessage (snd ie)) = Some (itoken (snd ie)))"

definition queue_inv :: "'i memq \<Rightarrow> bool" where
  "queue_inv q \<longleftrightarrow>
     distinct (map mid (messages q) @ keys_of (inFlight q)) \<and>
     list_all entry_ok (inFlight q) \<and>
     length (dead q) \<le> maxDeadLetters q \<and> length (completed q) \<le> maxCompletedJobs q"

definition held_by :: "'i memq \<Rightarrow> string \<Rightarrow> string option" where
  "held_by q i = map_option itoken (map_of (inFlight q) i)"

section \<open>Reclaiming in closed form\<close>

definition expired :: "time \<Rightarrow> string \<times> 'i inflight_entry \<Rightarrow> bool" where
  "expired now ie = (expiresAt (snd ie) \<le> now)"

text \<open>The message after an expired lease: one more failed attempt, on record.\<close>

definition lease_failure :: "time \<Rightarrow> 'i memq \<Rightarrow> 'i queue_message \<Rightarrow> task_failure" where
  "lease_failure now q m = \<lparr>fattempt = attempt m, ferror = lease_error q, failedAt = now\<rparr>"

definition after_expiry :: "time \<Rightarrow> 'i memq \<Rightarrow> 'i queue_message \<Rightarrow> 'i queue_message" where
  "after_expiry now q m =
     m\<lparr>leaseToken := None, failures := Some (add_failure (lease_failure now q m) (failures m)), attempt := Suc (attempt m)\<rparr>"

definition exhausted :: "'i queue_message \<Rightarrow> bool" where
  "exhausted m = (maxRetries m < int (Suc (attempt m)))"

definition requeue :: "time \<Rightarrow> 'i memq \<Rightarrow> string \<times> 'i inflight_entry \<Rightarrow> 'i queue_message list" where
  "requeue now q ie =
     (let m = imessage (snd ie) in
      if expired now ie \<and> \<not> exhausted m then [(after_expiry now q m)\<lparr>availableAt := now\<rparr>] else [])"

definition bury :: "time \<Rightarrow> 'i memq \<Rightarrow> string \<times> 'i inflight_entry \<Rightarrow> 'i dead_entry list" where
  "bury now q ie =
     (let m = imessage (snd ie) in
      if expired now ie \<and> exhausted m
      then [\<lparr>dmessage = after_expiry now q m, derror = lease_error q,
             dfailures = add_failure (lease_failure now q m) (failures m), deadLetteredAt = now\<rparr>] else [])"

lemma keep_last_keep_last: "keep_last n (keep_last n xs @ ys) = keep_last n (xs @ ys)"
  by (cases "length xs \<le> n") (auto simp: keep_last_def add.commute)

lemma expiry_cong:
  assumes "visibilityTimeoutMs q = visibilityTimeoutMs q'"
  shows "requeue now q = requeue now q'" and "bury now q = bury now q'"
proof -
  have e: "lease_error q = lease_error q'" using assms by (simp add: lease_error_def)
  then have f: "lease_failure now q = lease_failure now q'" by (simp add: lease_failure_def fun_eq_iff)
  then have a: "after_expiry now q m = after_expiry now q' m" for m by (simp add: after_expiry_def)
  from a show "requeue now q = requeue now q'" by (simp add: requeue_def Let_def fun_eq_iff)
  from e f a show "bury now q = bury now q'" by (simp add: bury_def Let_def fun_eq_iff)
qed

lemma filter_key_absent: "k \<notin> fst ` set m \<Longrightarrow> filter (\<lambda>e. fst e \<noteq> k) m = m"
  by (rule filter_True) auto

lemma reclaim_one_eq:
  assumes "length (dead q) \<le> maxDeadLetters q"
  shows "reclaim_one now ie q =
    q\<lparr>inFlight := (if expired now ie then AList.delete (fst ie) (inFlight q) else inFlight q),
      messages := messages q @ requeue now q ie,
      dead := keep_last (maxDeadLetters q) (dead q @ bury now q ie)\<rparr>"
  using assms
  by (cases ie) (auto simp: reclaim_one_def requeue_def bury_def expired_def exhausted_def after_expiry_def
      lease_failure_def pushDead_def Let_def keep_last_all)

lemma fold_reclaim:
  assumes "distinct (keys_of (kept @ L))" and "inFlight q = kept @ L" and "length (dead q) \<le> maxDeadLetters q"
  shows "fold (reclaim_one now) L q =
    q\<lparr>inFlight := kept @ filter (\<lambda>e. \<not> expired now e) L,
      messages := messages q @ concat (map (requeue now q) L),
      dead := keep_last (maxDeadLetters q) (dead q @ concat (map (bury now q) L))\<rparr>"
  using assms
proof (induction L arbitrary: q kept)
  case Nil
  then show ?case by (simp add: keep_last_all)
next
  case (Cons ie L)
  define q1 where "q1 = reclaim_one now ie q"
  have q1: "q1 = q\<lparr>inFlight := (if expired now ie then AList.delete (fst ie) (inFlight q) else inFlight q),
      messages := messages q @ requeue now q ie,
      dead := keep_last (maxDeadLetters q) (dead q @ bury now q ie)\<rparr>"
    unfolding q1_def by (rule reclaim_one_eq [OF Cons.prems(3)])
  have cong: "requeue now q1 = requeue now q" "bury now q1 = bury now q"
    by (rule expiry_cong, simp add: q1)+
  let ?k = "if expired now ie then kept else kept @ [ie]"
  have del: "AList.delete (fst ie) (inFlight q) = kept @ L"
    using Cons.prems(1,2) by (simp add: delete_eq_filter filter_key_absent)
  have "fold (reclaim_one now) L q1 =
    q1\<lparr>inFlight := ?k @ filter (\<lambda>e. \<not> expired now e) L,
      messages := messages q1 @ concat (map (requeue now q1) L),
      dead := keep_last (maxDeadLetters q1) (dead q1 @ concat (map (bury now q1) L))\<rparr>"
  proof (rule Cons.IH)
    show "distinct (keys_of (?k @ L))" using Cons.prems(1) by auto
    show "inFlight q1 = ?k @ L" using del Cons.prems(2) by (simp add: q1)
    show "length (dead q1) \<le> maxDeadLetters q1" by (simp add: q1 length_keep_last)
  qed
  then show ?case
    unfolding cong by (simp add: q1_def [symmetric]) (simp add: q1 keep_last_keep_last)
qed

lemma reclaimExpired_eq:
  assumes "queue_inv q"
  shows "reclaimExpired now q =
    q\<lparr>inFlight := filter (\<lambda>e. \<not> expired now e) (inFlight q),
      messages := messages q @ concat (map (requeue now q) (inFlight q)),
      dead := keep_last (maxDeadLetters q) (dead q @ concat (map (bury now q) (inFlight q)))\<rparr>"
  using fold_reclaim [of "[]" "inFlight q" q now] assms
  by (simp add: reclaimExpired_def queue_inv_def)

section \<open>The operations keep the invariant\<close>

lemma lease_ok_Some:
  "lease_ok q i tok = Some e \<Longrightarrow> map_of (inFlight q) i = Some e \<and> (tok = None \<or> tok = Some (itoken e))"
  by (auto simp: lease_ok_def split: option.splits if_splits)

lemma lease_ok_held: "held_by q i = Some t \<Longrightarrow> \<exists>e. lease_ok q i (Some t) = Some e \<and> map_of (inFlight q) i = Some e"
  by (auto simp: lease_ok_def held_by_def)

lemma lease_ok_stale: "held_by q i \<noteq> Some t \<Longrightarrow> lease_ok q i (Some t) = None"
  by (auto simp: lease_ok_def held_by_def split: option.splits)

lemma entry_of:
  "queue_inv q \<Longrightarrow> map_of (inFlight q) i = Some e \<Longrightarrow>
   mid (imessage e) = i \<and> leaseToken (imessage e) = Some (itoken e) \<and> i \<in> set (keys_of (inFlight q))"
  using map_of_Some_key [of "inFlight q" i e]
  by (auto simp: queue_inv_def list_all_iff entry_ok_def dest!: map_of_SomeD)

lemma entries_delete: "list_all P m \<Longrightarrow> list_all P (AList.delete k m)"
  by (auto simp: list_all_iff delete_eq_filter)

lemma requeue_ids: "queue_inv q \<Longrightarrow> ie \<in> set (inFlight q) \<Longrightarrow>
    map mid (requeue now q ie) = (if expired now ie \<and> \<not> exhausted (imessage (snd ie)) then [fst ie] else [])"
  by (auto simp: requeue_def after_expiry_def Let_def queue_inv_def list_all_iff entry_ok_def)

lemma bury_ids: "queue_inv q \<Longrightarrow> ie \<in> set (inFlight q) \<Longrightarrow>
    map (\<lambda>e. mid (dmessage e)) (bury now q ie) = (if expired now ie \<and> exhausted (imessage (snd ie)) then [fst ie] else [])"
  by (auto simp: bury_def after_expiry_def Let_def queue_inv_def list_all_iff entry_ok_def)

lemma concat_singletons: "concat (map (\<lambda>x. if P x then [f x] else []) xs) = map f (filter P xs)"
  by (induction xs) auto

lemma requeue_all_ids:
  assumes "queue_inv q"
  shows "map mid (concat (map (requeue now q) (inFlight q))) =
    keys_of (filter (\<lambda>ie. expired now ie \<and> \<not> exhausted (imessage (snd ie))) (inFlight q))"
proof -
  have "concat (map (\<lambda>ie. map mid (requeue now q ie)) (inFlight q)) =
      concat (map (\<lambda>ie. if expired now ie \<and> \<not> exhausted (imessage (snd ie)) then [fst ie] else []) (inFlight q))"
    by (rule arg_cong [where f = concat], rule map_cong) (simp_all only: requeue_ids [OF assms])
  then show ?thesis by (simp add: map_concat o_def concat_singletons)
qed

lemma bury_all_ids:
  assumes "queue_inv q"
  shows "map (\<lambda>e. mid (dmessage e)) (concat (map (bury now q) (inFlight q))) =
    keys_of (filter (\<lambda>ie. expired now ie \<and> exhausted (imessage (snd ie))) (inFlight q))"
proof -
  have "concat (map (\<lambda>ie. map (\<lambda>e. mid (dmessage e)) (bury now q ie)) (inFlight q)) =
      concat (map (\<lambda>ie. if expired now ie \<and> exhausted (imessage (snd ie)) then [fst ie] else []) (inFlight q))"
    by (rule arg_cong [where f = concat], rule map_cong) (simp_all only: bury_ids [OF assms])
  then show ?thesis by (simp add: map_concat o_def concat_singletons)
qed

lemma reclaim_inv:
  assumes inv: "queue_inv q"
  shows "queue_inv (reclaimExpired now q)"
proof -
  let ?R = "keys_of (filter (\<lambda>ie. expired now ie \<and> \<not> exhausted (imessage (snd ie))) (inFlight q))"
  let ?K = "keys_of (filter (\<lambda>e. \<not> expired now e) (inFlight q))"
  have d: "distinct (keys_of (inFlight q))" "distinct (map mid (messages q))"
    "set (map mid (messages q)) \<inter> set (keys_of (inFlight q)) = {}"
    using inv by (auto simp: queue_inv_def)
  have "set ?R \<subseteq> set (keys_of (inFlight q))" "set ?K \<subseteq> set (keys_of (inFlight q))" by auto
  moreover have "set ?R \<inter> set ?K = {}"
    using d(1) by (auto simp: distinct_map inj_on_def)
  ultimately have "distinct (map mid (messages q) @ ?R @ ?K)"
    using d by (auto simp: distinct_keys_filter)
  moreover have "map mid (messages (reclaimExpired now q)) @ keys_of (inFlight (reclaimExpired now q)) =
      map mid (messages q) @ ?R @ ?K"
    unfolding reclaimExpired_eq [OF inv] using requeue_all_ids [OF inv, of now] by simp
  ultimately have "distinct (map mid (messages (reclaimExpired now q)) @ keys_of (inFlight (reclaimExpired now q)))"
    by simp
  moreover have "list_all entry_ok (inFlight (reclaimExpired now q)) \<and>
      length (dead (reclaimExpired now q)) \<le> maxDeadLetters (reclaimExpired now q) \<and>
      length (completed (reclaimExpired now q)) \<le> maxCompletedJobs (reclaimExpired now q)"
    using inv unfolding reclaimExpired_eq [OF inv]
    by (auto simp: queue_inv_def length_keep_last list_all_iff)
  ultimately show ?thesis by (simp add: queue_inv_def)
qed

lemma push_inv: "queue_inv q \<Longrightarrow> mid m \<notin># live_ids q \<Longrightarrow> queue_inv (push m q)"
  by (auto simp: queue_inv_def push_def live_ids_def pending_ids_def leased_ids_def)


lemma split_three:
  "mset xs = mset (filter (\<lambda>x. P x \<and> \<not> Q x) xs) + mset (filter (\<lambda>x. \<not> P x) xs) + mset (filter (\<lambda>x. P x \<and> Q x) xs)"
  by (induction xs) auto

lemma reclaim_live:
  assumes inv: "queue_inv q"
  shows "live_ids q = live_ids (reclaimExpired now q) +
      mset (map (\<lambda>e. mid (dmessage e)) (concat (map (bury now q) (inFlight q))))"
proof -
  let ?L = "inFlight q" and ?x = "\<lambda>ie. exhausted (imessage (snd ie))"
  have split: "mset ?L = mset (filter (\<lambda>ie. expired now ie \<and> \<not> ?x ie) ?L) +
      mset (filter (\<lambda>ie. \<not> expired now ie) ?L) + mset (filter (\<lambda>ie. expired now ie \<and> ?x ie) ?L)"
    by (rule split_three)
  have "leased_ids q = image_mset fst (mset ?L)" by (simp add: leased_ids_def)
  also have "\<dots> = mset (keys_of (filter (\<lambda>ie. expired now ie \<and> \<not> ?x ie) ?L)) +
      mset (keys_of (filter (\<lambda>ie. \<not> expired now ie) ?L)) + mset (keys_of (filter (\<lambda>ie. expired now ie \<and> ?x ie) ?L))"
    unfolding split by simp
  finally show ?thesis
    unfolding bury_all_ids [OF inv] reclaimExpired_eq [OF inv] live_ids_def pending_ids_def leased_ids_def
    using requeue_all_ids [OF inv, of now] by (simp add: map_concat [symmetric])
qed

text \<open>The delivery of the first due message.\<close>

lemma pop_cases:
  assumes inv: "queue_inv q"
  obtains "pop now tok q = (None, reclaimExpired now q)"
      "\<forall>m \<in> set (messages (reclaimExpired now q)). now < availableAt m"
    | us m vs m1 where
      "messages (reclaimExpired now q) = us @ m # vs" "availableAt m \<le> now" "\<forall>u \<in> set us. now < availableAt u"
      "mid m1 = mid m" "leaseToken m1 = Some tok" "attempt m1 = attempt m" "mid m \<notin> set (keys_of (inFlight (reclaimExpired now q)))"
      "pop now tok q = (Some m1, (reclaimExpired now q)\<lparr>messages := us @ vs,
         inFlight := inFlight (reclaimExpired now q) @
           [(mid m, \<lparr>imessage = m1, itoken = tok, expiresAt = now + visibilityTimeoutMs q\<rparr>)]\<rparr>)"
proof (cases "splice_first (\<lambda>m. availableAt m \<le> now) (messages (reclaimExpired now q))")
  case None
  then have "pop now tok q = (None, reclaimExpired now q)" by (simp add: pop_def Let_def)
  moreover have "\<forall>m \<in> set (messages (reclaimExpired now q)). now < availableAt m"
    using None by (auto simp: splice_first_None not_le)
  ultimately show thesis by (rule that(1))
next
  case (Some mr)
  obtain m rest where mr: "mr = (m, rest)" by (cases mr)
  obtain us vs where us: "messages (reclaimExpired now q) = us @ m # vs" "rest = us @ vs"
      "availableAt m \<le> now" "\<forall>u \<in> set us. \<not> availableAt u \<le> now"
    using Some unfolding mr by (rule splice_first_SomeE)
  have new: "mid m \<notin> set (keys_of (inFlight (reclaimExpired now q)))"
    using reclaim_inv [OF inv, of now] us(1) by (auto simp: queue_inv_def)
  have vis: "visibilityTimeoutMs (reclaimExpired now q) = visibilityTimeoutMs q"
    by (simp add: reclaimExpired_eq [OF inv])
  define m1 where "m1 = m\<lparr>deliveries := Some (case deliveries m of None \<Rightarrow> 1 | Some d \<Rightarrow> d + 1), leaseToken := Some tok\<rparr>"
  have "pop now tok q = (Some m1, (reclaimExpired now q)\<lparr>messages := us @ vs,
         inFlight := inFlight (reclaimExpired now q) @
           [(mid m, \<lparr>imessage = m1, itoken = tok, expiresAt = now + visibilityTimeoutMs q\<rparr>)]\<rparr>)"
    using Some us(2) new by (simp add: pop_def Let_def mr vis map_simps m1_def)
  moreover have "mid m1 = mid m" "leaseToken m1 = Some tok" "attempt m1 = attempt m" by (simp_all add: m1_def)
  moreover have "\<forall>u \<in> set us. now < availableAt u" using us(4) by (auto simp: not_le)
  ultimately show thesis using that(2) us(1,3) new by blast
qed

lemma pop_state:
  assumes "queue_inv q" and "pop now tok q = (r, q')"
  shows "queue_inv q' \<and> live_ids q' = live_ids (reclaimExpired now q) \<and> dead q' = dead (reclaimExpired now q)"
  using assms(1)
proof (cases rule: pop_cases [where now = now and tok = tok])
  case 1
  then show ?thesis using assms reclaim_inv by simp
next
  case (2 us m vs m1)
  have i: "queue_inv (reclaimExpired now q)" by (rule reclaim_inv [OF assms(1)])
  have q': "q' = (reclaimExpired now q)\<lparr>messages := us @ vs,
         inFlight := inFlight (reclaimExpired now q) @
           [(mid m, \<lparr>imessage = m1, itoken = tok, expiresAt = now + visibilityTimeoutMs q\<rparr>)]\<rparr>"
    using 2(8) assms(2) by simp
  have "queue_inv q'"
    using i 2(1,4,5,7) unfolding q' by (auto simp: queue_inv_def entry_ok_def)
  moreover have "live_ids q' = live_ids (reclaimExpired now q)"
    using 2(1) unfolding q' by (simp add: live_ids_def pending_ids_def leased_ids_def)
  ultimately show ?thesis unfolding q' by simp
qed

lemma pop_lease:
  assumes "queue_inv q" and "pop now tok q = (Some m, q')"
  shows "held_by q' (mid m) = Some tok \<and> leaseToken m = Some tok \<and>
    (mid m, \<lparr>imessage = m, itoken = tok, expiresAt = now + visibilityTimeoutMs q\<rparr>) \<in> set (inFlight q')"
  using assms(1)
proof (cases rule: pop_cases [where now = now and tok = tok])
  case 1
  then show ?thesis using assms(2) by simp
next
  case (2 us m0 vs m1)
  have m: "m = m1" and q': "q' = (reclaimExpired now q)\<lparr>messages := us @ vs,
         inFlight := inFlight (reclaimExpired now q) @
           [(mid m0, \<lparr>imessage = m1, itoken = tok, expiresAt = now + visibilityTimeoutMs q\<rparr>)]\<rparr>"
    using 2(8) assms(2) by simp_all
  have "map_of (inFlight (reclaimExpired now q)) (mid m0) = None"
    using 2(7) by (simp add: map_of_eq_None_iff)
  then show ?thesis unfolding m q' using 2(4,5) by (simp add: held_by_def map_add_def)
qed

text \<open>A job whose lease has not expired is not delivered.\<close>

lemma pop_skips_leased:
  assumes inv: "queue_inv q" and e: "(i, e) \<in> set (inFlight q)" and live: "now < expiresAt e"
    and p: "pop now tok q = (Some m, q')"
  shows "mid m \<noteq> i \<and> (i, e) \<in> set (inFlight q')"
proof -
  have r: "(i, e) \<in> set (inFlight (reclaimExpired now q))"
    using e live by (simp add: reclaimExpired_eq [OF inv] expired_def)
  show ?thesis
    using inv
  proof (cases rule: pop_cases [where now = now and tok = tok])
    case 1
    then show ?thesis using p by simp
  next
    case (2 us m0 vs m1)
    then have "mid m0 \<noteq> i" using r by force
    then show ?thesis using 2 p r by auto
  qed
qed

section \<open>Settling and redriving\<close>

lemma keys_delete_set: "distinct (keys_of m) \<Longrightarrow> set (keys_of (AList.delete k m)) = set (keys_of m) - {k}"
  by (auto simp: keys_delete)

lemma release_inv:
  assumes "queue_inv q"
  shows "queue_inv (q\<lparr>inFlight := AList.delete i (inFlight q)\<rparr>)"
  using assms by (auto simp: queue_inv_def keys_delete entries_delete)

lemma pushDead_inv: "queue_inv q \<Longrightarrow> queue_inv (pushDead e q)"
  by (simp add: queue_inv_def pushDead_def length_keep_last)

lemma ack_inv: "queue_inv q \<Longrightarrow> queue_inv (ack i tok q)"
  using release_inv [of q i] by (auto simp: ack_def queue_inv_def length_keep_last split: option.splits)

lemma nack_inv:
  assumes "queue_inv q"
  shows "queue_inv (nack now i d tok f q)"
proof (cases "lease_ok q i tok")
  case None
  with assms show ?thesis by (simp add: nack_def)
next
  case (Some e)
  then have "map_of (inFlight q) i = Some e" using lease_ok_Some by blast
  note e = entry_of [OF assms this]
  from e assms have "i \<notin> set (map mid (messages q))" by (auto simp: queue_inv_def)
  then show ?thesis
    using Some e release_inv [OF assms, of i]
    by (auto simp: nack_def Let_def queue_inv_def keys_delete split: option.splits)
qed

lemma deadLetter_inv: "queue_inv q \<Longrightarrow> queue_inv (deadLetter e tok q)"
  using release_inv pushDead_inv by (auto simp: deadLetter_def Let_def split: option.splits)

lemma keys_update_present: "map_of m k = Some v \<Longrightarrow> keys_of (AList.update k w m) = keys_of m"
  by (rule keys_update_old) (rule map_of_Some_key)

lemma extend_inv:
  assumes "queue_inv q"
  shows "queue_inv (snd (extend now i tok x q))"
proof (cases "lease_ok q i (Some tok)")
  case None
  with assms show ?thesis by (simp add: extend_def)
next
  case (Some e)
  then have m: "map_of (inFlight q) i = Some e" using lease_ok_Some by blast
  have "list_all entry_ok (AList.update i (e\<lparr>expiresAt := t\<rparr>) (inFlight q))" for t
    using assms entry_of [OF assms m] set_update_subset [of i "e\<lparr>expiresAt := t\<rparr>" "inFlight q"]
    by (auto simp: queue_inv_def list_all_iff entry_ok_def)
  then show ?thesis
    using Some assms by (simp add: extend_def queue_inv_def keys_update_present [OF m])
qed

lemma redrive_inv:
  assumes "queue_inv q" and "i \<notin># live_ids q"
  shows "queue_inv (snd (redriveDeadLetter now i q))"
proof (cases "splice_first (\<lambda>e. mid (dmessage e) = i) (dead q)")
  case None
  with assms show ?thesis by (simp add: redriveDeadLetter_def)
next
  case (Some er)
  obtain e rest where er: "er = (e, rest)" by (cases er)
  obtain us vs where "dead q = us @ e # vs" "rest = us @ vs" "mid (dmessage e) = i"
    using Some unfolding er by (rule splice_first_SomeE) auto
  with Some assms show ?thesis
    by (auto simp: redriveDeadLetter_def er queue_inv_def resetForRedrive_def live_ids_def pending_ids_def leased_ids_def)
qed

lemma held_by_keys: "held_by q i = Some t \<Longrightarrow> i \<in> set (keys_of (inFlight q))"
  by (auto simp: held_by_def dest: map_of_Some_key)

interpretation memory_queue: lease_queue ack nack deadLetter held_by "\<lambda>q. set (map mid (messages q))" queue_inv
proof
  fix q :: "'a memq" and i t now d f and e :: "'a dead_entry"
  assume inv: "queue_inv q"
  show "held_by q i = Some t \<Longrightarrow> i \<notin> set (map mid (messages q))"
    using inv by (auto simp: queue_inv_def dest!: held_by_keys)
  show "held_by q i = Some t \<Longrightarrow> queue_inv (ack i (Some t) q) \<and> held_by (ack i (Some t) q) = (held_by q)(i := None) \<and>
      set (map mid (messages (ack i (Some t) q))) = set (map mid (messages q))"
    using ack_inv [OF inv] lease_ok_held [of q i t]
    by (auto simp: ack_def held_by_def map_of_delete)
  show "held_by q i \<noteq> Some t \<Longrightarrow> ack i (Some t) q = q"
    by (simp add: ack_def lease_ok_stale)
  show "held_by q i = Some t \<Longrightarrow> queue_inv (nack now i d (Some t) f q) \<and>
      held_by (nack now i d (Some t) f q) = (held_by q)(i := None) \<and>
      set (map mid (messages (nack now i d (Some t) f q))) = insert i (set (map mid (messages q)))"
    using nack_inv [OF inv] lease_ok_held [of q i t] entry_of [OF inv, of i]
    by (auto simp: nack_def Let_def held_by_def map_of_delete split: option.splits)
  show "held_by q i \<noteq> Some t \<Longrightarrow> nack now i d (Some t) f q = q"
    by (simp add: nack_def lease_ok_stale)
  show "held_by q (mid (dmessage e)) = Some t \<Longrightarrow> queue_inv (deadLetter e (Some t) q) \<and>
      held_by (deadLetter e (Some t) q) = (held_by q)(mid (dmessage e) := None) \<and>
      set (map mid (messages (deadLetter e (Some t) q))) = set (map mid (messages q))"
    using deadLetter_inv [OF inv] lease_ok_held [of q "mid (dmessage e)" t]
    by (auto simp: deadLetter_def Let_def pushDead_def held_by_def map_of_delete)
  show "held_by q (mid (dmessage e)) \<noteq> Some t \<Longrightarrow> queue_inv (deadLetter e (Some t) q) \<and>
      held_by (deadLetter e (Some t) q) = held_by q \<and>
      set (map mid (messages (deadLetter e (Some t) q))) = set (map mid (messages q))"
    using pushDead_inv [OF inv, of e]
    by (simp add: deadLetter_def lease_ok_stale) (simp add: pushDead_def held_by_def fun_eq_iff)
qed

section \<open>Traces of operations\<close>

datatype 'i queue_op =
    Push "'i queue_message"
  | Pop time string
  | Ack string "string option"
  | Nack time string int "string option" "task_failure option"
  | Extend time string string "int option"
  | DeadLetter "'i dead_entry" "string option"
  | Redrive time string
  | RedriveAll time "int option"
  | Purge

text \<open>One operation: the id of the job it delivers, and the state after it.\<close>

fun run_op :: "'i queue_op \<Rightarrow> 'i memq \<Rightarrow> string option \<times> 'i memq" where
  "run_op (Push m) q = (None, push m q)"
| "run_op (Pop now tok) q = (case pop now tok q of (r, q') \<Rightarrow> (map_option mid r, q'))"
| "run_op (Ack i tok) q = (None, ack i tok q)"
| "run_op (Nack now i d tok f) q = (None, nack now i d tok f q)"
| "run_op (Extend now i tok x) q = (None, snd (extend now i tok x q))"
| "run_op (DeadLetter e tok) q = (None, deadLetter e tok q)"
| "run_op (Redrive now i) q = (None, snd (redriveDeadLetter now i q))"
| "run_op (RedriveAll now limit) q = (None, snd (redriveDeadLetters now limit q))"
| "run_op Purge q = (None, snd (purgeDeadLetters q))"

fun run_trace :: "'i queue_op list \<Rightarrow> 'i memq \<Rightarrow> string list \<times> 'i memq" where
  "run_trace [] q = ([], q)"
| "run_trace (x # xs) q =
     (case run_op x q of (d, q1) \<Rightarrow> case run_trace xs q1 of (ds, q2) \<Rightarrow> ((case d of None \<Rightarrow> ds | Some i \<Rightarrow> i # ds), q2))"

text \<open>Operations of the others: they name another job or hold another lease, and pop before the deadline.\<close>

fun foreign_op :: "string \<Rightarrow> string \<Rightarrow> time \<Rightarrow> 'i queue_op \<Rightarrow> bool" where
  "foreign_op i t deadline (Pop now t') = (now < deadline)"
| "foreign_op i t deadline (Ack j t') = (j \<noteq> i \<or> t' \<noteq> None \<and> t' \<noteq> Some t)"
| "foreign_op i t deadline (Nack now j d t' f) = (j \<noteq> i \<or> t' \<noteq> None \<and> t' \<noteq> Some t)"
| "foreign_op i t deadline (Extend now j t' x) = (j \<noteq> i \<or> t' \<noteq> t)"
| "foreign_op i t deadline (DeadLetter e t') = (mid (dmessage e) \<noteq> i \<or> t' \<noteq> None \<and> t' \<noteq> Some t)"
| "foreign_op i t deadline _ = True"

text \<open>
  Nor do they put the job a second time into the queue: no other job is pushed under its id, which
  \<open>crypto.randomUUID()\<close> makes unique, and no dead-letter entry of it is redriven. Such an entry can exist
  while the job is leased: a worker with a stale lease has it dead-lettered all the same, and redriving
  does not look for a lease.
\<close>

fun puts_back :: "string \<Rightarrow> 'i queue_op \<Rightarrow> 'i memq \<Rightarrow> bool" where
  "puts_back i (Push m) q = (mid m = i)"
| "puts_back i (Redrive now j) q = (j = i \<and> i \<in> set (map (mid \<circ> dmessage) (dead q)))"
| "puts_back i (RedriveAll now limit) q = (i \<in> set (map (mid \<circ> dmessage) (dead q)))"
| "puts_back i _ q = False"

fun never_put_back :: "string \<Rightarrow> 'i queue_op list \<Rightarrow> 'i memq \<Rightarrow> bool" where
  "never_put_back i [] q = True"
| "never_put_back i (x # xs) q = (\<not> puts_back i x q \<and> never_put_back i xs (snd (run_op x q)))"

lemma in_live: "i \<in># live_ids q \<longleftrightarrow> i \<in> set (map mid (messages q) @ keys_of (inFlight q))"
  by (auto simp: live_ids_def pending_ids_def leased_ids_def)

lemma new_inv: "queue_inv (newMemoryQueue c d v)"
  by (simp add: newMemoryQueue_def queue_inv_def)

section \<open>A lease is exclusive\<close>

text \<open>Job \<open>i\<close> is leased under \<open>t\<close> until \<open>deadline\<close> at least, and is not pending.\<close>

definition secured :: "string \<Rightarrow> string \<Rightarrow> time \<Rightarrow> 'i memq \<Rightarrow> bool" where
  "secured i t deadline q \<longleftrightarrow>
     (\<exists>e. map_of (inFlight q) i = Some e \<and> itoken e = t \<and> deadline \<le> expiresAt e)
     \<and> i \<notin> set (map mid (messages q)) \<and> distinct (keys_of (inFlight q))
     \<and> (\<forall>(k, e) \<in> set (inFlight q). mid (imessage e) = k)"

lemma secured_delete:
  "secured i t deadline q \<Longrightarrow> k \<noteq> i \<Longrightarrow> secured i t deadline (q\<lparr>inFlight := AList.delete k (inFlight q)\<rparr>)"
  by (auto simp: secured_def map_of_delete delete_eq_filter distinct_map_filter)

lemma secured_entry: "secured i t deadline q \<Longrightarrow> map_of (inFlight q) k = Some e \<Longrightarrow> mid (imessage e) = k"
  by (auto simp: secured_def dest!: map_of_SomeD)

lemma secured_push: "secured i t deadline q \<Longrightarrow> mid m \<noteq> i \<Longrightarrow> secured i t deadline (q\<lparr>messages := messages q @ [m]\<rparr>)"
  by (auto simp: secured_def)

lemma secured_dead: "secured i t deadline (q\<lparr>dead := d\<rparr>) = secured i t deadline q"
  "secured i t deadline (q\<lparr>completed := c\<rparr>) = secured i t deadline q"
  by (simp_all add: secured_def)

lemma update_subset: "set (AList.update k e m) \<subseteq> insert (k, e) (set m)"
  by (induction m) auto

lemma secured_requeue:
  assumes "secured i t deadline q" and "k \<noteq> i" and "mid m \<noteq> i"
  shows "secured i t deadline (q\<lparr>inFlight := AList.delete k (inFlight q), messages := messages q @ [m]\<rparr>)"
  using secured_push [OF secured_delete [OF assms(1,2)] assms(3)] by simp

lemma secured_bury:
  assumes "secured i t deadline q" and "k \<noteq> i"
  shows "secured i t deadline (q\<lparr>inFlight := AList.delete k (inFlight q), dead := d\<rparr>)"
    "secured i t deadline (q\<lparr>inFlight := AList.delete k (inFlight q), completed := c\<rparr>)"
  using secured_delete [OF assms] by (simp_all add: secured_dead)

lemma secured_update:
  assumes "secured i t deadline q" and "mid (imessage e) = k"
    and "k = i \<Longrightarrow> itoken e = t \<and> deadline \<le> expiresAt e"
  shows "secured i t deadline (q\<lparr>inFlight := AList.update k e (inFlight q)\<rparr>)"
proof -
  have "set (AList.update k e (inFlight q)) \<subseteq> insert (k, e) (set (inFlight q))"
    by (rule update_subset)
  then show ?thesis using assms by (auto simp: secured_def map_of_update distinct_update)
qed

lemma secured_reclaim_one:
  assumes "secured i t deadline q" and "now < deadline" and "mid (imessage (snd ie)) = fst ie"
    and "fst ie = i \<Longrightarrow> now < expiresAt (snd ie)"
  shows "secured i t deadline (reclaim_one now ie q)"
proof (cases "now < expiresAt (snd ie)")
  case True
  then show ?thesis using assms(1) by (simp add: reclaim_one_def case_prod_beta)
next
  case False
  then have k: "fst ie \<noteq> i" using assms(4) by blast
  show ?thesis
    using False assms(3) k
    by (auto simp: reclaim_one_def case_prod_beta Let_def pushDead_def intro!: secured_requeue [OF assms(1)] secured_bury [OF assms(1)])
qed

lemma secured_reclaim:
  assumes "secured i t deadline q" and "now < deadline"
  shows "secured i t deadline (reclaimExpired now q)"
proof -
  have "secured i t deadline (fold (reclaim_one now) es q')"
    if "secured i t deadline q'" "\<forall>ie \<in> set es. mid (imessage (snd ie)) = fst ie \<and> (fst ie = i \<longrightarrow> now < expiresAt (snd ie))" for es q'
    using that by (induction es arbitrary: q') (auto intro: secured_reclaim_one [OF _ assms(2)])
  moreover have "mid (imessage (snd ie)) = fst ie \<and> (fst ie = i \<longrightarrow> now < expiresAt (snd ie))" if "ie \<in> set (inFlight q)" for ie
    using assms that by (cases ie) (auto simp: secured_def dest: map_of_is_SomeI)
  ultimately show ?thesis unfolding reclaimExpired_def using assms(1) by blast
qed

lemma secured_pop:
  assumes "secured i t deadline q" and "now < deadline"
  shows "map_option mid (fst (pop now tok q)) \<noteq> Some i \<and> secured i t deadline (snd (pop now tok q))"
proof -
  let ?q = "reclaimExpired now q"
  have s: "secured i t deadline ?q" by (rule secured_reclaim [OF assms])
  show ?thesis
  proof (cases "splice_first (\<lambda>m. availableAt m \<le> now) (messages ?q)")
    case None
    then show ?thesis using s by (simp add: pop_def Let_def)
  next
    case (Some mr)
    then obtain m rest where mr: "splice_first (\<lambda>m. availableAt m \<le> now) (messages ?q) = Some (m, rest)" by (cases mr) auto
    then obtain us vs where us: "messages ?q = us @ m # vs" "rest = us @ vs" by (rule splice_first_SomeE)
    then have m: "mid m \<noteq> i" and r: "secured i t deadline (?q\<lparr>messages := rest\<rparr>)" using s by (auto simp: secured_def)
    define m1 where "m1 = m\<lparr>deliveries := Some (case deliveries m of None \<Rightarrow> 1 | Some d \<Rightarrow> d + 1), leaseToken := Some tok\<rparr>"
    have p: "pop now tok q = (Some m1, ?q\<lparr>messages := rest, inFlight := AList.update (mid m)
        \<lparr>imessage = m1, itoken = tok, expiresAt = now + visibilityTimeoutMs ?q\<rparr> (inFlight ?q)\<rparr>)"
      by (simp add: pop_def Let_def mr m1_def)
    have "mid m1 = mid m" by (simp add: m1_def)
    then show ?thesis unfolding p using m secured_update [OF r, of _ "mid m"] by simp
  qed
qed

lemma stale_lease:
  assumes "secured i t deadline q" and "j \<noteq> i \<or> t' \<noteq> None \<and> t' \<noteq> Some t" and "lease_ok q j t' = Some e"
  shows "j \<noteq> i"
  using assms by (auto simp: secured_def dest!: lease_ok_Some)

lemma secured_step:
  assumes s: "secured i t deadline q" and fo: "foreign_op i t deadline x" and np: "\<not> puts_back i x q"
  shows "fst (run_op x q) \<noteq> Some i \<and> secured i t deadline (snd (run_op x q))"
proof (cases x)
  case (Push m)
  then show ?thesis using s np by (simp add: push_def secured_push)
next
  case (Pop now tok)
  then show ?thesis using secured_pop [OF s, of now tok] fo by (auto split: prod.splits)
next
  case (Ack j t')
  then show ?thesis
    using s fo stale_lease [OF s, of j t'] by (auto simp: ack_def split: option.splits intro!: secured_bury)
next
  case (Nack now j d t' f)
  show ?thesis
  proof (cases "lease_ok q j t'")
    case None
    then show ?thesis using Nack s by (simp add: nack_def)
  next
    case (Some e)
    then have j: "j \<noteq> i" using stale_lease [OF s _ Some] fo Nack by simp
    moreover have "mid (imessage e) = j" using secured_entry [OF s] lease_ok_Some [OF Some] by blast
    ultimately show ?thesis using Nack Some
      by (auto simp: nack_def Let_def split: option.splits intro!: secured_requeue [OF s])
  qed
next
  case (Extend now j t' xm)
  show ?thesis
  proof (cases "lease_ok q j (Some t')")
    case None
    then show ?thesis using Extend s by (simp add: extend_def)
  next
    case (Some e)
    then have j: "j \<noteq> i" using stale_lease [OF s _ Some] fo Extend by auto
    moreover have "mid (imessage e) = j" using secured_entry [OF s] lease_ok_Some [OF Some] by blast
    ultimately show ?thesis using secured_update [OF s, of _ j] Extend Some by (simp add: extend_def)
  qed
next
  case (DeadLetter e t')
  then show ?thesis
    using s fo stale_lease [OF s, of "mid (dmessage e)" t']
    by (auto simp: deadLetter_def Let_def pushDead_def secured_dead split: option.splits intro!: secured_delete)
next
  case (Redrive now j)
  then show ?thesis
    using s np by (auto simp: redriveDeadLetter_def secured_def resetForRedrive_def split: option.splits elim!: splice_first_SomeE)
next
  case (RedriveAll now limit)
  then show ?thesis
    using s np by (auto simp: redriveDeadLetters_def secured_def resetForRedrive_def Let_def dest!: in_set_takeD)
next
  case Purge
  then show ?thesis using s by (simp add: purgeDeadLetters_def secured_dead)
qed

lemma pop_secures:
  assumes "queue_inv q" and "pop now tok q = (Some m, q1)"
  shows "secured (mid m) tok (now + visibilityTimeoutMs q) q1"
proof -
  have i: "queue_inv q1" using pop_state [OF assms] by simp
  obtain e where e: "(mid m, e) \<in> set (inFlight q1)" "itoken e = tok" "expiresAt e = now + visibilityTimeoutMs q"
    using pop_lease [OF assms] by force
  have "map_of (inFlight q1) (mid m) = Some e" using i e(1) by (simp add: queue_inv_def)
  moreover have "mid m \<in> set (keys_of (inFlight q1))" using e(1) by force
  ultimately show ?thesis using i e unfolding secured_def queue_inv_def by (auto simp: list_all_iff entry_ok_def)
qed

lemma secured_trace:
  "secured i t deadline q \<Longrightarrow> list_all (foreign_op i t deadline) xs \<Longrightarrow> never_put_back i xs q \<Longrightarrow>
   i \<notin> set (fst (run_trace xs q)) \<and> secured i t deadline (snd (run_trace xs q))"
proof (induction xs arbitrary: q)
  case Nil
  then show ?case by simp
next
  case (Cons x xs)
  have s: "fst (run_op x q) \<noteq> Some i \<and> secured i t deadline (snd (run_op x q))"
    using Cons.prems by (intro secured_step) auto
  with Cons show ?case by (auto simp: case_prod_beta split: option.splits)
qed

end
