(* ===== verification/Task_Queue.thy ===== *)
theory Task_Queue
  imports Mem_Queue
begin

text \<open>
  The task worker of \<open>task.ts\<close> on the in-memory queue of \<open>queue.ts\<close>: leases are exclusive,
  no operation loses or duplicates a job, a job that keeps failing is retried as often as its
  definition says and then dead-lettered with its failures, and task timeouts stay below the
  lease.
\<close>

definition memory_backend :: "int \<Rightarrow> ('i memq, 'i) backend" where
  "memory_backend vis = reliable ack nack deadLetter extend vis"

text \<open>Registrations after construction; a rejected one leaves the registry as it is.\<close>

definition register_all :: "task_definition list \<Rightarrow> registry \<Rightarrow> registry" where
  "register_all ds reg = fold (\<lambda>d r. case register d r of Inl _ \<Rightarrow> r | Inr r' \<Rightarrow> r') ds reg"

text \<open>
  One delivery of a job whose handler throws or times out: when it was popped and under which lease, what
  happened to the queue while the handler ran (other workers polled, the heartbeat extended the lease), when
  the handler was done and how.
\<close>

datatype meanwhile = Poll time string | Beat time

datatype delivery =
  Delivery (popped: time) (lease: string) (during: "meanwhile list") (settled: time) (ended: outcome)

fun meanwhile_step :: "('i memq, 'i) backend \<Rightarrow> 'i queue_message \<Rightarrow> meanwhile \<Rightarrow> 'i memq \<Rightarrow> 'i memq" where
  "meanwhile_step b m (Poll t tok) q = snd (pop t tok q)"
| "meanwhile_step b m (Beat t) q = snd (snd (heartbeat b t m None q))"

definition deliver_once ::
  "'i worker_config \<Rightarrow> registry \<Rightarrow> int \<Rightarrow> delivery \<Rightarrow> 'i memq \<Rightarrow> 'i memq" where
  "deliver_once cfg reg vis x q =
     (case pop (popped x) (lease x) q of
        (None, q1) \<Rightarrow> q1
      | (Some m, q1) \<Rightarrow>
          snd (settle_message cfg reg (memory_backend vis) (settled x) m (ended x)
            (fold (meanwhile_step (memory_backend vis) m) (during x) q1)))"

text \<open>No poll falls after the lease has expired; a heartbeat extends it by the visibility timeout.\<close>

fun covered :: "int \<Rightarrow> time \<Rightarrow> meanwhile list \<Rightarrow> bool" where
  "covered vis expiry [] = True"
| "covered vis expiry (Poll t tok # xs) = (t < expiry \<and> covered vis expiry xs)"
| "covered vis expiry (Beat t # xs) = covered vis (t + vis) xs"

text \<open>How the failed deliveries of a job follow each other: each is popped when the backoff of the previous is over.\<close>

fun failing :: "int \<Rightarrow> nat \<Rightarrow> time \<Rightarrow> delivery list \<Rightarrow> bool" where
  "failing vis n t [] = True"
| "failing vis n t (x # xs) =
     (t \<le> popped x \<and> lease x \<noteq> [] \<and> covered vis (popped x + vis) (during x) \<and> ended x \<noteq> Resolved
      \<and> failing vis (Suc n) (settled x + retry_delay n) xs)"

definition failure_text :: "'i worker_config \<Rightarrow> task_definition \<Rightarrow> string \<Rightarrow> delivery \<Rightarrow> string" where
  "failure_text cfg d name x =
     (case ended x of Rejected err \<Rightarrow> err | _ \<Rightarrow> timeout_error name (resolveTimeout (wvisibility cfg) d))"

section \<open>Helper lemmas\<close>

lemma register_all_safe:
  "registry_safe reg \<Longrightarrow> registry_safe (register_all ds reg) \<and>
   visibilityTimeout (register_all ds reg) = visibilityTimeout reg \<and>
   backendCanHeartbeat (register_all ds reg) = backendCanHeartbeat reg"
proof (induction ds arbitrary: reg)
  case Nil
  then show ?case by (simp add: register_all_def)
next
  case (Cons d ds)
  let ?r = "case register d reg of Inl _ \<Rightarrow> reg | Inr r' \<Rightarrow> r'"
  have "registry_safe ?r" using Cons.prems register_safe by (simp split: sum.splits)
  moreover have "visibilityTimeout ?r = visibilityTimeout reg" "backendCanHeartbeat ?r = backendCanHeartbeat reg"
    by (auto simp: register_def split: sum.splits option.splits)
  ultimately show ?case using Cons.IH [of ?r] by (simp add: register_all_def)
qed

lemma worker_run_bound:
  "worker_run conc p s q0 w \<Longrightarrow> length (active w) + (if loop w = Popping then 1 else 0) \<le> conc"
proof (induction rule: worker_run.induct)
  case init
  then show ?case by simp
next
  case (step w w')
  show ?case by (rule worker_step_bound [OF step.hyps(2) step.IH])
qed

definition job_at :: "'i memq \<Rightarrow> 'i queue_message \<Rightarrow> bool" where
  "job_at q m = (messages q = [m] \<and> inFlight q = [])"

text \<open>The job is running: leased to its worker, alone in the queue.\<close>

definition runs_in :: "'i memq \<Rightarrow> 'i queue_message \<Rightarrow> string \<Rightarrow> time \<Rightarrow> bool" where
  "runs_in q m tok expiry =
     (messages q = [] \<and> inFlight q = [(mid m, \<lparr>imessage = m, itoken = tok, expiresAt = expiry\<rparr>)] \<and> leaseToken m = Some tok)"

definition same_dead :: "'i memq \<Rightarrow> 'i memq \<Rightarrow> bool" where
  "same_dead q q' = (dead q' = dead q \<and> maxDeadLetters q' = maxDeadLetters q \<and> visibilityTimeoutMs q' = visibilityTimeoutMs q)"

lemma pop_alone:
  assumes "job_at q m" and "availableAt m \<le> now"
  shows "\<exists>m1 q1. pop now tok q = (Some m1, q1) \<and> runs_in q1 m1 tok (now + visibilityTimeoutMs q) \<and> same_dead q q1
    \<and> mid m1 = mid m \<and> taskName m1 = taskName m \<and> attempt m1 = attempt m \<and> failures m1 = failures m"
  using assms by (auto simp: job_at_def runs_in_def same_dead_def pop_def reclaimExpired_def Let_def)

lemma meanwhile_one:
  assumes "runs_in q m tok expiry" and "tok \<noteq> []" and "covered (visibilityTimeoutMs q) expiry (x # xs)"
  shows "\<exists>expiry'. runs_in (meanwhile_step (memory_backend vis) m x q) m tok expiry'
    \<and> same_dead q (meanwhile_step (memory_backend vis) m x q) \<and> covered (visibilityTimeoutMs q) expiry' xs"
  using assms
  by (cases x) (auto simp: runs_in_def same_dead_def pop_def reclaimExpired_def reclaim_one_def Let_def heartbeat_def
      memory_backend_def reliable_def Mem_Queue.extend_def lease_ok_def)

lemma meanwhile_all:
  "runs_in q m tok expiry \<Longrightarrow> tok \<noteq> [] \<Longrightarrow> covered (visibilityTimeoutMs q) expiry xs \<Longrightarrow>
   \<exists>expiry'. runs_in (fold (meanwhile_step (memory_backend vis) m) xs q) m tok expiry'
     \<and> same_dead q (fold (meanwhile_step (memory_backend vis) m) xs q)"
proof (induction xs arbitrary: q expiry)
  case Nil
  then show ?case by (auto simp: same_dead_def)
next
  case (Cons x xs)
  let ?q = "meanwhile_step (memory_backend vis) m x q"
  obtain e where e: "runs_in ?q m tok e" "same_dead q ?q" "covered (visibilityTimeoutMs q) e xs"
    using meanwhile_one [OF Cons.prems] by blast
  then have "covered (visibilityTimeoutMs ?q) e xs" by (simp add: same_dead_def)
  from Cons.IH [OF e(1) Cons.prems(2) this] e(2) show ?case by (auto simp: same_dead_def)
qed

lemma settle_failed:
  fixes cfg :: "'i worker_config" and vis :: int and q :: "'i memq"
  assumes "runs_in q m tok expiry" and "reg_get reg (taskName m) = Some d" and "ended x \<noteq> Resolved"
  defines "q' \<equiv> snd (settle_message cfg reg (memory_backend vis) (settled x) m (ended x) q)"
    and "fs \<equiv> add_failure \<lparr>fattempt = attempt m, ferror = failure_text cfg d (taskName m) x, failedAt = settled x\<rparr> (failures m)"
  shows "if int (attempt m) < retries_of d
    then same_dead q q' \<and> (\<exists>m'. job_at q' m' \<and> taskName m' = taskName m \<and> mid m' = mid m \<and> attempt m' = Suc (attempt m)
      \<and> availableAt m' = settled x + retry_delay (attempt m) \<and> failures m' = Some fs)
    else messages q' = [] \<and> inFlight q' = [] \<and>
      (\<exists>e. dead q' = keep_last (maxDeadLetters q) (dead q @ [e]) \<and> mid (dmessage e) = mid m \<and> dfailures e = fs)"
  using assms(1-3)
  by (cases "ended x") (auto simp: q'_def fs_def failure_text_def job_at_def runs_in_def same_dead_def settle_message_def Let_def
      handleFailure_def memory_backend_def reliable_def safeNack_def nack_def lease_ok_def emit_def add_failure_def
      failPermanently_def deadLetter_def pushDead_def split: option.splits)

lemma deliver_failed:
  fixes cfg :: "'i worker_config" and vis :: int and q :: "'i memq"
  assumes "job_at q m" and "availableAt m \<le> popped x" and "reg_get reg (taskName m) = Some d"
    and "lease x \<noteq> []" and "covered (visibilityTimeoutMs q) (popped x + visibilityTimeoutMs q) (during x)" and "ended x \<noteq> Resolved"
  defines "q' \<equiv> deliver_once cfg reg vis x q"
    and "fs \<equiv> add_failure \<lparr>fattempt = attempt m, ferror = failure_text cfg d (taskName m) x, failedAt = settled x\<rparr> (failures m)"
  shows "if int (attempt m) < retries_of d
    then same_dead q q' \<and> (\<exists>m'. job_at q' m' \<and> taskName m' = taskName m \<and> mid m' = mid m \<and> attempt m' = Suc (attempt m)
      \<and> availableAt m' = settled x + retry_delay (attempt m) \<and> failures m' = Some fs)
    else messages q' = [] \<and> inFlight q' = [] \<and>
      (\<exists>e. dead q' = keep_last (maxDeadLetters q) (dead q @ [e]) \<and> mid (dmessage e) = mid m \<and> dfailures e = fs)"
proof -
  obtain m1 q1 where p: "pop (popped x) (lease x) q = (Some m1, q1)" "runs_in q1 m1 (lease x) (popped x + visibilityTimeoutMs q)"
      "same_dead q q1" and m1: "mid m1 = mid m" "taskName m1 = taskName m" "attempt m1 = attempt m" "failures m1 = failures m"
    using pop_alone [OF assms(1,2)] by blast
  define q2 where "q2 = fold (meanwhile_step (memory_backend vis) m1) (during x) q1"
  have "covered (visibilityTimeoutMs q1) (popped x + visibilityTimeoutMs q) (during x)" using assms(5) p(3) by (simp add: same_dead_def)
  from meanwhile_all [OF p(2) assms(4) this] obtain e where e: "runs_in q2 m1 (lease x) e" "same_dead q1 q2" unfolding q2_def by blast
  have d: "reg_get reg (taskName m1) = Some d" using assms(3) m1 by simp
  have "q' = snd (settle_message cfg reg (memory_backend vis) (settled x) m1 (ended x) q2)"
    by (simp add: q'_def deliver_once_def p(1) q2_def)
  then show ?thesis using settle_failed [OF e(1) d assms(6), of cfg vis] e(2) p(3)
    by (cases "int (attempt m) < retries_of d") (auto simp: m1 fs_def same_dead_def)
qed

lemma failing_job:
  assumes "job_at q m" and "availableAt m \<le> t" and "failing (visibilityTimeoutMs q) (attempt m) t xs"
    and "reg_get reg (taskName m) = Some d" and "failures m = Some fs" and "length xs = Suc k" and "int (attempt m + k) = retries_of d"
  shows "let q' = fold (deliver_once cfg reg vis) xs q in
    messages q' = [] \<and> inFlight q' = [] \<and>
    (\<exists>e. dead q' = keep_last (maxDeadLetters q) (dead q @ [e]) \<and> mid (dmessage e) = mid m \<and>
      map ferror (dfailures e) = map ferror fs @ map (failure_text cfg d (taskName m)) xs)"
  using assms
proof (induction k arbitrary: q m t xs fs)
  case 0
  then obtain x where xs: "xs = [x]" by (cases xs) auto
  have "availableAt m \<le> popped x" using 0 by (simp add: xs)
  from deliver_failed [OF 0(1) this 0(4), of cfg vis] 0 show ?case by (auto simp: xs Let_def add_failure_def)
next
  case (Suc k)
  then obtain x ys where xs: "xs = x # ys" and ys: "length ys = Suc k" by (cases xs) auto
  define q1 where "q1 = deliver_once cfg reg vis x q"
  have a: "availableAt m \<le> popped x" and f: "failing (visibilityTimeoutMs q) (Suc (attempt m)) (settled x + retry_delay (attempt m)) ys"
    using Suc.prems by (simp_all add: xs)
  from deliver_failed [OF Suc.prems(1) a Suc.prems(4), of cfg vis] Suc.prems obtain m' where
      m': "job_at q1 m'" "taskName m' = taskName m" "mid m' = mid m" "attempt m' = Suc (attempt m)"
      "availableAt m' = settled x + retry_delay (attempt m)"
      "failures m' = Some (add_failure \<lparr>fattempt = attempt m, ferror = failure_text cfg d (taskName m) x, failedAt = settled x\<rparr> (failures m))"
      and s: "same_dead q q1"
    by (auto simp: q1_def xs split: if_splits)
  have "failing (visibilityTimeoutMs q1) (attempt m') (availableAt m') ys" using f m' s by (simp add: same_dead_def)
  note IH = Suc.IH [OF m'(1) order.refl this _ m'(6) ys]
  show ?case
    using IH Suc.prems m' s by (simp add: xs q1_def [symmetric] Let_def add_failure_def same_dead_def)
qed

section \<open>A concrete job\<close>

definition demo_task :: task_definition where
  "demo_task = \<lparr>tname = ''t'', tretries = Some 1, ttimeout = Some 1000, tlongRunning = False\<rparr>"

definition demo_registry :: registry where
  "demo_registry = \<lparr>tasks = [(''t'', demo_task)], visibilityTimeout = Some 30000, backendCanHeartbeat = True\<rparr>"

definition demo_job :: "nat queue_message" where
  "demo_job = \<lparr>mid = ''j'', taskName = ''t'', input = 7, attempt = 0, maxRetries = 1, createdAt = 0,
     availableAt = 0, deliveries = Some 0, leaseToken = None, failures = Some []\<rparr>"

definition demo_queue :: "nat memq" where
  "demo_queue = push demo_job (newMemoryQueue None None None)"

definition demo_config :: "nat worker_config" where
  "demo_config = \<lparr>concurrency = 1, onFailure = None, onDeadLetter = None, wvisibility = 30000\<rparr>"

lemmas demo_defs = demo_task_def demo_registry_def demo_job_def demo_queue_def demo_config_def
  newMemoryQueue_def DEFAULT_VISIBILITY_TIMEOUT_def push_def

lemma demo_inv: "queue_inv demo_queue"
  by (simp add: demo_defs queue_inv_def)

definition demo_popped :: "nat queue_message \<times> nat memq" where
  "demo_popped = (let m = demo_job\<lparr>deliveries := Some 1, leaseToken := Some ''a''\<rparr> in
     (m, demo_queue\<lparr>messages := [], inFlight := [(''j'', \<lparr>imessage = m, itoken = ''a'', expiresAt = 30005\<rparr>)]\<rparr>))"

lemma demo_pop: "pop 5 ''a'' demo_queue = (Some (fst demo_popped), snd demo_popped)"
  by (simp add: demo_defs demo_popped_def pop_def reclaimExpired_def Let_def)

lemma demo_popped_inv: "queue_inv (snd demo_popped)"
  using pop_state [OF demo_inv demo_pop] by simp

lemma demo_held: "held_by (snd demo_popped) ''j'' = Some ''a'' \<and> mid (fst demo_popped) = ''j'' \<and> leaseToken (fst demo_popped) = Some ''a''"
  by (simp add: demo_popped_def demo_defs held_by_def Let_def)

section \<open>Properties\<close>

text \<open>
  C9. Mutual exclusion of leases. From the moment \<open>pop()\<close> hands a job out until its visibility
  timeout, whatever the other workers do (push, pop, ack, nack, extend, dead-letter, redrive or purge
  in any order, under other leases), no \<open>pop()\<close> delivers the job again and its lease stays with
  the first worker, provided nobody puts it back: pushes a job under its id, or redrives a dead-letter entry
  of it, which the queue does not prevent.
\<close>

theorem lease_exclusive:
  assumes "queue_inv q" and "pop now tok q = (Some m, q1)" and "never_put_back (mid m) ops q1"
    and "list_all (foreign_op (mid m) tok (now + visibilityTimeoutMs q)) ops"
  shows "mid m \<notin> set (fst (run_trace ops q1)) \<and> held_by (snd (run_trace ops q1)) (mid m) = Some tok"
proof -
  have s: "secured (mid m) tok (now + visibilityTimeoutMs q) q1" by (rule pop_secures [OF assms(1,2)])
  show ?thesis using secured_trace [OF s assms(4,3)] by (auto simp: secured_def held_by_def)
qed

definition demo_ops :: "nat queue_op list" where
  "demo_ops = [Push (demo_job\<lparr>mid := ''k''\<rparr>), Pop 100 ''b'', RedriveAll 100 None, Ack ''j'' (Some ''b''), Pop 30004 ''c'']"

lemma demo_ops_foreign:
  "never_put_back (mid (fst demo_popped)) demo_ops (snd demo_popped)
   \<and> list_all (foreign_op (mid (fst demo_popped)) ''a'' (5 + visibilityTimeoutMs demo_queue)) demo_ops"
  by (simp add: demo_ops_def demo_popped_def demo_defs Let_def pop_def reclaimExpired_def reclaim_one_def redriveDeadLetters_def)

theorem lease_exclusive_witness:
  "mid (fst demo_popped) \<notin> set (fst (run_trace demo_ops (snd demo_popped))) \<and>
   held_by (snd (run_trace demo_ops (snd demo_popped))) (mid (fst demo_popped)) = Some ''a''"
  using lease_exclusive [OF demo_inv demo_pop] demo_ops_foreign by blast

text \<open>
  The proviso is needed. A worker whose lease is stale has the job dead-lettered while another worker holds
  it; once that entry is redriven, the next \<open>pop()\<close> delivers the job again although its lease is still valid.
\<close>

lemma redriven_while_leased:
  "let e = \<lparr>dmessage = demo_job, derror = ''x'', dfailures = [], deadLetteredAt = 10\<rparr>;
       ops = [DeadLetter e (Some ''stale''), Redrive 20 ''j'', Pop 30 ''b'']
   in list_all (foreign_op ''j'' ''a'' 30005) ops \<and> fst (run_trace ops (snd demo_popped)) = [''j'']"
  by (simp add: demo_popped_def demo_defs Let_def deadLetter_def lease_ok_def pushDead_def redriveDeadLetter_def pop_def
      reclaimExpired_def reclaim_one_def resetForRedrive_def keep_last_def)

text \<open>
  C27. \<open>pop()\<close> loses and duplicates no job: the live jobs before the call are exactly the live
  jobs after it (the delivered one included, now leased) and the jobs whose lease expired
  with no retry left, which are appended to the dead-letter list, cut to its limit. The
  delivered job is due and all jobs that stood before it in the queue are not.
\<close>

theorem pop_conserves_jobs:
  assumes "queue_inv q" and "pop now tok q = (r, q1)"
  shows "let buried = concat (map (bury now q) (inFlight q)) in
    queue_inv q1 \<and> live_ids q = live_ids q1 + mset (map (\<lambda>e. mid (dmessage e)) buried) \<and>
    dead q1 = keep_last (maxDeadLetters q) (dead q @ buried) \<and>
    (r = None \<longleftrightarrow> (\<forall>m \<in> set (messages (reclaimExpired now q)). now < availableAt m))"
proof -
  have "r = None \<longleftrightarrow> (\<forall>m \<in> set (messages (reclaimExpired now q)). now < availableAt m)"
    using assms by (rule_tac pop_cases [OF assms(1), where now = now and tok = tok]) auto
  then show ?thesis
    using pop_state [OF assms] reclaim_live [OF assms(1), of now] by (simp add: Let_def reclaimExpired_eq [OF assms(1)])
qed

theorem pop_conserves_jobs_witness:
  "live_ids (snd demo_popped) = live_ids (snd (pop 30005 ''b'' (snd demo_popped))) \<and> live_ids (snd demo_popped) = {#''j''#}"
proof -
  have b: "concat (map (bury 30005 (snd demo_popped)) (inFlight (snd demo_popped))) = []"
    by (simp add: demo_popped_def demo_defs bury_def expired_def exhausted_def Let_def)
  have "live_ids (snd demo_popped) = {#''j''#}"
    by (simp add: demo_popped_def demo_defs live_ids_def pending_ids_def leased_ids_def Let_def)
  then show ?thesis
    using pop_conserves_jobs [OF demo_popped_inv surjective_pairing, of 30005 "''b''"] by (simp add: b Let_def)
qed

text \<open>
  Settling is effective once. A worker that finishes a job while it holds the lease releases
  the lease, and the job is pending again exactly when its outcome is a failure with retries
  left. A worker whose lease is stale changes neither the pending jobs nor any lease.
\<close>

theorem settle_under_lease:
  assumes "queue_inv q" and "leaseToken m = Some t"
  shows "let q' = snd (settle_message cfg reg (memory_backend vis) now m out q); held = (held_by q (mid m) = Some t) in
    queue_inv q' \<and> held_by q' = (if held then (held_by q)(mid m := None) else held_by q) \<and>
    set (map mid (messages q')) =
      (if held \<and> will_retry reg m out then insert (mid m) (set (map mid (messages q))) else set (map mid (messages q)))"
  using memory_queue.settle_held [OF assms, of cfg reg extend vis now out]
    memory_queue.settle_stale [OF assms, of cfg reg extend vis now out]
  by (auto simp: Let_def memory_backend_def)

theorem settle_under_lease_witness:
  "set (map mid (messages (snd (settle_message demo_config demo_registry (memory_backend 30000) 10
     (fst demo_popped) (Rejected ''x'') (snd demo_popped))))) = {''j''}"
proof -
  have "will_retry demo_registry (fst demo_popped) (Rejected ''x'')"
    by (simp add: will_retry_def reg_get_def demo_popped_def demo_defs retries_of_def Let_def)
  moreover have "messages (snd demo_popped) = []" by (simp add: demo_popped_def Let_def)
  ultimately show ?thesis
    using settle_under_lease [OF demo_popped_inv, of "fst demo_popped" "''a''" demo_config demo_registry 30000 10 "Rejected ''x''"]
      demo_held by (simp add: Let_def)
qed

text \<open>
  C29. A job that is alone in the queue and whose handler throws or times out every time is executed once more
  than its number of retries and then dead-lettered with the error of every attempt, in order; nothing of it
  stays pending or leased. Each delivery comes when the backoff of the previous one is over; while a
  handler runs, for however long, other workers may poll as long as its lease, which heartbeats extend, has
  not expired.
\<close>

theorem failing_job_dead_lettered:
  assumes "messages q = [m]" and "inFlight q = []" and "availableAt m \<le> t" and "failing (visibilityTimeoutMs q) 0 t xs"
    and "reg_get reg (taskName m) = Some d" and "failures m = Some []" and "attempt m = 0"
    and "int (length xs) = retries_of d + 1" and "0 \<le> retries_of d"
  shows "let q' = fold (deliver_once cfg reg vis) xs q in
    messages q' = [] \<and> inFlight q' = [] \<and>
    (\<exists>e. dead q' = keep_last (maxDeadLetters q) (dead q @ [e]) \<and> mid (dmessage e) = mid m \<and>
      map ferror (dfailures e) = map (failure_text cfg d (taskName m)) xs)"
  using failing_job [of q m t xs reg d "[]" "nat (retries_of d)" cfg vis] assms by (auto simp: job_at_def Let_def)

definition demo_deliveries :: "delivery list" where
  "demo_deliveries =
     [Delivery 5 ''a'' [Poll 20000 ''b'', Beat 25000, Poll 40000 ''b''] 50000 (Rejected ''x''),
      Delivery 51000 ''c'' [] 51001 (Rejected ''y'')]"

theorem failing_job_dead_lettered_witness:
  "let q' = fold (deliver_once demo_config demo_registry 30000) demo_deliveries demo_queue in
    messages q' = [] \<and> inFlight q' = [] \<and> map (\<lambda>e. map ferror (dfailures e)) (dead q') = [[''x'', ''y'']]"
  using failing_job_dead_lettered [of demo_queue demo_job 0 demo_deliveries demo_registry demo_task demo_config 30000]
  by (auto simp: demo_defs demo_deliveries_def reg_get_def retries_of_def retry_delay_def failure_text_def Let_def keep_last_def)

text \<open>
  Every task a worker can run has a timeout below the lease duration of its queue, or is
  declared \<open>longRunning\<close> on a backend that can extend leases, whose heartbeat interval is then
  below the lease duration. This covers tasks registered after the worker was constructed.
\<close>

theorem timeouts_below_lease:
  assumes "newTaskWorker reg b conc onF onD = (Inr (cfg, evs), reg')" and "b_visibility b = Some vis" and "250 < vis"
  shows "\<forall>d \<in> set (reg_list (register_all ds reg')).
    resolveTimeout (wvisibility cfg) d < vis \<or>
    tlongRunning d \<and> b_extend b \<noteq> None \<and> max 250 (wvisibility cfg div 3) < vis"
proof
  fix d assume d: "d \<in> set (reg_list (register_all ds reg'))"
  have cfg: "wvisibility cfg = vis" and c: "setQueueConstraints (Some vis) (b_extend b \<noteq> None) reg = (None, reg')"
    using assms by (auto simp: newTaskWorker_def Let_def setQueueConstraints_def split: option.splits)
  note safe = constraints_safe [OF c]
  have "timeout_safe (register_all ds reg') d"
    using register_all_safe [of reg' ds] safe d by (auto simp: registry_safe_def reg_list_def list_all_iff)
  moreover have "visibilityTimeout (register_all ds reg') = Some vis \<and> (backendCanHeartbeat (register_all ds reg') \<longleftrightarrow> b_extend b \<noteq> None)"
    using register_all_safe [of reg' ds] safe by simp
  moreover have "max 250 (vis div 3) < vis" using assms(3) by auto
  ultimately show "resolveTimeout (wvisibility cfg) d < vis \<or> tlongRunning d \<and> b_extend b \<noteq> None \<and> max 250 (wvisibility cfg div 3) < vis"
    using safe_timeout [of "register_all ds reg'" d vis] assms(3) unfolding cfg by auto
qed

theorem timeouts_below_lease_witness:
  "resolveTimeout 30000 demo_task < 30000 \<or> tlongRunning demo_task"
proof -
  let ?b = "memory_backend 30000 :: (nat memq, nat) backend"
  have n: "newTaskWorker newRegistry ?b None None None = (Inr (demo_config, []), newRegistry\<lparr>visibilityTimeout := Some 30000, backendCanHeartbeat := True\<rparr>)"
    by (simp add: newTaskWorker_def setQueueConstraints_def newRegistry_def memory_backend_def reliable_def demo_config_def Let_def)
  have d: "demo_task \<in> set (reg_list (register_all [demo_task] (newRegistry\<lparr>visibilityTimeout := Some 30000, backendCanHeartbeat := True\<rparr>)))"
    by (simp add: register_all_def register_def assertTimeoutIsSafe_def demo_task_def newRegistry_def reg_list_def)
  show ?thesis
    using timeouts_below_lease [OF n, of 30000 "[demo_task]"] d by (auto simp: memory_backend_def reliable_def demo_config_def)
qed

text \<open>
  The polling loop never has more jobs in progress than its concurrency, in any
  interleaving of polling, finishing jobs, \<open>stop()\<close> and a later \<open>start()\<close>.
\<close>

theorem worker_concurrency:
  assumes "worker_run conc p s q0 w"
  shows "length (active w) \<le> conc"
  using worker_run_bound [OF assms] by simp

theorem worker_concurrency_witness:
  "length (active \<lparr>running = True, loop = Checking, active = [demo_job], wqueue = (0 :: nat)\<rparr>) \<le> 1"
proof -
  let ?p = "\<lambda>q r q'. r = Some demo_job \<and> q' = (q :: nat)" and ?s = "\<lambda>m q q'. q' = (q :: nat)"
  let ?w = "\<lambda>r l a. \<lparr>running = r, loop = l, active = a, wqueue = 0 :: nat\<rparr>"
  have a: "worker_run 1 ?p ?s 0 (?w False Stopped [])" by (rule worker_run.init)
  have "worker_run 1 ?p ?s 0 (?w True Checking [])"
    using worker_run.step [OF a worker_step.start] by simp
  then have "worker_run 1 ?p ?s 0 (?w True Popping [])"
    using worker_run.step [OF _ worker_step.check_pop, of 1 ?p ?s 0 "?w True Checking []"] by simp
  then have "worker_run 1 ?p ?s 0 (?w True Checking [demo_job])"
    using worker_run.step [OF _ worker_step.pop_some [where m = demo_job and q = 0], of 1 ?p ?s 0 "?w True Popping []"] by simp
  then show ?thesis by (rule worker_concurrency)
qed

end
