(* ===== verification/Cron.thy ===== *)
theory Cron
  imports Js_String
begin

text \<open>
  Cron scheduling, \<open>packages/core/src/cron.ts\<close>: the parser of five-field expressions, the
  matching of a date, and the scheduler.

  \<^item> A \<open>Set<number>\<close> is an \<open>int set\<close>. A thrown \<open>CelsianError\<close> is a \<open>cron_error\<close>.
  \<^item> \<open>date\<close> holds the local-time accessors of \<open>Date\<close> that the code reads; the epoch
    milliseconds are an argument of \<open>tick\<close>.
  \<^item> \<open>jthrows\<close> says whether calling a job's handler throws before it returns a promise. A
    rejected promise is only logged and has no effect on the scheduler.
  \<^item> The runtime's global objects are the record \<open>runtime_env\<close>.
\<close>

section \<open>Parsing\<close>

datatype cron_error =
    ExpectedFiveFields string
  | NotAnInteger string string
  | ValueOutOfRange string int int int
  | StepNotPositive string int

record parsed_cron =
  minutes :: "int set"
  hours :: "int set"
  daysOfMonth :: "int set"
  months :: "int set"
  daysOfWeek :: "int set"
  daysOfMonthRestricted :: bool
  daysOfWeekRestricted :: bool

definition isRestrictedDayField :: "string \<Rightarrow> bool" where
  "isRestrictedDayField field = (\<not> starts_with field ''*'')"

definition parseIntStrict :: "string \<Rightarrow> string \<Rightarrow> cron_error + int" where
  "parseIntStrict raw field =
     (case parse_int raw of None \<Rightarrow> Inl (NotAnInteger field raw) | Some n \<Rightarrow> Inr n)"

definition inRange :: "string \<Rightarrow> int \<Rightarrow> int \<Rightarrow> int \<Rightarrow> cron_error + int" where
  "inRange field lo hi n = (if n < lo \<or> hi < n then Inl (ValueOutOfRange field n lo hi) else Inr n)"

definition bind_sum :: "'e + 'a \<Rightarrow> ('a \<Rightarrow> 'e + 'b) \<Rightarrow> 'e + 'b" where
  "bind_sum x f = (case x of Inl e \<Rightarrow> Inl e | Inr a \<Rightarrow> f a)"

text \<open>The loop \<open>for (let i = start; i <= max; i += step) values.add(inRange(i))\<close>.\<close>

function add_steps :: "(int \<Rightarrow> cron_error + int) \<Rightarrow> int \<Rightarrow> int \<Rightarrow> int \<Rightarrow> int set \<Rightarrow> cron_error + int set" where
  "add_steps chk i step hi vs =
     (if step \<le> 0 \<or> hi < i then Inr vs
      else bind_sum (chk i) (\<lambda>n. add_steps chk (i + step) step hi (insert n vs)))"
  by auto
termination by (relation "measure (\<lambda>(chk, i, step, hi, vs). nat (hi + 1 - i))") auto

declare add_steps.simps [simp del]

definition parse_part :: "string \<Rightarrow> int \<Rightarrow> int \<Rightarrow> string \<Rightarrow> int set \<Rightarrow> cron_error + int set" where
  "parse_part field lo hi part vs =
     (if part = ''*'' then Inr (vs \<union> {lo..hi})
      else if includes_str part ''/'' then
        (let ps = split_on CHR ''/'' part; range = ps ! 0; stepStr = ps ! 1 in
         bind_sum (parseIntStrict stepStr field) (\<lambda>step.
           if step \<le> 0 then Inl (StepNotPositive field step)
           else bind_sum (if range = ''*'' then Inr lo
                          else bind_sum (parseIntStrict range field) (inRange field lo hi))
             (\<lambda>start. add_steps (inRange field lo hi) start step hi vs)))
      else if includes_str part ''-'' then
        (let ps = split_on CHR ''-'' part in
         bind_sum (bind_sum (parseIntStrict (ps ! 0) field) (inRange field lo hi)) (\<lambda>start.
           bind_sum (bind_sum (parseIntStrict (ps ! 1) field) (inRange field lo hi)) (\<lambda>stop_at.
             add_steps (inRange field lo hi) start 1 stop_at vs)))
      else bind_sum (bind_sum (parseIntStrict part field) (inRange field lo hi)) (\<lambda>n. Inr (insert n vs)))"

fun parse_parts :: "string \<Rightarrow> int \<Rightarrow> int \<Rightarrow> string list \<Rightarrow> int set \<Rightarrow> cron_error + int set" where
  "parse_parts field lo hi [] vs = Inr vs"
| "parse_parts field lo hi (p # ps) vs = bind_sum (parse_part field lo hi p vs) (parse_parts field lo hi ps)"

definition parseField :: "string \<Rightarrow> int \<Rightarrow> int \<Rightarrow> cron_error + int set" where
  "parseField field lo hi = parse_parts field lo hi (split_on CHR '','' field) {}"

text \<open>\<open>s.split(/\s+/)\<close>.\<close>

function split_ws :: "string \<Rightarrow> string list" where
  "split_ws [] = [[]]"
| "split_ws (c # s) =
     (if is_ws c then [] # split_ws (dropWhile is_ws s)
      else (case split_ws s of [] \<Rightarrow> [[c]] | p # ps \<Rightarrow> (c # p) # ps))"
  by pat_completeness auto
termination by (relation "measure length") (auto simp: less_Suc_eq_le length_dropWhile_le)

definition parseCronExpression :: "string \<Rightarrow> cron_error + parsed_cron" where
  "parseCronExpression expr =
     (case split_ws (trim expr) of
        [mi, ho, dy, mo, wd] \<Rightarrow>
          bind_sum (parseField mi 0 59) (\<lambda>m.
          bind_sum (parseField ho 0 23) (\<lambda>h.
          bind_sum (parseField dy 1 31) (\<lambda>d.
          bind_sum (parseField mo 1 12) (\<lambda>mm.
          bind_sum (parseField wd 0 6) (\<lambda>w.
            Inr \<lparr>minutes = m, hours = h, daysOfMonth = d, months = mm, daysOfWeek = w,
                 daysOfMonthRestricted = isRestrictedDayField dy,
                 daysOfWeekRestricted = isRestrictedDayField wd\<rparr>)))))
      | _ \<Rightarrow> Inl (ExpectedFiveFields expr))"

section \<open>Matching\<close>

record date =
  getMinutes :: int
  getHours :: int
  getDate :: int
  getMonth :: int
  getDay :: int

definition shouldRun :: "parsed_cron \<Rightarrow> date \<Rightarrow> bool" where
  "shouldRun p d =
     (let dayOfMonthMatches = getDate d \<in> daysOfMonth p;
          dayOfWeekMatches = getDay d \<in> daysOfWeek p;
          dayMatches = (if daysOfMonthRestricted p \<and> daysOfWeekRestricted p
                        then dayOfMonthMatches \<or> dayOfWeekMatches
                        else dayOfMonthMatches \<and> dayOfWeekMatches)
      in getMinutes d \<in> minutes p \<and> getHours d \<in> hours p \<and> getMonth d + 1 \<in> months p \<and> dayMatches)"

section \<open>Serverless runtimes\<close>

record runtime_env =
  userAgent :: "string option"
  denoEnv :: "(string \<Rightarrow> string option) option"
  processEnv :: "(string \<Rightarrow> string option) option"

definition set_var :: "(string \<Rightarrow> string option) \<Rightarrow> string \<Rightarrow> bool" where
  "set_var env k = (case env k of None \<Rightarrow> False | Some v \<Rightarrow> v \<noteq> [])"

definition detectServerlessCronRuntime :: "runtime_env \<Rightarrow> (string \<times> string) option" where
  "detectServerlessCronRuntime g =
     (if userAgent g = Some ''Cloudflare-Workers'' then
        Some (''Cloudflare Workers'', ''a Cron Trigger in wrangler.toml wired to a scheduled() handler (see createScheduledHandler in @celsian/adapter-cloudflare)'')
      else if (case denoEnv g of None \<Rightarrow> False | Some e \<Rightarrow> set_var e ''DENO_DEPLOYMENT_ID'') then
        Some (''Deno Deploy'', ''Deno.cron() or a Deno Deploy scheduled job'')
      else (case processEnv g of
          None \<Rightarrow> None
        | Some env \<Rightarrow>
            if set_var env ''AWS_LAMBDA_FUNCTION_NAME'' \<or> set_var env ''LAMBDA_TASK_ROOT'' then
              Some (''AWS Lambda'', ''an EventBridge Scheduler rule invoking the function, routed to your cron handler'')
            else if set_var env ''VERCEL'' then
              Some (''Vercel Functions'', ''a `crons` entry in vercel.json hitting a cron route'')
            else if set_var env ''NETLIFY'' then
              Some (''Netlify Functions'', ''a Netlify scheduled function'')
            else if set_var env ''FUNCTION_TARGET'' \<or> set_var env ''K_SERVICE'' then
              Some (''Google Cloud Functions / Cloud Run'', ''a Cloud Scheduler job'')
            else None))"

section \<open>The scheduler\<close>

record cron_job =
  jname :: string
  schedule :: string
  jthrows :: bool

record scheduler =
  jobs :: "(cron_job \<times> parsed_cron) list"
  timer :: bool
  lastMinute :: int
  lastFired :: "(string, int) omap"
  warnedServerless :: bool

definition newScheduler :: scheduler where
  "newScheduler = \<lparr>jobs = [], timer = False, lastMinute = -1, lastFired = [], warnedServerless = False\<rparr>"

definition add :: "cron_job \<Rightarrow> scheduler \<Rightarrow> cron_error option \<times> scheduler" where
  "add job s =
     (case parseCronExpression (schedule job) of
        Inl e \<Rightarrow> (Some e, s)
      | Inr p \<Rightarrow> (None, s\<lparr>jobs := jobs s @ [(job, p)]\<rparr>))"

text \<open>The warning names the platform, the jobs and the alternative.\<close>

definition warnIfServerless :: "runtime_env \<Rightarrow> scheduler \<Rightarrow> (string \<times> string \<times> string) option \<times> scheduler" where
  "warnIfServerless g s =
     (if warnedServerless s \<or> jobs s = [] then (None, s)
      else (case detectServerlessCronRuntime g of
              None \<Rightarrow> (None, s)
            | Some (platform, alternative) \<Rightarrow>
                (Some (platform, join '', '' (map (jname \<circ> fst) (jobs s)), alternative),
                 s\<lparr>warnedServerless := True\<rparr>)))"

definition start :: "runtime_env \<Rightarrow> scheduler \<Rightarrow> (string \<times> string \<times> string) option \<times> scheduler" where
  "start g s =
     (if timer s then (None, s)
      else (let (w, s') = warnIfServerless g s in (w, s'\<lparr>timer := True\<rparr>)))"

definition stop :: "scheduler \<Rightarrow> scheduler" where
  "stop s = s\<lparr>timer := False\<rparr>"

text \<open>The loop of \<open>tick\<close>: the names fired, whether it ran to its end, and the guard map. A
  handler that throws ends the loop.\<close>

fun fire_jobs :: "int \<Rightarrow> date \<Rightarrow> (cron_job \<times> parsed_cron) list \<Rightarrow> (string, int) omap \<Rightarrow> string list \<times> bool \<times> (string, int) omap" where
  "fire_jobs m d [] lf = ([], True, lf)"
| "fire_jobs m d ((j, p) # js) lf =
     (if shouldRun p d \<and> map_of lf (jname j) \<noteq> Some m then
        (let lf' = AList.update (jname j) m lf in
         if jthrows j then ([jname j], False, lf')
         else (case fire_jobs m d js lf' of (ns, ok, lf'') \<Rightarrow> (jname j # ns, ok, lf'')))
      else fire_jobs m d js lf)"

definition tick :: "time \<Rightarrow> date \<Rightarrow> scheduler \<Rightarrow> string list \<times> bool \<times> scheduler" where
  "tick now d s =
     (let epochMinute = now div 60000 in
      if epochMinute = lastMinute s then ([], True, s)
      else (case fire_jobs epochMinute d (jobs s) (lastFired s) of
              (ns, ok, lf) \<Rightarrow> (ns, ok, s\<lparr>lastMinute := epochMinute, lastFired := lf\<rparr>)))"

definition getJobs :: "scheduler \<Rightarrow> cron_job list" where
  "getJobs s = map fst (jobs s)"

end
