(* ===== verification/Cron_Props.thy ===== *)
theory Cron_Props
  imports Cron
begin

text \<open>
  What a cron expression means, and when jobs fire.

  \<open>cron_item\<close> is the grammar of one field with its meaning \<open>item_values\<close>; printing an
  expression and parsing it again gives exactly these sets. \<open>cron_op\<close> is a trace of the
  scheduler's operations.
\<close>

section \<open>The grammar\<close>

datatype cron_item =
    Every
  | EveryStep nat
  | Value nat
  | Range nat nat
  | StepFrom nat nat

fun show_item :: "cron_item \<Rightarrow> string" where
  "show_item Every = ''*''"
| "show_item (EveryStep k) = ''*/'' @ show_nat k"
| "show_item (Value n) = show_nat n"
| "show_item (Range a b) = show_nat a @ ''-'' @ show_nat b"
| "show_item (StepFrom a k) = show_nat a @ ''/'' @ show_nat k"

fun item_ok :: "nat \<Rightarrow> nat \<Rightarrow> cron_item \<Rightarrow> bool" where
  "item_ok lo hi Every = True"
| "item_ok lo hi (EveryStep k) = (0 < k)"
| "item_ok lo hi (Value n) = (lo \<le> n \<and> n \<le> hi)"
| "item_ok lo hi (Range a b) = (lo \<le> a \<and> a \<le> hi \<and> lo \<le> b \<and> b \<le> hi)"
| "item_ok lo hi (StepFrom a k) = (lo \<le> a \<and> a \<le> hi \<and> 0 < k)"

fun item_values :: "nat \<Rightarrow> nat \<Rightarrow> cron_item \<Rightarrow> int set" where
  "item_values lo hi Every = {int lo..int hi}"
| "item_values lo hi (EveryStep k) = {n. int lo \<le> n \<and> n \<le> int hi \<and> int k dvd (n - int lo)}"
| "item_values lo hi (Value n) = {int n}"
| "item_values lo hi (Range a b) = {int a..int b}"
| "item_values lo hi (StepFrom a k) = {n. int a \<le> n \<and> n \<le> int hi \<and> int k dvd (n - int a)}"

definition show_field :: "cron_item list \<Rightarrow> string" where
  "show_field is = join '','' (map show_item is)"

definition field_ok :: "nat \<Rightarrow> nat \<Rightarrow> cron_item list \<Rightarrow> bool" where
  "field_ok lo hi is = (is \<noteq> [] \<and> list_all (item_ok lo hi) is)"

definition field_values :: "nat \<Rightarrow> nat \<Rightarrow> cron_item list \<Rightarrow> int set" where
  "field_values lo hi is = \<Union> (set (map (item_values lo hi) is))"

definition field_restricted :: "cron_item list \<Rightarrow> bool" where
  "field_restricted is = (case is of [] \<Rightarrow> True | Every # _ \<Rightarrow> False | EveryStep _ # _ \<Rightarrow> False | _ \<Rightarrow> True)"

lemma all_takeWhile: "\<forall>x \<in> set s. P x \<Longrightarrow> takeWhile P s = s"
  by (simp add: takeWhile_eq_all_conv)

lemma parse_int_show: "parse_int (show_nat n) = Some (int n)"
proof -
  have dig: "\<forall>c \<in> set (show_nat n). is_digit c" using show_nat_digits by blast
  obtain c s where cs: "show_nat n = c # s" by (cases "show_nat n") auto
  with dig have c: "is_digit c" by simp
  then have "\<not> is_ws c" "c \<noteq> CHR ''-''" "c \<noteq> CHR ''+''"
    by (auto simp: is_digit_def is_ws_def Let_def)
  moreover have "\<forall>x \<in> set s. is_digit x" using dig by (simp add: cs)
  ultimately show ?thesis
    using dec_val_show [of n] c by (simp add: parse_int_def cs Let_def all_takeWhile)
qed

lemma strict_show [simp]: "parseIntStrict (show_nat n) f = Inr (int n)"
  by (simp add: parseIntStrict_def parse_int_show)

lemma inRange_ok [simp]: "lo \<le> n \<Longrightarrow> n \<le> hi \<Longrightarrow> inRange f lo hi n = Inr n"
  by (simp add: inRange_def)

lemma bind_sum_simps [simp]: "bind_sum (Inl e) f = Inl e" "bind_sum (Inr a) f = f a"
  by (simp_all add: bind_sum_def)

lemma dvd_step:
  fixes i j step :: int
  assumes "0 < step" and "i \<le> j"
  shows "step dvd (j - i) \<longleftrightarrow> j = i \<or> i + step \<le> j \<and> step dvd (j - (i + step))"
proof (cases "j = i")
  case False
  have "step dvd (j - (i + step)) \<longleftrightarrow> step dvd (j - i)"
    using dvd_add_times_triv_right_iff [of step "j - i" "-1"] by (simp add: algebra_simps)
  moreover have "step dvd (j - i) \<Longrightarrow> step \<le> j - i" using assms False by (intro zdvd_imp_le) auto
  ultimately show ?thesis using False by auto
qed simp

lemma add_steps_values:
  assumes "0 < step" and "\<forall>n. i \<le> n \<and> n \<le> hi \<longrightarrow> chk n = Inr n"
  shows "add_steps chk i step hi vs = Inr (vs \<union> {n. i \<le> n \<and> n \<le> hi \<and> step dvd (n - i)})"
  using assms
proof (induction chk i step hi vs rule: add_steps.induct)
  case (1 chk i step hi vs)
  show ?case
  proof (cases "hi < i")
    case True
    then show ?thesis by (auto simp: add_steps.simps)
  next
    case False
    then have c: "chk i = Inr i" using "1.prems" by simp
    have "add_steps chk i step hi vs = add_steps chk (i + step) step hi (insert i vs)"
      using False "1.prems"(1) c by (subst add_steps.simps) simp
    also have "\<dots> = Inr (insert i vs \<union> {n. i + step \<le> n \<and> n \<le> hi \<and> step dvd (n - (i + step))})"
      using False "1.prems" c by (intro "1.IH") auto
    also have "insert i vs \<union> {n. i + step \<le> n \<and> n \<le> hi \<and> step dvd (n - (i + step))} =
        vs \<union> {n. i \<le> n \<and> n \<le> hi \<and> step dvd (n - i)}"
      using dvd_step [OF "1.prems"(1), of i] False "1.prems"(1) by (auto simp: add.commute)
    finally show ?thesis .
  qed
qed

lemma show_nat_no: "\<not> is_digit c \<Longrightarrow> c \<notin> set (show_nat n)"
  using show_nat_digits by blast

lemma no_seps: "CHR '','' \<notin> set (show_nat n)" "CHR ''/'' \<notin> set (show_nat n)" "CHR ''-'' \<notin> set (show_nat n)" "CHR ''*'' \<notin> set (show_nat n)"
  by (rule show_nat_no, simp add: is_digit_def)+

lemma includes_char: "includes_str s [c] \<longleftrightarrow> c \<in> set s"
  by (auto simp: includes_str_iff in_set_conv_decomp)

lemma show_nat_ne_star [simp]: "show_nat n \<noteq> ''*''" "show_nat n @ s \<noteq> ''*''"
  using no_seps(4) [of n] by (cases "show_nat n", auto)+

lemma split_two: "c \<notin> set p \<Longrightarrow> c \<notin> set q \<Longrightarrow> split_on c (p @ c # q) = [p, q]"
  by (simp add: split_append_sep split_no_sep)

lemma parse_part_show:
  assumes ok: "item_ok lo hi it"
  shows "parse_part f (int lo) (int hi) (show_item it) vs = Inr (vs \<union> item_values lo hi it)"
proof (cases it)
  case Every
  then show ?thesis by (simp add: parse_part_def)
next
  case (EveryStep k)
  have "split_on CHR ''/'' (show_item it) = [''*'', show_nat k]"
    using split_two [of "CHR ''/''" "''*''" "show_nat k"] no_seps EveryStep by simp
  moreover have "includes_str (show_item it) ''/''" "show_item it \<noteq> ''*''"
    using EveryStep by (auto simp: includes_char)
  ultimately show ?thesis
    using ok EveryStep by (simp add: parse_part_def add_steps_values)
next
  case (Value n)
  then show ?thesis using ok no_seps by (simp add: parse_part_def includes_char)
next
  case (Range a b)
  have "split_on CHR ''-'' (show_item it) = [show_nat a, show_nat b]"
    using split_two [of "CHR ''-''" "show_nat a" "show_nat b"] no_seps Range by simp
  moreover have "\<not> includes_str (show_item it) ''/''" "includes_str (show_item it) ''-''" "show_item it \<noteq> ''*''"
    using Range no_seps by (auto simp: includes_char)
  moreover have "{n. int a \<le> n \<and> n \<le> int b} = {int a..int b}" by auto
  ultimately show ?thesis
    using ok Range by (simp add: parse_part_def add_steps_values)
next
  case (StepFrom a k)
  have "split_on CHR ''/'' (show_item it) = [show_nat a, show_nat k]"
    using split_two [of "CHR ''/''" "show_nat a" "show_nat k"] no_seps StepFrom by simp
  moreover have "includes_str (show_item it) ''/''" "show_item it \<noteq> ''*''"
    using StepFrom by (auto simp: includes_char)
  ultimately show ?thesis
    using ok StepFrom by (simp add: parse_part_def add_steps_values)
qed

lemma parse_parts_show:
  "list_all (item_ok lo hi) is \<Longrightarrow>
   parse_parts f (int lo) (int hi) (map show_item is) vs = Inr (vs \<union> field_values lo hi is)"
  by (induction "is" arbitrary: vs) (simp_all add: parse_part_show field_values_def Un_assoc)

lemma item_chars: "c \<in> set (show_item it) \<Longrightarrow> is_digit c \<or> c \<in> {CHR ''*'', CHR ''/'', CHR ''-''}"
  by (cases it) (auto dest: show_nat_digits)

lemma item_no_comma: "CHR '','' \<notin> set (show_item it)"
  using item_chars [of "CHR '',''" it] by (auto simp: is_digit_def)

lemma parseField_show:
  assumes "field_ok lo hi is"
  shows "parseField (show_field is) (int lo) (int hi) = Inr (field_values lo hi is)"
proof -
  have "split_on CHR '','' (show_field is) = map show_item is"
    using assms item_no_comma unfolding show_field_def field_ok_def by (intro split_join) auto
  then show ?thesis using assms by (simp add: parseField_def field_ok_def parse_parts_show)
qed

section \<open>Expressions\<close>

lemma item_no_ws: "c \<in> set (show_item it) \<Longrightarrow> \<not> is_ws c"
  using item_chars [of c it] by (auto simp: is_ws_def is_digit_def Let_def)

lemma field_chars: "c \<in> set (show_field is) \<Longrightarrow> \<not> is_ws c"
  using join_set [of c "'',''" "map show_item is"] item_no_ws
  by (auto simp: show_field_def is_ws_def)

lemma show_item_ne [simp]: "show_item it \<noteq> []"
  by (cases it) auto

lemma show_field_ne: "is \<noteq> [] \<Longrightarrow> show_field is \<noteq> []"
  by (cases "is"; cases "tl is") (auto simp: show_field_def)

lemma split_ws_word: "\<forall>c \<in> set p. \<not> is_ws c \<Longrightarrow> split_ws p = [p]"
  by (induction p) auto

lemma split_ws_space:
  "\<forall>c \<in> set p. \<not> is_ws c \<Longrightarrow> s \<noteq> [] \<Longrightarrow> \<not> is_ws (hd s) \<Longrightarrow> split_ws (p @ CHR '' '' # s) = p # split_ws s"
proof (induction p)
  case Nil
  then have "dropWhile is_ws s = s" by (cases s) auto
  then show ?case by (simp add: is_ws_def)
next
  case (Cons x p)
  then show ?case by simp
qed

definition show_cron :: "cron_item list \<Rightarrow> cron_item list \<Rightarrow> cron_item list \<Rightarrow> cron_item list \<Rightarrow> cron_item list \<Rightarrow> string" where
  "show_cron mi ho dy mo wd = join '' '' (map show_field [mi, ho, dy, mo, wd])"

lemma split_show_cron:
  assumes "mi \<noteq> []" "ho \<noteq> []" "dy \<noteq> []" "mo \<noteq> []" "wd \<noteq> []"
  shows "split_ws (trim (show_cron mi ho dy mo wd)) = map show_field [mi, ho, dy, mo, wd]"
proof -
  have h: "hd (show_field is @ s) = hd (show_field is)" "\<not> is_ws (hd (show_field is))" "\<not> is_ws (last (show_field is))"
    if "is \<noteq> []" for "is" s
    using show_field_ne [OF that] field_chars [of _ "is"] by auto
  have e: "show_cron mi ho dy mo wd = show_field mi @ CHR '' '' # show_field ho @ CHR '' '' # show_field dy @
      CHR '' '' # show_field mo @ CHR '' '' # show_field wd"
    by (simp add: show_cron_def)
  have "trim (show_cron mi ho dy mo wd) = show_cron mi ho dy mo wd"
    unfolding e using assms h by (intro trim_id) (simp add: show_field_ne)
  moreover have "split_ws (show_cron mi ho dy mo wd) = map show_field [mi, ho, dy, mo, wd]"
    unfolding e using assms h field_chars
    by (simp add: split_ws_space split_ws_word show_field_ne)
  ultimately show ?thesis by simp
qed

lemma restricted_show: "is \<noteq> [] \<Longrightarrow> isRestrictedDayField (show_field is) = field_restricted is"
proof -
  assume "is \<noteq> []"
  then obtain it its where i: "is = it # its" by (cases "is") auto
  obtain t where t: "show_field is = show_item it @ t" by (cases its) (auto simp: show_field_def i)
  have n: "\<not> starts_with (show_nat n @ u) ''*''" for n u
    using no_seps(4) [of n] by (cases "show_nat n") auto
  have "starts_with (show_item it @ t) ''*'' \<longleftrightarrow> it = Every \<or> (\<exists>k. it = EveryStep k)"
    by (cases it) (simp_all add: n)
  then show ?thesis
    unfolding isRestrictedDayField_def t by (cases it) (simp_all add: i field_restricted_def)
qed

section \<open>Every parsed value is in range\<close>

lemma bind_sum_Inr: "bind_sum x f = Inr b \<longleftrightarrow> (\<exists>a. x = Inr a \<and> f a = Inr b)"
  by (cases x) (auto simp: bind_sum_def)

lemma add_steps_range:
  "add_steps chk i step hi vs = Inr ws \<Longrightarrow> vs \<subseteq> S \<Longrightarrow> (\<And>n m. chk n = Inr m \<Longrightarrow> m \<in> S) \<Longrightarrow> ws \<subseteq> S"
proof (induction chk i step hi vs rule: add_steps.induct)
  case (1 chk i step hi vs)
  show ?case
  proof (cases "step \<le> 0 \<or> hi < i")
    case True
    with 1 show ?thesis by (auto simp: add_steps.simps)
  next
    case False
    with "1.prems"(1) obtain n where n: "chk i = Inr n" "add_steps chk (i + step) step hi (insert n vs) = Inr ws"
      by (subst (asm) add_steps.simps) (auto simp: bind_sum_Inr)
    have "insert n vs \<subseteq> S" using "1.prems"(2,3) n(1) by auto
    then show ?thesis using "1.IH" [OF False n(2)] "1.prems"(3) by blast
  qed
qed

lemma inRange_Inr: "inRange f lo hi n = Inr m \<Longrightarrow> m \<in> {lo..hi}"
  by (auto simp: inRange_def split: if_splits)

lemma parse_part_range:
  assumes "parse_part f lo hi part vs = Inr ws" and "vs \<subseteq> {lo..hi}"
  shows "ws \<subseteq> {lo..hi}"
  using assms
  by (auto simp: parse_part_def Let_def bind_sum_Inr split: if_splits
      dest!: add_steps_range [where S = "{lo..hi}"] dest: inRange_Inr)

lemma parse_parts_range: "parse_parts f lo hi ps vs = Inr ws \<Longrightarrow> vs \<subseteq> {lo..hi} \<Longrightarrow> ws \<subseteq> {lo..hi}"
  by (induction ps arbitrary: vs) (auto simp: bind_sum_Inr dest: parse_part_range)

lemma parseField_range: "parseField f lo hi = Inr ws \<Longrightarrow> ws \<subseteq> {lo..hi}"
  unfolding parseField_def by (rule parse_parts_range) auto

section \<open>Traces of the scheduler\<close>

datatype cron_op = Add cron_job | Start runtime_env | Stop | Tick time date

text \<open>The interval calls \<open>tick\<close> only while the timer is set. The result lists the jobs fired,
  each with its epoch minute.\<close>

fun cron_step :: "cron_op \<Rightarrow> scheduler \<Rightarrow> (string \<times> int) list \<times> scheduler" where
  "cron_step (Add j) s = ([], snd (add j s))"
| "cron_step (Start g) s = ([], snd (start g s))"
| "cron_step Stop s = ([], stop s)"
| "cron_step (Tick now d) s =
     (if timer s then (case tick now d s of (ns, ok, s') \<Rightarrow> (map (\<lambda>n. (n, now div 60000)) ns, s')) else ([], s))"

fun run_cron :: "cron_op list \<Rightarrow> scheduler \<Rightarrow> (string \<times> int) list \<times> scheduler" where
  "run_cron [] s = ([], s)"
| "run_cron (x # xs) s = (case cron_step x s of (f, s1) \<Rightarrow> case run_cron xs s1 of (g, s2) \<Rightarrow> (f @ g, s2))"

fun tick_times :: "cron_op list \<Rightarrow> time list" where
  "tick_times [] = []"
| "tick_times (Tick now d # xs) = now # tick_times xs"
| "tick_times (_ # xs) = tick_times xs"

lemma fire_jobs_spec:
  assumes "fire_jobs m d js lf = (ns, ok, lf')"
  shows "distinct ns \<and> (\<forall>n \<in> set ns. map_of lf n \<noteq> Some m \<and> map_of lf' n = Some m) \<and>
    (\<forall>n. n \<notin> set ns \<longrightarrow> map_of lf' n = map_of lf n)"
  using assms
proof (induction js arbitrary: lf ns)
  case Nil
  then show ?case by simp
next
  case (Cons jp js)
  obtain j p where jp: "jp = (j, p)" by (cases jp)
  let ?lf = "AList.update (jname j) m lf"
  show ?case
  proof (cases "shouldRun p d \<and> map_of lf (jname j) \<noteq> Some m")
    case False
    then have "fire_jobs m d js lf = (ns, ok, lf')" using Cons.prems by (auto simp: jp)
    then show ?thesis by (rule Cons.IH)
  next
    case True
    show ?thesis
    proof (cases "jthrows j")
      case th: True
      then show ?thesis using Cons.prems True by (auto simp: jp Let_def map_of_update)
    next
      case th: False
      obtain ns1 where n: "fire_jobs m d js ?lf = (ns1, ok, lf')" "ns = jname j # ns1"
        using Cons.prems True th by (auto simp: jp Let_def split: prod.splits)
      note IH = Cons.IH [OF n(1)]
      have "jname j \<notin> set ns1" using IH by (auto simp: map_of_update)
      with IH True show ?thesis unfolding n(2) by (auto simp: map_of_update split: if_splits)
    qed
  qed
qed

text \<open>The guard remembers the last minute of every job fired, none later than \<open>M\<close>.\<close>

definition guard_inv :: "(string \<times> int) list \<Rightarrow> int \<Rightarrow> scheduler \<Rightarrow> bool" where
  "guard_inv fs M s \<longleftrightarrow> distinct fs \<and>
     (\<forall>(n, mi) \<in> set fs. \<exists>k. map_of (lastFired s) n = Some k \<and> mi \<le> k) \<and>
     (\<forall>n k. map_of (lastFired s) n = Some k \<longrightarrow> k \<le> M) \<and> lastMinute s \<le> max (-1) M"

lemma guard_fired: "guard_inv fs M s \<Longrightarrow> (n, mi) \<in> set fs \<Longrightarrow> \<exists>k. map_of (lastFired s) n = Some k \<and> mi \<le> k"
  unfolding guard_inv_def by fast

lemma same_guard: "lastFired s' = lastFired s \<Longrightarrow> lastMinute s' = lastMinute s \<Longrightarrow> guard_inv fs M s \<Longrightarrow> guard_inv fs M s'"
  by (simp add: guard_inv_def)

lemma other_ops_guard:
  "lastFired (snd (add j s)) = lastFired s" "lastMinute (snd (add j s)) = lastMinute s"
  "lastFired (snd (start g s)) = lastFired s" "lastMinute (snd (start g s)) = lastMinute s"
  "lastFired (stop s) = lastFired s" "lastMinute (stop s) = lastMinute s"
  by (simp_all add: add_def start_def stop_def warnIfServerless_def Let_def split: sum.splits option.splits prod.splits)

lemma tick_guard:
  assumes inv: "guard_inv fs M s" and le: "M \<le> now div 60000" and t: "tick now d s = (ns, ok, s')"
  shows "guard_inv (fs @ map (\<lambda>n. (n, now div 60000)) ns) (now div 60000) s'"
proof (cases "now div 60000 = lastMinute s")
  case True
  then have "ns = []" "s' = s" using t by (simp_all add: tick_def)
  then show ?thesis using inv le by (fastforce simp: guard_inv_def)
next
  case False
  let ?m = "now div 60000"
  obtain lf where f: "fire_jobs ?m d (jobs s) (lastFired s) = (ns, ok, lf)"
      "s' = s\<lparr>lastMinute := ?m, lastFired := lf\<rparr>"
    using t False by (auto simp: tick_def Let_def split: prod.splits)
  note spec = fire_jobs_spec [OF f(1)]
  have new: "(n, ?m) \<notin> set fs" if "n \<in> set ns" for n
  proof
    assume "(n, ?m) \<in> set fs"
    then obtain k where "map_of (lastFired s) n = Some k" "?m \<le> k" using inv by (blast dest: guard_fired)
    moreover have "k \<le> M" using inv calculation(1) unfolding guard_inv_def by blast
    ultimately have "map_of (lastFired s) n = Some ?m" using le by (simp add: order.antisym)
    with spec that show False by auto
  qed
  have "distinct (fs @ map (\<lambda>n. (n, ?m)) ns)"
    using inv spec new by (auto simp: guard_inv_def distinct_map inj_on_def)
  moreover have "\<exists>k. map_of lf n = Some k \<and> mi \<le> k" if mem: "(n, mi) \<in> set fs" for n mi
  proof -
    obtain k where k: "map_of (lastFired s) n = Some k" "mi \<le> k"
      using inv mem by (blast dest: guard_fired)
    have "k \<le> M" using inv k(1) unfolding guard_inv_def by blast
    then have "k \<le> ?m" using le by simp
    with k show ?thesis using spec by (cases "n \<in> set ns") auto
  qed
  moreover have "k \<le> ?m" if "map_of lf n = Some k" for n k
  proof (cases "n \<in> set ns")
    case True
    then show ?thesis using spec that by auto
  next
    case False
    then have "map_of (lastFired s) n = Some k" using spec that by auto
    then have "k \<le> M" using inv unfolding guard_inv_def by blast
    with le show ?thesis by simp
  qed
  ultimately show ?thesis using spec unfolding f(2) by (auto simp: guard_inv_def)
qed

lemma run_guard:
  "guard_inv fs M s \<Longrightarrow> sorted (tick_times xs) \<Longrightarrow> \<forall>t \<in> set (tick_times xs). M \<le> t div 60000 \<Longrightarrow>
   \<exists>M'. guard_inv (fs @ fst (run_cron xs s)) M' (snd (run_cron xs s)) \<and> (M' = M \<or> (\<exists>t \<in> set (tick_times xs). M' = t div 60000))"
proof (induction xs arbitrary: fs M s)
  case Nil
  then show ?case by auto
next
  case (Cons x xs)
  have same: "\<exists>M'. guard_inv (fs @ fst (run_cron (x # xs) s)) M' (snd (run_cron (x # xs) s)) \<and> (M' = M \<or> (\<exists>t \<in> set (tick_times xs). M' = t div 60000))"
    if "guard_inv fs M s1" "sorted (tick_times xs)" "\<forall>t \<in> set (tick_times xs). M \<le> t div 60000" "cron_step x s = ([], s1)" for s1
    using Cons.IH [OF that(1-3)] that(4) by (auto simp: case_prod_beta)
  show ?case
  proof (cases x)
    case (Tick now d)
    show ?thesis
    proof (cases "timer s")
      case False
      then show ?thesis using same [of s] Cons.prems Tick by auto
    next
      case True
      obtain ns ok s1 where t: "tick now d s = (ns, ok, s1)" by (cases "tick now d s") auto
      have g: "guard_inv (fs @ map (\<lambda>n. (n, now div 60000)) ns) (now div 60000) s1"
        using Cons.prems Tick by (intro tick_guard [OF _ _ t]) auto
      have "sorted (tick_times xs)" "\<forall>t \<in> set (tick_times xs). now div 60000 \<le> t div 60000"
        using Cons.prems(2) Tick by (auto intro: zdiv_mono1)
      note IH = Cons.IH [OF g this]
      then show ?thesis using t True Tick by (auto simp: case_prod_beta)
    qed
  next
    case (Add j)
    then show ?thesis using same [of "snd (add j s)"] Cons.prems same_guard [OF other_ops_guard(1,2)] by auto
  next
    case (Start g)
    then show ?thesis using same [of "snd (start g s)"] Cons.prems same_guard [OF other_ops_guard(3,4)] by auto
  next
    case Stop
    then show ?thesis using same [of "stop s"] Cons.prems same_guard [OF other_ops_guard(5,6)] by auto
  qed
qed

lemma guard_new: "guard_inv [] M newScheduler"
  by (simp add: guard_inv_def newScheduler_def)

lemma fire_jobs_all:
  assumes "distinct (map (jname \<circ> fst) js)" and "\<forall>(j, p) \<in> set js. \<not> jthrows j"
    and "\<forall>(j, p) \<in> set js. map_of lf (jname j) \<noteq> Some m"
  shows "fst (fire_jobs m d js lf) = map (jname \<circ> fst) (filter (\<lambda>(j, p). shouldRun p d) js) \<and> fst (snd (fire_jobs m d js lf))"
  using assms
proof (induction js arbitrary: lf)
  case Nil
  then show ?case by simp
next
  case (Cons jp js)
  obtain j p where jp: "jp = (j, p)" by (cases jp)
  have no: "jname j \<notin> set (map (jname \<circ> fst) js)" using Cons.prems(1) by (simp add: jp)
  have "fst (fire_jobs m d js lf') = map (jname \<circ> fst) (filter (\<lambda>(j, p). shouldRun p d) js) \<and> fst (snd (fire_jobs m d js lf'))"
    if "lf' = lf \<or> lf' = AList.update (jname j) m lf" for lf'
  proof (rule Cons.IH)
    show "distinct (map (jname \<circ> fst) js)" using Cons.prems(1) by (simp add: o_def)
    show "\<forall>(j, p) \<in> set js. \<not> jthrows j" using Cons.prems(2) by simp
    have "\<forall>jq \<in> set js. jname (fst jq) \<noteq> jname j" using no by force
    moreover have "\<forall>(i, q) \<in> set js. map_of lf (jname i) \<noteq> Some m" using Cons.prems(3) by auto
    ultimately show "\<forall>(i, q) \<in> set js. map_of lf' (jname i) \<noteq> Some m" using that by (fastforce simp: map_of_update)
  qed
  then show ?case using Cons.prems by (auto simp: jp Let_def case_prod_unfold o_def)
qed

section \<open>Properties\<close>

text \<open>
  C31. The meaning of a cron expression: for every expression of the grammar (\<open>*\<close>, \<open>*/k\<close>,
  \<open>n\<close>, \<open>a-b\<close>, \<open>a/k\<close> and comma lists of them, in range), the parser succeeds and the parsed
  schedule runs at a date exactly when minute, hour and month are among the values of their
  fields and the day rule holds: either day field when both are restricted, both otherwise.
\<close>

theorem cron_meaning:
  assumes "field_ok 0 59 mi" "field_ok 0 23 ho" "field_ok 1 31 dy" "field_ok 1 12 mo" "field_ok 0 6 wd"
  shows "\<exists>p. parseCronExpression (show_cron mi ho dy mo wd) = Inr p \<and>
    (\<forall>d. shouldRun p d \<longleftrightarrow>
      getMinutes d \<in> field_values 0 59 mi \<and> getHours d \<in> field_values 0 23 ho \<and>
      getMonth d + 1 \<in> field_values 1 12 mo \<and>
      (let dm = getDate d \<in> field_values 1 31 dy; wm = getDay d \<in> field_values 0 6 wd in
       if field_restricted dy \<and> field_restricted wd then dm \<or> wm else dm \<and> wm))"
proof -
  have ne: "mi \<noteq> []" "ho \<noteq> []" "dy \<noteq> []" "mo \<noteq> []" "wd \<noteq> []" using assms by (auto simp: field_ok_def)
  note f = assms [THEN parseField_show]
  show ?thesis
    using f by (simp add: parseCronExpression_def split_show_cron [OF ne] restricted_show ne shouldRun_def Let_def) blast
qed

theorem cron_meaning_witness:
  "\<exists>p. parseCronExpression (show_cron [Value 0] [Value 0] [Value 13] [Every] [Value 5]) = Inr p \<and>
    shouldRun p \<lparr>getMinutes = 0, getHours = 0, getDate = 20, getMonth = 1, getDay = 5\<rparr>"
  using cron_meaning [of "[Value 0]" "[Value 0]" "[Value 13]" "[Every]" "[Value 5]"]
  by (force simp: field_ok_def field_values_def field_restricted_def)

text \<open>
  The parser is strict about bounds: whatever the expression, when it is accepted every
  value of the schedule lies in the range of its field.
\<close>

theorem cron_values_in_range:
  assumes "parseCronExpression e = Inr p"
  shows "minutes p \<subseteq> {0..59} \<and> hours p \<subseteq> {0..23} \<and> daysOfMonth p \<subseteq> {1..31} \<and> months p \<subseteq> {1..12} \<and> daysOfWeek p \<subseteq> {0..6}"
proof -
  obtain mi ho dy mo wd where "split_ws (trim e) = [mi, ho, dy, mo, wd]"
    using assms by (auto simp: parseCronExpression_def split: list.splits)
  then show ?thesis
    using assms parseField_range by (auto simp: parseCronExpression_def bind_sum_Inr dest!: parseField_range)
qed

theorem cron_values_in_range_witness:
  "\<exists>p. parseCronExpression ''* * * * *'' = Inr p \<and> minutes p \<subseteq> {0..59}"
proof -
  obtain p where p: "parseCronExpression ''* * * * *'' = Inr p"
    by (simp add: parseCronExpression_def trim_def is_ws_def parseField_def parse_part_def)
  show ?thesis using cron_values_in_range [OF p] p by blast
qed

text \<open>
  C30. No double firing: along any sequence of \<open>add\<close>, \<open>start\<close>, \<open>stop\<close> and ticks whose clock does
  not go back, no job name fires twice in the same epoch minute, restarts within the minute
  included.
\<close>

theorem cron_fires_once:
  assumes "sorted (tick_times xs)"
  shows "distinct (fst (run_cron xs newScheduler))"
proof (cases "tick_times xs")
  case Nil
  then show ?thesis using run_guard [OF guard_new, of xs 0] by (auto simp: guard_inv_def)
next
  case (Cons t ts)
  then have "\<forall>u \<in> set (tick_times xs). t div 60000 \<le> u div 60000" using assms by (auto intro: zdiv_mono1)
  then show ?thesis using run_guard [OF guard_new assms] by (auto simp: guard_inv_def)
qed

definition demo_date :: date where
  "demo_date = \<lparr>getMinutes = 1, getHours = 0, getDate = 1, getMonth = 0, getDay = 4\<rparr>"

definition demo_env :: runtime_env where
  "demo_env = \<lparr>userAgent = None, denoEnv = None, processEnv = None\<rparr>"

definition demo_cron :: "cron_op list" where
  "demo_cron = [Add \<lparr>jname = ''a'', schedule = ''* * * * *'', jthrows = False\<rparr>, Start demo_env, Tick 60000 demo_date,
     Tick 61000 demo_date, Stop, Start demo_env, Tick 62000 demo_date]"

theorem cron_fires_once_witness: "distinct (fst (run_cron demo_cron newScheduler))"
  by (rule cron_fires_once) (simp add: demo_cron_def)

text \<open>
  No missed minute: the first tick of a minute later than all ticks before it fires exactly
  the jobs whose schedule matches the date, in registration order, when job names are distinct
  and no handler throws synchronously.
\<close>

theorem cron_fires_matching:
  assumes "sorted (tick_times xs)" and "\<forall>t \<in> set (tick_times xs). t div 60000 < now div 60000" and "0 \<le> now"
    and "distinct (map (jname \<circ> fst) (jobs (snd (run_cron xs newScheduler))))"
    and "\<forall>(j, p) \<in> set (jobs (snd (run_cron xs newScheduler))). \<not> jthrows j"
  shows "fst (tick now d (snd (run_cron xs newScheduler))) =
    map (jname \<circ> fst) (filter (\<lambda>(j, p). shouldRun p d) (jobs (snd (run_cron xs newScheduler))))"
proof -
  define s where "s = snd (run_cron xs newScheduler)"
  define m where "m = now div 60000"
  have "\<exists>M. guard_inv (fst (run_cron xs newScheduler)) M s \<and> M < m"
  proof (cases "tick_times xs")
    case Nil
    then show ?thesis using run_guard [OF guard_new [of "m - 1"] assms(1)] by (auto simp: s_def)
  next
    case (Cons t ts)
    then have "\<forall>u \<in> set (tick_times xs). t div 60000 \<le> u div 60000" using assms(1) by (auto intro: zdiv_mono1)
    note run_guard [OF guard_new assms(1) this]
    moreover have "t div 60000 < m" using assms(2) Cons by (simp add: m_def)
    ultimately show ?thesis using assms(2) unfolding s_def m_def by auto
  qed
  then obtain M where M: "guard_inv (fst (run_cron xs newScheduler)) M s" "M < m" by blast
  have "m \<noteq> lastMinute s" using M assms(3) by (auto simp: guard_inv_def m_def)
  moreover have "\<forall>(j, p) \<in> set (jobs s). map_of (lastFired s) (jname j) \<noteq> Some m" using M by (fastforce simp: guard_inv_def)
  ultimately show ?thesis
    using fire_jobs_all [of "jobs s" "lastFired s" m d] assms(4,5)
    unfolding s_def [symmetric] by (simp add: tick_def m_def [symmetric] Let_def case_prod_beta)
qed

lemma demo_cron_jobs:
  "\<exists>p. jobs (snd (run_cron demo_cron newScheduler)) = [(\<lparr>jname = ''a'', schedule = ''* * * * *'', jthrows = False\<rparr>, p)] \<and> shouldRun p demo_date"
  by (simp add: demo_cron_def newScheduler_def add_def start_def stop_def tick_def warnIfServerless_def parseCronExpression_def
      trim_def is_ws_def parseField_def parse_part_def shouldRun_def demo_date_def demo_env_def detectServerlessCronRuntime_def Let_def)

theorem cron_fires_matching_witness:
  "fst (tick 120000 demo_date (snd (run_cron demo_cron newScheduler))) = [''a'']"
proof -
  obtain p where p: "jobs (snd (run_cron demo_cron newScheduler)) = [(\<lparr>jname = ''a'', schedule = ''* * * * *'', jthrows = False\<rparr>, p)]"
      "shouldRun p demo_date"
    using demo_cron_jobs by blast
  have "fst (tick 120000 demo_date (snd (run_cron demo_cron newScheduler))) =
      map (jname \<circ> fst) (filter (\<lambda>(j, p). shouldRun p demo_date) (jobs (snd (run_cron demo_cron newScheduler))))"
    by (rule cron_fires_matching) (simp_all add: p, simp_all add: demo_cron_def)
  then show ?thesis by (simp add: p)
qed

end
