(* ===== verification/Kv_Interface.thy ===== *)
theory Kv_Interface
  imports Js_String
begin

text \<open>
  The \<open>KVStore\<close> interface of \<open>packages/cache/src/store.ts\<close> as its clients rely on it.

  \<open>view now s k\<close> is the live value under a key. A bounded store may drop other keys when a
  value is set, but never changes them.
\<close>

text \<open>A value written at \<open>now\<close> with a lifetime is live at \<open>t\<close>; no lifetime and 0 mean for ever.\<close>

definition unexpired :: "time \<Rightarrow> int option \<Rightarrow> time \<Rightarrow> bool" where
  "unexpired now ttl t = (case ttl of None \<Rightarrow> True | Some l \<Rightarrow> l = 0 \<or> t < now + l)"

locale kv_store =
  fixes get :: "time \<Rightarrow> string \<Rightarrow> 's \<Rightarrow> 'v option \<times> 's"
    and put :: "time \<Rightarrow> string \<Rightarrow> 'v \<Rightarrow> int option \<Rightarrow> 's \<Rightarrow> 's"
    and remove :: "string \<Rightarrow> 's \<Rightarrow> bool \<times> 's"
    and view :: "time \<Rightarrow> 's \<Rightarrow> string \<Rightarrow> 'v option"
    and inv :: "'s \<Rightarrow> bool"
  assumes get_result: "inv s \<Longrightarrow> fst (get now k s) = view now s k"
    and get_view: "inv s \<Longrightarrow> now \<le> t \<Longrightarrow> view t (snd (get now k s)) = view t s"
    and get_keeps: "inv s \<Longrightarrow> view t (snd (get now k s)) j = Some w \<Longrightarrow> view t s j = Some w"
    and get_inv: "inv s \<Longrightarrow> inv (snd (get now k s))"
    and put_inv: "inv s \<Longrightarrow> inv (put now k v ttl s)"
    and put_same: "inv s \<Longrightarrow> unexpired now ttl t \<Longrightarrow> view t (put now k v ttl s) k = Some v"
    and put_written: "inv s \<Longrightarrow> view t (put now k v ttl s) k = Some w \<Longrightarrow> w = v \<and> unexpired now ttl t"
    and put_other: "inv s \<Longrightarrow> j \<noteq> k \<Longrightarrow> view t (put now k v ttl s) j = Some w \<Longrightarrow> view t s j = Some w"
    and remove_view: "inv s \<Longrightarrow> view t (snd (remove k s)) = (view t s)(k := None)"
    and view_earlier: "inv s \<Longrightarrow> now \<le> t \<Longrightarrow> view t s k = Some w \<Longrightarrow> view now s k = Some w"
    and remove_inv: "inv s \<Longrightarrow> inv (snd (remove k s))"
begin

lemma read_your_write: "inv s \<Longrightarrow> unexpired now ttl t \<Longrightarrow> fst (get t k (put now k v ttl s)) = Some v"
  by (simp add: get_result put_inv put_same)

lemma read_after_remove: "inv s \<Longrightarrow> fst (get t k (snd (remove k s))) = None"
  by (simp add: get_result remove_inv remove_view)

lemma get_other:
  assumes "inv s" and "j \<noteq> k" and "fst (get t j (put now k v ttl s)) = Some w"
  shows "fst (get t j s) = Some w"
  using put_other [OF assms(1,2), of t now v ttl w] assms(3) by (simp add: get_result assms(1) put_inv)

end

text \<open>The interface with the operations that enumerate and clear.\<close>

locale kv_store_keys = kv_store get put remove view inv
  for get :: "time \<Rightarrow> string \<Rightarrow> 's \<Rightarrow> 'v option \<times> 's" and put and remove and view and inv +
  fixes all_keys :: "time \<Rightarrow> string option \<Rightarrow> 's \<Rightarrow> string list \<times> 's"
    and clear :: "string option \<Rightarrow> 's \<Rightarrow> 's"
  assumes enum_result: "inv s \<Longrightarrow> set (fst (all_keys now None s)) = {k. view now s k \<noteq> None}"
    and enum_view: "inv s \<Longrightarrow> now \<le> t \<Longrightarrow> view t (snd (all_keys now pat s)) = view t s"
    and enum_inv: "inv s \<Longrightarrow> inv (snd (all_keys now pat s))"
    and clear_drops: "inv s \<Longrightarrow> view t (clear (Some p) s) k = (if starts_with k p then None else view t s k)"
    and clear_good: "inv s \<Longrightarrow> inv (clear pfx s)"

end
