(* ===== verification/Kv_Store.thy ===== *)
theory Kv_Store
  imports Js_String Kv_Interface
begin

text \<open>
  The in-memory key-value store \<open>MemoryKVStore\<close> of \<open>packages/cache/src/store.ts\<close>, with
  its LRU cap, its expiry and the glob matcher of \<open>keys\<close>.

  \<^item> The \<open>Map\<close> is an insertion-ordered map: its first key is the least recently used.
  \<^item> A value is a number or any other value; only \<open>incr\<close> tells them apart. Counters are
    integers.
  \<^item> An operation reads the clock once, through its argument \<open>now\<close>. The timer that calls
    \<open>cleanup\<close> is not part of the state.
\<close>

datatype 'v kv_value = Num int | Other 'v

record 'v kv_entry =
  evalue :: "'v kv_value"
  expiry :: "time option"

record 'v kvstore =
  store :: "(string, 'v kv_entry) omap"
  maxEntries :: int

definition newStore :: "int option \<Rightarrow> 'v kvstore" where
  "newStore mx = \<lparr>store = [], maxEntries = (case mx of None \<Rightarrow> 10000 | Some m \<Rightarrow> m)\<rparr>"

section \<open>Operations\<close>

definition isExpired :: "time \<Rightarrow> 'v kv_entry \<Rightarrow> bool" where
  "isExpired now e = (case expiry e of None \<Rightarrow> False | Some t \<Rightarrow> t \<le> now)"

text \<open>Deleting the first key of the map until the cap is met.\<close>

fun evict_loop :: "int \<Rightarrow> (string, 'v kv_entry) omap \<Rightarrow> (string, 'v kv_entry) omap" where
  "evict_loop mx [] = []"
| "evict_loop mx (e # es) = (if mx < int (length (e # es)) then evict_loop mx es else e # es)"

definition evictIfNeeded :: "'v kvstore \<Rightarrow> 'v kvstore" where
  "evictIfNeeded s = (if maxEntries s \<le> 0 then s else s\<lparr>store := evict_loop (maxEntries s) (store s)\<rparr>)"

definition reinsert :: "string \<Rightarrow> 'v kv_entry \<Rightarrow> 'v kvstore \<Rightarrow> 'v kvstore" where
  "reinsert k e s = s\<lparr>store := AList.update k e (AList.delete k (store s))\<rparr>"

definition kv_get :: "time \<Rightarrow> string \<Rightarrow> 'v kvstore \<Rightarrow> 'v kv_value option \<times> 'v kvstore" where
  "kv_get now k s =
     (case map_of (store s) k of
        None \<Rightarrow> (None, s)
      | Some e \<Rightarrow>
          if isExpired now e then (None, s\<lparr>store := AList.delete k (store s)\<rparr>)
          else (Some (evalue e), reinsert k e s))"

definition kv_set :: "time \<Rightarrow> string \<Rightarrow> 'v kv_value \<Rightarrow> int option \<Rightarrow> 'v kvstore \<Rightarrow> 'v kvstore" where
  "kv_set now k v ttlMs s =
     evictIfNeeded (reinsert k
       \<lparr>evalue = v, expiry = (case ttlMs of None \<Rightarrow> None | Some t \<Rightarrow> if t = 0 then None else Some (now + t))\<rparr> s)"

definition kv_delete :: "string \<Rightarrow> 'v kvstore \<Rightarrow> bool \<times> 'v kvstore" where
  "kv_delete k s = (map_of (store s) k \<noteq> None, s\<lparr>store := AList.delete k (store s)\<rparr>)"

definition kv_has :: "time \<Rightarrow> string \<Rightarrow> 'v kvstore \<Rightarrow> bool \<times> 'v kvstore" where
  "kv_has now k s =
     (case map_of (store s) k of
        None \<Rightarrow> (False, s)
      | Some e \<Rightarrow> if isExpired now e then (False, s\<lparr>store := AList.delete k (store s)\<rparr>) else (True, s))"

definition kv_clear :: "string option \<Rightarrow> 'v kvstore \<Rightarrow> 'v kvstore" where
  "kv_clear prefix s =
     (case prefix of
        None \<Rightarrow> s\<lparr>store := []\<rparr>
      | Some p \<Rightarrow>
          if p = [] then s\<lparr>store := []\<rparr>
          else s\<lparr>store := fold (\<lambda>k m. if starts_with k p then AList.delete k m else m) (keys_of (store s)) (store s)\<rparr>)"

definition kv_ttl :: "time \<Rightarrow> string \<Rightarrow> 'v kvstore \<Rightarrow> int \<times> 'v kvstore" where
  "kv_ttl now k s =
     (case map_of (store s) k of
        None \<Rightarrow> (-2, s)
      | Some e \<Rightarrow>
          (case expiry e of
             None \<Rightarrow> (-1, s)
           | Some t \<Rightarrow>
               if t = 0 then (-1, s)
               else if t - now \<le> 0 then (-2, s\<lparr>store := AList.delete k (store s)\<rparr>)
               else (t - now, s)))"

text \<open>The calls of \<open>get\<close> run to completion one after the other.\<close>

fun kv_getMany :: "time \<Rightarrow> string list \<Rightarrow> 'v kvstore \<Rightarrow> 'v kv_value option list \<times> 'v kvstore" where
  "kv_getMany now [] s = ([], s)"
| "kv_getMany now (k # ks) s =
     (case kv_get now k s of (v, s1) \<Rightarrow> case kv_getMany now ks s1 of (vs, s2) \<Rightarrow> (v # vs, s2))"

fun kv_setMany :: "time \<Rightarrow> (string \<times> 'v kv_value \<times> int option) list \<Rightarrow> 'v kvstore \<Rightarrow> 'v kvstore" where
  "kv_setMany now [] s = s"
| "kv_setMany now ((k, v, t) # es) s = kv_setMany now es (kv_set now k v t s)"

definition kv_incr :: "time \<Rightarrow> string \<Rightarrow> int \<Rightarrow> 'v kvstore \<Rightarrow> int \<times> 'v kvstore" where
  "kv_incr now k by s =
     (let entry = map_of (store s) k;
          live = (case entry of None \<Rightarrow> None | Some e \<Rightarrow> if isExpired now e then None else Some e);
          s1 = (if entry \<noteq> None \<and> live = None then s\<lparr>store := AList.delete k (store s)\<rparr> else s);
          current = (case live of Some e \<Rightarrow> (case evalue e of Num n \<Rightarrow> n | Other _ \<Rightarrow> 0) | None \<Rightarrow> 0);
          newValue = current + by
      in (newValue,
          evictIfNeeded (reinsert k \<lparr>evalue = Num newValue, expiry = (case live of None \<Rightarrow> None | Some e \<Rightarrow> expiry e)\<rparr> s1)))"

definition kv_decr :: "time \<Rightarrow> string \<Rightarrow> int \<Rightarrow> 'v kvstore \<Rightarrow> int \<times> 'v kvstore" where
  "kv_decr now k by s = kv_incr now k (- by) s"

definition kv_cleanup :: "time \<Rightarrow> 'v kvstore \<Rightarrow> 'v kvstore" where
  "kv_cleanup now s =
     s\<lparr>store := fold (\<lambda>(k, e) m. if isExpired now e then AList.delete k m else m) (store s) (store s)\<rparr>"

section \<open>Globs\<close>

datatype glob_token = Literal char | Single | Star | Globstar

function parseGlob :: "string \<Rightarrow> glob_token list" where
  "parseGlob [] = []"
| "parseGlob (c # cs) =
     (if c = CHR ''*'' then
        (if takeWhile (\<lambda>x. x = CHR ''*'') cs \<noteq> [] then Globstar else Star) # parseGlob (dropWhile (\<lambda>x. x = CHR ''*'') cs)
      else if c = CHR ''?'' then Single # parseGlob cs
      else Literal c # parseGlob cs)"
  by pat_completeness auto
termination by (relation "measure length") (auto simp: less_Suc_eq_le length_dropWhile_le)

text \<open>The body of the inner loop: the value written to \<open>next[i]\<close>.\<close>

fun glob_cell :: "glob_token \<Rightarrow> string \<Rightarrow> bool list \<Rightarrow> bool list \<Rightarrow> nat \<Rightarrow> bool" where
  "glob_cell (Literal c) key row nx i = (0 < i \<and> row ! (i - 1) \<and> key ! (i - 1) = c)"
| "glob_cell Single key row nx i = (0 < i \<and> row ! (i - 1))"
| "glob_cell Star key row nx i = (row ! i \<or> (0 < i \<and> nx ! (i - 1) \<and> key ! (i - 1) \<noteq> CHR '':''))"
| "glob_cell Globstar key row nx i = (row ! i \<or> (0 < i \<and> nx ! (i - 1)))"

definition next_row :: "string \<Rightarrow> glob_token \<Rightarrow> bool list \<Rightarrow> bool list" where
  "next_row key t row = fold (\<lambda>i nx. nx @ [glob_cell t key row nx i]) [0..<Suc (length key)] []"

definition matchGlob :: "glob_token list \<Rightarrow> string \<Rightarrow> bool" where
  "matchGlob tokens key = fold (next_row key) tokens (True # replicate (length key) False) ! length key"

text \<open>The loop of \<open>keys\<close>: the keys found and the map without its expired entries.\<close>

fun keys_loop :: "time \<Rightarrow> glob_token list option \<Rightarrow> (string, 'v kv_entry) omap \<Rightarrow> (string, 'v kv_entry) omap \<Rightarrow>
    string list \<times> (string, 'v kv_entry) omap" where
  "keys_loop now toks [] m = ([], m)"
| "keys_loop now toks ((k, e) # es) m =
     (if isExpired now e then keys_loop now toks es (AList.delete k m)
      else (case keys_loop now toks es m of (ks, m') \<Rightarrow>
        (if (case toks of None \<Rightarrow> True | Some ts \<Rightarrow> matchGlob ts k) then k # ks else ks, m')))"

definition kv_keys :: "time \<Rightarrow> string option \<Rightarrow> 'v kvstore \<Rightarrow> string list \<times> 'v kvstore" where
  "kv_keys now pattern s =
     (case keys_loop now (map_option parseGlob pattern) (store s) (store s) of (ks, m) \<Rightarrow> (ks, s\<lparr>store := m\<rparr>))"

section \<open>The interface\<close>

text \<open>The operations a client of \<open>KVStore\<close> calls, and those of the memory store.\<close>

record ('s, 'v) store_ops =
  get_op :: "time \<Rightarrow> string \<Rightarrow> 's \<Rightarrow> 'v kv_value option \<times> 's"
  set_op :: "time \<Rightarrow> string \<Rightarrow> 'v kv_value \<Rightarrow> int option \<Rightarrow> 's \<Rightarrow> 's"
  delete_op :: "string \<Rightarrow> 's \<Rightarrow> bool \<times> 's"
  keys_op :: "time \<Rightarrow> string option \<Rightarrow> 's \<Rightarrow> string list \<times> 's"
  clear_op :: "string option \<Rightarrow> 's \<Rightarrow> 's"

definition memory_ops :: "('v kvstore, 'v) store_ops" where
  "memory_ops = \<lparr>get_op = kv_get, set_op = kv_set, delete_op = kv_delete, keys_op = kv_keys, clear_op = kv_clear\<rparr>"

section \<open>The glob matcher is the declarative one\<close>

text \<open>What one token matches, and what a list of tokens matches.\<close>

fun tok_lang :: "glob_token \<Rightarrow> string \<Rightarrow> bool" where
  "tok_lang (Literal c) w = (w = [c])"
| "tok_lang Single w = (length w = 1)"
| "tok_lang Star w = (CHR '':'' \<notin> set w)"
| "tok_lang Globstar w = True"

definition glob_matches :: "glob_token list \<Rightarrow> string \<Rightarrow> bool" where
  "glob_matches ts w \<longleftrightarrow> (\<exists>ws. w = concat ws \<and> list_all2 tok_lang ts ws)"

lemma glob_matches_Nil [simp]: "glob_matches [] w = (w = [])"
  by (simp add: glob_matches_def)

lemma glob_matches_snoc: "glob_matches (ts @ [t]) w \<longleftrightarrow> (\<exists>u v. w = u @ v \<and> glob_matches ts u \<and> tok_lang t v)"
proof
  assume "glob_matches (ts @ [t]) w"
  then obtain ws where "w = concat ws" "list_all2 tok_lang (ts @ [t]) ws" by (auto simp: glob_matches_def)
  then obtain us v where "ws = us @ [v]" "list_all2 tok_lang ts us" "tok_lang t v"
    by (auto simp: list_all2_append1 list_all2_Cons1)
  with \<open>w = concat ws\<close> show "\<exists>u v. w = u @ v \<and> glob_matches ts u \<and> tok_lang t v"
    unfolding glob_matches_def by (intro exI [of _ "concat us"] exI [of _ v]) auto
next
  assume "\<exists>u v. w = u @ v \<and> glob_matches ts u \<and> tok_lang t v"
  then obtain us v where "w = concat us @ v" "list_all2 tok_lang ts us" "tok_lang t v" by (auto simp: glob_matches_def)
  then show "glob_matches (ts @ [t]) w"
    unfolding glob_matches_def by (intro exI [of _ "us @ [v]"]) (simp add: list_all2_appendI)
qed

text \<open>How many characters of a prefix the last token takes.\<close>

lemma glob_snoc_take:
  assumes "i \<le> length key"
  shows "glob_matches (ts @ [t]) (take i key) \<longleftrightarrow> (\<exists>j \<le> i. glob_matches ts (take j key) \<and> tok_lang t (drop j (take i key)))"
  unfolding glob_matches_snoc
proof
  assume "\<exists>u v. take i key = u @ v \<and> glob_matches ts u \<and> tok_lang t v"
  then obtain u v where uv: "take i key = u @ v" "glob_matches ts u" "tok_lang t v" by blast
  then have l: "length u \<le> i" using assms by (metis length_append length_take le_add1 min.absorb2)
  then have "take (length u) key = u" by (metis append_eq_conv_conj min.absorb1 take_take uv(1))
  moreover have "drop (length u) (take i key) = v" using uv(1) by simp
  ultimately show "\<exists>j \<le> i. glob_matches ts (take j key) \<and> tok_lang t (drop j (take i key))" using uv l by metis
next
  assume "\<exists>j \<le> i. glob_matches ts (take j key) \<and> tok_lang t (drop j (take i key))"
  then obtain j where "j \<le> i" "glob_matches ts (take j key)" "tok_lang t (drop j (take i key))" by blast
  moreover then have "take i key = take j key @ drop j (take i key)" by (metis append_take_drop_id min.absorb1 take_take)
  ultimately show "\<exists>u v. take i key = u @ v \<and> glob_matches ts u \<and> tok_lang t v" by blast
qed

lemma drop_take_snoc: "j \<le> i \<Longrightarrow> i < length key \<Longrightarrow> drop j (take (Suc i) key) = drop j (take i key) @ [key ! i]"
  by (simp add: take_Suc_conv_app_nth)

lemma take_snoc_ends:
  "i < length key \<Longrightarrow> (\<exists>j \<le> Suc i. P j \<and> Q (drop j (take (Suc i) key))) \<longleftrightarrow>
    P (Suc i) \<and> Q [] \<or> (\<exists>j \<le> i. P j \<and> Q (drop j (take i key) @ [key ! i]))"
  by (auto simp: le_Suc_eq drop_take_snoc)

lemma cell_spec:
  assumes row: "\<forall>j \<le> length key. row ! j = glob_matches ts (take j key)"
    and nx: "\<forall>j < i. nx ! j = glob_matches (ts @ [t]) (take j key)" and i: "i \<le> length key"
  shows "glob_cell t key row nx i = glob_matches (ts @ [t]) (take i key)"
proof (cases i)
  case 0
  then show ?thesis using row i by (cases t) (auto simp: glob_matches_snoc)
next
  case (Suc n)
  then have n: "n < length key" using i by simp
  have p: "nx ! n = (\<exists>j \<le> n. glob_matches ts (take j key) \<and> tok_lang t (drop j (take n key)))"
    using nx Suc n glob_snoc_take [of n key ts t] by simp
  have goal: "glob_matches (ts @ [t]) (take i key) \<longleftrightarrow> glob_matches ts (take (Suc n) key) \<and> tok_lang t [] \<or>
      (\<exists>j \<le> n. glob_matches ts (take j key) \<and> tok_lang t (drop j (take n key) @ [key ! n]))"
    using glob_snoc_take [OF i, of ts t] take_snoc_ends [OF n, of "\<lambda>j. glob_matches ts (take j key)" "tok_lang t"]
    unfolding Suc by simp
  have r: "row ! n = glob_matches ts (take n key)" "row ! Suc n = glob_matches ts (take (Suc n) key)"
    using row n by simp_all
  have e: "min (length key) n = n" using n by simp
  show ?thesis
  proof (cases t)
    case (Literal c)
    then show ?thesis unfolding goal using r Suc by (auto simp: e dest: le_antisym)
  next
    case Single
    then show ?thesis unfolding goal using r Suc n by (auto simp: e dest: le_antisym)
  next
    case Star
    then show ?thesis unfolding goal using p r Suc by auto
  next
    case Globstar
    then show ?thesis unfolding goal using p r Suc by auto
  qed
qed

lemma next_row_spec:
  assumes "\<forall>j \<le> length key. row ! j = glob_matches ts (take j key)"
  shows "length (next_row key t row) = Suc (length key) \<and>
    (\<forall>j \<le> length key. next_row key t row ! j = glob_matches (ts @ [t]) (take j key))"
proof -
  have "m \<le> Suc (length key) \<Longrightarrow>
      length (fold (\<lambda>i nx. nx @ [glob_cell t key row nx i]) [0..<m] []) = m \<and>
      (\<forall>j < m. fold (\<lambda>i nx. nx @ [glob_cell t key row nx i]) [0..<m] [] ! j = glob_matches (ts @ [t]) (take j key))" for m
  proof (induction m)
    case 0
    then show ?case by simp
  next
    case (Suc m)
    let ?nx = "fold (\<lambda>i nx. nx @ [glob_cell t key row nx i]) [0..<m] []"
    have IH: "length ?nx = m" "\<forall>j < m. ?nx ! j = glob_matches (ts @ [t]) (take j key)" using Suc by auto
    have "glob_cell t key row ?nx m = glob_matches (ts @ [t]) (take m key)"
      using Suc.prems by (intro cell_spec [OF assms IH(2)]) simp
    then show ?case using IH by (auto simp: nth_append less_Suc_eq)
  qed
  from this [of "Suc (length key)"] show ?thesis by (auto simp: next_row_def less_Suc_eq_le)
qed

lemma match_rows:
  "\<forall>j \<le> length key. row ! j = glob_matches us (take j key) \<Longrightarrow>
   \<forall>j \<le> length key. fold (next_row key) ts row ! j = glob_matches (us @ ts) (take j key)"
proof (induction ts arbitrary: row us)
  case Nil
  then show ?case by simp
next
  case (Cons t ts)
  have "\<forall>j \<le> length key. next_row key t row ! j = glob_matches (us @ [t]) (take j key)"
    using next_row_spec [OF Cons.prems] by blast
  from Cons.IH [OF this] show ?case by simp
qed

lemma matchGlob_matches: "matchGlob ts key = glob_matches ts key"
proof -
  have "\<forall>j \<le> length key. (True # replicate (length key) False) ! j = glob_matches [] (take j key)"
    by (auto simp: nth_Cons split: nat.splits)
  from match_rows [OF this, of ts] show ?thesis by (simp add: matchGlob_def)
qed

end
