(* ===== verification/Kv_Props.thy ===== *)
theory Kv_Props
  imports Kv_Store
begin

text \<open>
  Properties of the key-value store: its invariant, the interface laws, exact LRU eviction,
  counters and \<open>keys\<close>.
\<close>

section \<open>Invariant\<close>

definition kv_inv :: "'v kvstore \<Rightarrow> bool" where
  "kv_inv s \<longleftrightarrow> distinct (keys_of (store s)) \<and> (0 < maxEntries s \<longrightarrow> int (length (store s)) \<le> maxEntries s)"

definition kv_view :: "time \<Rightarrow> 'v kvstore \<Rightarrow> string \<Rightarrow> 'v kv_value option" where
  "kv_view now s k = (case map_of (store s) k of None \<Rightarrow> None | Some e \<Rightarrow> if isExpired now e then None else Some (evalue e))"

lemma evict_loop_eq: "evict_loop mx es = (if 0 \<le> mx then keep_last (nat mx) es else [])"
proof (induction es)
  case Nil
  then show ?case by (simp add: keep_last_def)
next
  case (Cons e es)
  show ?case
  proof (cases "mx < int (length (e # es))")
    case True
    have "0 \<le> mx \<Longrightarrow> length (e # es) - nat mx = Suc (length es - nat mx)" using True by auto
    then show ?thesis using Cons True by (auto simp: keep_last_def)
  next
    case False
    then show ?thesis by (auto simp: keep_last_def)
  qed
qed

definition cap_list :: "int \<Rightarrow> 'a list \<Rightarrow> 'a list" where
  "cap_list mx xs = (if mx \<le> 0 then xs else keep_last (nat mx) xs)"

lemma evict_eq: "evictIfNeeded s = s\<lparr>store := cap_list (maxEntries s) (store s)\<rparr>"
  by (simp add: evictIfNeeded_def evict_loop_eq cap_list_def)

lemma map_keep_last: "map f (keep_last n xs) = keep_last n (map f xs)"
  by (simp add: keep_last_def drop_map)

lemma map_cap_list: "map f (cap_list mx xs) = cap_list mx (map f xs)"
  by (simp add: cap_list_def map_keep_last)

lemma set_cap_list: "set (cap_list mx xs) \<subseteq> set xs"
  using set_keep_last [of "nat mx" xs] by (simp add: cap_list_def)

lemma distinct_cap: "distinct xs \<Longrightarrow> distinct (cap_list mx xs)"
  by (simp add: cap_list_def keep_last_def)

lemma length_cap: "0 < mx \<Longrightarrow> int (length (cap_list mx xs)) \<le> mx"
  by (simp add: cap_list_def length_keep_last)

lemma cap_snoc: "\<exists>ys. cap_list mx (xs @ [x]) = ys @ [x] \<and> set ys \<subseteq> set xs"
proof (cases "mx \<le> 0")
  case False
  then have "0 < nat mx" by simp
  then obtain n where "nat mx = Suc n" by (cases "nat mx") auto
  then show ?thesis using False set_keep_last [of n xs]
    by (intro exI [of _ "keep_last n xs"]) (simp add: cap_list_def keep_last_def)
qed (auto simp: cap_list_def)

lemma reinsert_store: "store (reinsert k e s) = AList.delete k (store s) @ [(k, e)]"
  by (simp add: reinsert_def keys_update_new keys_delete)

lemma reinsert_keys: "keys_of (store (reinsert k e s)) = filter (\<lambda>x. x \<noteq> k) (keys_of (store s)) @ [k]"
  by (simp add: reinsert_store keys_delete)

lemma reinsert_max [simp]: "maxEntries (reinsert k e s) = maxEntries s"
  by (simp add: reinsert_def)

lemma write_inv:
  assumes "kv_inv s"
  shows "kv_inv (evictIfNeeded (reinsert k e s))"
  using assms length_cap by (auto simp: kv_inv_def evict_eq map_cap_list reinsert_keys intro!: distinct_cap)

text \<open>What a write leaves: the new entry, and of the other entries some.\<close>

lemma write_lookup:
  assumes "kv_inv s"
  shows "map_of (store (evictIfNeeded (reinsert k e s))) k = Some e"
    and "j \<noteq> k \<Longrightarrow> map_of (store (evictIfNeeded (reinsert k e s))) j = Some f \<Longrightarrow> map_of (store s) j = Some f"
proof -
  obtain ys where ys: "cap_list (maxEntries s) (AList.delete k (store s) @ [(k, e)]) = ys @ [(k, e)]"
      "set ys \<subseteq> set (AList.delete k (store s))"
    using cap_snoc [of "maxEntries s" "AList.delete k (store s)" "(k, e)"] by auto
  have st: "store (evictIfNeeded (reinsert k e s)) = ys @ [(k, e)]"
    by (simp add: evict_eq reinsert_store ys(1))
  have d: "distinct (keys_of (ys @ [(k, e)]))" using write_inv [OF assms, of k e] st by (simp add: kv_inv_def)
  then have "map_of ys k = None" by (auto simp: map_of_eq_None_iff)
  then show "map_of (store (evictIfNeeded (reinsert k e s))) k = Some e"
    by (simp add: st map_add_def)
  assume "j \<noteq> k" "map_of (store (evictIfNeeded (reinsert k e s))) j = Some f"
  then have "(j, f) \<in> set (ys @ [(k, e)])" by (metis st map_of_SomeD)
  then have "(j, f) \<in> set ys" using \<open>j \<noteq> k\<close> by simp
  then have "(j, f) \<in> set (store s)" using ys(2) unfolding delete_eq_filter by auto
  then show "map_of (store s) j = Some f" using assms by (simp add: kv_inv_def)
qed

lemma delete_kv_inv:
  assumes "kv_inv s"
  shows "kv_inv (s\<lparr>store := AList.delete k (store s)\<rparr>)"
proof -
  have "length (AList.delete k (store s)) \<le> length (store s)" by (simp add: delete_eq_filter)
  then show ?thesis using assms by (auto simp: kv_inv_def keys_delete)
qed

lemma reinsert_same_view:
  "map_of (store s) k = Some e \<Longrightarrow> map_of (store (reinsert k e s)) = map_of (store s)"
  by (auto simp: reinsert_def map_of_update map_of_delete)

lemma reinsert_inv:
  assumes "kv_inv s" and "map_of (store s) k = Some e"
  shows "kv_inv (reinsert k e s)"
proof -
  have "length (store (reinsert k e s)) = length (store s)"
    using length_delete_present [of "store s" k] assms map_of_Some_key [OF assms(2)]
    by (simp add: reinsert_store kv_inv_def)
  then show ?thesis using assms by (auto simp: kv_inv_def reinsert_keys)
qed

interpretation memory_kv: kv_store kv_get kv_set kv_delete kv_view kv_inv
proof
  fix s :: "'a kvstore" and now k v w ttl j t
  assume inv: "kv_inv s"
  show "fst (kv_get now k s) = kv_view now s k"
    by (simp add: kv_get_def kv_view_def split: option.splits)
  show "now \<le> t \<Longrightarrow> kv_view t (snd (kv_get now k s)) = kv_view t s"
    by (auto simp: kv_get_def kv_view_def isExpired_def fun_eq_iff map_of_delete reinsert_same_view split: option.splits)
  show "kv_view t (snd (kv_get now k s)) j = Some w \<Longrightarrow> kv_view t s j = Some w"
    by (auto simp: kv_get_def kv_view_def map_of_delete reinsert_same_view split: option.splits if_splits)
  show "kv_inv (snd (kv_get now k s))"
    using inv delete_kv_inv reinsert_inv by (auto simp: kv_get_def split: option.splits)
  show "kv_inv (kv_set now k v ttl s)" using inv write_inv by (simp add: kv_set_def)
  show "unexpired now ttl t \<Longrightarrow> kv_view t (kv_set now k v ttl s) k = Some v"
    using write_lookup(1) [OF inv] by (auto simp: kv_set_def kv_view_def isExpired_def unexpired_def split: option.splits)
  show "kv_view t (kv_set now k v ttl s) k = Some w \<Longrightarrow> w = v \<and> unexpired now ttl t"
    using write_lookup(1) [OF inv] by (auto simp: kv_set_def kv_view_def isExpired_def unexpired_def split: option.splits if_splits)
  show "j \<noteq> k \<Longrightarrow> kv_view t (kv_set now k v ttl s) j = Some w \<Longrightarrow> kv_view t s j = Some w"
    using write_lookup(2) [OF inv, of j k] by (auto simp: kv_set_def kv_view_def split: option.splits if_splits)
  show "kv_view t (snd (kv_delete k s)) = (kv_view t s)(k := None)"
    by (auto simp: kv_delete_def kv_view_def fun_eq_iff map_of_delete)
  show "now \<le> t \<Longrightarrow> kv_view t s k = Some w \<Longrightarrow> kv_view now s k = Some w"
    by (auto simp: kv_view_def isExpired_def split: option.splits if_splits)
  show "kv_inv (snd (kv_delete k s))" using inv delete_kv_inv by (simp add: kv_delete_def)
qed

section \<open>Counters\<close>

definition counter :: "time \<Rightarrow> 'v kvstore \<Rightarrow> string \<Rightarrow> int" where
  "counter now s k = (case kv_view now s k of Some (Num n) \<Rightarrow> n | _ \<Rightarrow> 0)"

text \<open>The expiry \<open>incr\<close> keeps, and the store it writes to.\<close>

definition live_expiry :: "time \<Rightarrow> 'v kvstore \<Rightarrow> string \<Rightarrow> time option" where
  "live_expiry now s k = (case map_of (store s) k of None \<Rightarrow> None | Some e \<Rightarrow> if isExpired now e then None else expiry e)"

definition prune :: "time \<Rightarrow> string \<Rightarrow> 'v kvstore \<Rightarrow> 'v kvstore" where
  "prune now k s = (case map_of (store s) k of None \<Rightarrow> s | Some e \<Rightarrow> if isExpired now e then s\<lparr>store := AList.delete k (store s)\<rparr> else s)"

lemma incr_write:
  "kv_incr now k by s = (counter now s k + by,
     evictIfNeeded (reinsert k \<lparr>evalue = Num (counter now s k + by), expiry = live_expiry now s k\<rparr> (prune now k s)))"
proof (cases "map_of (store s) k")
  case None
  then show ?thesis by (simp add: kv_incr_def Let_def counter_def kv_view_def live_expiry_def prune_def)
next
  case (Some e)
  then show ?thesis
    by (cases "isExpired now e"; cases "evalue e")
      (simp_all add: kv_incr_def Let_def counter_def kv_view_def live_expiry_def prune_def)
qed

lemma live_expiry_later: "live_expiry now s k = Some t \<Longrightarrow> \<not> t \<le> now"
  by (auto simp: live_expiry_def isExpired_def split: option.splits if_splits)

lemma incr_counter:
  fixes s :: "'v kvstore"
  assumes "kv_inv s"
  shows "fst (kv_incr now k by s) = counter now s k + by \<and> counter now (snd (kv_incr now k by s)) k = counter now s k + by \<and>
    kv_inv (snd (kv_incr now k by s))"
proof -
  let ?e = "\<lparr>evalue = Num (counter now s k + by), expiry = live_expiry now s k\<rparr> :: 'v kv_entry"
  have p: "kv_inv (prune now k s)" using assms delete_kv_inv by (auto simp: prune_def split: option.splits)
  have "\<not> isExpired now ?e" by (auto simp: isExpired_def dest: live_expiry_later split: option.splits)
  then have "counter now (snd (kv_incr now k by s)) k = counter now s k + by"
    using write_lookup(1) [OF p, of k ?e] by (simp add: incr_write counter_def [of now "evictIfNeeded _"] kv_view_def [of now "evictIfNeeded _"])
  then show ?thesis using write_inv [OF p, of k ?e] by (simp add: incr_write)
qed

lemma incr_sum:
  "kv_inv s \<Longrightarrow> counter now (fold (\<lambda>by s. snd (kv_incr now k by s)) bys s) k = counter now s k + sum_list bys"
proof (induction bys arbitrary: s)
  case (Cons b bys)
  then show ?case using incr_counter [OF Cons.prems, of now k b] by simp
qed simp

section \<open>Least recently used\<close>

datatype 'v kv_op = Get string | Put string "'v kv_value" | Incr string int

fun run_kv :: "time \<Rightarrow> 'v kv_op \<Rightarrow> 'v kvstore \<Rightarrow> 'v kvstore" where
  "run_kv now (Get k) s = snd (kv_get now k s)"
| "run_kv now (Put k v) s = kv_set now k v None s"
| "run_kv now (Incr k by) s = snd (kv_incr now k by s)"

text \<open>The keys an operation uses: a \<open>get\<close> uses a key that is there.\<close>

fun kv_use :: "'v kv_op \<Rightarrow> 'v kvstore \<Rightarrow> string list" where
  "kv_use (Get k) s = (if k \<in> set (keys_of (store s)) then [k] else [])"
| "kv_use (Put k v) s = [k]"
| "kv_use (Incr k by) s = [k]"

fun kv_trace :: "time \<Rightarrow> 'v kv_op list \<Rightarrow> 'v kvstore \<Rightarrow> string list \<times> 'v kvstore" where
  "kv_trace now [] s = ([], s)"
| "kv_trace now (x # xs) s = (case kv_trace now xs (run_kv now x s) of (us, s') \<Rightarrow> (kv_use x s @ us, s'))"

definition no_expiry :: "'v kvstore \<Rightarrow> bool" where
  "no_expiry s = list_all (\<lambda>(k, e). expiry e = None) (store s)"

lemma no_expiryD: "no_expiry s \<Longrightarrow> map_of (store s) k = Some e \<Longrightarrow> expiry e = None"
  by (auto simp: no_expiry_def list_all_iff dest!: map_of_SomeD)

lemma remdups_snoc: "remdups (us @ [k]) = filter (\<lambda>x. x \<noteq> k) (remdups us) @ [k]"
  by (induction us) auto

lemma filter_ne_length: "distinct b \<Longrightarrow> length b \<le> Suc (length (filter (\<lambda>x. x \<noteq> k) b))"
proof (induction b)
  case (Cons x b)
  show ?case
  proof (cases "x = k")
    case True
    then have "filter (\<lambda>x. x \<noteq> k) b = b" using Cons.prems by (intro filter_True) auto
    then show ?thesis using True by simp
  qed (use Cons in simp)
qed simp

lemma keep_last_filter:
  assumes "distinct xs"
  shows "keep_last (Suc n) (filter (\<lambda>x. x \<noteq> k) (keep_last (Suc n) xs) @ [k]) = keep_last (Suc n) (filter (\<lambda>x. x \<noteq> k) xs @ [k])"
proof (cases "length xs \<le> Suc n")
  case True
  then show ?thesis by (simp add: keep_last_all)
next
  case False
  define a b where "a = take (length xs - Suc n) xs" and "b = keep_last (Suc n) xs"
  have xs: "xs = a @ b" by (simp add: a_def b_def keep_last_def)
  have lb: "length b = Suc n" using False by (simp add: b_def length_keep_last)
  have "distinct b" using assms xs by simp
  then have "n \<le> length (filter (\<lambda>x. x \<noteq> k) b)" using filter_ne_length [of b k] lb by simp
  then show ?thesis unfolding b_def [symmetric] by (simp add: xs keep_last_def)
qed

lemma cap_filter: "distinct xs \<Longrightarrow> cap_list mx (filter (\<lambda>x. x \<noteq> k) (cap_list mx xs) @ [k]) = cap_list mx (filter (\<lambda>x. x \<noteq> k) xs @ [k])"
  using keep_last_filter [of xs "nat mx - 1" k] by (cases "mx \<le> 0") (auto simp: cap_list_def Suc_nat_eq_nat_zadd1)

lemma run_keys:
  assumes "no_expiry s" and "kv_inv s"
  shows "no_expiry (run_kv now x s) \<and> kv_inv (run_kv now x s) \<and> maxEntries (run_kv now x s) = maxEntries s \<and>
    keys_of (store (run_kv now x s)) =
      (case kv_use x s of [] \<Rightarrow> keys_of (store s) | k # _ \<Rightarrow> cap_list (maxEntries s) (filter (\<lambda>y. y \<noteq> k) (keys_of (store s)) @ [k]))"
proof -
  have del: "list_all P (AList.delete k (store s))" if "list_all P (store s)" for P k
    using that by (auto simp: list_all_iff delete_eq_filter)
  have cap: "list_all P (cap_list m xs)" if "list_all P xs" for P m and xs :: "(string \<times> 'a kv_entry) list"
    using that set_cap_list [of m xs] by (auto simp: list_all_iff)
  have wr: "no_expiry (evictIfNeeded (reinsert k e s))" if "expiry e = None" for k e
    using assms(1) that del cap by (auto simp: no_expiry_def evict_eq reinsert_store)
  have wkeys: "keys_of (store (evictIfNeeded (reinsert k e s))) =
      cap_list (maxEntries s) (filter (\<lambda>y. y \<noteq> k) (keys_of (store s)) @ [k])" for k e
    by (simp add: evict_eq map_cap_list reinsert_keys)
  show ?thesis
  proof (cases x)
    case (Get k)
    show ?thesis
    proof (cases "map_of (store s) k")
      case None
      then have "k \<notin> set (keys_of (store s))" by (simp add: map_of_None_keys)
      then show ?thesis using Get None assms by (simp add: kv_get_def)
    next
      case (Some e)
      then have k: "k \<in> set (keys_of (store s))" by (rule map_of_Some_key)
      have ex: "expiry e = None" by (rule no_expiryD [OF assms(1) Some])
      have inv: "kv_inv (reinsert k e s)" by (rule reinsert_inv [OF assms(2) Some])
      have "cap_list (maxEntries s) (filter (\<lambda>y. y \<noteq> k) (keys_of (store s)) @ [k]) =
          filter (\<lambda>y. y \<noteq> k) (keys_of (store s)) @ [k]"
      proof (cases "maxEntries s \<le> 0")
        case False
        have "int (length (keys_of (store (reinsert k e s)))) \<le> maxEntries s"
          using inv False by (simp add: kv_inv_def)
        then show ?thesis unfolding reinsert_keys using False by (simp add: cap_list_def keep_last_all)
      qed (simp add: cap_list_def)
      moreover have "no_expiry (reinsert k e s)" using assms(1) del ex by (auto simp: no_expiry_def reinsert_store)
      ultimately show ?thesis using Get Some k ex inv by (simp add: kv_get_def isExpired_def reinsert_keys)
    qed
  next
    case (Put k v)
    then show ?thesis using wr wkeys write_inv [OF assms(2)] by (simp add: kv_set_def evict_eq)
  next
    case (Incr k n)
    have p: "prune now k s = s" "live_expiry now s k = None"
      using no_expiryD [OF assms(1), of k] by (auto simp: prune_def live_expiry_def isExpired_def split: option.splits)
    show ?thesis using Incr wr wkeys write_inv [OF assms(2)] by (simp add: incr_write p evict_eq)
  qed
qed

lemma lru_trace:
  "no_expiry s \<Longrightarrow> kv_inv s \<Longrightarrow> maxEntries s = mx \<Longrightarrow> keys_of (store s) = cap_list mx (remdups us) \<Longrightarrow>
   keys_of (store (snd (kv_trace now xs s))) = cap_list mx (remdups (us @ fst (kv_trace now xs s)))"
proof (induction xs arbitrary: s us)
  case Nil
  then show ?case by simp
next
  case (Cons x xs)
  note run = run_keys [OF Cons.prems(1,2), of now x]
  have len: "kv_use x s = [] \<or> (\<exists>k. kv_use x s = [k])" by (cases x) auto
  have "keys_of (store (run_kv now x s)) = cap_list mx (remdups (us @ kv_use x s))"
    using len run Cons.prems(3,4) cap_filter [of "remdups us" mx] by (auto simp: remdups_snoc)
  then have "keys_of (store (snd (kv_trace now xs (run_kv now x s)))) =
      cap_list mx (remdups ((us @ kv_use x s) @ fst (kv_trace now xs (run_kv now x s))))"
    using run Cons.prems(3) by (intro Cons.IH) auto
  then show ?case by (simp add: case_prod_beta)
qed

section \<open>Listing keys\<close>

lemma keys_loop_result:
  "fst (keys_loop now toks es m) =
    map fst (filter (\<lambda>(k, e). \<not> isExpired now e \<and> (case toks of None \<Rightarrow> True | Some ts \<Rightarrow> matchGlob ts k)) es)"
  by (induction now toks es m rule: keys_loop.induct) (auto simp: case_prod_beta split: option.splits)

definition entry_view :: "time \<Rightarrow> (string, 'v kv_entry) omap \<Rightarrow> string \<Rightarrow> 'v kv_value option" where
  "entry_view now m k = (case map_of m k of None \<Rightarrow> None | Some e \<Rightarrow> if isExpired now e then None else Some (evalue e))"

lemma expired_later: "isExpired now e \<Longrightarrow> now \<le> t \<Longrightarrow> isExpired t e"
  by (auto simp: isExpired_def split: option.splits)

lemma delete_expired_view:
  "map_of m k = Some e \<Longrightarrow> isExpired now e \<Longrightarrow> now \<le> t \<Longrightarrow> entry_view t (AList.delete k m) = entry_view t m"
  by (auto simp: entry_view_def fun_eq_iff map_of_delete expired_later)

lemma keys_loop_view:
  "distinct (keys_of es) \<Longrightarrow> \<forall>(k, e) \<in> set es. map_of m k = Some e \<Longrightarrow> now \<le> t \<Longrightarrow>
   entry_view t (snd (keys_loop now toks es m)) = entry_view t m"
proof (induction now toks es m rule: keys_loop.induct)
  case (2 now toks k e es m)
  show ?case
  proof (cases "isExpired now e")
    case True
    have "\<forall>(j, f) \<in> set es. map_of (AList.delete k m) j = Some f"
    proof (intro ballI, clarify)
      fix j f assume jf: "(j, f) \<in> set es"
      then have "j \<noteq> k" using "2.prems"(1) by force
      moreover have "map_of m j = Some f" using "2.prems"(2) jf by auto
      ultimately show "map_of (AList.delete k m) j = Some f" by (simp add: map_of_delete)
    qed
    then show ?thesis using "2.IH"(1) [OF True] "2.prems" True delete_expired_view [of m k e now t] by simp
  next
    case False
    then show ?thesis using "2.IH"(2) [OF False] "2.prems" by (simp add: case_prod_beta)
  qed
qed simp

lemma view_entry: "kv_view now s = entry_view now (store s)"
  by (simp add: fun_eq_iff kv_view_def entry_view_def)

lemma keys_view: "kv_inv s \<Longrightarrow> now \<le> t \<Longrightarrow> kv_view t (snd (kv_keys now pat s)) = kv_view t s"
  unfolding view_entry kv_keys_def case_prod_beta by (simp add: keys_loop_view kv_inv_def)

lemma keys_result:
  assumes "kv_inv s"
  shows "fst (kv_keys now pat s) =
    filter (\<lambda>k. kv_view now s k \<noteq> None \<and> (case pat of None \<Rightarrow> True | Some p \<Rightarrow> glob_matches (parseGlob p) k)) (keys_of (store s))"
proof -
  have "\<forall>(k, e) \<in> set (store s). kv_view now s k \<noteq> None \<longleftrightarrow> \<not> isExpired now e"
    using assms by (auto simp: kv_view_def kv_inv_def)
  then show ?thesis
    unfolding kv_keys_def case_prod_beta fst_conv keys_loop_result filter_map
    by (intro arg_cong [where f = "map fst"] filter_cong) (fastforce simp: matchGlob_matches split: option.splits)+
qed

lemma keys_loop_shrinks:
  "distinct (keys_of m) \<Longrightarrow>
   distinct (keys_of (snd (keys_loop now toks es m))) \<and> length (snd (keys_loop now toks es m)) \<le> length m"
proof (induction now toks es m rule: keys_loop.induct)
  case (2 now toks k e es m)
  have d: "distinct (keys_of (AList.delete k m))" "length (AList.delete k m) \<le> length m"
    using distinct_keys_delete [OF "2.prems"] by (simp_all add: delete_eq_filter)
  show ?case
  proof (cases "isExpired now e")
    case True
    then show ?thesis using "2.IH"(1) [OF True d(1)] d(2) by simp
  next
    case False
    then show ?thesis using "2.IH"(2) [OF False "2.prems"] by (simp add: case_prod_beta)
  qed
qed simp

lemma keys_inv: "kv_inv s \<Longrightarrow> kv_inv (snd (kv_keys now pat s))"
  using keys_loop_shrinks [of "store s" now "map_option parseGlob pat" "store s"]
  by (auto simp: kv_inv_def kv_keys_def case_prod_beta)

text \<open>Clearing.\<close>

lemma clear_lookup:
  "map_of (fold (\<lambda>k m. if starts_with k p then AList.delete k m else m) ks m) j =
    (if j \<in> set ks \<and> starts_with j p then None else map_of m j)"
  by (induction ks arbitrary: m) (auto simp: map_of_delete)

lemma clear_shrinks:
  "distinct (keys_of m) \<Longrightarrow>
   distinct (keys_of (fold (\<lambda>k m. if starts_with k p then AList.delete k m else m) ks m)) \<and>
   length (fold (\<lambda>k m. if starts_with k p then AList.delete k m else m) ks m) \<le> length m"
proof (induction ks arbitrary: m)
  case (Cons k ks)
  have d: "distinct (keys_of (AList.delete k m))" "length (AList.delete k m) \<le> length m"
    using distinct_keys_delete [OF Cons.prems] by (simp_all add: delete_eq_filter)
  then show ?case using Cons.IH [OF d(1)] Cons.IH [OF Cons.prems] by auto
qed simp

lemma clear_view:
  assumes "kv_inv s"
  shows "kv_view t (kv_clear (Some p) s) k = (if starts_with k p then None else kv_view t s k)"
  by (auto simp: kv_clear_def kv_view_def clear_lookup dest: map_of_Some_key split: option.splits)

lemma clear_inv:
  assumes "kv_inv s"
  shows "kv_inv (kv_clear p s)"
proof (cases "\<exists>q. p = Some q \<and> q \<noteq> []")
  case True
  then obtain q where "p = Some q" "q \<noteq> []" by blast
  then show ?thesis using clear_shrinks [of "store s" q "keys_of (store s)"] assms by (auto simp: kv_clear_def kv_inv_def)
qed (use assms in \<open>auto simp: kv_clear_def kv_inv_def split: option.splits\<close>)

interpretation memory_kv_keys: kv_store_keys kv_get kv_set kv_delete kv_view kv_inv kv_keys kv_clear
proof
  fix s :: "'a kvstore" and now t p pfx
  assume inv: "kv_inv s"
  show "set (fst (kv_keys now None s)) = {k. kv_view now s k \<noteq> None}"
    unfolding keys_result [OF inv] by (auto simp: kv_view_def dest: map_of_Some_key split: option.splits)
  show "now \<le> t \<Longrightarrow> kv_view t (snd (kv_keys now p s)) = kv_view t s" by (rule keys_view [OF inv])
  show "kv_inv (snd (kv_keys now p s))" by (rule keys_inv [OF inv])
  show "kv_inv (kv_clear pfx s)" by (rule clear_inv [OF inv])
next
  fix s :: "'a kvstore" and t p k
  assume inv: "kv_inv s"
  show "kv_view t (kv_clear (Some p) s) k = (if starts_with k p then None else kv_view t s k)" by (rule clear_view [OF inv])
qed

section \<open>Properties\<close>

text \<open>
  Eviction is exactly least-recently-used: after any sequence of reads, writes and
  increments without expiry, the keys of the store are the \<open>maxEntries\<close> keys used last, in the
  order of their last use (all keys when there is no cap).
\<close>

theorem eviction_is_lru:
  "keys_of (store (snd (kv_trace now xs (newStore (Some mx))))) =
    (if mx \<le> 0 then remdups (fst (kv_trace now xs (newStore (Some mx))))
     else keep_last (nat mx) (remdups (fst (kv_trace now xs (newStore (Some mx))))))"
proof -
  have n: "no_expiry (newStore (Some mx))" "kv_inv (newStore (Some mx))" "maxEntries (newStore (Some mx)) = mx"
    "keys_of (store (newStore (Some mx))) = cap_list mx (remdups [])"
    by (simp_all add: newStore_def no_expiry_def kv_inv_def cap_list_def keep_last_def)
  show ?thesis using lru_trace [OF n, of now xs] by (simp add: cap_list_def)
qed

text \<open>
  \<open>keys(pattern)\<close> returns exactly the live keys that the pattern matches in the declarative
  sense (\<open>*\<close> a run without \<open>:\<close>, \<open>**\<close> any run, \<open>?\<close> one character), in recency order, and changes no
  live entry: the dynamic-programming matcher is equivalent to the specification.
\<close>

theorem keys_match_glob:
  assumes "kv_inv s"
  shows "fst (kv_keys now (Some pat) s) =
      filter (\<lambda>k. kv_view now s k \<noteq> None \<and> (\<exists>ws. k = concat ws \<and> list_all2 tok_lang (parseGlob pat) ws)) (keys_of (store s)) \<and>
    kv_view now (snd (kv_keys now (Some pat) s)) = kv_view now s"
  using keys_result [OF assms, of now "Some pat"] keys_view [OF assms] by (simp add: glob_matches_def)

definition demo_kv :: "string kvstore" where
  "demo_kv = kv_set 0 ''b:1'' (Num 5) None (kv_set 0 ''a:1'' (Other ''x'') (Some 100) (newStore (Some 2)))"

lemma demo_kv_inv: "kv_inv demo_kv"
  unfolding demo_kv_def by (intro memory_kv.put_inv) (simp add: newStore_def kv_inv_def)

lemma demo_kv_store: "keys_of (store demo_kv) = [''a:1'', ''b:1'']"
  by (simp add: demo_kv_def kv_set_def newStore_def reinsert_def evictIfNeeded_def)

theorem keys_match_glob_witness: "set (fst (kv_keys 50 (Some ''*:1'') demo_kv)) \<subseteq> {''a:1'', ''b:1''}"
  using keys_match_glob [OF demo_kv_inv, of 50 "''*:1''"] demo_kv_store by auto

text \<open>
  Counters lose no update: a sequence of increments of a key, whatever was stored there
  before, adds up, and each returns the running total.
\<close>

theorem increments_add_up:
  assumes "kv_inv s"
  shows "counter now (fold (\<lambda>by s. snd (kv_incr now k by s)) bys s) k = counter now s k + sum_list bys \<and>
    fst (kv_incr now k by s) = counter now s k + by"
  using incr_sum [OF assms] incr_counter [OF assms] by simp

theorem increments_add_up_witness: "counter 7 (fold (\<lambda>by s. snd (kv_incr 7 ''b:1'' by s)) [1, 2, -4] demo_kv) ''b:1'' = 4"
proof -
  have "counter 7 demo_kv ''b:1'' = 5"
    by (simp add: counter_def kv_view_def demo_kv_def kv_set_def newStore_def reinsert_def evictIfNeeded_def isExpired_def)
  then show ?thesis using increments_add_up [OF demo_kv_inv, of 7 "''b:1''" "[1, 2, -4]" 0] by simp
qed

text \<open>
  C32. Reads see writes: a value set is what a \<open>get\<close> of its key returns next, until its lifetime ends; \<open>delete\<close> removes it; and a \<open>set\<close> never changes what another key returns, except that
  it may evict it. The cap is never exceeded.
\<close>

theorem read_your_writes:
  assumes "kv_inv s" and "unexpired now ttl t"
  shows "fst (kv_get t k (kv_set now k v ttl s)) = Some v \<and>
    fst (kv_get t k (snd (kv_delete k s))) = None \<and>
    (j \<noteq> k \<longrightarrow> fst (kv_get t j (kv_set now k v ttl s)) \<in> {None, fst (kv_get t j s)}) \<and>
    (0 < maxEntries s \<longrightarrow> int (length (store (kv_set now k v ttl s))) \<le> maxEntries s)"
proof -
  have "j \<noteq> k \<longrightarrow> fst (kv_get t j (kv_set now k v ttl s)) \<in> {None, fst (kv_get t j s)}"
    using memory_kv.get_other [OF assms(1), of j k t now v ttl] by (cases "fst (kv_get t j (kv_set now k v ttl s))") auto
  moreover have "kv_inv (kv_set now k v ttl s)" "maxEntries (kv_set now k v ttl s) = maxEntries s"
    using memory_kv.put_inv [OF assms(1)] by (simp_all add: kv_set_def evict_eq)
  ultimately show ?thesis
    using memory_kv.read_your_write [OF assms] memory_kv.read_after_remove [OF assms(1)] by (simp add: kv_inv_def)
qed

theorem read_your_writes_witness: "fst (kv_get 18 ''c'' (kv_set 9 ''c'' (Num 1) (Some 10) demo_kv)) = Some (Num 1)"
  using read_your_writes [OF demo_kv_inv, of 9 "Some 10" 18 "''c''" "Num 1" "''d''"] by (simp add: unexpired_def)

end
