(* ===== verification/Utc_Date.thy ===== *)
theory Utc_Date
  imports Js_String
begin

text \<open>
  \<open>Date.prototype.toUTCString\<close>: the civil date of a number of epoch milliseconds in the
  proleptic Gregorian calendar, and its text. Years are taken between 1 and 9999.
\<close>

text \<open>Year and day of the year (from 0) of a number of days since 1970-01-01, by cycles of 400,
  100, 4 and 1 years.\<close>

definition year_of_days :: "int \<Rightarrow> int \<times> int" where
  "year_of_days days =
     (let z = days + 719162;
          n400 = z div 146097; r400 = z mod 146097;
          n100 = min 3 (r400 div 36524); r100 = r400 - n100 * 36524;
          n4 = r100 div 1461; r4 = r100 mod 1461;
          n1 = min 3 (r4 div 365)
      in (400 * n400 + 100 * n100 + 4 * n4 + n1 + 1, r4 - n1 * 365))"

definition leap_year :: "int \<Rightarrow> bool" where
  "leap_year y = (y mod 4 = 0 \<and> (y mod 100 \<noteq> 0 \<or> y mod 400 = 0))"

definition month_lengths :: "int \<Rightarrow> (string \<times> int) list" where
  "month_lengths y =
     [(''Jan'', 31), (''Feb'', if leap_year y then 29 else 28), (''Mar'', 31), (''Apr'', 30), (''May'', 31), (''Jun'', 30),
      (''Jul'', 31), (''Aug'', 31), (''Sep'', 30), (''Oct'', 31), (''Nov'', 30), (''Dec'', 31)]"

fun pick_month :: "(string \<times> int) list \<Rightarrow> int \<Rightarrow> string \<times> int" where
  "pick_month [] d = ([], d)"
| "pick_month ((m, n) # ms) d = (if d < n \<or> ms = [] then (m, d) else pick_month ms (d - n))"

definition pad_num :: "nat \<Rightarrow> int \<Rightarrow> string" where
  "pad_num w n = (let s = show_nat (nat n) in replicate (w - length s) CHR ''0'' @ s)"

definition day_names :: "string list" where
  "day_names = [''Sun'', ''Mon'', ''Tue'', ''Wed'', ''Thu'', ''Fri'', ''Sat'']"

definition toUTCString :: "time \<Rightarrow> string" where
  "toUTCString t =
     (let days = t div 86400000;
          secs = (t mod 86400000) div 1000;
          (y, doy) = year_of_days days;
          (m, d) = pick_month (month_lengths y) doy
      in day_names ! nat ((days + 4) mod 7) @ '', '' @ pad_num 2 (d + 1) @ '' '' @ m @ '' '' @ pad_num 4 y
         @ '' '' @ pad_num 2 (secs div 3600) @ '':'' @ pad_num 2 (secs mod 3600 div 60) @ '':'' @ pad_num 2 (secs mod 60) @ '' GMT'')"

text \<open>A date holds printable ASCII characters other than the semicolon.\<close>

definition date_char :: "char \<Rightarrow> bool" where
  "date_char c = (let n = (of_char c :: nat) in 32 \<le> n \<and> n < 127 \<and> n \<noteq> 59)"

lemma digit_date_char: "is_digit c \<Longrightarrow> date_char c"
  by (auto simp: is_digit_def date_char_def Let_def)

lemma pad_num_chars: "c \<in> set (pad_num w n) \<Longrightarrow> date_char c"
  unfolding pad_num_def Let_def set_append
  using show_nat_digits digit_date_char by (auto split: if_splits) (simp add: date_char_def)

lemma pick_month_chars: "c \<in> set (fst (pick_month ms d)) \<Longrightarrow> \<forall>mn \<in> set ms. \<forall>c \<in> set (fst mn). P c \<Longrightarrow> P c"
  by (induction ms d rule: pick_month.induct) (auto split: if_splits)

lemma month_names_chars: "\<forall>mn \<in> set (month_lengths y). \<forall>c \<in> set (fst mn). date_char c"
  by (simp add: month_lengths_def date_char_def)

lemma month_chars: "c \<in> set (fst (pick_month (month_lengths y) d)) \<Longrightarrow> date_char c"
  by (rule pick_month_chars [OF _ month_names_chars])

lemma day_chars: "c \<in> set (day_names ! nat ((days + 4) mod 7)) \<Longrightarrow> date_char c"
proof -
  assume c: "c \<in> set (day_names ! nat ((days + 4) mod 7))"
  have "nat ((days + 4) mod 7) < length day_names" by (simp add: day_names_def nat_less_iff)
  then have "day_names ! nat ((days + 4) mod 7) \<in> set day_names" by (rule nth_mem)
  moreover have "\<forall>s \<in> set day_names. \<forall>c \<in> set s. date_char c" by (simp add: day_names_def date_char_def)
  ultimately show ?thesis using c by blast
qed

lemma utc_chars: "\<forall>c \<in> set (toUTCString t). date_char c"
proof -
  have lit: "\<forall>c \<in> set '', :GMT''. date_char c" by (simp add: date_char_def)
  show ?thesis
    unfolding toUTCString_def Let_def case_prod_beta set_append ball_Un
    using day_chars month_chars pad_num_chars lit by simp
qed

end
