(* ===== verification/Cookie.thy ===== *)
theory Cookie
  imports Uri_Codec Utc_Date
begin

text \<open>
  Cookies, \<open>packages/core/src/cookie.ts\<close>: the parser of the \<open>Cookie\<close> header, the
  serializer of \<open>Set-Cookie\<close> with its checks, and the default of the \<open>Secure\<close> flag.

  \<^item> Names, attributes and headers are \<open>string\<close>s; a cookie's value is any text, a \<open>ustring\<close>.
  \<^item> \<open>new URL(s)\<close> is the parameter \<open>parse_url\<close>: \<open>None\<close> when it throws, otherwise the
    \<open>protocol\<close> and \<open>host\<close> of the URL. \<open>Headers.get\<close> is a function of the lower-case name.
  \<^item> The two module variables of the warn-once check are the state \<open>warn_state\<close>.
  \<^item> A field of \<open>cookie_options\<close> that is spread over a default distinguishes an absent property
    (\<open>None\<close>) from one that is present and undefined (\<open>Some None\<close>).
\<close>

section \<open>Hosts\<close>

text \<open>The regular expression of four groups of one to three digits separated by dots.\<close>

definition ipv4_groups :: "string \<Rightarrow> nat list option" where
  "ipv4_groups host =
     (let ps = split_on CHR ''.'' host in
      if length ps = 4 \<and> list_all (\<lambda>p. p \<noteq> [] \<and> length p \<le> 3 \<and> list_all is_digit p) ps
      then Some (map dec_val ps) else None)"

definition strip_brackets :: "string \<Rightarrow> string" where
  "strip_brackets s =
     (let t = (if s \<noteq> [] \<and> hd s = CHR ''['' then tl s else s)
      in if t \<noteq> [] \<and> last t = CHR '']'' then butlast t else t)"

definition isNonRoutableHost :: "string \<Rightarrow> bool" where
  "isNonRoutableHost hostname =
     (let host = strip_brackets (to_lower hostname) in
      if host = ''localhost'' \<or> ends_with host ''.localhost'' then True
      else if host = ''::1'' then True
      else if ends_with host ''.local'' then True
      else (case ipv4_groups host of
          Some [a, b, c, d] \<Rightarrow>
            a = 127 \<or> a = 10 \<or> a = 192 \<and> b = 168 \<or> a = 172 \<and> 16 \<le> b \<and> b \<le> 31 \<or> a = 169 \<and> b = 254
        | _ \<Rightarrow> False))"

text \<open>The test for a further colon behind the last one is kept as it is written.\<close>

definition stripPort :: "string \<Rightarrow> string" where
  "stripPort h =
     (case (if starts_with h ''['' then index_of CHR '']'' h else None) of
        Some e \<Rightarrow> take (e - 1) (tl h)
      | None \<Rightarrow>
          (case last_index_of CHR '':'' h of
             Some c \<Rightarrow> if \<not> includes_str (drop (Suc c) h) '':'' then take c h else h
           | None \<Rightarrow> h))"

section \<open>The default of Secure\<close>

record url =
  protocol :: string
  uhost :: string

datatype url_arg = UrlString string | UrlObject url

record security_context =
  curl :: "url_arg option"
  headers :: "(string \<Rightarrow> string option) option"

record warn_state =
  warnedInsecureHosts :: "string list"
  insecureHostWarningsSuppressed :: bool

definition MAX_WARNED_HOSTS :: nat where
  "MAX_WARNED_HOSTS = 64"

definition resetCookieSecurityWarnings :: "warn_state \<Rightarrow> warn_state" where
  "resetCookieSecurityWarnings w = w\<lparr>warnedInsecureHosts := [], insecureHostWarningsSuppressed := False\<rparr>"

datatype cookie_warning = WarnHost string | WarnSuppressed

definition header_get :: "security_context \<Rightarrow> string \<Rightarrow> string option" where
  "header_get ctx name = Option.bind (headers ctx) (\<lambda>h. h name)"

text \<open>\<open>s?.split(",")[0]?.trim().toLowerCase()\<close>\<close>

definition forwardedProto :: "security_context \<Rightarrow> string option" where
  "forwardedProto ctx = map_option (\<lambda>s. to_lower (trim (hd (split_on CHR '','' s)))) (header_get ctx ''x-forwarded-proto'')"

definition context_url :: "(string \<Rightarrow> url option) \<Rightarrow> security_context \<Rightarrow> url option" where
  "context_url parse_url ctx =
     (case curl ctx of
        None \<Rightarrow> None
      | Some (UrlString s) \<Rightarrow> if s = [] then None else parse_url s
      | Some (UrlObject u) \<Rightarrow> Some u)"

definition browserFacingHost :: "security_context \<Rightarrow> url option \<Rightarrow> string" where
  "browserFacingHost ctx u =
     (case map_option trim (header_get ctx ''host'') of
        Some (c # cs) \<Rightarrow> c # cs
      | _ \<Rightarrow> (case u of None \<Rightarrow> [] | Some v \<Rightarrow> uhost v))"

definition warn_host :: "string \<Rightarrow> warn_state \<Rightarrow> cookie_warning list \<times> warn_state" where
  "warn_host h w =
     (if h \<in> set (warnedInsecureHosts w) then ([], w)
      else if MAX_WARNED_HOSTS \<le> length (warnedInsecureHosts w) then
        (if insecureHostWarningsSuppressed w then ([], w)
         else ([WarnSuppressed], w\<lparr>insecureHostWarningsSuppressed := True\<rparr>))
      else ([WarnHost h], w\<lparr>warnedInsecureHosts := warnedInsecureHosts w @ [h]\<rparr>))"

definition resolveSecureDefault ::
  "(string \<Rightarrow> url option) \<Rightarrow> security_context \<Rightarrow> warn_state \<Rightarrow> bool \<times> cookie_warning list \<times> warn_state" where
  "resolveSecureDefault parse_url ctx w =
     (if forwardedProto ctx = Some ''https'' \<or> forwardedProto ctx = Some ''wss'' then (True, [], w)
      else
        (let u = context_url parse_url ctx;
             p = map_option protocol u in
         if p = Some ''https:'' \<or> p = Some ''wss:'' then (True, [], w)
         else if p \<noteq> None \<and> p \<noteq> Some ''http:'' \<and> p \<noteq> Some ''ws:'' then (True, [], w)
         else
           (let h = browserFacingHost ctx u in
            if h = [] then (True, [], w)
            else if isNonRoutableHost (stripPort h) then (False, [], w)
            else (case warn_host h w of (ws, w') \<Rightarrow> (True, ws, w')))))"

section \<open>Parsing\<close>

definition BLOCKED_KEYS :: "string list" where
  "BLOCKED_KEYS = [''__proto__'', ''constructor'', ''prototype'']"

text \<open>One pair of the header: the body of the loop.\<close>

definition parse_pair :: "string \<Rightarrow> (string, ustring) omap \<Rightarrow> (string, ustring) omap" where
  "parse_pair pair cookies =
     (case index_of CHR ''='' pair of
        None \<Rightarrow> cookies
      | Some i \<Rightarrow>
          (let key = trim (take i pair); val = trim (drop (Suc i) pair) in
           if key \<noteq> [] \<and> key \<notin> set BLOCKED_KEYS
           then AList.update key (case decodeURIComponent val of Some v \<Rightarrow> v | None \<Rightarrow> uni val) cookies
           else cookies))"

definition parseCookies :: "string \<Rightarrow> (string, ustring) omap" where
  "parseCookies header = (if header = [] then [] else fold parse_pair (split_on CHR '';'' header) [])"

section \<open>Serializing\<close>

definition NAME_SEPARATORS :: "char list" where
  "NAME_SEPARATORS = ''()<>@,;:'' @ [CHR 0x5C, CHR 0x22] @ ''/[]?={} '' @ [CHR 0x09]"

definition hasControlChar :: "string \<Rightarrow> bool" where
  "hasControlChar s = list_ex (\<lambda>c. let n = (of_char c :: nat) in n \<le> 0x1F \<or> n = 0x7F) s"

definition isInvalidCookieName :: "string \<Rightarrow> bool" where
  "isInvalidCookieName name = (hasControlChar name \<or> list_ex (\<lambda>c. c \<in> set NAME_SEPARATORS) name)"

definition isInvalidCookieAttr :: "string \<Rightarrow> bool" where
  "isInvalidCookieAttr v = (hasControlChar v \<or> includes_str v '';'')"

datatype same_site = Strict | Lax | NoneSite

record cookie_options =
  cdomain :: "string option"
  cexpires :: "time option"
  httpOnly :: "bool option option"
  maxAge :: "int option"
  cpath :: "string option"
  sameSite :: "same_site option option"
  csecure :: "bool option"

datatype cookie_error = InvalidName string | InvalidDomain string | InvalidPath string | MalformedValue

definition same_site_text :: "same_site \<Rightarrow> string" where
  "same_site_text s = (case s of Strict \<Rightarrow> ''strict'' | Lax \<Rightarrow> ''lax'' | NoneSite \<Rightarrow> ''none'')"

definition opt_text :: "string option \<Rightarrow> string" where
  "opt_text s = (case s of None \<Rightarrow> [] | Some t \<Rightarrow> t)"

text \<open>The attributes appended, in order, without their separator.\<close>

definition cookie_attrs :: "cookie_options \<Rightarrow> bool \<Rightarrow> string list" where
  "cookie_attrs opts secure =
     (if opt_text (cdomain opts) \<noteq> [] then [''Domain='' @ opt_text (cdomain opts)] else [])
   @ (case cexpires opts of None \<Rightarrow> [] | Some t \<Rightarrow> [''Expires='' @ toUTCString t])
   @ (if (case httpOnly opts of None \<Rightarrow> True | Some x \<Rightarrow> x = Some True) then [''HttpOnly''] else [])
   @ (case maxAge opts of None \<Rightarrow> [] | Some n \<Rightarrow> [''Max-Age='' @ show_int n])
   @ (if opt_text (cpath opts) \<noteq> [] then [''Path='' @ opt_text (cpath opts)] else [])
   @ (case (case sameSite opts of None \<Rightarrow> Some Lax | Some x \<Rightarrow> x) of
        None \<Rightarrow> []
      | Some s \<Rightarrow> [''SameSite='' @ to_upper (take 1 (same_site_text s)) @ drop 1 (same_site_text s)])
   @ (if secure then [''Secure''] else [])"

text \<open>The string built by appending every attribute after a semicolon and a space.\<close>

definition append_attrs :: "string \<Rightarrow> string list \<Rightarrow> string" where
  "append_attrs p as = p @ concat (map (\<lambda>a. ''; '' @ a) as)"

definition serializeCookie ::
  "(string \<Rightarrow> url option) \<Rightarrow> string \<Rightarrow> ustring \<Rightarrow> cookie_options \<Rightarrow> security_context \<Rightarrow> warn_state \<Rightarrow>
     (cookie_error + string) \<times> cookie_warning list \<times> warn_state" where
  "serializeCookie parse_url name val opts ctx w =
     (if name = [] \<or> isInvalidCookieName name then (Inl (InvalidName name), [], w)
      else if opt_text (cdomain opts) \<noteq> [] \<and> isInvalidCookieAttr (opt_text (cdomain opts))
        then (Inl (InvalidDomain (opt_text (cdomain opts))), [], w)
      else if opt_text (cpath opts) \<noteq> [] \<and> isInvalidCookieAttr (opt_text (cpath opts))
        then (Inl (InvalidPath (opt_text (cpath opts))), [], w)
      else
        (let (secure, ws, w') =
           (case csecure opts of Some b \<Rightarrow> (b, [], w) | None \<Rightarrow> resolveSecureDefault parse_url ctx w) in
         case encodeURIComponent val of
           None \<Rightarrow> (Inl MalformedValue, ws, w')
         | Some enc \<Rightarrow>
             (Inr (append_attrs (name @ ''='' @ enc) (cookie_attrs opts secure)), ws, w')))"

end
