(* ===== verification/Cookie_Props.thy ===== *)
theory Cookie_Props
  imports Cookie
begin

text \<open>
  Properties of the cookie functions: the round trip through \<open>Set-Cookie\<close> and \<open>Cookie\<close>, the
  shape of a serialized cookie, the private address ranges, and the bound on warnings.
\<close>

section \<open>Names and values\<close>

definition cookie_name_ok :: "string \<Rightarrow> bool" where
  "cookie_name_ok n = (n \<noteq> [] \<and> \<not> isInvalidCookieName n \<and> n \<notin> set BLOCKED_KEYS \<and> trim n = n)"

lemma name_chars:
  assumes "\<not> isInvalidCookieName n"
  shows "CHR '';'' \<notin> set n" "CHR ''='' \<notin> set n"
  using assms by (auto simp: isInvalidCookieName_def NAME_SEPARATORS_def list_ex_iff)

lemma safe_char_not:
  assumes "uri_safe_char c"
  shows "c \<noteq> CHR '';''" "c \<noteq> CHR ''=''" "\<not> is_ws c" "\<not> ((of_char c :: nat) \<le> 0x1F \<or> (of_char c :: nat) = 0x7F)"
  using assms by (auto simp: uri_safe_char_def uri_unreserved_def is_ws_def Let_def)

lemma encoded_chars:
  assumes "encodeURIComponent v = Some enc" and "\<forall>u \<in> set v. u < 0x10000"
  shows "CHR '';'' \<notin> set enc" "trim enc = enc" "\<not> hasControlChar enc"
proof -
  note safe = encode_safe [OF assms, THEN safe_char_not(1)] encode_safe [OF assms, THEN safe_char_not(3)]
    encode_safe [OF assms, THEN safe_char_not(4)]
  show "CHR '';'' \<notin> set enc" using safe(1) by blast
  show "trim enc = enc" using safe(2) by (intro trim_no_ws) blast
  show "\<not> hasControlChar enc" using safe(3) by (auto simp: hasControlChar_def list_ex_iff)
qed

section \<open>The parser on a well-formed header\<close>

lemma trim_space: "trim (CHR '' '' # s) = trim s"
  by (simp add: trim_def is_ws_def)

lemma parse_pair_ok:
  assumes "cookie_name_ok n" and "trim enc = enc" and "decodeURIComponent enc = Some v" and "sp = [] \<or> sp = '' ''"
  shows "parse_pair (sp @ n @ CHR ''='' # enc) m = AList.update n v m"
proof -
  have e: "CHR ''='' \<notin> set (sp @ n)" using assms name_chars by (auto simp: cookie_name_ok_def)
  have "index_of CHR ''='' (sp @ n @ CHR ''='' # enc) = Some (length (sp @ n))"
    using index_of_append [OF e] by simp
  moreover have "trim (sp @ n) = n" using assms(1,4) by (auto simp: trim_space cookie_name_ok_def)
  ultimately show ?thesis using assms by (auto simp: parse_pair_def Let_def cookie_name_ok_def)
qed

text \<open>What a browser sends back: the first part of each \<open>Set-Cookie\<close>.\<close>

definition cookie_pair :: "string \<Rightarrow> string" where
  "cookie_pair c = hd (split_on CHR '';'' c)"

definition cookie_header :: "string list \<Rightarrow> string" where
  "cookie_header cs = join ''; '' (map cookie_pair cs)"

lemma split_join_sp:
  assumes "ps \<noteq> []" and "\<forall>p \<in> set ps. c \<notin> set p" and "c \<noteq> CHR '' ''"
  shows "split_on c (join [c, CHR '' ''] ps) = hd ps # map ((#) CHR '' '') (tl ps)"
  using assms
proof (induction ps rule: induct_list012)
  case (3 p q ps)
  have s: "split_on c (join [c, CHR '' ''] (q # ps)) = q # map ((#) CHR '' '') ps" using 3 by simp
  obtain x where "join [c, CHR '' ''] (p # q # ps) = p @ c # CHR '' '' # join [c, CHR '' ''] (q # ps)" by simp
  then show ?case using 3 s by (simp add: split_append_sep)
qed (auto simp: split_no_sep)

definition serialized :: "(string \<times> ustring) \<Rightarrow> string \<Rightarrow> bool" where
  "serialized nv p \<longleftrightarrow> (\<exists>enc. p = fst nv @ CHR ''='' # enc \<and> CHR '';'' \<notin> set p \<and> cookie_name_ok (fst nv) \<and>
     trim enc = enc \<and> decodeURIComponent enc = Some (snd nv))"

lemma parse_serialized: "serialized nv p \<Longrightarrow> sp = [] \<or> sp = '' '' \<Longrightarrow> parse_pair (sp @ p) m = AList.update (fst nv) (snd nv) m"
  using parse_pair_ok [of "fst nv" _ "snd nv" sp m] by (auto simp: serialized_def)

lemma fold_serialized:
  "list_all2 serialized nvs ps \<Longrightarrow>
   fold parse_pair (map ((#) CHR '' '') ps) m = fold (\<lambda>nv. AList.update (fst nv) (snd nv)) nvs m"
proof (induction nvs ps arbitrary: m rule: list_all2_induct)
  case (Cons nv nvs p ps)
  then show ?case using parse_serialized [of nv p "'' ''" m] by simp
qed simp

lemma fold_update_distinct:
  "distinct (keys_of (m @ nvs)) \<Longrightarrow> fold (\<lambda>nv. AList.update (fst nv) (snd nv)) nvs m = m @ nvs"
proof (induction nvs arbitrary: m)
  case (Cons nv nvs)
  then have "AList.update (fst nv) (snd nv) m = m @ [nv]" by (auto simp: keys_update_new)
  then show ?case using Cons.IH [of "m @ [nv]"] Cons.prems by simp
qed simp

lemma list_all2_right: "list_all2 P xs ys \<Longrightarrow> (\<And>x y. P x y \<Longrightarrow> Q y) \<Longrightarrow> \<forall>y \<in> set ys. Q y"
  by (induction xs ys rule: list_all2_induct) auto

lemma parse_header:
  assumes "list_all2 serialized nvs ps" and "distinct (keys_of nvs)"
  shows "parseCookies (join ''; '' ps) = nvs"
proof (cases ps)
  case Nil
  then show ?thesis using assms by (simp add: parseCookies_def)
next
  case (Cons p qs)
  then obtain nv mvs where nvs: "nvs = nv # mvs" "serialized nv p" "list_all2 serialized mvs qs"
    using assms(1) by (auto simp: list_all2_Cons2)
  have ne: "join ''; '' ps \<noteq> []" using nvs(2) Cons by (cases qs) (auto simp: serialized_def)
  have "\<forall>p \<in> set ps. CHR '';'' \<notin> set p"
    using assms(1) by (rule list_all2_right) (auto simp: serialized_def)
  then have "split_on CHR '';'' (join ''; '' ps) = p # map ((#) CHR '' '') qs"
    using split_join_sp [of ps "CHR '';''"] Cons by simp
  then have "parseCookies (join ''; '' ps) = fold parse_pair (map ((#) CHR '' '') qs) (parse_pair p [])"
    using ne by (simp add: parseCookies_def)
  also have "parse_pair p [] = [nv]" using parse_serialized [OF nvs(2), of "[]" "[]"] by simp
  also have "fold parse_pair (map ((#) CHR '' '') qs) [nv] = nvs"
    using fold_serialized [OF nvs(3)] fold_update_distinct [of "[nv]" mvs] assms(2) nvs(1) by simp
  finally show ?thesis .
qed

section \<open>The shape of a serialized cookie\<close>

lemma serialize_Inr:
  assumes "fst (serializeCookie pu name val opts ctx w) = Inr c"
  shows "name \<noteq> [] \<and> \<not> isInvalidCookieName name \<and>
    (opt_text (cdomain opts) \<noteq> [] \<longrightarrow> \<not> isInvalidCookieAttr (opt_text (cdomain opts))) \<and>
    (opt_text (cpath opts) \<noteq> [] \<longrightarrow> \<not> isInvalidCookieAttr (opt_text (cpath opts))) \<and>
    (\<exists>enc secure. encodeURIComponent val = Some enc \<and> c = append_attrs (name @ ''='' @ enc) (cookie_attrs opts secure))"
  using assms by (auto simp: serializeCookie_def Let_def case_prod_beta split: if_splits option.splits)

text \<open>Text without control characters and semicolons.\<close>

definition clean :: "string \<Rightarrow> bool" where
  "clean s = (\<not> hasControlChar s \<and> CHR '';'' \<notin> set s)"

lemma control_append: "hasControlChar (s @ t) = (hasControlChar s \<or> hasControlChar t)"
  by (simp add: hasControlChar_def)

lemma control_concat: "hasControlChar (concat ss) = (\<exists>s \<in> set ss. hasControlChar s)"
  by (induction ss) (simp_all add: control_append, simp add: hasControlChar_def)

lemma clean_append: "clean (s @ t) = (clean s \<and> clean t)"
  by (auto simp: clean_def control_append)

lemma date_char_clean: "\<forall>c \<in> set s. date_char c \<Longrightarrow> clean s"
  by (auto simp: clean_def hasControlChar_def list_ex_iff date_char_def Let_def)

lemma nat_clean: "clean (show_nat n)"
  by (rule date_char_clean) (auto intro!: digit_date_char dest: show_nat_digits)

lemma int_clean: "clean (show_int n)"
proof -
  have "clean (CHR ''-'' # s) = clean s" for s by (simp add: clean_def hasControlChar_def)
  then show ?thesis by (simp add: show_int_def nat_clean)
qed

lemma attr_clean: "\<not> isInvalidCookieAttr s \<longleftrightarrow> clean s"
  by (auto simp: clean_def isInvalidCookieAttr_def includes_str_iff in_set_conv_decomp)

lemma attr_names_clean:
  "clean ''Domain=''" "clean ''Expires=''" "clean ''HttpOnly''" "clean ''Max-Age=''" "clean ''Path=''" "clean ''SameSite=''" "clean ''Secure''"
  by (simp_all add: clean_def hasControlChar_def)

lemma same_site_clean: "clean (to_upper (take 1 (same_site_text s)) @ drop 1 (same_site_text s))"
  by (induction s) code_simp+

lemma attrs_clean:
  assumes "opt_text (cdomain opts) \<noteq> [] \<longrightarrow> \<not> isInvalidCookieAttr (opt_text (cdomain opts))"
    and "opt_text (cpath opts) \<noteq> [] \<longrightarrow> \<not> isInvalidCookieAttr (opt_text (cpath opts))"
  shows "\<forall>a \<in> set (cookie_attrs opts secure). clean a"
proof -
  have "\<forall>a \<in> set (case (case sameSite opts of None \<Rightarrow> Some Lax | Some x \<Rightarrow> x) of
        None \<Rightarrow> [] | Some s \<Rightarrow> [''SameSite='' @ to_upper (take 1 (same_site_text s)) @ drop 1 (same_site_text s)]). clean a"
    using same_site_clean attr_names_clean(6) by (auto simp only: clean_append list.set ball_simps split: option.splits)
  then show ?thesis
    unfolding cookie_attrs_def set_append ball_Un
    using assms attr_names_clean int_clean date_char_clean [OF utc_chars] unfolding attr_clean
    by (intro conjI) (auto simp only: clean_append list.set split: if_splits option.splits)
qed

lemma split_attrs:
  "CHR '';'' \<notin> set p \<Longrightarrow> \<forall>a \<in> set as. CHR '';'' \<notin> set a \<Longrightarrow>
   split_on CHR '';'' (append_attrs p as) = p # map ((#) CHR '' '') as"
proof (induction as arbitrary: p)
  case Nil
  then show ?case by (simp add: split_no_sep append_attrs_def)
next
  case (Cons a as)
  have "append_attrs p (a # as) = p @ CHR '';'' # append_attrs (CHR '' '' # a) as" by (simp add: append_attrs_def)
  then show ?case using Cons.IH [of "CHR '' '' # a"] Cons.prems by (simp add: split_append_sep)
qed

lemma serialized_cookie:
  assumes "fst (serializeCookie pu name val opts ctx w) = Inr c" and "\<forall>u \<in> set val. u < 0x10000"
  shows "\<exists>enc secure. encodeURIComponent val = Some enc \<and> c = append_attrs (name @ ''='' @ enc) (cookie_attrs opts secure) \<and>
    split_on CHR '';'' c = (name @ ''='' @ enc) # map ((#) CHR '' '') (cookie_attrs opts secure) \<and> \<not> hasControlChar c"
proof -
  note ser = serialize_Inr [OF assms(1)]
  obtain enc secure where e: "encodeURIComponent val = Some enc" "c = append_attrs (name @ ''='' @ enc) (cookie_attrs opts secure)"
    using ser by blast
  have attrs: "\<forall>a \<in> set (cookie_attrs opts secure). clean a" using ser by (intro attrs_clean) auto
  have "CHR '';'' \<notin> set (name @ ''='' @ enc)" using ser name_chars encoded_chars(1) [OF e(1) assms(2)] by auto
  then have "split_on CHR '';'' c = (name @ ''='' @ enc) # map ((#) CHR '' '') (cookie_attrs opts secure)"
    unfolding e(2) using attrs by (intro split_attrs) (auto simp: clean_def)
  moreover have "\<not> hasControlChar name" using ser by (simp add: isInvalidCookieName_def)
  then have "\<not> hasControlChar c"
    unfolding e(2) append_attrs_def control_append control_concat
    using encoded_chars(3) [OF e(1) assms(2)] attrs by (auto simp: clean_def hasControlChar_def)
  ultimately show ?thesis using e by blast
qed

section \<open>Dotted addresses\<close>

definition dotted :: "nat list \<Rightarrow> string" where
  "dotted ns = join ''.'' (map show_nat ns)"

lemma show_nat_length: "n < 1000 \<Longrightarrow> length (show_nat n) \<le> 3"
  by (subst show_nat.simps, simp, subst show_nat.simps, simp, subst show_nat.simps, auto)

lemma dotted_chars: "c \<in> set (dotted ns) \<Longrightarrow> is_digit c \<or> c = CHR ''.''"
  using join_set [of c "''.''" "map show_nat ns"] by (auto simp: dotted_def dest: show_nat_digits)

lemma ipv4_groups_dotted:
  assumes "length ns = 4" and "\<forall>n \<in> set ns. n < 1000"
  shows "ipv4_groups (dotted ns) = Some ns"
proof -
  have "\<forall>p \<in> set (map show_nat ns). CHR ''.'' \<notin> set p" using show_nat_digits by (fastforce simp: is_digit_def)
  then have "split_on CHR ''.'' (dotted ns) = map show_nat ns"
    using assms(1) unfolding dotted_def by (intro split_join) auto
  then show ?thesis
    using assms show_nat_length show_nat_digits by (auto simp: ipv4_groups_def Let_def list_all_iff o_def)
qed

lemma dotted_plain:
  assumes "length ns = 4"
  shows "to_lower (dotted ns) = dotted ns" "strip_brackets (dotted ns) = dotted ns" "CHR ''l'' \<notin> set (dotted ns)" "CHR '':'' \<notin> set (dotted ns)"
proof -
  have lc: "lower_char c = c" if "c \<in> set (dotted ns)" for c
    using dotted_chars [OF that] by (auto simp: lower_char_def is_digit_def Let_def)
  then show "to_lower (dotted ns) = dotted ns" by (simp add: to_lower_def map_idI)
  have no: "c \<notin> set (dotted ns)" if "\<not> is_digit c" "c \<noteq> CHR ''.''" for c
    using dotted_chars [of c ns] that by blast
  then show "CHR ''l'' \<notin> set (dotted ns)" "CHR '':'' \<notin> set (dotted ns)" by (simp_all add: is_digit_def)
  have "CHR ''['' \<notin> set (dotted ns)" "CHR '']'' \<notin> set (dotted ns)" using no by (simp_all add: is_digit_def)
  then have "dotted ns \<noteq> [] \<Longrightarrow> hd (dotted ns) \<noteq> CHR ''['' \<and> last (dotted ns) \<noteq> CHR '']''"
    by (metis hd_in_set last_in_set)
  then show "strip_brackets (dotted ns) = dotted ns" by (auto simp: strip_brackets_def Let_def)
qed

lemma ends_with_last: "ends_with s t \<Longrightarrow> t \<noteq> [] \<Longrightarrow> last t \<in> set s"
  by (auto simp: ends_with_iff)

lemma non_routable_dotted:
  assumes "\<forall>n \<in> set [a, b, c, d]. n < 1000"
  shows "isNonRoutableHost (dotted [a, b, c, d]) \<longleftrightarrow>
    a = 127 \<or> a = 10 \<or> a = 192 \<and> b = 168 \<or> a = 172 \<and> 16 \<le> b \<and> b \<le> 31 \<or> a = 169 \<and> b = 254"
proof -
  let ?h = "dotted [a, b, c, d]"
  note p = dotted_plain [of "[a, b, c, d]", simplified]
  have "?h \<noteq> ''localhost''" "?h \<noteq> ''::1''" using p(3,4) by auto
  moreover have "\<not> ends_with ?h ''.localhost''" "\<not> ends_with ?h ''.local''"
  proof -
    have "CHR ''t'' \<notin> set ?h" using dotted_chars [of "CHR ''t''" "[a, b, c, d]"] by (auto simp: is_digit_def)
    then show "\<not> ends_with ?h ''.localhost''" using ends_with_last [of ?h "''.localhost''"] by auto
    show "\<not> ends_with ?h ''.local''" using p(3) ends_with_last [of ?h "''.local''"] by auto
  qed
  moreover have "ipv4_groups ?h = Some [a, b, c, d]" using assms by (intro ipv4_groups_dotted) auto
  ultimately show ?thesis by (simp add: isNonRoutableHost_def p Let_def)
qed

lemma last_index_append: "c \<notin> set q \<Longrightarrow> last_index_of c (p @ c # q) = Some (length p)"
  by (induction p) (auto simp: last_index_of_None [THEN iffD2])

lemma stripPort_dotted:
  "stripPort (dotted [a, b, c, d]) = dotted [a, b, c, d]"
  "stripPort (dotted [a, b, c, d] @ '':'' @ show_nat port) = dotted [a, b, c, d]"
proof -
  let ?h = "dotted [a, b, c, d]"
  note p = dotted_plain(4) [of "[a, b, c, d]", simplified]
  have b: "\<not> starts_with (?h @ t) ''[''" for t
  proof -
    obtain x xs where x: "?h = x # xs" by (cases ?h) (auto simp: dotted_def)
    then have "x \<noteq> CHR ''[''" using dotted_chars [of x "[a, b, c, d]"] by (auto simp: is_digit_def)
    then show ?thesis by (simp add: x)
  qed
  show "stripPort ?h = ?h" using b [of "[]"] p by (simp add: stripPort_def last_index_of_None [THEN iffD2])
  have "CHR '':'' \<notin> set (show_nat port)" using show_nat_digits [of "CHR '':''" port] by (auto simp: is_digit_def)
  moreover then have "\<not> includes_str (show_nat port) '':''" by (auto simp: includes_str_iff)
  ultimately show "stripPort (?h @ '':'' @ show_nat port) = ?h"
    using b [of "'':'' @ show_nat port"] last_index_append [of "CHR '':''" "show_nat port" ?h] by (simp add: stripPort_def)
qed

section \<open>Warnings\<close>

fun resolve_all :: "(string \<Rightarrow> url option) \<Rightarrow> security_context list \<Rightarrow> warn_state \<Rightarrow> cookie_warning list \<times> warn_state" where
  "resolve_all pu [] w = ([], w)"
| "resolve_all pu (c # cs) w =
     (case resolveSecureDefault pu c w of (_, ws, w1) \<Rightarrow> case resolve_all pu cs w1 of (vs, w2) \<Rightarrow> (ws @ vs, w2))"

definition warned_bound :: "nat \<Rightarrow> warn_state \<Rightarrow> bool" where
  "warned_bound n w = (length (warnedInsecureHosts w) \<le> 64 \<and>
     n \<le> length (warnedInsecureHosts w) + (if insecureHostWarningsSuppressed w then 1 else 0))"

lemma warn_host_bound: "warned_bound n w \<Longrightarrow> warn_host h w = (ws, w') \<Longrightarrow> warned_bound (n + length ws) w'"
  by (auto simp: warned_bound_def warn_host_def MAX_WARNED_HOSTS_def split: if_splits)

lemma resolve_bound: "warned_bound n w \<Longrightarrow> resolveSecureDefault pu c w = (b, ws, w') \<Longrightarrow> warned_bound (n + length ws) w'"
  using warn_host_bound by (fastforce simp: resolveSecureDefault_def Let_def split: if_splits prod.splits)

lemma resolve_all_bound: "warned_bound n w \<Longrightarrow> warned_bound (n + length (fst (resolve_all pu cs w))) (snd (resolve_all pu cs w))"
proof (induction cs arbitrary: n w)
  case (Cons c cs)
  obtain b ws w1 where r: "resolveSecureDefault pu c w = (b, ws, w1)" by (cases "resolveSecureDefault pu c w") auto
  from Cons.IH [OF resolve_bound [OF Cons.prems r]] show ?case by (simp add: r case_prod_beta add.assoc)
qed simp

section \<open>Properties\<close>

lemma serialized_pair:
  assumes s: "fst (serializeCookie pu n v opts ctx w) = Inr c"
    and ok: "n \<notin> set BLOCKED_KEYS \<and> trim n = n \<and> (\<forall>u \<in> set v. u < 0x10000)"
  shows "serialized (n, v) (cookie_pair c)"
proof -
  have v: "\<forall>u \<in> set v. u < 0x10000" using ok by blast
  obtain enc secure where e: "encodeURIComponent v = Some enc"
      "split_on CHR '';'' c = (n @ ''='' @ enc) # map ((#) CHR '' '') (cookie_attrs opts secure)"
    using serialized_cookie [OF s v] by blast
  have "CHR '';'' \<notin> set (n @ ''='' @ enc)" using e(2) split_pieces_no_sep [of "n @ ''='' @ enc" "CHR '';''" c] by simp
  then show ?thesis
    using serialize_Inr [OF s] e ok decode_encode [OF e(1) v] encoded_chars(2) [OF e(1) v]
    by (auto simp: serialized_def cookie_pair_def cookie_name_ok_def)
qed

text \<open>
  C33. Cookies survive the round trip: for cookies with distinct names, without blanks at their ends and none of them
  \<open>__proto__\<close>, \<open>constructor\<close> or \<open>prototype\<close>, whatever their values (texts in UTF-16 units) and attributes, if
  every one is serialized and the browser sends the pairs back in one \<open>Cookie\<close> header, parsing the header
  returns exactly the names and values that were set. A cookie of a blocked name is serialized, but not parsed.
\<close>

theorem cookie_roundtrip:
  assumes "list_all2 (\<lambda>(n, v) c. \<exists>opts ctx w. fst (serializeCookie pu n v opts ctx w) = Inr c) nvs cs"
    and "\<forall>(n, v) \<in> set nvs. n \<notin> set BLOCKED_KEYS \<and> trim n = n \<and> (\<forall>u \<in> set v. u < 0x10000)"
    and "distinct (keys_of nvs)"
  shows "parseCookies (cookie_header cs) = nvs"
proof -
  have "list_all2 serialized nvs (map cookie_pair cs)"
    unfolding list_all2_map2 using assms(1)
  proof (rule list.rel_mono_strong)
    fix nv c
    assume "nv \<in> set nvs" "c \<in> set cs" and m: "(case nv of (n, v) \<Rightarrow> \<lambda>c. \<exists>opts ctx w. fst (serializeCookie pu n v opts ctx w) = Inr c) c"
    then show "serialized nv (cookie_pair c)" using m serialized_pair assms(2) by (cases nv) auto
  qed
  then show ?thesis unfolding cookie_header_def using assms(3) by (rule parse_header)
qed

definition no_context :: security_context where
  "no_context = \<lparr>curl = None, headers = None\<rparr>"

definition default_options :: cookie_options where
  "default_options = \<lparr>cdomain = None, cexpires = Some 0, httpOnly = None, maxAge = Some 60, cpath = Some ''/'', sameSite = None, csecure = None\<rparr>"

definition quiet :: warn_state where
  "quiet = \<lparr>warnedInsecureHosts = [], insecureHostWarningsSuppressed = False\<rparr>"

lemma encode_demo: "\<exists>enc. encodeURIComponent [233, 59, 97] = Some enc"
  by (simp add: uri_unreserved_def)

lemma demo_serializes: "\<exists>c. fst (serializeCookie (\<lambda>_. None) ''sid'' [233, 59, 97] default_options no_context quiet) = Inr c"
proof -
  obtain enc where enc: "encodeURIComponent [233, 59, 97] = Some enc" using encode_demo by blast
  have "\<not> isInvalidCookieName ''sid''" by (simp add: isInvalidCookieName_def hasControlChar_def NAME_SEPARATORS_def)
  moreover have "\<not> isInvalidCookieAttr ''/''" by (simp add: isInvalidCookieAttr_def hasControlChar_def)
  ultimately show ?thesis
    by (simp add: serializeCookie_def default_options_def opt_text_def enc no_context_def resolveSecureDefault_def
        forwardedProto_def header_get_def context_url_def browserFacingHost_def Let_def)
qed

theorem cookie_roundtrip_witness: "\<exists>c. parseCookies (cookie_header [c]) = [(''sid'', [233, 59, 97])]"
proof -
  obtain c where c: "fst (serializeCookie (\<lambda>_. None) ''sid'' [233, 59, 97] default_options no_context quiet) = Inr c"
    using demo_serializes by blast
  have "parseCookies (cookie_header [c]) = [(''sid'', [233, 59, 97])]"
  proof (rule cookie_roundtrip)
    show "list_all2 (\<lambda>(n, v) c. \<exists>opts ctx w. fst (serializeCookie (\<lambda>_. None) n v opts ctx w) = Inr c) [(''sid'', [233, 59, 97])] [c]"
      using c by auto
    show "\<forall>(n, v) \<in> set [(''sid'', [233 :: nat, 59, 97])]. n \<notin> set BLOCKED_KEYS \<and> trim n = n \<and> (\<forall>u \<in> set v. u < 0x10000)"
      by (simp add: BLOCKED_KEYS_def trim_def is_ws_def)
  qed simp
  then show ?thesis by blast
qed

text \<open>
  C17. No header or attribute injection: whatever the name, value and attributes, a serialized
  cookie has no control character, and split at its semicolons it is the encoded pair followed
  by exactly the attributes the options ask for.
\<close>

theorem cookie_no_injection:
  assumes "fst (serializeCookie pu name val opts ctx w) = Inr c" and "\<forall>u \<in> set val. u < 0x10000"
  shows "\<not> hasControlChar c \<and> (\<exists>enc secure. encodeURIComponent val = Some enc \<and>
    split_on CHR '';'' c = (name @ ''='' @ enc) # map ((#) CHR '' '') (cookie_attrs opts secure))"
  using serialized_cookie [OF assms] by blast

theorem cookie_no_injection_witness:
  "\<exists>c. fst (serializeCookie (\<lambda>_. None) ''sid'' [233, 59, 97] default_options no_context quiet) = Inr c \<and> \<not> hasControlChar c"
proof -
  obtain c where c: "fst (serializeCookie (\<lambda>_. None) ''sid'' [233, 59, 97] default_options no_context quiet) = Inr c"
    using demo_serializes by blast
  have "\<not> hasControlChar c" using cookie_no_injection [OF c] by simp
  with c show ?thesis by blast
qed

text \<open>
  \<open>Secure\<close> is dropped exactly where it cannot work: for a plain-HTTP request addressed to
  a dotted IPv4 host, with or without a port, the default is \<open>false\<close> exactly for the loopback,
  RFC 1918 and link-local ranges.
\<close>

theorem secure_default_ipv4:
  assumes "\<forall>n \<in> set [a, b, c, d]. n < 256" and "h = dotted [a, b, c, d] \<or> h = dotted [a, b, c, d] @ '':'' @ show_nat port"
    and "forwardedProto ctx \<noteq> Some ''https''" "forwardedProto ctx \<noteq> Some ''wss''"
    and "context_url pu ctx = Some \<lparr>protocol = ''http:'', uhost = uh\<rparr>" and "header_get ctx ''host'' = Some h"
  shows "fst (resolveSecureDefault pu ctx w) = False \<longleftrightarrow>
    a = 127 \<or> a = 10 \<or> a = 192 \<and> b = 168 \<or> a = 172 \<and> 16 \<le> b \<and> b \<le> 31 \<or> a = 169 \<and> b = 254"
proof -
  have hc: "is_digit x \<or> x = CHR ''.'' \<or> x = CHR '':''" if "x \<in> set h" for x
    using that assms(2) by (auto dest: dotted_chars show_nat_digits)
  then have "\<not> is_ws x" if "x \<in> set h" for x
    using hc [OF that] by (auto simp: is_digit_def is_ws_def Let_def)
  then have t: "trim h = h" by (simp add: trim_no_ws)
  have ne: "h \<noteq> []" using assms(2) by (auto simp: dotted_def)
  have bf: "browserFacingHost ctx (context_url pu ctx) = h"
    using assms(6) t ne by (cases h) (auto simp: browserFacingHost_def)
  have "stripPort h = dotted [a, b, c, d]" using assms(2) stripPort_dotted by auto
  then show ?thesis
    using assms(3-5) bf ne non_routable_dotted [of a b c d] assms(1) by (simp add: resolveSecureDefault_def Let_def case_prod_beta)
qed

theorem secure_default_ipv4_witness:
  "fst (resolveSecureDefault (\<lambda>_. None) \<lparr>curl = Some (UrlObject \<lparr>protocol = ''http:'', uhost = ''0.0.0.0:3000''\<rparr>),
     headers = Some (\<lambda>n. if n = ''host'' then Some (dotted [192, 168, 1, 5] @ '':'' @ show_nat 3000) else None)\<rparr> quiet) = False"
  by (rule secure_default_ipv4 [where a = 192 and b = 168 and c = 1 and d = 5 and port = 3000, THEN iffD2])
    (simp_all add: forwardedProto_def header_get_def context_url_def)

text \<open>
  Client-chosen hosts cannot grow the process: along any sequence of requests at most 64
  hosts are remembered and at most 65 warnings are printed.
\<close>

theorem warnings_bounded:
  "length (fst (resolve_all pu cs quiet)) \<le> 65 \<and> length (warnedInsecureHosts (snd (resolve_all pu cs quiet))) \<le> 64"
proof -
  have "warned_bound 0 quiet" by (simp add: warned_bound_def quiet_def)
  from resolve_all_bound [OF this, of pu cs] show ?thesis by (auto simp: warned_bound_def split: if_splits)
qed

end
