(* ===== verification/Ip_Address.thy ===== *)
theory Ip_Address
  imports Uri_Codec "HOL-Library.Word"
begin

unbundle bit_operations_syntax

text \<open>
  IP addresses and CIDR blocks, \<open>packages/rate-limit/src/ip.ts\<close>.

  \<^item> An IPv4 address is a \<open>32 word\<close>, an IPv6 address a list of eight \<open>16 word\<close> groups. The
    code keeps them in numbers and uses JavaScript's 32-bit operators with \<open>>>> 0\<close>, which
    are the operations of these words.
  \<^item> A regular expression is spelled out as the test it makes; \<open>null\<close> is \<open>None\<close>.
\<close>

datatype ip = IPv4 "32 word" | IPv6 "16 word list"

section \<open>Parsing\<close>

definition all_digits :: "string \<Rightarrow> bool" where
  "all_digits s = list_all is_digit s"

text \<open>\<open>/^\d{1,3}$/\<close>\<close>

definition short_number :: "string \<Rightarrow> bool" where
  "short_number s = (s \<noteq> [] \<and> length s \<le> 3 \<and> all_digits s)"

text \<open>\<open>/^\[(.+)\](?::\d+)?$/\<close>: the text between the bracket at the start and the last closing
  bracket, which only a port may follow.\<close>

definition bracketed :: "string \<Rightarrow> string option" where
  "bracketed s =
     (case s of
        [] \<Rightarrow> None
      | c # cs \<Rightarrow>
          if c \<noteq> CHR ''['' then None
          else (case last_index_of CHR '']'' cs of
              None \<Rightarrow> None
            | Some j \<Rightarrow>
                (let inner = take j cs; rest = drop (Suc j) cs in
                 if inner \<noteq> [] \<and> CHR 0x0A \<notin> set inner \<and> CHR 0x0D \<notin> set inner \<and>
                    (rest = [] \<or> hd rest = CHR '':'' \<and> tl rest \<noteq> [] \<and> all_digits (tl rest))
                 then Some inner else None)))"

text \<open>\<open>/^::ffff:((?:\d{1,3}\.){3}\d{1,3})$/i\<close>\<close>

definition v4_mapped :: "string \<Rightarrow> string option" where
  "v4_mapped s =
     (let rest = drop 7 s; ps = split_on CHR ''.'' rest in
      if to_lower (take 7 s) = ''::ffff:'' \<and> length ps = 4 \<and> list_all short_number ps then Some rest else None)"

definition normalize :: "string \<Rightarrow> string" where
  "normalize raw =
     (let value1 = trim raw in
      case bracketed value1 of
        Some inner \<Rightarrow> inner
      | None \<Rightarrow>
          (let value2 = (if includes_str value1 ''.'' \<and> length (split_on CHR '':'' value1) = 2
                         then hd (split_on CHR '':'' value1) else value1)
           in case v4_mapped value2 of Some m \<Rightarrow> m | None \<Rightarrow> value2))"

fun parse_octets :: "string list \<Rightarrow> nat \<Rightarrow> nat option" where
  "parse_octets [] result = Some result"
| "parse_octets (p # ps) result =
     (if \<not> short_number p then None
      else (let octet = dec_val p in
        if 255 < octet then None else parse_octets ps (result * 256 + octet)))"

definition parseIpv4 :: "string \<Rightarrow> 32 word option" where
  "parseIpv4 s =
     (let ps = split_on CHR ''.'' s in
      if length ps \<noteq> 4 then None else map_option of_nat (parse_octets ps 0))"

text \<open>\<open>s.split("::")\<close>\<close>

fun split_dcolon :: "string \<Rightarrow> string list" where
  "split_dcolon [] = [[]]"
| "split_dcolon [c] = [[c]]"
| "split_dcolon (c # d # s) =
     (if c = CHR '':'' \<and> d = CHR '':'' then [] # split_dcolon s
      else (case split_dcolon (d # s) of [] \<Rightarrow> [[c]] | p # ps \<Rightarrow> (c # p) # ps))"

definition hex_group :: "string \<Rightarrow> bool" where
  "hex_group s = (s \<noteq> [] \<and> length s \<le> 4 \<and> list_all (\<lambda>c. hex_val c \<noteq> None) s)"

definition hex_value :: "string \<Rightarrow> nat" where
  "hex_value s = foldl (\<lambda>a c. 16 * a + (case hex_val c of None \<Rightarrow> 0 | Some d \<Rightarrow> d)) 0 s"

definition toGroups :: "string \<Rightarrow> 16 word list option" where
  "toGroups segment =
     (if segment = [] then Some []
      else (let ps = split_on CHR '':'' segment in
        if list_all hex_group ps then Some (map (\<lambda>p. of_nat (hex_value p)) ps) else None))"

definition parseIpv6 :: "string \<Rightarrow> 16 word list option" where
  "parseIpv6 s =
     (if \<not> includes_str s '':'' then None
      else (case split_dcolon s of
          [h] \<Rightarrow> (case toGroups h of None \<Rightarrow> None | Some head \<Rightarrow> if length head = 8 then Some head else None)
        | [h, t] \<Rightarrow>
            (case toGroups h of
               None \<Rightarrow> None
             | Some head \<Rightarrow>
                 (case toGroups t of
                    None \<Rightarrow> None
                  | Some tail \<Rightarrow>
                      if 8 < length head + length tail then None
                      else Some (head @ replicate (8 - length head - length tail) 0 @ tail)))
        | _ \<Rightarrow> None))"

definition parseIp :: "string \<Rightarrow> ip option" where
  "parseIp raw =
     (let s = normalize raw in
      case parseIpv4 s of
        Some v \<Rightarrow> Some (IPv4 v)
      | None \<Rightarrow> map_option IPv6 (parseIpv6 s))"

section \<open>Formatting\<close>

definition hex_char :: "nat \<Rightarrow> char" where
  "hex_char d = (if d < 10 then char_of (48 + d) else char_of (87 + d))"

text \<open>\<open>n.toString(16)\<close>\<close>

fun show_hex :: "nat \<Rightarrow> string" where
  "show_hex n = (if n < 16 then [hex_char n] else show_hex (n div 16) @ [hex_char (n mod 16)])"

declare show_hex.simps [simp del]

definition padStart :: "nat \<Rightarrow> char \<Rightarrow> string \<Rightarrow> string" where
  "padStart w c s = replicate (w - length s) c @ s"

definition formatIp :: "ip \<Rightarrow> string" where
  "formatIp a =
     (case a of
        IPv4 v \<Rightarrow> join ''.'' (map (\<lambda>k. show_nat (unat (drop_bit k v AND 0xff))) [24, 16, 8, 0])
      | IPv6 gs \<Rightarrow> join '':'' (map (\<lambda>g. padStart 4 CHR ''0'' (show_hex (unat g))) gs))"

definition canonicalizeIp :: "string \<Rightarrow> string option" where
  "canonicalizeIp raw = map_option formatIp (parseIp raw)"

section \<open>CIDR blocks\<close>

record cidr =
  cip :: ip
  prefix :: nat

definition parseCidr :: "string \<Rightarrow> cidr option" where
  "parseCidr raw =
     (let ps = split_on CHR ''/'' (trim raw); address = hd ps in
      if address = [] then None
      else (case parseIp address of
          None \<Rightarrow> None
        | Some a \<Rightarrow>
            (let maxPrefix = (case a of IPv4 _ \<Rightarrow> 32 | IPv6 _ \<Rightarrow> 128) in
             case tl ps of
               [] \<Rightarrow> Some \<lparr>cip = a, prefix = maxPrefix\<rparr>
             | p # _ \<Rightarrow>
                 if \<not> short_number p then None
                 else if maxPrefix < dec_val p then None
                 else Some \<lparr>cip = a, prefix = dec_val p\<rparr>)))"

definition ipv4InCidr :: "32 word \<Rightarrow> 32 word \<Rightarrow> nat \<Rightarrow> bool" where
  "ipv4InCidr v network p =
     (if p = 0 then True
      else (let mask = (if p = 32 then 0xffffffff else push_bit (32 - p) 0xffffffff) in
        v AND mask = network AND mask))"

text \<open>The loop over the groups; \<open>remaining\<close> is the number of prefix bits still to compare.\<close>

fun groups_match :: "16 word list \<Rightarrow> 16 word list \<Rightarrow> nat \<Rightarrow> bool" where
  "groups_match (g # gs) (n # ns) remaining =
     (if remaining = 0 then True
      else (let bits = min 16 remaining;
                mask = (if bits = 16 then 0xffff else push_bit (16 - bits) 0xffff) in
        if g AND mask \<noteq> n AND mask then False else groups_match gs ns (remaining - bits)))"
| "groups_match _ _ remaining = True"

definition ipv6InCidr :: "16 word list \<Rightarrow> 16 word list \<Rightarrow> nat \<Rightarrow> bool" where
  "ipv6InCidr groups network p = groups_match groups network p"

definition ipInCidr :: "ip \<Rightarrow> cidr \<Rightarrow> bool" where
  "ipInCidr a c =
     (case (a, cip c) of
        (IPv4 v, IPv4 n) \<Rightarrow> ipv4InCidr v n (prefix c)
      | (IPv6 gs, IPv6 ns) \<Rightarrow> ipv6InCidr gs ns (prefix c)
      | _ \<Rightarrow> False)"

definition isTrustedProxy :: "string \<Rightarrow> cidr list \<Rightarrow> bool" where
  "isTrustedProxy raw trusted =
     (case parseIp raw of None \<Rightarrow> False | Some a \<Rightarrow> list_ex (ipInCidr a) trusted)"

end
