(* ===== verification/Ip_Props.thy ===== *)
theory Ip_Props
  imports Ip_Address
begin

unbundle bit_operations_syntax

text \<open>
  Properties of addresses: the canonical text determines the address and is its own canonical
  text, and a CIDR test compares exactly the leading bits.
\<close>

section \<open>Hexadecimal text\<close>

lemma hex_char_val [simp]: "d < 16 \<Longrightarrow> hex_val (hex_char d) = Some d"
  by (auto simp: hex_val_def hex_char_def Let_def)

lemma show_hex_chars: "c \<in> set (show_hex n) \<Longrightarrow> hex_val c \<noteq> None"
proof (induction n rule: show_hex.induct)
  case (1 n)
  then show ?case by (cases "n < 16") (auto simp: show_hex.simps [of n])
qed

lemma hex_value_snoc: "hex_value (s @ [c]) = 16 * hex_value s + (case hex_val c of None \<Rightarrow> 0 | Some d \<Rightarrow> d)"
  by (simp add: hex_value_def)

lemma hex_value_show: "hex_value (show_hex n) = n"
proof (induction n rule: show_hex.induct)
  case (1 n)
  show ?case
  proof (cases "n < 16")
    case True
    then show ?thesis by (simp add: show_hex.simps [of n] hex_value_def)
  next
    case False
    with 1 show ?thesis by (simp add: show_hex.simps [of n] hex_value_snoc)
  qed
qed

lemma show_hex_not_Nil [simp]: "show_hex n \<noteq> []"
  by (subst show_hex.simps) simp

lemma show_hex_length: "n < 16 ^ k \<Longrightarrow> 0 < k \<Longrightarrow> length (show_hex n) \<le> k"
proof (induction k arbitrary: n)
  case (Suc k)
  show ?case
  proof (cases "n < 16")
    case True
    then show ?thesis by (simp add: show_hex.simps [of n])
  next
    case False
    have "n div 16 < 16 ^ k" using Suc.prems(1) by (simp add: less_mult_imp_div_less mult.commute)
    moreover from this False have "0 < k" by (cases k) auto
    ultimately show ?thesis using Suc.IH [of "n div 16"] False by (simp add: show_hex.simps [of n])
  qed
qed simp

lemma hex_value_zeros: "hex_value (replicate k CHR ''0'' @ s) = hex_value s"
proof -
  have "foldl (\<lambda>a c. 16 * a + (case hex_val c of None \<Rightarrow> 0 | Some d \<Rightarrow> d)) 0 (replicate k CHR ''0'') = (0 :: nat)"
    by (induction k) (simp_all add: hex_val_def)
  then show ?thesis by (simp add: hex_value_def)
qed

definition show_group :: "16 word \<Rightarrow> string" where
  "show_group g = padStart 4 CHR ''0'' (show_hex (unat g))"

lemma unat_32: "unat (v :: 32 word) < 2 ^ 32"
proof -
  have "unat v < 2 ^ LENGTH(32)" by (rule unsigned_less)
  then show ?thesis by simp
qed

lemma unat_16: "unat (g :: 16 word) < 16 ^ 4"
proof -
  have "unat g < 2 ^ LENGTH(16)" by (rule unsigned_less)
  then show ?thesis by simp
qed

lemma show_group_props:
  "length (show_group g) = 4" "hex_group (show_group g)" "hex_value (show_group g) = unat g" "c \<in> set (show_group g) \<Longrightarrow> hex_val c \<noteq> None"
proof -
  have l: "length (show_hex (unat g)) \<le> 4" by (rule show_hex_length [OF unat_16]) simp
  then show "length (show_group g) = 4" by (simp add: show_group_def padStart_def)
  have c: "hex_val c \<noteq> None" if "c \<in> set (show_group g)" for c
    using that show_hex_chars by (auto simp: show_group_def padStart_def hex_val_def split: if_splits)
  then show "c \<in> set (show_group g) \<Longrightarrow> hex_val c \<noteq> None" .
  show "hex_value (show_group g) = unat g" by (simp add: show_group_def padStart_def hex_value_zeros hex_value_show)
  show "hex_group (show_group g)"
    using l c show_hex_not_Nil by (auto simp: hex_group_def list_all_iff show_group_def padStart_def)
qed

lemma hex_not: "hex_val c \<noteq> None \<Longrightarrow> c \<noteq> CHR '':'' \<and> c \<noteq> CHR ''.'' \<and> c \<noteq> CHR ''['' \<and> \<not> is_ws c"
  by (auto simp: hex_val_def is_ws_def Let_def split: if_splits)

lemma digit_not: "is_digit c \<Longrightarrow> c \<noteq> CHR '':'' \<and> c \<noteq> CHR ''.'' \<and> c \<noteq> CHR ''['' \<and> \<not> is_ws c"
  by (auto simp: is_digit_def is_ws_def Let_def)

section \<open>Canonical text parses to its address\<close>

definition valid_ip :: "ip \<Rightarrow> bool" where
  "valid_ip a = (case a of IPv4 _ \<Rightarrow> True | IPv6 gs \<Rightarrow> length gs = 8)"

lemma char_of_colon:
  assumes "char_of (m :: nat) = CHR '':''" and "m < 256"
  shows "m = 58"
proof -
  have "of_char (char_of m :: char) = m" using assms(2) by simp
  then show ?thesis using assms(1) by simp
qed

lemma lower_not_colon: "c \<noteq> CHR '':'' \<Longrightarrow> lower_char c \<noteq> CHR '':''"
  using char_of_colon [of "of_char c + 32"] by (auto simp: lower_char_def Let_def split: if_splits)

lemma normalize_plain:
  assumes "s \<noteq> []" and "hd s \<noteq> CHR ''[''" and "hd s \<noteq> CHR '':''" and "\<forall>c \<in> set s. \<not> is_ws c"
    and "CHR ''.'' \<notin> set s \<or> CHR '':'' \<notin> set s"
  shows "normalize s = s"
proof -
  have "trim s = s" using assms(4) by (rule trim_no_ws)
  moreover have "bracketed s = None" using assms(1,2) by (cases s) (auto simp: bracketed_def)
  moreover have "\<not> (includes_str s ''.'' \<and> length (split_on CHR '':'' s) = 2)"
    using assms(5) by (auto simp: includes_str_iff split_no_sep)
  moreover have "v4_mapped s = None"
  proof -
    obtain c cs where s: "s = c # cs" using assms(1) by (cases s) auto
    then have "lower_char c \<noteq> CHR '':''" using assms(3) by (simp add: lower_not_colon)
    then show ?thesis by (simp add: v4_mapped_def Let_def s to_lower_def)
  qed
  ultimately show ?thesis by (auto simp: normalize_def Let_def)
qed

definition octets :: "32 word \<Rightarrow> nat list" where
  "octets v = map (\<lambda>k. unat (drop_bit k v AND 0xff)) [24, 16, 8, 0]"

lemma octet_value:
  fixes v :: "32 word"
  shows "unat (drop_bit k v AND 0xff) = unat v div 2 ^ k mod 256"
proof -
  have whole: "take_bit 32 (unat v) = unat v" using unat_32 by (rule take_bit_nat_eq_self)
  have m: "(0xff :: 32 word) = mask 8" by (simp add: mask_eq_exp_minus_1)
  have "unat (drop_bit k v AND 0xff) = take_bit 8 (drop_bit k (unat v))"
    unfolding m take_bit_eq_mask [symmetric] by (simp only: unsigned_take_bit_eq unsigned_drop_bit_eq) (simp add: whole)
  also have "\<dots> = unat v div 2 ^ k mod 2 ^ 8" by (simp only: drop_bit_eq_div take_bit_eq_mod)
  finally show ?thesis by simp
qed

lemma octets_sum:
  fixes n :: nat
  assumes "n < 2 ^ 32"
  shows "((n div 2 ^ 24 mod 256 * 256 + n div 2 ^ 16 mod 256) * 256 + n div 2 ^ 8 mod 256) * 256 + n div 2 ^ 0 mod 256 = n"
proof -
  have a: "n div 2 ^ 24 mod 256 = n div 2 ^ 24" using assms by simp
  have e: "m div 256 * 256 + m mod 256 = m" for m :: nat by (rule div_mult_mod_eq)
  have "n div 2 ^ 24 = n div 2 ^ 16 div 256" "n div 2 ^ 16 = n div 2 ^ 8 div 256" "n div 2 ^ 8 = n div 2 ^ 0 div 256"
    by (simp_all add: div_mult2_eq [symmetric])
  then show ?thesis using a e [of "n div 2 ^ 16"] e [of "n div 2 ^ 8"] e [of n] by simp
qed

lemma show_octet: "o1 < 256 \<Longrightarrow> short_number (show_nat o1) \<and> dec_val (show_nat o1) = o1"
proof -
  assume o: "o1 < 256"
  have "length (show_nat o1) \<le> 3"
    using o by (subst show_nat.simps, simp, subst show_nat.simps, simp, subst show_nat.simps, auto)
  then show ?thesis using show_nat_digits by (auto simp: short_number_def all_digits_def list_all_iff)
qed

lemma parse_octets_show:
  "\<forall>n \<in> set ns. n < 256 \<Longrightarrow> parse_octets (map show_nat ns) r = Some (foldl (\<lambda>r n. r * 256 + n) r ns)"
proof (induction ns arbitrary: r)
  case (Cons n ns)
  then show ?case using show_octet [of n] by (simp add: Let_def)
qed simp

lemma format_v4_parse: "parseIp (formatIp (IPv4 v)) = Some (IPv4 v)"
proof -
  let ?s = "formatIp (IPv4 v)"
  have s: "?s = join ''.'' (map show_nat (octets v))" by (simp add: formatIp_def octets_def)
  have chars: "is_digit c \<or> c = CHR ''.''" if "c \<in> set ?s" for c
    using join_set [of c "''.''" "map show_nat (octets v)"] that by (auto simp: s dest: show_nat_digits)
  obtain d ds where d: "show_nat (hd (octets v)) = d # ds" by (cases "show_nat (hd (octets v))") auto
  then have dig: "is_digit d" using show_nat_digits [of d "hd (octets v)"] by simp
  have hd: "?s \<noteq> [] \<and> hd ?s = d" using d by (simp add: s octets_def)
  have "normalize ?s = ?s"
  proof (rule normalize_plain)
    show "?s \<noteq> []" "hd ?s \<noteq> CHR ''[''" "hd ?s \<noteq> CHR '':''" using hd digit_not [OF dig] by auto
    have "\<not> is_ws CHR ''.''" by (simp add: is_ws_def)
    then show "\<forall>c \<in> set ?s. \<not> is_ws c" using chars digit_not by metis
    show "CHR ''.'' \<notin> set ?s \<or> CHR '':'' \<notin> set ?s" using chars [of "CHR '':''"] by (auto simp: is_digit_def)
  qed
  moreover have "parseIpv4 ?s = Some v"
  proof -
    have "\<forall>p \<in> set (map show_nat (octets v)). CHR ''.'' \<notin> set p"
      using show_nat_digits digit_not by auto
    then have sp: "split_on CHR ''.'' ?s = map show_nat (octets v)"
      unfolding s by (intro split_join) (simp_all add: octets_def)
    let ?o = "\<lambda>k. unat v div 2 ^ k mod 256"
    have o: "octets v = [?o 24, ?o 16, ?o 8, ?o 0]" by (simp only: octets_def list.map octet_value)
    have "parse_octets (map show_nat (octets v)) 0 = Some (((?o 24 * 256 + ?o 16) * 256 + ?o 8) * 256 + ?o 0)"
      unfolding o by (subst parse_octets_show) simp_all
    also have "\<dots> = Some (unat v)" by (simp only: octets_sum [OF unat_32])
    finally show ?thesis by (simp add: parseIpv4_def sp octets_def)
  qed
  ultimately show ?thesis by (simp add: parseIp_def Let_def)
qed

lemma split_dcolon_single:
  "s \<noteq> [] \<Longrightarrow> (\<forall>i. Suc i < length s \<longrightarrow> \<not> (s ! i = CHR '':'' \<and> s ! Suc i = CHR '':'')) \<Longrightarrow> split_dcolon s = [s]"
proof (induction s rule: split_dcolon.induct)
  case (3 c d s)
  have "\<not> (c = CHR '':'' \<and> d = CHR '':'')" using "3.prems"(2) [rule_format, of 0] by simp
  moreover have "\<forall>i. Suc i < length (d # s) \<longrightarrow> \<not> ((d # s) ! i = CHR '':'' \<and> (d # s) ! Suc i = CHR '':'')"
    using "3.prems"(2) by (metis Suc_less_eq length_Cons nth_Cons_Suc)
  ultimately show ?case using "3.IH"(2) by simp
qed simp_all

text \<open>The text of an IPv6 address: groups joined by colons, none of them empty.\<close>

lemma join_no_dcolon:
  assumes "\<forall>p \<in> set ps. p \<noteq> [] \<and> CHR '':'' \<notin> set p"
  shows "\<forall>i. Suc i < length (join '':'' ps) \<longrightarrow> \<not> (join '':'' ps ! i = CHR '':'' \<and> join '':'' ps ! Suc i = CHR '':'')"
  using assms
proof (induction ps rule: induct_list012)
  case (3 p q ps)
  let ?r = "join '':'' (q # ps)"
  have r: "\<forall>i. Suc i < length ?r \<longrightarrow> \<not> (?r ! i = CHR '':'' \<and> ?r ! Suc i = CHR '':'')" using 3 by simp
  obtain c cs where q: "q = c # cs" "c \<noteq> CHR '':''" using "3.prems" by (cases q) auto
  have h: "?r \<noteq> [] \<and> ?r ! 0 = c" using q by (cases ps) auto
  show ?case
  proof (intro allI impI notI, elim conjE)
    fix i
    assume i: "Suc i < length (join '':'' (p # q # ps))" "join '':'' (p # q # ps) ! i = CHR '':''" "join '':'' (p # q # ps) ! Suc i = CHR '':''"
    have j: "join '':'' (p # q # ps) = p @ CHR '':'' # ?r" by simp
    consider "i < length p" | "i = length p" | k where "i = Suc (length p + k)" "Suc k < length ?r"
    proof -
      have "i < length p \<or> i = length p \<or> (\<exists>k. i = Suc (length p + k))" by (metis less_imp_Suc_add linorder_neqE_nat)
      then show thesis using i(1) that unfolding j by auto
    qed
    then show False
    proof cases
      case 1
      then have "p ! i = CHR '':''" using i(2) unfolding j by (simp add: nth_append)
      then show False using 1 "3.prems" by (metis list.set_intros(1) nth_mem)
    next
      case 2
      then show False using i(3) h q(2) unfolding j by (simp add: nth_append)
    next
      case 3
      then show False using i(2,3) r unfolding j by (simp add: nth_append)
    qed
  qed
next
  case (2 p)
  show ?case
  proof (intro allI impI notI, elim conjE)
    fix i assume "Suc i < length (join '':'' [p])" "join '':'' [p] ! i = CHR '':''"
    then have "CHR '':'' \<in> set p" by (metis Suc_lessD join.simps(2) nth_mem)
    then show False using "2.prems" by simp
  qed
qed simp

lemma format_v6_parse:
  assumes "length gs = 8"
  shows "parseIp (formatIp (IPv6 gs)) = Some (IPv6 gs)"
proof -
  let ?ps = "map show_group gs" and ?s = "formatIp (IPv6 gs)"
  have s: "?s = join '':'' ?ps" by (simp add: formatIp_def show_group_def [abs_def])
  have c: "hex_val c \<noteq> None" if "c \<in> set (show_group g)" for c g using show_group_props(4) [OF that] .
  have p: "\<forall>p \<in> set ?ps. p \<noteq> [] \<and> CHR '':'' \<notin> set p"
  proof
    fix p assume "p \<in> set ?ps"
    then obtain g where g: "p = show_group g" by auto
    have "p \<noteq> []" using show_group_props(1) [of g] g by auto
    moreover have "CHR '':'' \<notin> set p" using c [of "CHR '':''" g] hex_not [of "CHR '':''"] g by blast
    ultimately show "p \<noteq> [] \<and> CHR '':'' \<notin> set p" by blast
  qed
  obtain g gs' where gs: "gs = g # gs'" "gs' \<noteq> []" using assms by (cases gs; cases "tl gs") auto
  obtain d ds where d: "show_group g = d # ds" using p gs by (cases "show_group g") auto
  have chars: "hex_val x \<noteq> None \<or> x = CHR '':''" if "x \<in> set ?s" for x
    using join_set [of x "'':''" ?ps] that c unfolding s by auto
  have hd: "?s \<noteq> [] \<and> hd ?s = d" unfolding s unfolding gs(1) using d by (cases gs') auto
  have dh: "hex_val d \<noteq> None" using c [of d g] d by simp
  have col: "CHR '':'' \<in> set ?s" unfolding s unfolding gs(1) using gs(2) by (cases gs') auto
  have dot: "CHR ''.'' \<notin> set ?s" using chars [of "CHR ''.''"] by (auto simp: hex_val_def)
  have "normalize ?s = ?s"
  proof (rule normalize_plain)
    show "?s \<noteq> []" "hd ?s \<noteq> CHR ''[''" "hd ?s \<noteq> CHR '':''" using hd hex_not [OF dh] by auto
    have "\<not> is_ws CHR '':''" by (simp add: is_ws_def)
    then show "\<forall>c \<in> set ?s. \<not> is_ws c" using chars hex_not by metis
    show "CHR ''.'' \<notin> set ?s \<or> CHR '':'' \<notin> set ?s" using dot by blast
  qed
  moreover have "parseIpv4 ?s = None" using dot by (simp add: parseIpv4_def split_no_sep)
  moreover have "parseIpv6 ?s = Some gs"
  proof -
    have "split_dcolon ?s = [?s]"
      using hd join_no_dcolon [OF p] unfolding s by (intro split_dcolon_single) auto
    moreover have "split_on CHR '':'' ?s = ?ps" unfolding s using p gs by (intro split_join) auto
    then have "toGroups ?s = Some gs"
      using hd show_group_props by (simp add: toGroups_def list_all_iff o_def)
    moreover have "includes_str ?s '':''" using col by (auto simp: includes_str_iff in_set_conv_decomp)
    ultimately show ?thesis using assms by (simp add: parseIpv6_def)
  qed
  ultimately show ?thesis by (simp add: parseIp_def Let_def)
qed

lemma parse_format: "valid_ip a \<Longrightarrow> parseIp (formatIp a) = Some a"
  using format_v4_parse format_v6_parse by (cases a) (auto simp: valid_ip_def)

lemma parse_valid: "parseIp raw = Some a \<Longrightarrow> valid_ip a"
  by (auto simp: parseIp_def Let_def valid_ip_def parseIpv6_def split: option.splits list.splits if_splits)

section \<open>Leading bits\<close>

definition word_bits :: "nat \<Rightarrow> 'a::len word \<Rightarrow> bool list" where
  "word_bits n w = map (\<lambda>k. bit w (n - 1 - k)) [0..<n]"

fun addr_bits :: "ip \<Rightarrow> bool list" where
  "addr_bits (IPv4 v) = word_bits 32 v"
| "addr_bits (IPv6 gs) = concat (map (word_bits 16) gs)"

lemma masked_eq:
  fixes v w :: "'a::len word"
  assumes "p \<le> LENGTH('a)"
  shows "v AND push_bit (LENGTH('a) - p) (- 1) = w AND push_bit (LENGTH('a) - p) (- 1) \<longleftrightarrow>
    take p (word_bits LENGTH('a) v) = take p (word_bits LENGTH('a) w)"
proof -
  let ?n = "LENGTH('a)"
  have "v AND push_bit (?n - p) (- 1) = w AND push_bit (?n - p) (- 1) \<longleftrightarrow>
      (\<forall>k < ?n. ?n - p \<le> k \<longrightarrow> bit v k = bit w k)"
    by (auto simp: bit_eq_iff bit_simps)
  also have "\<dots> \<longleftrightarrow> (\<forall>i < p. bit v (?n - 1 - i) = bit w (?n - 1 - i))"
  proof
    assume l: "\<forall>k < ?n. ?n - p \<le> k \<longrightarrow> bit v k = bit w k"
    show "\<forall>i < p. bit v (?n - 1 - i) = bit w (?n - 1 - i)"
      using l assms by (metis Suc_diff_Suc diff_Suc_eq_diff_pred diff_Suc_less diff_le_mono2 diff_less_Suc
          len_gt_0 less_eq_Suc_le less_Suc_eq_le Suc_leI diff_diff_left plus_1_eq_Suc)
  next
    assume r: "\<forall>i < p. bit v (?n - 1 - i) = bit w (?n - 1 - i)"
    show "\<forall>k < ?n. ?n - p \<le> k \<longrightarrow> bit v k = bit w k"
    proof (intro allI impI)
      fix k assume k: "k < ?n" "?n - p \<le> k"
      then have "?n - 1 - k < p" "?n - 1 - (?n - 1 - k) = k" by auto
      then show "bit v k = bit w k" using r [rule_format, of "?n - 1 - k"] by simp
    qed
  qed
  also have "\<dots> \<longleftrightarrow> take p (word_bits ?n v) = take p (word_bits ?n w)"
    using assms by (auto simp: word_bits_def list_eq_iff_nth_eq)
  finally show ?thesis .
qed

lemma ones: "(0xffffffff :: 32 word) = - 1" "(0xffff :: 16 word) = - 1"
  by simp_all

lemma ipv4_bits: "p \<le> 32 \<Longrightarrow> ipv4InCidr v n p \<longleftrightarrow> take p (addr_bits (IPv4 v)) = take p (addr_bits (IPv4 n))"
proof -
  assume p: "p \<le> 32"
  have "(if p = 32 then 0xffffffff else push_bit (32 - p) 0xffffffff) = push_bit (32 - p) (- 1 :: 32 word)"
    unfolding ones by simp
  then show ?thesis using masked_eq [of p v n] p by (auto simp: ipv4InCidr_def Let_def)
qed

lemma length_word_bits [simp]: "length (word_bits n w) = n"
  by (simp add: word_bits_def)

lemma groups_match_bits:
  "length gs = length ns \<Longrightarrow> groups_match gs ns r \<longleftrightarrow> take r (addr_bits (IPv6 gs)) = take r (addr_bits (IPv6 ns))"
proof (induction gs ns arbitrary: r rule: list_induct2)
  case (Cons g gs n ns)
  let ?b = "min 16 r"
  have m: "(if ?b = 16 then 0xffff else push_bit (16 - ?b) 0xffff) = push_bit (16 - ?b) (- 1 :: 16 word)"
    unfolding ones by simp
  have "g AND push_bit (16 - ?b) (- 1) = n AND push_bit (16 - ?b) (- 1) \<longleftrightarrow> take ?b (word_bits 16 g) = take ?b (word_bits 16 n)"
    using masked_eq [of ?b g n] by simp
  moreover have "take r (addr_bits (IPv6 (g # gs))) = take r (addr_bits (IPv6 (n # ns))) \<longleftrightarrow>
      take ?b (word_bits 16 g) = take ?b (word_bits 16 n) \<and> take (r - 16) (addr_bits (IPv6 gs)) = take (r - 16) (addr_bits (IPv6 ns))"
    by (auto simp: min_def)
  moreover have "r - ?b = r - 16" by simp
  ultimately show ?case using Cons.IH [of "r - 16"] by (simp add: Let_def m [unfolded Let_def])
qed simp

section \<open>Properties\<close>

text \<open>
  One host, one bucket: the canonical text of an address parses back to the same address,
  so canonicalization is idempotent and two inputs have the same canonical text exactly when
  they denote the same address.
\<close>

theorem canonical_ip:
  assumes "parseIp r1 = Some a" and "parseIp r2 = Some b"
  shows "canonicalizeIp r1 = Some (formatIp a) \<and> parseIp (formatIp a) = Some a \<and>
    canonicalizeIp (formatIp a) = Some (formatIp a) \<and> (canonicalizeIp r1 = canonicalizeIp r2 \<longleftrightarrow> a = b)"
proof -
  have r: "parseIp (formatIp a) = Some a" "parseIp (formatIp b) = Some b"
    using assms parse_valid parse_format by blast+
  then have "formatIp a = formatIp b \<longleftrightarrow> a = b" by (metis option.inject)
  then show ?thesis using assms r by (simp add: canonicalizeIp_def)
qed

lemma demo_parse: "parseIp (formatIp (IPv4 0x0A000001)) = Some (IPv4 0x0A000001)"
  by (rule format_v4_parse)

theorem canonical_ip_witness: "canonicalizeIp (formatIp (IPv4 0x0A000001)) = Some (formatIp (IPv4 0x0A000001))"
  using canonical_ip [OF demo_parse demo_parse] by blast

text \<open>
  C34.
  A CIDR test compares exactly the prefix: an address lies in a block if and only if both
  have the same IP version and agree on their first \<open>prefix\<close> bits; every parsed block has a
  prefix no longer than its address.
\<close>

theorem cidr_prefix_match:
  assumes "parseIp raw = Some a" and "parseCidr block = Some c"
  shows "ipInCidr a c \<longleftrightarrow>
    (case (a, cip c) of (IPv4 _, IPv4 _) \<Rightarrow> True | (IPv6 _, IPv6 _) \<Rightarrow> True | _ \<Rightarrow> False) \<and>
    prefix c \<le> length (addr_bits (cip c)) \<and> take (prefix c) (addr_bits a) = take (prefix c) (addr_bits (cip c))"
proof -
  have v: "valid_ip a" "valid_ip (cip c)" and p: "prefix c \<le> (case cip c of IPv4 _ \<Rightarrow> 32 | IPv6 _ \<Rightarrow> 128)"
    using assms parse_valid by (auto simp: parseCidr_def Let_def split: option.splits list.splits if_splits)
  have len: "length (concat (map (word_bits 16) gs)) = 16 * length gs" for gs :: "16 word list"
    by (induction gs) auto
  show ?thesis
    using v p ipv4_bits groups_match_bits len
    by (cases a; cases "cip c") (auto simp: ipInCidr_def valid_ip_def ipv6InCidr_def)
qed

lemma demo_cidr: "parseCidr (formatIp (IPv4 0x0A000001)) = Some \<lparr>cip = IPv4 0x0A000001, prefix = 32\<rparr>"
proof -
  let ?s = "formatIp (IPv4 0x0A000001)"
  have c: "is_digit x \<or> x = CHR ''.''" if "x \<in> set ?s" for x
    using join_set [of x "''.''" "map show_nat (octets 0x0A000001)"] that
    by (auto simp: formatIp_def octets_def dest: show_nat_digits)
  have "\<not> is_ws CHR ''.''" by (simp add: is_ws_def)
  then have "\<forall>x \<in> set ?s. \<not> is_ws x" using c digit_not by metis
  then have t: "trim ?s = ?s" by (rule trim_no_ws)
  have "CHR ''/'' \<notin> set ?s" using c [of "CHR ''/''"] by (auto simp: is_digit_def)
  then have "split_on CHR ''/'' ?s = [?s]" by (rule split_no_sep)
  moreover have "?s \<noteq> []" by (simp add: formatIp_def)
  ultimately show ?thesis by (simp add: parseCidr_def Let_def t format_v4_parse)
qed

theorem cidr_prefix_match_witness: "ipInCidr (IPv4 0x0A000001) \<lparr>cip = IPv4 0x0A000001, prefix = 32\<rparr>"
  using cidr_prefix_match [OF demo_parse demo_cidr] by simp

end
