(* ===== verification/Sha256.thy ===== *)
theory Sha256
  imports Ip_Props
begin

unbundle bit_operations_syntax

text \<open>
  The SHA-256 of \<open>packages/rate-limit/src/hash.ts\<close>, on \<open>32 word\<close>s: JavaScript's 32-bit
  operators followed by \<open>>>> 0\<close> are the operations of these words, and the sum of several
  32-bit numbers cut with \<open>>>> 0\<close> is their sum as words.

  Octets are natural numbers; the input is any text in UTF-16 units, encoded in UTF-8.
\<close>

definition K256 :: "32 word list" where
  "K256 =
     [1116352408, 1899447441, 3049323471, 3921009573, 961987163, 1508970993, 2453635748, 2870763221,
      3624381080, 310598401, 607225278, 1426881987, 1925078388, 2162078206, 2614888103, 3248222580,
      3835390401, 4022224774, 264347078, 604807628, 770255983, 1249150122, 1555081692, 1996064986,
      2554220882, 2821834349, 2952996808, 3210313671, 3336571891, 3584528711, 113926993, 338241895,
      666307205, 773529912, 1294757372, 1396182291, 1695183700, 1986661051, 2177026350, 2456956037,
      2730485921, 2820302411, 3259730800, 3345764771, 3516065817, 3600352804, 4094571909, 275423344,
      430227734, 506948616, 659060556, 883997877, 958139571, 1322822218, 1537002063, 1747873779,
      1955562222, 2024104815, 2227730452, 2361852424, 2428436474, 2756734187, 3204031479, 3329325298]"

definition rotr :: "32 word \<Rightarrow> nat \<Rightarrow> 32 word" where
  "rotr v bits = drop_bit bits v OR push_bit (32 - bits) v"

text \<open>
  \<open>TextEncoder.encode\<close> on a text in UTF-16 units: a pair of surrogates is one code point, a lone
  surrogate is replaced by U+FFFD.
\<close>

fun utf8_encode :: "ustring \<Rightarrow> nat list" where
  "utf8_encode [] = []"
| "utf8_encode (u # us) =
     (if 0xD800 \<le> u \<and> u < 0xDC00 then
        (case us of
           v # vs \<Rightarrow>
             if 0xDC00 \<le> v \<and> v < 0xE000
             then utf8_of_cp ((u - 0xD800) * 0x400 + (v - 0xDC00) + 0x10000) @ utf8_encode vs
             else [0xEF, 0xBF, 0xBD] @ utf8_encode us
         | [] \<Rightarrow> [0xEF, 0xBF, 0xBD])
      else if 0xDC00 \<le> u \<and> u < 0xE000 then [0xEF, 0xBF, 0xBD] @ utf8_encode us
      else utf8_of_cp u @ utf8_encode us)"

definition be_bytes :: "nat \<Rightarrow> nat list" where
  "be_bytes n = [n div 16777216 mod 256, n div 65536 mod 256, n div 256 mod 256, n mod 256]"

text \<open>The padded message.\<close>

definition padded :: "nat list \<Rightarrow> nat list" where
  "padded message =
     (let bitLength = length message * 8;
          paddedLength = (length message + 9 + 63) div 64 * 64
      in message @ [0x80] @ replicate (paddedLength - length message - 9) 0
         @ be_bytes (bitLength div 4294967296) @ be_bytes (bitLength mod 4294967296))"

definition getUint32 :: "nat list \<Rightarrow> nat \<Rightarrow> 32 word" where
  "getUint32 buf i =
     of_nat (((buf ! i * 256 + buf ! (i + 1)) * 256 + buf ! (i + 2)) * 256 + buf ! (i + 3))"

text \<open>One step of the message schedule: the value of \<open>w[i]\<close>.\<close>

definition schedule_word :: "32 word list \<Rightarrow> nat \<Rightarrow> 32 word" where
  "schedule_word w i =
     (let x = w ! (i - 15); y = w ! (i - 2);
          s0 = rotr x 7 XOR rotr x 18 XOR drop_bit 3 x;
          s1 = rotr y 17 XOR rotr y 19 XOR drop_bit 10 y
      in w ! (i - 16) + s0 + w ! (i - 7) + s1)"

definition schedule :: "nat list \<Rightarrow> nat \<Rightarrow> 32 word list" where
  "schedule buf offset =
     fold (\<lambda>i w. w @ [schedule_word w i]) [16..<64] (map (\<lambda>i. getUint32 buf (offset + i * 4)) [0..<16])"

record hash_state =
  ha :: "32 word"
  hb :: "32 word"
  hc :: "32 word"
  hdd :: "32 word"
  he :: "32 word"
  hf :: "32 word"
  hg :: "32 word"
  hh :: "32 word"

definition initial_hash :: hash_state where
  "initial_hash =
     \<lparr>ha = 0x6a09e667, hb = 0xbb67ae85, hc = 0x3c6ef372, hdd = 0xa54ff53a,
      he = 0x510e527f, hf = 0x9b05688c, hg = 0x1f83d9ab, hh = 0x5be0cd19\<rparr>"

text \<open>The body of the compression loop.\<close>

definition compress_step :: "32 word list \<Rightarrow> nat \<Rightarrow> hash_state \<Rightarrow> hash_state" where
  "compress_step w i s =
     (let s1 = rotr (he s) 6 XOR rotr (he s) 11 XOR rotr (he s) 25;
          ch = (he s AND hf s) XOR (NOT (he s) AND hg s);
          temp1 = hh s + s1 + ch + K256 ! i + w ! i;
          s0 = rotr (ha s) 2 XOR rotr (ha s) 13 XOR rotr (ha s) 22;
          maj = (ha s AND hb s) XOR (ha s AND hc s) XOR (hb s AND hc s);
          temp2 = s0 + maj
      in \<lparr>ha = temp1 + temp2, hb = ha s, hc = hb s, hdd = hc s, he = hdd s + temp1, hf = he s, hg = hf s, hh = hg s\<rparr>)"

definition add_hash :: "hash_state \<Rightarrow> hash_state \<Rightarrow> hash_state" where
  "add_hash h s =
     \<lparr>ha = ha h + ha s, hb = hb h + hb s, hc = hc h + hc s, hdd = hdd h + hdd s,
      he = he h + he s, hf = hf h + hf s, hg = hg h + hg s, hh = hh h + hh s\<rparr>"

definition hash_block :: "nat list \<Rightarrow> nat \<Rightarrow> hash_state \<Rightarrow> hash_state" where
  "hash_block buf offset h =
     (let w = schedule buf offset in add_hash h (fold (compress_step w) [0..<64] h))"

definition hash_words :: "hash_state \<Rightarrow> 32 word list" where
  "hash_words h = [ha h, hb h, hc h, hdd h, he h, hf h, hg h, hh h]"

definition sha256Hex :: "ustring \<Rightarrow> string" where
  "sha256Hex input =
     (let buf = padded (utf8_encode input);
          h = fold (\<lambda>k. hash_block buf (64 * k)) [0..<length buf div 64] initial_hash
      in concat (map (\<lambda>w. padStart 8 CHR ''0'' (show_hex (unat w))) (hash_words h)))"

section \<open>The rotation and the padding\<close>

lemma rotr_word_rotr:
  assumes "0 < n" and "n < 32"
  shows "rotr v n = word_rotr n v"
proof (rule bit_word_eqI)
  fix i :: nat
  assume "i < LENGTH(32)"
  then have i: "i < 32" by simp
  have big: "\<not> bit v k" if "32 \<le> k" for k using that bit_imp_le_length [of v k] by auto
  show "bit (rotr v n) i = bit (word_rotr n v) i"
  proof (cases "i + n < 32")
    case True
    then have "\<not> 32 - n \<le> i" by linarith
    then show ?thesis using True i by (simp add: rotr_def bit_simps add.commute)
  next
    case False
    then have "32 - n \<le> i" "(i + n) mod 32 = i - (32 - n)" "\<not> bit v (n + i)" using i assms big by (auto simp: mod_if)
    then show ?thesis using i by (simp add: rotr_def bit_simps)
  qed
qed

lemma length_be [simp]: "length (be_bytes n) = 4"
  by (simp add: be_bytes_def)

lemma padded_length: "length (padded m) = (length m + 72) div 64 * 64"
proof -
  have "length m + 9 \<le> (length m + 72) div 64 * 64" by linarith
  then show ?thesis by (simp add: padded_def Let_def)
qed

lemma padded_blocks: "64 dvd length (padded m) \<and> length m + 9 \<le> length (padded m)"
proof
  show "64 dvd length (padded m)" by (simp add: padded_length)
  show "length m + 9 \<le> length (padded m)" unfolding padded_length by linarith
qed

section \<open>The digest\<close>

lemma hash_block_words: "length (hash_words h) = 8"
  by (simp add: hash_words_def)

text \<open>A digest is 64 lower-case hexadecimal digits.\<close>

lemma padStart_hex32:
  fixes w :: "32 word"
  shows "length (padStart 8 CHR ''0'' (show_hex (unat w))) = 8"
    and "c \<in> set (padStart 8 CHR ''0'' (show_hex (unat w))) \<Longrightarrow> hex_val c \<noteq> None"
proof -
  have "unat w < 16 ^ 8" using unat_32 [of w] by simp
  then have "length (show_hex (unat w)) \<le> 8" by (rule show_hex_length) simp
  then show "length (padStart 8 CHR ''0'' (show_hex (unat w))) = 8" by (simp add: padStart_def)
  show "hex_val c \<noteq> None" if "c \<in> set (padStart 8 CHR ''0'' (show_hex (unat w)))"
    using that show_hex_chars by (auto simp: padStart_def hex_val_def split: if_splits)
qed

lemma sha256_length [simp]: "length (sha256Hex s) = 64"
  by (simp add: sha256Hex_def Let_def hash_words_def padStart_hex32(1))

lemma sha256_hex: "c \<in> set (sha256Hex s) \<Longrightarrow> hex_val c \<noteq> None"
  by (auto simp: sha256Hex_def Let_def hash_words_def dest!: padStart_hex32(2))

end
