(* ===== verification/Rate_Limit.thy ===== *)
theory Rate_Limit
  imports Sha256
begin

text \<open>
  The fixed-window rate limiter, \<open>packages/rate-limit/src/index.ts\<close>.

  \<^item> \<open>mem_store\<close> is \<open>MemoryRateLimitStore\<close>: its \<open>Map\<close> is an insertion-ordered map; the
    calls of \<open>onCapReached\<close> are collected in \<open>capCalls\<close>. \<open>increment\<close> runs without an
    \<open>await\<close>, so it is one function; its clock is the argument \<open>now\<close>.
  \<^item> A request is what the limiter reads of it: two headers and the peer address.
  \<^item> A numeric option is an integer or not a finite number (\<open>NonFinite\<close>: a missing value,
    \<open>NaN\<close>, an infinity or another type).
\<close>

section \<open>The in-memory store\<close>

record window_entry =
  hits :: nat
  resetAt :: time

record mem_store =
  entries :: "(string, window_entry) omap"
  maxKeys :: nat
  capWarned :: bool
  capCalls :: "nat list"

datatype js_number = Finite int | NonFinite

datatype rl_error = BadMaxKeys | BadNumber string | BadHops | BadKeyLength | NoClientIdentity | NoProxies | BadProxy string

definition newMemStore :: "js_number option \<Rightarrow> rl_error + mem_store" where
  "newMemStore mx =
     (case mx of
        None \<Rightarrow> Inr \<lparr>entries = [], maxKeys = 100000, capWarned = False, capCalls = []\<rparr>
      | Some NonFinite \<Rightarrow> Inl BadMaxKeys
      | Some (Finite m) \<Rightarrow>
          if m < 1 then Inl BadMaxKeys
          else Inr \<lparr>entries = [], maxKeys = nat m, capWarned = False, capCalls = []\<rparr>)"

text \<open>The callback of the cleanup timer.\<close>

definition rl_cleanup :: "time \<Rightarrow> mem_store \<Rightarrow> mem_store" where
  "rl_cleanup now s =
     s\<lparr>entries := fold (\<lambda>(k, e) m. if resetAt e \<le> now then AList.delete k m else m) (entries s) (entries s)\<rparr>"

abbreviation EVICTION_SCAN_LIMIT :: nat where
  "EVICTION_SCAN_LIMIT \<equiv> 16"

definition weaker :: "window_entry \<Rightarrow> window_entry \<Rightarrow> bool" where
  "weaker e w = (hits e < hits w \<or> hits e = hits w \<and> resetAt e < resetAt w)"

text \<open>The loop of \<open>evictOne\<close>: the key to delete.\<close>

fun evict_scan :: "time \<Rightarrow> (string, window_entry) omap \<Rightarrow> nat \<Rightarrow> (string \<times> window_entry) option \<Rightarrow> string option" where
  "evict_scan now [] scanned weakest = map_option fst weakest"
| "evict_scan now ((k, e) # es) scanned weakest =
     (if resetAt e \<le> now then Some k
      else (let weakest' = (case weakest of None \<Rightarrow> Some (k, e) | Some (_, w) \<Rightarrow> if weaker e w then Some (k, e) else weakest) in
        if EVICTION_SCAN_LIMIT \<le> Suc scanned then map_option fst weakest'
        else evict_scan now es (Suc scanned) weakest'))"

definition evictOne :: "time \<Rightarrow> mem_store \<Rightarrow> mem_store" where
  "evictOne now s =
     (case evict_scan now (entries s) 0 None of
        None \<Rightarrow> s
      | Some k \<Rightarrow> s\<lparr>entries := AList.delete k (entries s)\<rparr>)"

definition increment :: "time \<Rightarrow> string \<Rightarrow> int \<Rightarrow> mem_store \<Rightarrow> (nat \<times> time) \<times> mem_store" where
  "increment now key window s =
     (let existing = map_of (entries s) key in
      case (case existing of None \<Rightarrow> None | Some e \<Rightarrow> if now < resetAt e then Some e else None) of
        Some e \<Rightarrow>
          (let e' = e\<lparr>hits := Suc (hits e)\<rparr> in
           ((hits e', resetAt e'), s\<lparr>entries := AList.update key e' (entries s)\<rparr>))
      | None \<Rightarrow>
          (let s1 = (if existing = None \<and> maxKeys s \<le> length (entries s)
                     then (let s0 = evictOne now s in
                           if capWarned s0 then s0 else s0\<lparr>capWarned := True, capCalls := capCalls s0 @ [maxKeys s0]\<rparr>)
                     else s);
               entry = \<lparr>hits = 1, resetAt = now + window\<rparr>
           in ((1, resetAt entry), s1\<lparr>entries := AList.update key entry (AList.delete key (entries s1))\<rparr>)))"

section \<open>Identifying the client\<close>

record rl_request =
  xForwardedFor :: "string option"
  xRealIp :: "string option"
  peer :: "string option"

abbreviation ANONYMOUS_KEY :: string where
  "ANONYMOUS_KEY \<equiv> ''anonymous''"

definition splitForwardedFor :: "string \<Rightarrow> string list" where
  "splitForwardedFor v = filter (\<lambda>p. p \<noteq> []) (map trim (split_on CHR '','' v))"

text \<open>The loop from the right: the argument is the list of entries reversed.\<close>

fun first_untrusted :: "cidr list \<Rightarrow> string list \<Rightarrow> string option" where
  "first_untrusted trusted [] = None"
| "first_untrusted trusted (c # cs) =
     (if \<not> isTrustedProxy c trusted then canonicalizeIp c else first_untrusted trusted cs)"

definition clientIpFromTrustedProxies :: "rl_request \<Rightarrow> cidr list \<Rightarrow> string option" where
  "clientIpFromTrustedProxies req trusted =
     (case xForwardedFor req of
        None \<Rightarrow> None
      | Some xff \<Rightarrow> if xff = [] then None else first_untrusted trusted (rev (splitForwardedFor xff)))"

definition clientIpFromHopCount :: "rl_request \<Rightarrow> nat \<Rightarrow> string option" where
  "clientIpFromHopCount req hops =
     (case xForwardedFor req of
        None \<Rightarrow> None
      | Some xff \<Rightarrow>
          if xff = [] then None
          else (let es = splitForwardedFor xff in
            if length es < hops then None else canonicalizeIp (es ! (length es - hops))))"

text \<open>A value that is absent or empty is falsy.\<close>

definition truthy :: "string option \<Rightarrow> string option" where
  "truthy v = (case v of None \<Rightarrow> None | Some s \<Rightarrow> if s = [] then None else Some s)"

definition defaultKey :: "cidr list option \<Rightarrow> nat \<Rightarrow> bool \<Rightarrow> rl_request \<Rightarrow> string" where
  "defaultKey trusted hops realIp req =
     (case truthy (case trusted of Some t \<Rightarrow> clientIpFromTrustedProxies req t | None \<Rightarrow> clientIpFromHopCount req hops) of
        Some k \<Rightarrow> k
      | None \<Rightarrow>
          (case (if realIp then truthy (Option.bind (truthy (xRealIp req)) canonicalizeIp) else None) of
             Some k \<Rightarrow> k
           | None \<Rightarrow>
               (case truthy (Option.bind (peer req) canonicalizeIp) of
                  Some k \<Rightarrow> k
                | None \<Rightarrow> ANONYMOUS_KEY)))"

definition createDefaultKeyGenerator :: "cidr list option \<Rightarrow> bool \<Rightarrow> nat \<Rightarrow> bool \<Rightarrow> rl_error + (rl_request \<Rightarrow> string)" where
  "createDefaultKeyGenerator trusted trustProxy hops realIp =
     (if trusted = None \<and> \<not> trustProxy then Inl NoClientIdentity
      else Inr (defaultKey trusted hops realIp))"

section \<open>Options\<close>

definition assertPositiveNumber :: "string \<Rightarrow> js_number \<Rightarrow> rl_error option" where
  "assertPositiveNumber name v =
     (case v of NonFinite \<Rightarrow> Some (BadNumber name) | Finite n \<Rightarrow> if n \<le> 0 then Some (BadNumber name) else None)"

fun parseCidrs :: "string list \<Rightarrow> rl_error + cidr list" where
  "parseCidrs [] = Inr []"
| "parseCidrs (v # vs) =
     (case parseCidr v of
        None \<Rightarrow> Inl (BadProxy v)
      | Some c \<Rightarrow> (case parseCidrs vs of Inl e \<Rightarrow> Inl e | Inr cs \<Rightarrow> Inr (c # cs)))"

definition parseTrustedProxies :: "string list option \<Rightarrow> rl_error + cidr list option" where
  "parseTrustedProxies vs =
     (case vs of
        None \<Rightarrow> Inr None
      | Some values \<Rightarrow>
          if values = [] then Inl NoProxies
          else (case parseCidrs values of Inl e \<Rightarrow> Inl e | Inr cs \<Rightarrow> Inr (Some cs)))"

definition positiveInteger :: "js_number \<Rightarrow> nat option" where
  "positiveInteger v = (case v of NonFinite \<Rightarrow> None | Finite n \<Rightarrow> if n < 1 then None else Some (nat n))"

record rl_options =
  optMax :: js_number
  optWindow :: js_number
  optKeyGenerator :: "(rl_request \<Rightarrow> string) option"
  optTrustedProxies :: "string list option"
  optTrustProxy :: bool
  optTrustedProxyHops :: "js_number option"
  optTrustXRealIp :: bool
  optMaxKeys :: "js_number option"
  optMaxKeyLength :: "js_number option"

text \<open>What the plugin closes over. The store is kept apart: it is the state.\<close>

record limiter =
  lmax :: int
  lwindow :: int
  lkeyGenerator :: "rl_request \<Rightarrow> string"
  lmaxKeyLength :: nat

definition number_value :: "js_number \<Rightarrow> int" where
  "number_value v = (case v of Finite n \<Rightarrow> n | NonFinite \<Rightarrow> 0)"

definition rateLimit :: "rl_options \<Rightarrow> rl_error + limiter \<times> mem_store" where
  "rateLimit opts =
     (case assertPositiveNumber ''max'' (optMax opts) of Some e \<Rightarrow> Inl e | None \<Rightarrow>
      case assertPositiveNumber ''window'' (optWindow opts) of Some e \<Rightarrow> Inl e | None \<Rightarrow>
      case parseTrustedProxies (optTrustedProxies opts) of Inl e \<Rightarrow> Inl e | Inr trusted \<Rightarrow>
      case positiveInteger (case optTrustedProxyHops opts of None \<Rightarrow> Finite 1 | Some h \<Rightarrow> h) of None \<Rightarrow> Inl BadHops | Some hops \<Rightarrow>
      case positiveInteger (case optMaxKeyLength opts of None \<Rightarrow> Finite 256 | Some l \<Rightarrow> l) of None \<Rightarrow> Inl BadKeyLength | Some keyLength \<Rightarrow>
      case (case optKeyGenerator opts of
              Some g \<Rightarrow> Inr g
            | None \<Rightarrow> createDefaultKeyGenerator trusted (optTrustProxy opts) hops (optTrustXRealIp opts)) of Inl e \<Rightarrow> Inl e | Inr gen \<Rightarrow>
      case newMemStore (optMaxKeys opts) of Inl e \<Rightarrow> Inl e | Inr s \<Rightarrow>
      Inr (\<lparr>lmax = number_value (optMax opts), lwindow = number_value (optWindow opts),
            lkeyGenerator = gen, lmaxKeyLength = keyLength\<rparr>, s))"

section \<open>The hook\<close>

definition stored_key :: "limiter \<Rightarrow> rl_request \<Rightarrow> string" where
  "stored_key cfg req =
     (let rawKey = lkeyGenerator cfg req in
      if lmaxKeyLength cfg < length rawKey then ''__hashed__:'' @ sha256Hex (uni rawKey) else rawKey)"

text \<open>\<open>Math.ceil(n / 1000)\<close>\<close>

definition ceil_seconds :: "int \<Rightarrow> int" where
  "ceil_seconds n = - ((- n) div 1000)"

record rl_outcome =
  replyHeaders :: "(string \<times> string) list"
  tooMany :: "int option"

text \<open>The hook over a store's \<open>increment\<close>. \<open>tooMany\<close> holds the \<open>retryAfter\<close> of the 429 response;
  \<open>None\<close> lets the request through. \<open>later\<close> is the second reading of the clock.\<close>

definition rateLimitHook ::
    "(time \<Rightarrow> string \<Rightarrow> int \<Rightarrow> 's \<Rightarrow> (nat \<times> time) \<times> 's) \<Rightarrow> limiter \<Rightarrow> time \<Rightarrow> time \<Rightarrow> rl_request \<Rightarrow> 's \<Rightarrow> rl_outcome \<times> 's" where
  "rateLimitHook inc cfg now later req s =
     (case inc now (stored_key cfg req) (lwindow cfg) s of
        ((n, reset), s') \<Rightarrow>
          (let hs = [(''x-ratelimit-limit'', show_int (lmax cfg)),
                     (''x-ratelimit-remaining'', show_int (max 0 (lmax cfg - int n))),
                     (''x-ratelimit-reset'', show_int (ceil_seconds reset))]
           in if lmax cfg < int n
              then (let retryAfter = max 1 (ceil_seconds (reset - later)) in
                (\<lparr>replyHeaders = hs @ [(''retry-after'', show_int retryAfter)], tooMany = Some retryAfter\<rparr>, s'))
              else (\<lparr>replyHeaders = hs, tooMany = None\<rparr>, s')))"

end
