(* ===== verification/Rate_Interface.thy ===== *)
theory Rate_Interface
  imports Prelude
begin

text \<open>
  The \<open>RateLimitStore\<close> interface of \<open>packages/rate-limit/src/index.ts\<close> as the limiter relies
  on it: \<open>counter now s k\<close> is the live count of a key with the end of its window. A bounded
  store may forget other keys, but not while the keys in use fit (\<open>fits K s\<close>: the store
  holds keys of \<open>K\<close> only and has room for all of them).
\<close>

text \<open>The calls of \<open>increment\<close> in their order, with what each returns.\<close>

fun inc_trace :: "(time \<Rightarrow> string \<Rightarrow> int \<Rightarrow> 's \<Rightarrow> (nat \<times> time) \<times> 's) \<Rightarrow> int \<Rightarrow> (time \<times> string) list \<Rightarrow> 's \<Rightarrow>
    (time \<times> string \<times> nat \<times> time) list" where
  "inc_trace inc w [] s = []"
| "inc_trace inc w ((now, k) # tr) s =
     (case inc now k w s of ((n, r), s') \<Rightarrow> (now, k, n, r) # inc_trace inc w tr s')"

text \<open>The counts of one key: they go up by one until the window is over, then start again.\<close>

fun windows :: "int \<Rightarrow> (nat \<times> time) option \<Rightarrow> (time \<times> nat \<times> time) list \<Rightarrow> bool" where
  "windows w p [] = True"
| "windows w p ((t, n, r) # L) =
     ((case p of
         None \<Rightarrow> n = 1 \<and> r = t + w
       | Some (n0, r0) \<Rightarrow> if t < r0 then n = Suc n0 \<and> r = r0 else n = 1 \<and> r = t + w)
      \<and> windows w (Some (n, r)) L)"

definition of_key :: "string \<Rightarrow> (time \<times> string \<times> nat \<times> time) list \<Rightarrow> (time \<times> nat \<times> time) list" where
  "of_key k out = map (\<lambda>(t, _, n, r). (t, n, r)) (filter (\<lambda>(_, j, _, _). j = k) out)"

section \<open>How many requests a window admits\<close>

lemma windows_bound:
  "windows w p L \<Longrightarrow> 0 < w \<Longrightarrow>
   length (filter (\<lambda>(t, n, r). r = R \<and> n \<le> mx) L) \<le>
     (case p of None \<Rightarrow> mx | Some (n0, r0) \<Rightarrow> if R < r0 then 0 else if R = r0 then mx - n0 else mx)"
proof (induction L arbitrary: p)
  case Nil
  then show ?case by simp
next
  case (Cons x L)
  obtain t n r where x: "x = (t, n, r)" by (cases x)
  have IH: "length (filter (\<lambda>(t, n, r). r = R \<and> n \<le> mx) L) \<le> (if R < r then 0 else if R = r then mx - n else mx)"
    using Cons.IH [of "Some (n, r)"] Cons.prems by (simp add: x)
  show ?case using Cons.prems IH by (auto simp: x split: option.splits prod.splits if_splits)
qed

lemma windows_spread:
  "windows w (Some (n0, r0)) L \<Longrightarrow> 0 < w \<Longrightarrow> (t, n, r) \<in> set L \<Longrightarrow> r = r0 \<or> r0 + w \<le> r"
proof (induction L arbitrary: n0 r0)
  case (Cons x L)
  obtain t1 n1 r1 where x: "x = (t1, n1, r1)" by (cases x)
  then have r1: "r1 = r0 \<or> r0 + w \<le> r1" "windows w (Some (n1, r1)) L" using Cons.prems by (auto split: if_splits)
  show ?case
  proof (cases "(t, n, r) = x")
    case True
    then show ?thesis using r1 x by simp
  next
    case False
    then have "r = r1 \<or> r1 + w \<le> r" using Cons.IH [OF r1(2) Cons.prems(2)] Cons.prems(3) by auto
    then show ?thesis using r1(1) Cons.prems(2) by auto
  qed
qed simp

text \<open>Two windows of one key are the same or at least a window's length apart.\<close>

lemma windows_apart:
  "windows w p L \<Longrightarrow> 0 < w \<Longrightarrow> (t1, n1, r1) \<in> set L \<Longrightarrow> (t2, n2, r2) \<in> set L \<Longrightarrow> r1 = r2 \<or> r1 + w \<le> r2 \<or> r2 + w \<le> r1"
proof (induction L arbitrary: p)
  case (Cons x L)
  obtain t n r where x: "x = (t, n, r)" by (cases x)
  then have L: "windows w (Some (n, r)) L" using Cons.prems(1) by simp
  from Cons.prems(3,4) consider "(t1, n1, r1) \<in> set L" "(t2, n2, r2) \<in> set L"
    | "r1 = r" "(t2, n2, r2) \<in> set L" | "r2 = r" "(t1, n1, r1) \<in> set L" | "r1 = r" "r2 = r"
    by (auto simp: x)
  then show ?case
  proof cases
    case 1
    then show ?thesis using Cons.IH [OF L Cons.prems(2)] by blast
  next
    case 2
    then show ?thesis using windows_spread [OF L Cons.prems(2)] by blast
  next
    case 3
    then show ?thesis using windows_spread [OF L Cons.prems(2)] by blast
  qed simp
qed simp

text \<open>A window is open when it is counted in, and was opened at most its length before.\<close>

lemma windows_now:
  "windows w p L \<Longrightarrow> 0 < w \<Longrightarrow> sorted (map fst L) \<Longrightarrow> (\<forall>t \<in> fst ` set L. case p of None \<Rightarrow> True | Some (_, r0) \<Rightarrow> r0 \<le> t + w) \<Longrightarrow>
   (t, n, r) \<in> set L \<Longrightarrow> t < r \<and> r \<le> t + w"
proof (induction L arbitrary: p)
  case (Cons x L)
  obtain t1 n1 r1 where x: "x = (t1, n1, r1)" by (cases x)
  have r1: "t1 < r1" "r1 \<le> t1 + w" using Cons.prems(1,2,4) by (auto simp: x split: option.splits if_splits)
  show ?case
  proof (cases "(t, n, r) = x")
    case True
    then show ?thesis using r1 x by simp
  next
    case False
    then have m: "(t, n, r) \<in> set L" using Cons.prems(5) by simp
    have "\<forall>u \<in> fst ` set L. t1 \<le> u" using Cons.prems(3) by (simp add: x)
    then have "\<forall>u \<in> fst ` set L. r1 \<le> u + w" using r1(2) by force
    then show ?thesis using Cons.IH [of "Some (n1, r1)"] Cons.prems(1,2,3) m by (simp add: x)
  qed
qed simp

lemma length_filter_split:
  "(\<And>x. x \<in> set xs \<Longrightarrow> P x \<Longrightarrow> Q x \<or> R x) \<Longrightarrow> length (filter P xs) \<le> length (filter Q xs) + length (filter R xs)"
proof (induction xs)
  case (Cons x xs)
  then have "length (filter P xs) \<le> length (filter Q xs) + length (filter R xs)" by simp
  moreover have "P x \<Longrightarrow> Q x \<or> R x" using Cons.prems by simp
  ultimately show ?case by (simp only: filter.simps split: if_splits) auto
qed simp

text \<open>In any interval as long as the window: at most twice the limit.\<close>

lemma windows_interval:
  assumes "windows w None L" and "0 < w" and "sorted (map fst L)"
  shows "length (filter (\<lambda>(t, n, r). a \<le> t \<and> t < a + w \<and> n \<le> mx) L) \<le> 2 * mx"
proof -
  let ?I = "filter (\<lambda>(t, n, r). a \<le> t \<and> t < a + w) L"
  have now: "t < r \<and> r \<le> t + w" if "(t, n, r) \<in> set L" for t n r
    using windows_now [OF assms(1,2,3) _ that] by simp
  obtain x y where xy: "\<And>t n r. (t, n, r) \<in> set ?I \<Longrightarrow> r = x \<or> r = y"
  proof (cases "\<exists>e \<in> set ?I. \<exists>f \<in> set ?I. snd (snd e) \<noteq> snd (snd f)")
    case False
    have "r = snd (snd (hd ?I))" if m: "(t, n, r) \<in> set ?I" for t n r
    proof -
      have "hd ?I \<in> set ?I" using m by (intro hd_in_set) (metis empty_iff list.set(1))
      with False m have "snd (snd (t, n, r)) = snd (snd (hd ?I))" by blast
      then show ?thesis by simp
    qed
    then show ?thesis using that by blast
  next
    case True
    then obtain t1 n1 x t2 n2 y where e: "(t1, n1, x) \<in> set ?I" "(t2, n2, y) \<in> set ?I" "x \<noteq> y" by force
    have "r = x \<or> r = y" if r: "(t, n, r) \<in> set ?I" for t n r
    proof (rule ccontr)
      assume "\<not> (r = x \<or> r = y)"
      moreover have m: "(t1, n1, x) \<in> set L" "(t2, n2, y) \<in> set L" "(t, n, r) \<in> set L" using e r by simp_all
      note windows_apart [OF assms(1,2) m(1,2)] windows_apart [OF assms(1,2) m(3,1)] windows_apart [OF assms(1,2) m(3,2)]
      moreover have "a < x" "x < a + 2 * w" "a < y" "y < a + 2 * w" "a < r" "r < a + 2 * w"
        using e r now [of t1 n1 x] now [of t2 n2 y] now [of t n r] by auto
      ultimately show False using e(3) by linarith
    qed
    then show ?thesis using that by blast
  qed
  have "length (filter (\<lambda>(t, n, r). a \<le> t \<and> t < a + w \<and> n \<le> mx) L)
      \<le> length (filter (\<lambda>(t, n, r). r = x \<and> n \<le> mx) L) + length (filter (\<lambda>(t, n, r). r = y \<and> n \<le> mx) L)"
    using xy by (intro length_filter_split) auto
  also have "\<dots> \<le> 2 * mx" using windows_bound [OF assms(1,2), of x mx] windows_bound [OF assms(1,2), of y mx] by simp
  finally show ?thesis .
qed

text \<open>A count above \<open>m\<close> comes after the counts from 1 to \<open>m\<close> in its window.\<close>

lemma windows_counts:
  "windows w p (xs @ (t, n, r) # ys) \<Longrightarrow> 0 < w \<Longrightarrow> m < n \<Longrightarrow>
   (case p of Some (n0, r0) \<Rightarrow> if r0 = r then n0 else 0 | None \<Rightarrow> 0) < m \<Longrightarrow> \<exists>t'. (t', m, r) \<in> set xs"
proof (induction xs arbitrary: p)
  case Nil
  then show ?case by (auto split: option.splits if_splits)
next
  case (Cons x xs)
  obtain t1 n1 r1 where x: "x = (t1, n1, r1)" by (cases x)
  have w: "windows w (Some (n1, r1)) (xs @ (t, n, r) # ys)" using Cons.prems(1) by (simp add: x)
  show ?case
  proof (cases "r1 = r \<and> m \<le> n1")
    case True
    then have "m = n1" using Cons.prems by (auto simp: x split: option.splits if_splits)
    then show ?thesis using True x by auto
  next
    case False
    then have "(if r1 = r then n1 else 0) < m" using Cons.prems(4) by (auto split: if_splits)
    then show ?thesis using Cons.IH [OF w Cons.prems(2,3)] by auto
  qed
qed

lemma windows_refused:
  assumes "windows w None (xs @ (t, n, r) # ys)" and "0 < w" and "sorted (map fst (xs @ (t, n, r) # ys))" and "m < n"
  shows "m \<le> length (filter (\<lambda>(u, c, _). t - w + 1 \<le> u \<and> u < t + 1 \<and> c \<le> m) xs)"
proof -
  let ?F = "filter (\<lambda>(u, c, _). t - w + 1 \<le> u \<and> u < t + 1 \<and> c \<le> m) xs"
  have tr: "t < r" using windows_now [OF assms(1-3), of t n r] by simp
  have "c \<in> (\<lambda>(u, c, _). c) ` set ?F" if c: "c \<in> {1..m}" for c
  proof -
    obtain u where u: "(u, c, r) \<in> set xs"
      using windows_counts [OF assms(1,2), of c] c assms(4) by auto
    then have "r \<le> u + w" using windows_now [OF assms(1-3), of u c r] by simp
    moreover have "u \<le> t" using u assms(3) by (auto simp: sorted_append)
    ultimately have "(u, c, r) \<in> set ?F" using u c tr by auto
    then show ?thesis by force
  qed
  then have "{1..m} \<subseteq> (\<lambda>(u, c, _). c) ` set ?F" by blast
  then have "card {1..m} \<le> card ((\<lambda>(u, c, _). c) ` set ?F)" by (intro card_mono) auto
  also have "\<dots> \<le> card (set ?F)" by (rule card_image_le) simp
  also have "\<dots> \<le> length ?F" by (rule card_length)
  finally show ?thesis by simp
qed

section \<open>The interface\<close>

locale rate_store =
  fixes inc :: "time \<Rightarrow> string \<Rightarrow> int \<Rightarrow> 's \<Rightarrow> (nat \<times> time) \<times> 's"
    and counter :: "'s \<Rightarrow> string \<Rightarrow> (nat \<times> time) option"
    and fits :: "string set \<Rightarrow> 's \<Rightarrow> bool"
  assumes inc_result: "fst (inc now k w s) = (case counter s k of
        Some (n, r) \<Rightarrow> if now < r then (Suc n, r) else (1, now + w) | None \<Rightarrow> (1, now + w))"
    and inc_counter: "counter (snd (inc now k w s)) k = Some (fst (inc now k w s))"
    and inc_other: "fits K s \<Longrightarrow> k \<in> K \<Longrightarrow> j \<noteq> k \<Longrightarrow> counter (snd (inc now k w s)) j = counter s j"
    and inc_fits: "fits K s \<Longrightarrow> k \<in> K \<Longrightarrow> fits K (snd (inc now k w s))"
begin

lemma trace_windows:
  "fits K s \<Longrightarrow> snd ` set tr \<subseteq> K \<Longrightarrow> windows w (counter s k) (of_key k (inc_trace inc w tr s))"
proof (induction tr arbitrary: s)
  case Nil
  then show ?case by (simp add: of_key_def)
next
  case (Cons x tr)
  obtain now j where x: "x = (now, j)" by (cases x)
  obtain n r s' where i: "inc now j w s = ((n, r), s')" by (metis prod.collapse)
  have j: "j \<in> K" "snd ` set tr \<subseteq> K" using Cons.prems(2) by (auto simp: x)
  have s': "fits K s'" using inc_fits [OF Cons.prems(1) j(1), of now w] by (simp add: i)
  have IH: "windows w (counter s' k) (of_key k (inc_trace inc w tr s'))" by (rule Cons.IH [OF s' j(2)])
  show ?case
  proof (cases "j = k")
    case True
    then have ik: "inc now k w s = ((n, r), s')" using i by simp
    then have "counter s' k = Some (n, r)" using inc_counter [of now k w s] by simp
    then show ?thesis using IH inc_result [of now k w s] True
      by (auto simp: x ik of_key_def split: option.splits if_splits)
  next
    case False
    then have "counter s' k = counter s k" using inc_other [OF Cons.prems(1) j(1), of k now w] by (simp add: i)
    then show ?thesis using IH False by (simp add: x i of_key_def)
  qed
qed

end

end
