(* ===== verification/Rate_Props.thy ===== *)
theory Rate_Props
  imports Rate_Limit Rate_Interface
begin

text \<open>
  The rate limiter is correct: the in-memory store implements the interface, so the bound on
  the admitted requests holds of the plugin's hook; a client cannot choose its own key through
  \<open>X-Forwarded-For\<close>; and the store stays within its cap.
\<close>

section \<open>The in-memory store implements the interface\<close>

definition mem_counter :: "mem_store \<Rightarrow> string \<Rightarrow> (nat \<times> time) option" where
  "mem_counter s k = map_option (\<lambda>e. (hits e, resetAt e)) (map_of (entries s) k)"

definition mem_fits :: "string set \<Rightarrow> mem_store \<Rightarrow> bool" where
  "mem_fits K s \<longleftrightarrow> finite K \<and> card K \<le> maxKeys s \<and> set (keys_of (entries s)) \<subseteq> K \<and> distinct (keys_of (entries s))"

lemma increment_hit:
  "map_of (entries s) k = Some e \<Longrightarrow> now < resetAt e \<Longrightarrow>
   increment now k w s = ((Suc (hits e), resetAt e), s\<lparr>entries := AList.update k (e\<lparr>hits := Suc (hits e)\<rparr>) (entries s)\<rparr>)"
  by (simp add: increment_def Let_def)

lemma increment_expired:
  "map_of (entries s) k = Some e \<Longrightarrow> \<not> now < resetAt e \<Longrightarrow>
   increment now k w s = ((1, now + w), s\<lparr>entries := AList.update k \<lparr>hits = 1, resetAt = now + w\<rparr> (AList.delete k (entries s))\<rparr>)"
  by (simp add: increment_def Let_def)

lemma increment_new:
  "map_of (entries s) k = None \<Longrightarrow> length (entries s) < maxKeys s \<Longrightarrow>
   increment now k w s = ((1, now + w), s\<lparr>entries := AList.update k \<lparr>hits = 1, resetAt = now + w\<rparr> (AList.delete k (entries s))\<rparr>)"
  by (simp add: increment_def Let_def)

lemma fits_room:
  assumes "mem_fits K s" and "k \<in> K" and "map_of (entries s) k = None"
  shows "length (entries s) < maxKeys s"
proof -
  have "k \<notin> set (keys_of (entries s))" using assms(3) by (simp add: map_of_None_keys)
  then have "set (keys_of (entries s)) \<subset> K" using assms by (auto simp: mem_fits_def)
  then have "card (set (keys_of (entries s))) < card K" using assms(1) by (intro psubset_card_mono) (auto simp: mem_fits_def)
  moreover have "card (set (keys_of (entries s))) = length (keys_of (entries s))"
    using assms(1) by (intro distinct_card) (simp add: mem_fits_def)
  ultimately show ?thesis using assms(1) by (simp add: mem_fits_def)
qed

text \<open>What a call of \<open>increment\<close> that evicts nothing does to the map.\<close>

lemma increment_fits:
  assumes "mem_fits K s" and "k \<in> K"
  obtains e s' where "increment now k w s = ((hits e, resetAt e), s')" "map_of (entries s') = (map_of (entries s))(k \<mapsto> e)"
    "maxKeys s' = maxKeys s" "distinct (keys_of (entries s'))" "set (keys_of (entries s')) \<subseteq> K"
proof -
  have d: "distinct (keys_of (entries s))" "set (keys_of (entries s)) \<subseteq> K" using assms(1) by (auto simp: mem_fits_def)
  show ?thesis
  proof (cases "\<exists>e. map_of (entries s) k = Some e \<and> now < resetAt e")
    case True
    then obtain e where e: "map_of (entries s) k = Some e" "now < resetAt e" by blast
    show ?thesis
      by (rule that [of "e\<lparr>hits := Suc (hits e)\<rparr>" "s\<lparr>entries := AList.update k (e\<lparr>hits := Suc (hits e)\<rparr>) (entries s)\<rparr>"])
        (use e d assms(2) in \<open>auto simp: increment_hit map_simps distinct_update dom_update dest: map_of_Some_key\<close>)
  next
    case False
    then have "increment now k w s = ((1, now + w), s\<lparr>entries := AList.update k \<lparr>hits = 1, resetAt = now + w\<rparr> (AList.delete k (entries s))\<rparr>)"
      using fits_room [OF assms] increment_new increment_expired by (cases "map_of (entries s) k") auto
    then show ?thesis
      by (intro that [of "\<lparr>hits = 1, resetAt = now + w\<rparr>"
            "s\<lparr>entries := AList.update k \<lparr>hits = 1, resetAt = now + w\<rparr> (AList.delete k (entries s))\<rparr>"])
        (use d assms(2) in \<open>simp_all add: map_of_reinsert distinct_reinsert keys_reinsert del: set_map\<close>)
  qed
qed

lemma increment_result:
  "fst (increment now k w s) = (case mem_counter s k of
     Some (n, r) \<Rightarrow> if now < r then (Suc n, r) else (1, now + w) | None \<Rightarrow> (1, now + w))"
  by (auto simp: increment_def mem_counter_def Let_def split: option.splits)

lemma increment_counter: "mem_counter (snd (increment now k w s)) k = Some (fst (increment now k w s))"
  by (auto simp: increment_def mem_counter_def Let_def map_of_update split: option.splits)

interpretation memory_rate: rate_store increment mem_counter mem_fits
proof
  fix now k w and s :: mem_store
  show "fst (increment now k w s) = (case mem_counter s k of
     Some (n, r) \<Rightarrow> if now < r then (Suc n, r) else (1, now + w) | None \<Rightarrow> (1, now + w))" by (rule increment_result)
  show "mem_counter (snd (increment now k w s)) k = Some (fst (increment now k w s))" by (rule increment_counter)
next
  fix K k j now w and s :: mem_store
  assume "mem_fits K s" and "k \<in> K" and "j \<noteq> k"
  then show "mem_counter (snd (increment now k w s)) j = mem_counter s j"
    by (elim increment_fits [where now = now and w = w]) (auto simp: mem_counter_def)
next
  fix K k now w and s :: mem_store
  assume f: "mem_fits K s" and k: "k \<in> K"
  obtain e s' where "increment now k w s = ((hits e, resetAt e), s')" "map_of (entries s') = (map_of (entries s))(k \<mapsto> e)"
      "maxKeys s' = maxKeys s" "distinct (keys_of (entries s'))" "set (keys_of (entries s')) \<subseteq> K"
    by (rule increment_fits [OF f k, of now w])
  then show "mem_fits K (snd (increment now k w s))" using f by (simp only: mem_fits_def snd_conv)
qed

section \<open>The hook enforces the limit\<close>

text \<open>A run of the hook: the clock readings and the requests, and for each the key and whether
  the request was let through.\<close>

fun hook_trace :: "(time \<Rightarrow> string \<Rightarrow> int \<Rightarrow> 's \<Rightarrow> (nat \<times> time) \<times> 's) \<Rightarrow> limiter \<Rightarrow> (time \<times> time \<times> rl_request) list \<Rightarrow> 's \<Rightarrow>
    (time \<times> string \<times> bool) list" where
  "hook_trace inc cfg [] s = []"
| "hook_trace inc cfg ((now, later, req) # tr) s =
     (case rateLimitHook inc cfg now later req s of
        (out, s') \<Rightarrow> (now, stored_key cfg req, tooMany out = None) # hook_trace inc cfg tr s')"

definition admitted :: "string \<Rightarrow> time \<Rightarrow> time \<Rightarrow> (time \<times> string \<times> bool) list \<Rightarrow> nat" where
  "admitted k a b out = length (filter (\<lambda>(t, j, ok). j = k \<and> ok \<and> a \<le> t \<and> t < b) out)"

definition rl_calls :: "limiter \<Rightarrow> (time \<times> time \<times> rl_request) list \<Rightarrow> (time \<times> string) list" where
  "rl_calls cfg tr = map (\<lambda>(now, _, req). (now, stored_key cfg req)) tr"

lemma hook_trace_inc:
  "hook_trace inc cfg tr s = map (\<lambda>(t, k, n, r). (t, k, int n \<le> lmax cfg)) (inc_trace inc (lwindow cfg) (rl_calls cfg tr) s)"
proof (induction tr arbitrary: s)
  case (Cons x tr)
  obtain now later req where x: "x = (now, later, req)" by (cases x)
  obtain n r s' where i: "inc now (stored_key cfg req) (lwindow cfg) s = ((n, r), s')" by (metis prod.collapse)
  show ?case using Cons by (simp add: x i rl_calls_def rateLimitHook_def Let_def not_less)
qed (simp add: rl_calls_def)

lemma admitted_of_key:
  "0 \<le> lmax cfg \<Longrightarrow> admitted k a b (map (\<lambda>(t, k, n, r). (t, k, int n \<le> lmax cfg)) out) =
    length (filter (\<lambda>(t, n, r). a \<le> t \<and> t < b \<and> n \<le> nat (lmax cfg)) (of_key k out))"
  by (induction out) (auto simp: admitted_def of_key_def le_nat_iff)

lemma sorted_of_key: "sorted (map fst out) \<Longrightarrow> sorted (map fst (of_key k out))"
proof (induction out)
  case (Cons x out)
  then show ?case by (cases x) (auto simp: of_key_def)
qed (simp add: of_key_def)

lemma inc_trace_times: "map fst (inc_trace inc w tr s) = map fst tr"
proof (induction tr arbitrary: s)
  case (Cons x tr)
  then show ?case by (cases x) (simp add: case_prod_beta)
qed simp

text \<open>What the constructor establishes.\<close>

lemma rateLimit_ok:
  assumes "rateLimit opts = Inr (cfg, s)"
  shows "0 < lmax cfg" "0 < lwindow cfg" "1 \<le> lmaxKeyLength cfg" "entries s = []" "1 \<le> maxKeys s" "\<not> capWarned s" "capCalls s = []"
  using assms
  by (auto simp: rateLimit_def assertPositiveNumber_def positiveInteger_def newMemStore_def number_value_def
      split: option.splits sum.splits js_number.splits if_splits)

lemma fits_start: "finite K \<Longrightarrow> card K \<le> maxKeys s \<Longrightarrow> entries s = [] \<Longrightarrow> mem_fits K s"
  by (simp add: mem_fits_def)

lemma hook_windows:
  assumes "rateLimit opts = Inr (cfg, s)" and "card ((\<lambda>(_, _, req). stored_key cfg req) ` set tr) \<le> maxKeys s"
  shows "windows (lwindow cfg) None (of_key k (inc_trace increment (lwindow cfg) (rl_calls cfg tr) s))"
proof -
  let ?K = "(\<lambda>(_, _, req). stored_key cfg req) ` set tr"
  have "mem_fits ?K s" using assms(2) rateLimit_ok(4) [OF assms(1)] by (intro fits_start) auto
  moreover have "snd ` set (rl_calls cfg tr) \<subseteq> ?K" by (force simp: rl_calls_def)
  ultimately have "windows (lwindow cfg) (mem_counter s k) (of_key k (inc_trace increment (lwindow cfg) (rl_calls cfg tr) s))"
    by (rule memory_rate.trace_windows)
  then show ?thesis using rateLimit_ok(4) [OF assms(1)] by (simp add: mem_counter_def)
qed

lemma rl_times: "map fst (rl_calls cfg tr) = map fst tr"
  by (simp add: rl_calls_def case_prod_beta)

text \<open>
  C16.
  The limit holds: while the keys in use fit in the store and the clock does not go back, no interval as long as
  the window lets through more than twice \<open>max\<close> requests of one key, whatever the requests are. Beyond
  \<open>maxKeys\<close> an eviction resets a counter. (A fixed window resets at once, so twice \<open>max\<close> is what it documents.)
\<close>

theorem rate_limit_enforced:
  assumes "rateLimit opts = Inr (cfg, s)" and "sorted (map fst tr)"
    and "card ((\<lambda>(_, _, req). stored_key cfg req) ` set tr) \<le> maxKeys s"
  shows "int (admitted k a (a + lwindow cfg) (hook_trace increment cfg tr s)) \<le> 2 * lmax cfg"
proof -
  let ?out = "inc_trace increment (lwindow cfg) (rl_calls cfg tr) s"
  have "sorted (map fst (of_key k ?out))"
    using assms(2) by (intro sorted_of_key) (simp only: inc_trace_times rl_times)
  then have "length (filter (\<lambda>(t, n, r). a \<le> t \<and> t < a + lwindow cfg \<and> n \<le> nat (lmax cfg)) (of_key k ?out)) \<le> 2 * nat (lmax cfg)"
    by (intro windows_interval hook_windows [OF assms(1,3)] rateLimit_ok(2) [OF assms(1)])
  then have "admitted k a (a + lwindow cfg) (hook_trace increment cfg tr s) \<le> 2 * nat (lmax cfg)"
    using rateLimit_ok(1) [OF assms(1)] by (simp add: hook_trace_inc admitted_of_key)
  then show ?thesis using rateLimit_ok(1) [OF assms(1)] by linarith
qed

definition demo_limiter :: rl_options where
  "demo_limiter = \<lparr>optMax = Finite 1, optWindow = Finite 1000, optKeyGenerator = Some (\<lambda>req. case xRealIp req of None \<Rightarrow> ''k'' | Some a \<Rightarrow> a),
     optTrustedProxies = None, optTrustProxy = False, optTrustedProxyHops = None, optTrustXRealIp = False,
     optMaxKeys = None, optMaxKeyLength = None\<rparr>"

definition demo_request :: "string option \<Rightarrow> rl_request" where
  "demo_request a = \<lparr>xForwardedFor = None, xRealIp = a, peer = None\<rparr>"

definition demo_calls :: "(time \<times> time \<times> rl_request) list" where
  "demo_calls = [(0, 0, demo_request None), (10, 10, demo_request (Some ''j'')), (20, 20, demo_request None), (1000, 1000, demo_request None)]"

definition demo_limiter_state :: "limiter \<times> mem_store" where
  "demo_limiter_state =
     (\<lparr>lmax = 1, lwindow = 1000, lkeyGenerator = (\<lambda>req. case xRealIp req of None \<Rightarrow> ''k'' | Some a \<Rightarrow> a), lmaxKeyLength = 256\<rparr>,
      \<lparr>entries = [], maxKeys = 100000, capWarned = False, capCalls = []\<rparr>)"

lemma demo_facts:
  "rateLimit demo_limiter = Inr demo_limiter_state"
  "sorted (map fst demo_calls)"
  "card ((\<lambda>(_, _, req). stored_key (fst demo_limiter_state) req) ` set demo_calls) \<le> maxKeys (snd demo_limiter_state)"
  "hook_trace increment (fst demo_limiter_state) demo_calls (snd demo_limiter_state) =
     [(0, ''k'', True), (10, ''j'', True), (20, ''k'', False), (1000, ''k'', True)]"
proof -
  show "rateLimit demo_limiter = Inr demo_limiter_state"
    by (simp add: rateLimit_def demo_limiter_def assertPositiveNumber_def parseTrustedProxies_def positiveInteger_def
        newMemStore_def number_value_def demo_limiter_state_def)
  show "sorted (map fst demo_calls)" by (simp add: demo_calls_def)
  show "card ((\<lambda>(_, _, req). stored_key (fst demo_limiter_state) req) ` set demo_calls) \<le> maxKeys (snd demo_limiter_state)"
  proof -
    have "card ((\<lambda>(_, _, req). stored_key (fst demo_limiter_state) req) ` set demo_calls) \<le> length demo_calls"
      by (metis card_image_le card_length finite_set le_trans)
    also have "\<dots> \<le> maxKeys (snd demo_limiter_state)" by (simp add: demo_calls_def demo_limiter_state_def)
    finally show ?thesis .
  qed
  show "hook_trace increment (fst demo_limiter_state) demo_calls (snd demo_limiter_state) =
     [(0, ''k'', True), (10, ''j'', True), (20, ''k'', False), (1000, ''k'', True)]"
    by (simp add: hook_trace_inc rl_calls_def demo_limiter_state_def demo_calls_def demo_request_def stored_key_def increment_def Let_def)
qed

theorem rate_limit_enforced_witness:
  "int (admitted ''k'' 0 1000 (hook_trace increment (fst demo_limiter_state) demo_calls (snd demo_limiter_state))) \<le> 2"
  using rate_limit_enforced [of demo_limiter "fst demo_limiter_state" "snd demo_limiter_state" demo_calls "''k''" 0] demo_facts
  by (simp add: demo_limiter_state_def)

text \<open>
  Nobody is refused early: a request is answered with 429 only when \<open>max\<close> requests of its own
  key were let through within the last \<open>window\<close> milliseconds. Other clients never cost a
  request, as long as the keys in use fit in the store.
\<close>

theorem refused_only_over_limit:
  assumes "rateLimit opts = Inr (cfg, s)" and "sorted (map fst tr)"
    and "card ((\<lambda>(_, _, req). stored_key cfg req) ` set tr) \<le> maxKeys s"
    and "hook_trace increment cfg tr s = xs @ (t, k, False) # ys"
  shows "lmax cfg \<le> int (admitted k (t - lwindow cfg + 1) (t + 1) xs)"
proof -
  let ?f = "\<lambda>(t, k, n, r). (t, k, int n \<le> lmax cfg)"
  let ?out = "inc_trace increment (lwindow cfg) (rl_calls cfg tr) s"
  have "map ?f ?out = xs @ (t, k, False) # ys" using assms(4) by (simp add: hook_trace_inc)
  then obtain us v vs where o: "?out = us @ v # vs" "map ?f us = xs" "?f v = (t, k, False)"
    by (auto simp: map_eq_append_conv map_eq_Cons_conv)
  then obtain n r where v: "v = (t, k, n, r)" "lmax cfg < int n" by (cases v) auto
  have k: "of_key k ?out = of_key k us @ (t, n, r) # of_key k vs" by (simp add: o v of_key_def)
  have "sorted (map fst (of_key k ?out))"
    using assms(2) by (intro sorted_of_key) (simp only: inc_trace_times rl_times)
  then have "nat (lmax cfg) \<le> length (filter (\<lambda>(u, c, _). t - lwindow cfg + 1 \<le> u \<and> u < t + 1 \<and> c \<le> nat (lmax cfg)) (of_key k us))"
    using hook_windows [OF assms(1,3), of k] rateLimit_ok(1,2) [OF assms(1)] v(2) unfolding k by (intro windows_refused) auto
  also have "\<dots> = admitted k (t - lwindow cfg + 1) (t + 1) xs"
    using rateLimit_ok(1) [OF assms(1)] by (simp add: o(2) [symmetric] admitted_of_key)
  finally show ?thesis by linarith
qed

theorem refused_only_over_limit_witness:
  "lmax (fst demo_limiter_state) \<le> int (admitted ''k'' (20 - 1000 + 1) (20 + 1) [(0, ''k'', True), (10, ''j'', True)])"
  using refused_only_over_limit [of demo_limiter "fst demo_limiter_state" "snd demo_limiter_state" demo_calls
      "[(0, ''k'', True), (10, ''j'', True)]" 20 "''k''" "[(1000, ''k'', True)]"] demo_facts
  by (simp add: demo_limiter_state_def)

section \<open>A client cannot choose its key\<close>

text \<open>What a chain of proxies does to the header it receives: each appends one address.\<close>

definition append_hops :: "string \<Rightarrow> string list \<Rightarrow> string" where
  "append_hops header addrs = fold (\<lambda>a h. h @ '', '' @ a) addrs header"

definition clean_entry :: "string \<Rightarrow> bool" where
  "clean_entry a = (a \<noteq> [] \<and> CHR '','' \<notin> set a \<and> trim a = a)"

lemma trim_blank: "clean_entry a \<Longrightarrow> trim (CHR '' '' # a) = a"
  by (simp add: trim_def clean_entry_def is_ws_def)

lemma split_forwarded_append: "clean_entry a \<Longrightarrow> splitForwardedFor (h @ '', '' @ a) = splitForwardedFor h @ [a]"
proof -
  assume a: "clean_entry a"
  then have "CHR '','' \<notin> set (CHR '' '' # a)" by (simp add: clean_entry_def)
  then have "split_on CHR '','' (h @ CHR '','' # CHR '' '' # a) = split_on CHR '','' h @ [CHR '' '' # a]"
    unfolding split_append by (simp add: split_no_sep)
  then show ?thesis using trim_blank [OF a] a by (simp add: splitForwardedFor_def clean_entry_def)
qed

lemma split_append_hops:
  "list_all clean_entry addrs \<Longrightarrow> splitForwardedFor (append_hops h addrs) = splitForwardedFor h @ addrs"
proof (induction addrs arbitrary: h)
  case (Cons a addrs)
  then show ?case using split_forwarded_append [of a h] by (simp add: append_hops_def)
qed (simp add: append_hops_def)

lemma append_hops_Nil: "addrs \<noteq> [] \<Longrightarrow> append_hops h addrs \<noteq> []"
  by (cases addrs rule: rev_cases) (simp_all add: append_hops_def)

lemma first_untrusted_skip:
  "list_all (\<lambda>p. isTrustedProxy p T) ps \<Longrightarrow> first_untrusted T (ps @ cs) = first_untrusted T cs"
  by (induction ps) simp_all

lemma canonical_not_Nil: "canonicalizeIp a = Some k \<Longrightarrow> k \<noteq> []"
proof -
  assume "canonicalizeIp a = Some k"
  then obtain i where i: "valid_ip i" "k = formatIp i" by (auto simp: canonicalizeIp_def dest: parse_valid)
  show "k \<noteq> []"
  proof (cases i)
    case (IPv6 gs)
    then obtain g h hs where "gs = g # h # hs" using i(1) by (cases gs; cases "tl gs") (auto simp: valid_ip_def)
    then show ?thesis using i(2) IPv6 by (simp add: formatIp_def)
  qed (use i(2) in \<open>simp add: formatIp_def\<close>)
qed

text \<open>
  C11.
  \<open>X-Forwarded-For\<close> cannot be spoofed: whatever header, \<open>X-Real-IP\<close> and peer address a client
  sends, once its own address and those of the declared proxies have been appended, its key is the canonical form of
  its own address. This holds of the trusted-proxies mode and of the hop-count mode.
\<close>

theorem forwarded_for_unspoofable:
  assumes "canonicalizeIp client = Some key" and "list_all clean_entry (client # proxies)"
    and "\<not> isTrustedProxy client T" and "list_all (\<lambda>p. isTrustedProxy p T) proxies"
  shows "defaultKey (Some T) hops realIp \<lparr>xForwardedFor = Some (append_hops evil (client # proxies)), xRealIp = x, peer = p\<rparr> = key
    \<and> defaultKey None (Suc (length proxies)) realIp
           \<lparr>xForwardedFor = Some (append_hops evil (client # proxies)), xRealIp = x, peer = p\<rparr> = key"
proof -
  have "append_hops evil (client # proxies) \<noteq> []" by (rule append_hops_Nil) simp
  moreover note split_append_hops [OF assms(2), of evil] canonical_not_Nil [OF assms(1)]
  ultimately show ?thesis
    using assms(1,3,4)
    by (simp add: defaultKey_def clientIpFromTrustedProxies_def clientIpFromHopCount_def truthy_def Let_def
        first_untrusted_skip nth_append)
qed

definition demo_proxies :: "cidr list" where
  "demo_proxies = [\<lparr>cip = IPv4 0x0a000000, prefix = 8\<rparr>]"

lemma clean_v4: "clean_entry (formatIp (IPv4 v))"
proof -
  let ?s = "formatIp (IPv4 v)"
  have c: "is_digit x \<or> x = CHR ''.''" if "x \<in> set ?s" for x
    using join_set [of x "''.''" "map show_nat (octets v)"] that
    by (auto simp: formatIp_def octets_def dest: show_nat_digits)
  have "\<not> is_ws CHR ''.''" by (simp add: is_ws_def)
  then have "\<forall>x \<in> set ?s. \<not> is_ws x" using c digit_not by metis
  then have "trim ?s = ?s" by (rule trim_no_ws)
  moreover have "CHR '','' \<notin> set ?s" using c [of "CHR '',''"] by (auto simp: is_digit_def)
  moreover have "?s \<noteq> []" by (simp add: formatIp_def)
  ultimately show ?thesis by (simp add: clean_entry_def)
qed

theorem forwarded_for_unspoofable_witness:
  "defaultKey (Some demo_proxies) 1 False
     \<lparr>xForwardedFor = Some (append_hops ''6.6.6.6, 10.9.9.9'' [formatIp (IPv4 0xcb007107), formatIp (IPv4 0x0a000001)]),
      xRealIp = Some ''6.6.6.6'', peer = None\<rparr> = formatIp (IPv4 0xcb007107)"
proof -
  let ?c = "formatIp (IPv4 0xcb007107)" and ?p = "formatIp (IPv4 0x0a000001)"
  have "canonicalizeIp ?c = Some ?c" by (simp add: canonicalizeIp_def format_v4_parse)
  moreover have "list_all clean_entry [?c, ?p]" by (simp add: clean_v4)
  moreover have "\<not> isTrustedProxy ?c demo_proxies" "list_all (\<lambda>p. isTrustedProxy p demo_proxies) [?p]"
    by (simp_all add: isTrustedProxy_def format_v4_parse demo_proxies_def ipInCidr_def ipv4InCidr_def)
  ultimately show ?thesis using forwarded_for_unspoofable [of ?c ?c "[?p]" demo_proxies] by blast
qed

section \<open>The store is bounded\<close>

datatype store_op = Inc time string int | Clean time

fun do_store_call :: "store_op \<Rightarrow> mem_store \<Rightarrow> mem_store" where
  "do_store_call (Inc now k w) s = snd (increment now k w s)"
| "do_store_call (Clean now) s = rl_cleanup now s"

definition mem_ok :: "mem_store \<Rightarrow> bool" where
  "mem_ok s \<longleftrightarrow> distinct (keys_of (entries s)) \<and> length (entries s) \<le> maxKeys s \<and> 1 \<le> maxKeys s
     \<and> (capWarned s \<longleftrightarrow> capCalls s \<noteq> []) \<and> length (capCalls s) \<le> 1"

lemma evict_scan_some: "es \<noteq> [] \<or> w \<noteq> None \<Longrightarrow> evict_scan now es n w \<noteq> None"
  by (induction now es n w rule: evict_scan.induct) (auto simp: Let_def split: option.splits)

lemma evict_scan_key:
  "evict_scan now es n w = Some k \<Longrightarrow> k \<in> set (keys_of es) \<or> (\<exists>e. w = Some (k, e))"
proof (induction now es n w rule: evict_scan.induct)
  case (2 now k' e es n w)
  then show ?case by (auto simp: Let_def split: if_splits option.splits)
qed auto

lemma evictOne_room:
  assumes "distinct (keys_of (entries s))" and "entries s \<noteq> []"
  obtains k where "evict_scan now (entries s) 0 None = Some k" "evictOne now s = s\<lparr>entries := AList.delete k (entries s)\<rparr>"
    "Suc (length (entries (evictOne now s))) = length (entries s)"
proof -
  obtain k where k: "evict_scan now (entries s) 0 None = Some k"
    using evict_scan_some [of "entries s" None now 0] assms(2) by auto
  then have "k \<in> set (keys_of (entries s))" using evict_scan_key by fastforce
  then have "Suc (length (AList.delete k (entries s))) = length (entries s)" by (intro length_delete_present assms(1))
  then show ?thesis using that k by (simp add: evictOne_def)
qed

lemma length_update: "length (AList.update k v m) = (if k \<in> set (keys_of m) then length m else Suc (length m))"
  by (induction m) auto

lemma length_reinsert:
  assumes "distinct (keys_of m)"
  shows "length (AList.update k v (AList.delete k m)) = (if k \<in> set (keys_of m) then length m else Suc (length m))"
proof -
  have "k \<notin> set (keys_of (AList.delete k m))" by (simp only: keys_delete) simp
  then show ?thesis using length_delete_present [OF assms] by (simp add: length_update delete_absent del: set_map)
qed

lemma increment_ok:
  assumes "mem_ok s"
  shows "mem_ok (snd (increment now k w s)) \<and> maxKeys (snd (increment now k w s)) = maxKeys s"
proof -
  have d: "distinct (keys_of (entries s))" "length (entries s) \<le> maxKeys s" using assms by (auto simp: mem_ok_def)
  consider (hit) e where "map_of (entries s) k = Some e" "now < resetAt e"
    | (expired) e where "map_of (entries s) k = Some e" "\<not> now < resetAt e"
    | (room) "map_of (entries s) k = None" "length (entries s) < maxKeys s"
    | (full) "map_of (entries s) k = None" "length (entries s) = maxKeys s"
    using d(2) by (cases "map_of (entries s) k") (auto simp: le_less)
  then show ?thesis
  proof cases
    case hit
    then have "k \<in> set (keys_of (entries s))" by (simp add: map_of_Some_key del: set_map)
    then show ?thesis using assms hit by (simp add: increment_hit mem_ok_def distinct_update length_update del: set_map)
  next
    case expired
    then have "k \<in> set (keys_of (entries s))" by (simp add: map_of_Some_key del: set_map)
    then show ?thesis using assms expired
      by (simp add: increment_expired mem_ok_def distinct_reinsert length_reinsert del: set_map)
  next
    case room
    then have "k \<notin> set (keys_of (entries s))" by (simp add: map_of_None_keys del: set_map)
    then show ?thesis using assms room
      by (simp add: increment_new mem_ok_def distinct_reinsert length_reinsert del: set_map)
  next
    case full
    then have ne: "entries s \<noteq> []" using assms by (auto simp: mem_ok_def)
    obtain v where v: "evict_scan now (entries s) 0 None = Some v" "evictOne now s = s\<lparr>entries := AList.delete v (entries s)\<rparr>"
        "Suc (length (entries (evictOne now s))) = length (entries s)"
      by (rule evictOne_room [OF d(1) ne, of now])
    have "k \<notin> set (keys_of (entries s))" using full by (simp add: map_of_None_keys del: set_map)
    then have "k \<notin> set (keys_of (AList.delete v (entries s)))" by (simp only: keys_delete) simp
    moreover have "distinct (keys_of (AList.delete v (entries s)))" using d(1) by blast
    ultimately show ?thesis using assms full v
      by (simp add: increment_def Let_def mem_ok_def distinct_reinsert length_reinsert del: set_map)
  qed
qed

lemma cleanup_filter: "distinct (keys_of (entries s)) \<Longrightarrow> entries (rl_cleanup now s) = filter (\<lambda>(k, e). now < resetAt e) (entries s)"
proof -
  have "fold (\<lambda>(k, e) m. if resetAt e \<le> now then AList.delete k m else m) es (us @ es) = us @ filter (\<lambda>(k, e). now < resetAt e) es"
    if "distinct (keys_of (us @ es))" for us es
    using that
  proof (induction es arbitrary: us)
    case (Cons x es)
    obtain k e where x: "x = (k, e)" by (cases x)
    have "AList.delete k (us @ x # es) = us @ es"
    proof -
      have "filter (\<lambda>e. fst e \<noteq> k) us = us" "filter (\<lambda>e. fst e \<noteq> k) es = es"
        using Cons.prems by (force simp: x intro!: filter_True)+
      then show ?thesis by (simp add: x delete_eq_filter)
    qed
    moreover have "us @ x # es = (us @ [x]) @ es" by simp
    ultimately show ?case using Cons.IH [of us] Cons.IH [of "us @ [x]"] Cons.prems by (auto simp: x)
  qed simp
  from this [of "[]"] show "distinct (keys_of (entries s)) \<Longrightarrow> entries (rl_cleanup now s) = filter (\<lambda>(k, e). now < resetAt e) (entries s)"
    by (simp add: rl_cleanup_def)
qed

lemma cleanup_ok: "mem_ok s \<Longrightarrow> mem_ok (rl_cleanup now s) \<and> maxKeys (rl_cleanup now s) = maxKeys s"
proof -
  assume ok: "mem_ok s"
  then have e: "entries (rl_cleanup now s) = filter (\<lambda>(k, e). now < resetAt e) (entries s)" by (simp add: mem_ok_def cleanup_filter)
  have f: "maxKeys (rl_cleanup now s) = maxKeys s" "capWarned (rl_cleanup now s) = capWarned s" "capCalls (rl_cleanup now s) = capCalls s"
    by (simp_all add: rl_cleanup_def)
  have "length (entries s) \<le> maxKeys s" using ok by (simp add: mem_ok_def)
  with length_filter_le have "length (filter (\<lambda>(k, e). now < resetAt e) (entries s)) \<le> maxKeys s" by (rule le_trans)
  then show ?thesis using ok by (simp add: mem_ok_def e f distinct_keys_filter)
qed

lemma calls_ok: "mem_ok s \<Longrightarrow> mem_ok (fold do_store_call cs s) \<and> maxKeys (fold do_store_call cs s) = maxKeys s"
proof (induction cs arbitrary: s)
  case (Cons c cs)
  then show ?case by (cases c) (simp_all add: increment_ok cleanup_ok)
qed simp

lemma newMemStore_ok: "newMemStore mx = Inr s \<Longrightarrow> mem_ok s"
  by (auto simp: newMemStore_def mem_ok_def split: option.splits js_number.splits if_splits)

text \<open>
  A flood of spoofed keys cannot grow the store: after any calls of \<open>increment\<close> and the
  cleanup, in any order, it holds at most \<open>maxKeys\<close> keys, each once, and \<open>onCapReached\<close>
  was called at most once.
\<close>

theorem rate_store_bounded:
  assumes "newMemStore mx = Inr s"
  shows "length (entries (fold do_store_call cs s)) \<le> maxKeys s \<and> distinct (keys_of (entries (fold do_store_call cs s)))
    \<and> length (capCalls (fold do_store_call cs s)) \<le> 1"
  using calls_ok [OF newMemStore_ok [OF assms], of cs] by (simp add: mem_ok_def)

theorem rate_store_bounded_witness:
  "length (entries (fold do_store_call [Inc 0 ''a'' 10, Inc 1 ''b'' 10, Clean 5, Inc 6 ''c'' 10]
     \<lparr>entries = [], maxKeys = 2, capWarned = False, capCalls = []\<rparr>)) \<le> 2"
  using rate_store_bounded [of "Some (Finite 2)" "\<lparr>entries = [], maxKeys = 2, capWarned = False, capCalls = []\<rparr>"
      "[Inc 0 ''a'' 10, Inc 1 ''b'' 10, Clean 5, Inc 6 ''c'' 10]"]
  by (simp add: newMemStore_def)

section \<open>Eviction\<close>

lemma weaker_irrefl: "\<not> weaker e e"
  by (simp add: weaker_def)

lemma weaker_asym: "weaker e f \<Longrightarrow> \<not> weaker f e"
  by (auto simp: weaker_def)

lemma not_weaker_le: "\<not> weaker a b \<longleftrightarrow> hits b < hits a \<or> hits b = hits a \<and> resetAt b \<le> resetAt a"
  by (auto simp: weaker_def)

lemma evict_scan_live:
  assumes "\<forall>(k, e) \<in> set (take (16 - n) es). now < resetAt e" and "n < 16"
  shows "evict_scan now es n (Some (k0, e0)) = Some v \<Longrightarrow>
    \<exists>e. (v, e) \<in> insert (k0, e0) (set (take (16 - n) es)) \<and> (\<forall>(j, f) \<in> insert (k0, e0) (set (take (16 - n) es)). \<not> weaker f e)"
  using assms
proof (induction es arbitrary: n k0 e0)
  case Nil
  then show ?case by (auto simp: weaker_def)
next
  case (Cons x es)
  obtain k e where x: "x = (k, e)" by (cases x)
  have t: "take (16 - n) (x # es) = x # take (15 - n) es" using Cons.prems(3) by (simp add: take_Cons')
  have live: "now < resetAt e" using Cons.prems(2) unfolding t by (simp add: x)
  obtain pk pe where p: "(pk, pe) = (if weaker e e0 then (k, e) else (k0, e0))" by (cases "weaker e e0") auto
  have pmin: "(pk, pe) \<in> {(k0, e0), x}" "\<not> weaker e pe" "\<not> weaker e0 pe"
    using p by (cases "weaker e e0"; simp add: x weaker_irrefl weaker_asym; fail)+
  have scan: "evict_scan now (x # es) n (Some (k0, e0)) = (if 16 \<le> Suc n then Some pk else evict_scan now es (Suc n) (Some (pk, pe)))"
    using live p by (cases "weaker e e0") (simp_all add: x Let_def)
  show ?case
  proof (cases "16 \<le> Suc n")
    case True
    then have "v = pk" "15 - n = 0" using Cons.prems(1) scan by auto
    then show ?thesis using pmin p t x by (intro exI [of _ pe]) auto
  next
    case False
    then have s: "evict_scan now es (Suc n) (Some (pk, pe)) = Some v" using Cons.prems(1) scan by simp
    have n: "16 - Suc n = 15 - n" by simp
    obtain e' where e': "(v, e') \<in> insert (pk, pe) (set (take (15 - n) es))"
        "\<forall>(j, f) \<in> insert (pk, pe) (set (take (15 - n) es)). \<not> weaker f e'"
      using Cons.IH [OF s] Cons.prems(2) False unfolding n by (auto simp: t)
    then have "\<not> weaker pe e'" by simp
    then have "\<not> weaker e e'" "\<not> weaker e0 e'" using pmin(2,3) unfolding not_weaker_le by auto
    then show ?thesis using e' pmin(1) p t x by (intro exI [of _ e']) auto
  qed
qed

lemma evict_scan_expired:
  "find (\<lambda>(k, e). resetAt e \<le> now) (take (16 - n) es) = Some (v, e) \<Longrightarrow> n < 16 \<Longrightarrow> evict_scan now es n w = Some v"
proof (induction es arbitrary: n w)
  case (Cons x es)
  obtain k f where x: "x = (k, f)" by (cases x)
  have t: "take (16 - n) (x # es) = x # take (16 - Suc n) es" using Cons.prems(2) by (simp add: take_Cons')
  show ?case
  proof (cases "resetAt f \<le> now")
    case True
    then show ?thesis using Cons.prems(1) unfolding t by (simp add: x)
  next
    case False
    then have f: "find (\<lambda>(k, e). resetAt e \<le> now) (take (16 - Suc n) es) = Some (v, e)" using Cons.prems(1) unfolding t by (simp add: x)
    then have "Suc n < 16" by (cases "Suc n < 16") auto
    with False f show ?thesis using Cons.IH [OF f] by (simp add: x Let_def)
  qed
qed simp

text \<open>
  Which entry makes room: when a new key finds the store full, exactly one entry goes, one of
  the first 16. It is the first expired one among them if there is one, and otherwise one
  with the fewest hits, and with the soonest reset among those.
\<close>

lemma eviction_drops_weakest:
  assumes "mem_ok s" and "length (entries s) = maxKeys s" and "map_of (entries s) k = None"
  shows "\<exists>v e. (v, e) \<in> set (take 16 (entries s))
     \<and> entries (snd (increment now k w s)) = filter (\<lambda>x. fst x \<noteq> v) (entries s) @ [(k, \<lparr>hits = 1, resetAt = now + w\<rparr>)]
     \<and> (case find (\<lambda>(j, f). resetAt f \<le> now) (take 16 (entries s)) of
          Some x \<Rightarrow> x = (v, e)
        | None \<Rightarrow> \<forall>(j, f) \<in> set (take 16 (entries s)). \<not> weaker f e)"
proof -
  have d: "distinct (keys_of (entries s))" "entries s \<noteq> []" using assms(1,2) by (auto simp: mem_ok_def)
  obtain v where v: "evict_scan now (entries s) 0 None = Some v" "evictOne now s = s\<lparr>entries := AList.delete v (entries s)\<rparr>"
    by (rule evictOne_room [OF d, of now])
  have "k \<notin> set (keys_of (entries s))" using assms(3) by (simp add: map_of_None_keys del: set_map)
  then have "k \<notin> set (keys_of (AList.delete v (entries s)))" by (simp only: keys_delete) simp
  then have ent: "entries (snd (increment now k w s)) = filter (\<lambda>x. fst x \<noteq> v) (entries s) @ [(k, \<lparr>hits = 1, resetAt = now + w\<rparr>)]"
    using assms v(2)
    by (simp add: increment_def Let_def delete_absent keys_update_new delete_eq_filter [symmetric] del: set_map)
  show ?thesis
  proof (cases "find (\<lambda>(j, f). resetAt f \<le> now) (take 16 (entries s))")
    case (Some x)
    obtain j f where x: "x = (j, f)" by (cases x)
    then have "v = j" using evict_scan_expired [of now 0 "entries s" j f None] Some v(1) by simp
    moreover have "x \<in> set (take 16 (entries s))" using Some by (auto simp: find_Some_iff in_set_conv_nth)
    ultimately show ?thesis using ent Some x by auto
  next
    case None
    then have live: "\<forall>(j, f) \<in> set (take 16 (entries s)). now < resetAt f" by (force simp: find_None_iff not_le)
    obtain k0 e0 es where es: "entries s = (k0, e0) # es" using d(2) by (cases "entries s") auto
    have "evict_scan now es 1 (Some (k0, e0)) = Some v" using v(1) live by (simp add: es Let_def)
    moreover have "\<forall>(k, e) \<in> set (take (16 - 1) es). now < resetAt e" using live by (simp add: es numeral_eq_Suc)
    ultimately obtain e where "(v, e) \<in> insert (k0, e0) (set (take (16 - 1) es))"
        "\<forall>(j, f) \<in> insert (k0, e0) (set (take (16 - 1) es)). \<not> weaker f e"
      using evict_scan_live [of 1 es now k0 e0 v] by auto
    moreover have "set (take 16 (entries s)) = insert (k0, e0) (set (take (16 - 1) es))" by (simp add: es numeral_eq_Suc)
    ultimately show ?thesis using ent None by auto
  qed
qed

definition full_store :: mem_store where
  "full_store = \<lparr>entries = [(''a'', \<lparr>hits = 5, resetAt = 100\<rparr>), (''b'', \<lparr>hits = 2, resetAt = 100\<rparr>)],
     maxKeys = 2, capWarned = False, capCalls = []\<rparr>"

lemma eviction_drops_weakest_witness:
  "\<exists>v e. (v, e) \<in> set (take 16 (entries full_store)) \<and>
     entries (snd (increment 10 ''c'' 50 full_store)) = filter (\<lambda>x. fst x \<noteq> v) (entries full_store) @ [(''c'', \<lparr>hits = 1, resetAt = 10 + 50\<rparr>)]"
proof -
  have "mem_ok full_store" "length (entries full_store) = maxKeys full_store" "map_of (entries full_store) ''c'' = None"
    by (simp_all add: full_store_def mem_ok_def)
  from eviction_drops_weakest [OF this, of 10 50] show ?thesis by blast
qed

text \<open>The scan is bounded: entries after the first sixteen are never compared, so when those are
  equally established the oldest goes, however weak the entries behind them are.\<close>

lemma evict_scan_front:
  "\<forall>(k, e) \<in> set (take (16 - n) es). now < resetAt e \<and> \<not> weaker e w \<Longrightarrow> n < 16 \<Longrightarrow> evict_scan now es n (Some (j, w)) = Some j"
proof (induction es arbitrary: n)
  case (Cons x es)
  obtain k e where x: "x = (k, e)" by (cases x)
  have t: "take (16 - n) (x # es) = x # take (16 - Suc n) es" using Cons.prems(2) by (simp add: take_Cons')
  have h: "now < resetAt e" "\<not> weaker e w" "\<forall>(k, e) \<in> set (take (16 - Suc n) es). now < resetAt e \<and> \<not> weaker e w"
    using Cons.prems(1) unfolding t by (simp_all add: x)
  show ?case using h(1,2) Cons.IH [OF h(3)] by (simp add: x Let_def)
qed simp

lemma established_entry_evicted:
  assumes "length est = 16" and "\<forall>(k, e) \<in> set est. hits e = 50 \<and> resetAt e = 100" and "now < 100"
  shows "evict_scan now (est @ flood) 0 None = Some (fst (hd est))"
proof -
  obtain k e est' where est: "est = (k, e) # est'" using assms(1) by (cases est) auto
  have "evict_scan now (est' @ flood) 1 (Some (k, e)) = Some k"
  proof (rule evict_scan_front)
    show "\<forall>(k, f) \<in> set (take (16 - 1) (est' @ flood)). now < resetAt f \<and> \<not> weaker f e"
      using assms est by (auto simp: weaker_def)
  qed simp
  then show ?thesis using assms est by (simp add: Let_def)
qed

section \<open>Stored keys\<close>

text \<open>
  What is stored is bounded and does not merge clients: a stored key is at most
  \<open>maxKeyLength\<close> (or 75) characters long, and two requests share a bucket only if their
  keys are equal, if two different keys have the same SHA-256 digest, or if a key generator produced a
  key inside the namespace of the hashed ones.
\<close>

lemma stored_keys_bounded:
  "length (stored_key cfg r) \<le> max (lmaxKeyLength cfg) 75
   \<and> (stored_key cfg r \<noteq> stored_key cfg q \<or> lkeyGenerator cfg r = lkeyGenerator cfg q
      \<or> sha256Hex (uni (lkeyGenerator cfg r)) = sha256Hex (uni (lkeyGenerator cfg q))
      \<or> starts_with (lkeyGenerator cfg r) ''__hashed__:'' \<or> starts_with (lkeyGenerator cfg q) ''__hashed__:'')"
proof -
  have "starts_with (''__hashed__:'' @ x) ''__hashed__:''" for x by simp
  then show ?thesis
    by (cases "lmaxKeyLength cfg < length (lkeyGenerator cfg r)"; cases "lmaxKeyLength cfg < length (lkeyGenerator cfg q)")
      (auto simp: stored_key_def Let_def dest: sym [of _ "lkeyGenerator cfg q"] simp del: append_Cons)
qed

section \<open>Registration fails closed\<close>

lemma parseCidrs_ok: "(\<exists>cs. parseCidrs vs = Inr cs) \<longleftrightarrow> (\<forall>v \<in> set vs. parseCidr v \<noteq> None)"
  by (induction vs) (auto split: option.splits sum.splits)

definition finite_positive :: "js_number \<Rightarrow> bool" where
  "finite_positive v = (case v of Finite n \<Rightarrow> 0 < n | NonFinite \<Rightarrow> False)"

lemma parseTrustedProxies_ok:
  "(\<exists>t. parseTrustedProxies vs = Inr t) \<longleftrightarrow> (\<forall>v. vs = Some v \<longrightarrow> v \<noteq> [] \<and> (\<forall>c \<in> set v. parseCidr c \<noteq> None))"
proof (cases vs)
  case (Some v)
  then show ?thesis using parseCidrs_ok [of v] by (cases "parseCidrs v") (auto simp: parseTrustedProxies_def)
qed (simp add: parseTrustedProxies_def)

lemma parseTrustedProxies_None: "parseTrustedProxies vs = Inr t \<Longrightarrow> t = None \<longleftrightarrow> vs = None"
  by (auto simp: parseTrustedProxies_def split: option.splits sum.splits if_splits)

text \<open>
  A limiter that could not limit is refused: registration succeeds exactly when \<open>max\<close>,
  \<open>window\<close> and every given numeric option are positive finite numbers, the trusted proxies (if given) are a
  non-empty list of valid blocks, and there is a way to identify clients. In particular a \<open>NaN\<close>
  or missing window never yields a limiter.
\<close>

theorem limiter_registration:
  "(\<exists>r. rateLimit opts = Inr r) \<longleftrightarrow>
     finite_positive (optMax opts) \<and> finite_positive (optWindow opts)
     \<and> list_all finite_positive (List.map_filter id [optTrustedProxyHops opts, optMaxKeyLength opts, optMaxKeys opts])
     \<and> (case optTrustedProxies opts of None \<Rightarrow> True | Some v \<Rightarrow> v \<noteq> [] \<and> list_all (\<lambda>c. parseCidr c \<noteq> None) v)
     \<and> \<not> (optKeyGenerator opts = None \<and> optTrustedProxies opts = None \<and> \<not> optTrustProxy opts)"
proof -
  have num: "assertPositiveNumber nm v = None \<longleftrightarrow> finite_positive v" "(\<exists>h. positiveInteger v = Some h) \<longleftrightarrow> finite_positive v" for nm v
    by (auto simp: assertPositiveNumber_def positiveInteger_def finite_positive_def split: js_number.splits)
  have mk: "(\<exists>s. newMemStore mx = Inr s) \<longleftrightarrow> (\<forall>m. mx = Some m \<longrightarrow> finite_positive m)" for mx
    by (auto simp: newMemStore_def finite_positive_def split: option.splits js_number.splits)
  have px: "(case optTrustedProxies opts of None \<Rightarrow> True | Some v \<Rightarrow> v \<noteq> [] \<and> list_all (\<lambda>c. parseCidr c \<noteq> None) v)
      \<longleftrightarrow> (\<exists>t. parseTrustedProxies (optTrustedProxies opts) = Inr t)"
    unfolding parseTrustedProxies_ok by (auto simp: list_all_iff split: option.splits)
  show ?thesis
  proof (cases "parseTrustedProxies (optTrustedProxies opts)")
    case (Inl e)
    then show ?thesis unfolding px by (auto simp: rateLimit_def split: option.splits)
  next
    case (Inr t)
    have c: "finite_positive (Finite 1)" "finite_positive (Finite 256)" by (simp_all add: finite_positive_def)
    have "(\<exists>r. rateLimit opts = Inr r) \<longleftrightarrow> finite_positive (optMax opts) \<and> finite_positive (optWindow opts)
        \<and> (\<exists>h. positiveInteger (case optTrustedProxyHops opts of None \<Rightarrow> Finite 1 | Some h \<Rightarrow> h) = Some h)
        \<and> (\<exists>h. positiveInteger (case optMaxKeyLength opts of None \<Rightarrow> Finite 256 | Some h \<Rightarrow> h) = Some h)
        \<and> (optKeyGenerator opts \<noteq> None \<or> t \<noteq> None \<or> optTrustProxy opts) \<and> (\<exists>s. newMemStore (optMaxKeys opts) = Inr s)"
      unfolding num(1) [of "''max''" "optMax opts", symmetric] num(1) [of "''window''" "optWindow opts", symmetric]
      by (cases "assertPositiveNumber ''max'' (optMax opts)"; cases "assertPositiveNumber ''window'' (optWindow opts)";
        cases "positiveInteger (case optTrustedProxyHops opts of None \<Rightarrow> Finite 1 | Some h \<Rightarrow> h)";
        cases "positiveInteger (case optMaxKeyLength opts of None \<Rightarrow> Finite 256 | Some h \<Rightarrow> h)";
        cases "optKeyGenerator opts"; cases "newMemStore (optMaxKeys opts)"; simp add: rateLimit_def createDefaultKeyGenerator_def Inr)
    then show ?thesis
      unfolding num mk px using Inr c parseTrustedProxies_None [OF Inr]
      by (auto simp: List.map_filter_def split: option.splits)
  qed
qed

end
