(* ===== verification/Sha256_Props.thy ===== *)
theory Sha256_Props
  imports Sha256
begin

text \<open>
  The hash is SHA-256: \<open>sha256Hex\<close> is the function of FIPS 180-4, stated here as the standard
  does, and the constants are the ones the standard derives from prime numbers.
\<close>

section \<open>The standard\<close>

text \<open>The message schedule as a recurrence, and one round.\<close>

definition small_sigma0 :: "32 word \<Rightarrow> 32 word" where
  "small_sigma0 x = word_rotr 7 x XOR word_rotr 18 x XOR drop_bit 3 x"

definition small_sigma1 :: "32 word \<Rightarrow> 32 word" where
  "small_sigma1 x = word_rotr 17 x XOR word_rotr 19 x XOR drop_bit 10 x"

definition block_word :: "nat list \<Rightarrow> nat \<Rightarrow> 32 word" where
  "block_word blk t = of_nat (foldl (\<lambda>a b. a * 256 + b) 0 (take 4 (drop (4 * t) blk)))"

function fips_W :: "nat list \<Rightarrow> nat \<Rightarrow> 32 word" where
  "fips_W blk t =
     (if t < 16 then block_word blk t
      else small_sigma1 (fips_W blk (t - 2)) + fips_W blk (t - 7) + small_sigma0 (fips_W blk (t - 15)) + fips_W blk (t - 16))"
  by pat_completeness auto
termination by (relation "measure snd") auto

declare fips_W.simps [simp del]

definition fips_round :: "nat list \<Rightarrow> nat \<Rightarrow> hash_state \<Rightarrow> hash_state" where
  "fips_round blk t s =
     (let t1 = hh s + (word_rotr 6 (he s) XOR word_rotr 11 (he s) XOR word_rotr 25 (he s))
               + ((he s AND hf s) XOR (NOT (he s) AND hg s)) + K256 ! t + fips_W blk t;
          t2 = (word_rotr 2 (ha s) XOR word_rotr 13 (ha s) XOR word_rotr 22 (ha s))
               + ((ha s AND hb s) XOR (ha s AND hc s) XOR (hb s AND hc s))
      in \<lparr>ha = t1 + t2, hb = ha s, hc = hb s, hdd = hc s, he = hdd s + t1, hf = he s, hg = hf s, hh = hg s\<rparr>)"

definition fips_block :: "nat list \<Rightarrow> hash_state \<Rightarrow> hash_state" where
  "fips_block blk h = add_hash h (fold (fips_round blk) [0..<64] h)"

text \<open>Padding: a one bit, as few zero bits as make whole blocks, and the length in 64 bits.\<close>

definition fips_pad :: "nat list \<Rightarrow> nat list" where
  "fips_pad m = m @ [0x80] @ replicate (nat ((55 - int (length m)) mod 64)) 0
     @ map (\<lambda>i. 8 * length m div 256 ^ (7 - i) mod 256) [0..<8]"

fun chunks64 :: "nat list \<Rightarrow> nat list list" where
  "chunks64 bs = (if length bs < 64 then [] else take 64 bs # chunks64 (drop 64 bs))"

declare chunks64.simps [simp del]

definition fips_sha256 :: "nat list \<Rightarrow> 32 word list" where
  "fips_sha256 m = hash_words (fold fips_block (chunks64 (fips_pad m)) initial_hash)"

section \<open>The code computes it\<close>

lemma upt_8: "[0..<8] = [0, 1, 2, 3, 4, 5, 6, 7 :: nat]"
  by code_simp

lemma byte_of_mod:
  fixes n :: nat
  assumes "0 < a"
  shows "n mod (a * (c * d)) div a mod c = n div a mod c"
proof -
  have "n mod (a * (c * d)) div a = n div a mod (c * d)"
    using assms by (simp only: mod_mult2_eq) (simp add: div_mult_self1)
  then show ?thesis by (simp add: mod_mod_cancel)
qed

lemma be_bytes_64: "be_bytes (n div 4294967296) @ be_bytes (n mod 4294967296) = map (\<lambda>i. n div 256 ^ (7 - i) mod 256) [0..<8]"
proof -
  have "n mod 4294967296 div 16777216 mod 256 = n div 16777216 mod 256" "n mod 4294967296 div 65536 mod 256 = n div 65536 mod 256"
    "n mod 4294967296 div 256 mod 256 = n div 256 mod 256" "n mod 4294967296 mod 256 = n mod 256"
    using byte_of_mod [of 16777216 n 256 1] byte_of_mod [of 65536 n 256 256] byte_of_mod [of 256 n 256 65536]
      byte_of_mod [of 1 n 256 16777216] by simp_all
  then show ?thesis unfolding upt_8 be_bytes_def by (simp only: list.map append.simps) (simp add: div_mult2_eq [symmetric])
qed

lemma padded_fips: "padded m = fips_pad m"
proof -
  let ?n = "length m"
  have z: "(?n + 9 + 63) div 64 * 64 - ?n - 9 = nat ((55 - int ?n) mod 64)"
  proof -
    obtain q r where n: "?n = 64 * q + r" "r < 64" by (metis mult_div_mod_eq mod_less_divisor zero_less_numeral)
    have "55 - int ?n = (55 - int r) + 64 * (- int q)" unfolding n by simp
    then have i: "(55 - int ?n) mod 64 = (55 - int r) mod 64" by (simp only: mod_mult_self2)
    show ?thesis
    proof (cases "r \<le> 55")
      case True
      then have "(64 * q + r + 72) div 64 = q + 1" by linarith
      moreover have "(55 - int r) mod 64 = 55 - int r" using True by (intro mod_pos_pos_trivial) auto
      ultimately show ?thesis unfolding i unfolding n(1) using True by (simp add: add.commute)
    next
      case False
      then have "(64 * q + r + 72) div 64 = q + 2" using n(2) by linarith
      moreover have "(55 - int r) mod 64 = 119 - int r"
      proof -
        have "55 - int r = (119 - int r) + 64 * (- 1)" by simp
        then have "(55 - int r) mod 64 = (119 - int r) mod 64" by (simp only: mod_mult_self2)
        then show ?thesis using False n(2) by simp
      qed
      ultimately show ?thesis unfolding i unfolding n(1) using False by (simp add: add.commute)
    qed
  qed
  have "be_bytes (8 * ?n div 4294967296) @ be_bytes (8 * ?n mod 4294967296) = map (\<lambda>i. 8 * ?n div 256 ^ (7 - i) mod 256) [0..<8]"
    by (rule be_bytes_64)
  then show ?thesis unfolding fips_pad_def padded_def Let_def z by (simp add: mult.commute)
qed

lemma getUint32_block:
  "4 * t + 3 < 64 \<Longrightarrow> off + 64 \<le> length buf \<Longrightarrow> getUint32 buf (off + t * 4) = block_word (take 64 (drop off buf)) t"
proof -
  assume t: "4 * t + 3 < 64" and l: "off + 64 \<le> length buf"
  let ?b = "take 64 (drop off buf)"
  have "take 4 (drop (4 * t) ?b) = map (\<lambda>k. ?b ! (4 * t + k)) [0..<4]"
    using t l by (intro nth_equalityI) simp_all
  also have "[0..<4] = [0, 1, 2, 3 :: nat]" by code_simp
  finally have "take 4 (drop (4 * t) ?b) = [?b ! (4 * t), ?b ! (4 * t + 1), ?b ! (4 * t + 2), ?b ! (4 * t + 3)]" by simp
  moreover have "?b ! (4 * t + k) = buf ! (off + t * 4 + k)" if "k < 4" for k
    using that t l by (simp add: add.assoc mult.commute)
  from this [of 0] this [of 1] this [of 2] this [of 3]
  have "?b ! (4 * t) = buf ! (off + t * 4)" "?b ! (4 * t + 1) = buf ! (off + t * 4 + 1)"
    "?b ! (4 * t + 2) = buf ! (off + t * 4 + 2)" "?b ! (4 * t + 3) = buf ! (off + t * 4 + 3)" by simp_all
  ultimately show ?thesis by (simp only: block_word_def getUint32_def foldl.simps) simp
qed

lemma schedule_fips:
  assumes "off + 64 \<le> length buf"
  shows "schedule buf off = map (fips_W (take 64 (drop off buf))) [0..<64]"
proof -
  let ?blk = "take 64 (drop off buf)"
  have base: "map (\<lambda>i. getUint32 buf (off + i * 4)) [0..<16] = map (fips_W ?blk) [0..<16]"
    using assms by (auto simp: getUint32_block fips_W.simps [of ?blk])
  have step: "16 \<le> n \<Longrightarrow> n \<le> 64 \<Longrightarrow>
      fold (\<lambda>i w. w @ [schedule_word w i]) [16..<n] (map (fips_W ?blk) [0..<16]) = map (fips_W ?blk) [0..<n]" for n
  proof (induction n rule: dec_induct)
    case base
    then show ?case by simp
  next
    case (step n)
    have "schedule_word (map (fips_W ?blk) [0..<n]) n = fips_W ?blk n"
      using step.hyps by (simp add: schedule_word_def Let_def fips_W.simps [of ?blk n] small_sigma0_def small_sigma1_def rotr_word_rotr algebra_simps)
    then show ?case using step by simp
  qed
  show ?thesis unfolding schedule_def base by (rule step) simp_all
qed

lemma hash_block_fips:
  assumes "off + 64 \<le> length buf"
  shows "hash_block buf off h = fips_block (take 64 (drop off buf)) h"
proof -
  let ?blk = "take 64 (drop off buf)"
  have "compress_step (schedule buf off) i s = fips_round ?blk i s" if "i < 64" for i s
    using that by (simp add: schedule_fips [OF assms] compress_step_def fips_round_def Let_def rotr_word_rotr add.assoc)
  then have "fold (compress_step (schedule buf off)) [0..<64] h = fold (fips_round ?blk) [0..<64] h"
    by (intro fold_cong) auto
  then show ?thesis by (simp add: hash_block_def fips_block_def)
qed

lemma chunks_map:
  "length bs = 64 * n \<Longrightarrow> chunks64 bs = map (\<lambda>k. take 64 (drop (64 * k) bs)) [0..<n]"
proof (induction n arbitrary: bs)
  case 0
  then show ?case by (subst chunks64.simps) simp
next
  case (Suc n)
  then have "chunks64 (drop 64 bs) = map (\<lambda>k. take 64 (drop (64 * k) (drop 64 bs))) [0..<n]" by simp
  also have "\<dots> = map (\<lambda>k. take 64 (drop (64 * Suc k) bs)) [0..<n]" by (simp add: add.commute)
  finally show ?case using Suc.prems
    by (simp only: chunks64.simps [of bs] upt_conv_Cons [OF zero_less_Suc] map_Suc_upt [symmetric] list.map map_map) (simp add: comp_def)
qed

lemma sha256_fips: "sha256Hex s = concat (map (\<lambda>w. padStart 8 CHR ''0'' (show_hex (unat w))) (fips_sha256 (utf8_encode s)))"
proof -
  let ?buf = "padded (utf8_encode s)"
  obtain n where n: "length ?buf = 64 * n" using padded_blocks by (metis dvdE)
  have "fold (\<lambda>k. hash_block ?buf (64 * k)) [0..<n] initial_hash = fold (\<lambda>k. fips_block (take 64 (drop (64 * k) ?buf))) [0..<n] initial_hash"
    using n by (intro fold_cong) (auto simp: fun_eq_iff intro!: hash_block_fips)
  then show ?thesis
    by (simp add: sha256Hex_def Let_def n fips_sha256_def padded_fips [symmetric] chunks_map [OF n] fold_map comp_def)
qed

section \<open>The constants\<close>

text \<open>The first 64 primes.\<close>

definition primes64 :: "int list" where
  "primes64 =
    [2, 3, 5, 7, 11, 13, 17, 19, 23, 29, 31, 37, 41, 43, 47, 53, 59, 61, 67, 71, 73, 79, 83, 89, 97, 101,
     103, 107, 109, 113, 127, 131, 137, 139, 149, 151, 157, 163, 167, 173, 179, 181, 191, 193, 197, 199,
     211, 223, 227, 229, 233, 239, 241, 251, 257, 263, 269, 271, 277, 281, 283, 293, 307, 311]"

lemma primes64_prime:
  "primes64 = filter (\<lambda>p. list_all (\<lambda>d. \<not> d dvd p \<or> d = p) [2, 3, 5, 7, 11, 13, 17]) [2..311]"
  by (simp add: primes64_def upto_rec1)

text \<open>The first 32 bits of the fraction of a cube root and of a square root.\<close>

definition cbrt_fraction :: "int \<Rightarrow> 32 word \<Rightarrow> bool" where
  "cbrt_fraction p k = list_ex (\<lambda>r. let n = r * 4294967296 + uint k in
     n * n * n \<le> p * 79228162514264337593543950336 \<and> p * 79228162514264337593543950336 < (n + 1) * (n + 1) * (n + 1)) (filter (\<lambda>r. r * r * r \<le> p \<and> p < (r + 1) * (r + 1) * (r + 1)) [1, 2, 3, 4, 5, 6])"

definition sqrt_fraction :: "int \<Rightarrow> 32 word \<Rightarrow> bool" where
  "sqrt_fraction p k = list_ex (\<lambda>r. let n = r * 4294967296 + uint k in
     n * n \<le> p * 18446744073709551616 \<and> p * 18446744073709551616 < (n + 1) * (n + 1)) [1, 2, 3, 4]"

lemma K256_cube_roots: "list_all2 cbrt_fraction primes64 K256"
  by (simp add: primes64_def K256_def cbrt_fraction_def Let_def)

lemma initial_square_roots: "list_all2 sqrt_fraction (take 8 primes64) (hash_words initial_hash)"
  by (simp add: primes64_def initial_hash_def hash_words_def sqrt_fraction_def Let_def)

text \<open>
  C35.
  The hash of over-long rate-limit keys is SHA-256: for every text, \<open>sha256Hex\<close> is the
  hexadecimal form of the FIPS 180-4 digest of its UTF-8 octets, whose round constants are
  the fractions of the cube roots of the first 64 primes and whose initial value is the fractions of
  the square roots of the first eight.
\<close>

theorem sha256_is_fips:
  "sha256Hex s = concat (map (\<lambda>w. padStart 8 CHR ''0'' (show_hex (unat w))) (fips_sha256 (utf8_encode s)))
   \<and> list_all2 cbrt_fraction primes64 K256 \<and> list_all2 sqrt_fraction (take 8 primes64) (hash_words initial_hash)"
  using sha256_fips K256_cube_roots initial_square_roots by blast

end
