(* ===== verification/Reply.thy ===== *)
theory Reply
  imports Errors Uri_Codec Cookie
begin

text \<open>
  Replies and responses: \<open>packages/core/src/reply.ts\<close>, \<open>fast-response.ts\<close> and
  \<open>response-merge.ts\<close>.

  \<^item> \<open>header_map\<close> is the platform's \<open>Headers\<close>: names are lower case, values are stripped of HTTP
    white space, \<open>Set-Cookie\<close> values are kept apart. Names and values are valid ones; \<open>Headers\<close>
    throws on others. A status is one that \<open>Response\<close> accepts with the body given, and file names are Latin-1.
  \<^item> \<open>resp\<close> is a \<open>Response\<close>; \<open>rsFast\<close> says that it carries the fast-write payload.
  \<^item> \<open>reply\<close> is the state \<open>createReply\<close> closes over. Its headers are a plain object.
  \<^item> The URL parser and the file system are parameters.
\<close>

section \<open>Headers and responses\<close>

definition http_ws :: "char \<Rightarrow> bool" where
  "http_ws c = (c = CHR 0x09 \<or> c = CHR 0x0A \<or> c = CHR 0x0D \<or> c = CHR 0x20)"

definition http_trim :: "string \<Rightarrow> string" where
  "http_trim s = rev (dropWhile http_ws (rev (dropWhile http_ws s)))"

record header_map =
  hmap :: "(string, string) omap"
  hcookies :: "string list"

definition headers_get :: "string \<Rightarrow> header_map \<Rightarrow> string option" where
  "headers_get name h = map_of (hmap h) (to_lower name)"

definition headers_set :: "string \<Rightarrow> string \<Rightarrow> header_map \<Rightarrow> header_map" where
  "headers_set name v h = h\<lparr>hmap := AList.update (to_lower name) (http_trim v) (hmap h)\<rparr>"

definition headers_append :: "string \<Rightarrow> string \<Rightarrow> header_map \<Rightarrow> header_map" where
  "headers_append name v h =
     (if to_lower name = ''set-cookie'' then h\<lparr>hcookies := hcookies h @ [http_trim v]\<rparr>
      else (case headers_get name h of
          None \<Rightarrow> headers_set name v h
        | Some old \<Rightarrow> h\<lparr>hmap := AList.update (to_lower name) (old @ '', '' @ http_trim v) (hmap h)\<rparr>))"

definition new_headers :: "(string, string) omap \<Rightarrow> header_map" where
  "new_headers init = fold (\<lambda>(k, v). headers_append k v) init \<lparr>hmap = [], hcookies = []\<rparr>"

datatype body = NoBody | TextBody string | JsonBody json | BytesBody "nat list" | StreamBody

record resp =
  rsStatus :: int
  rsHeaders :: header_map
  rsBody :: body
  rsFast :: bool

definition fastResponse :: "body \<Rightarrow> int \<Rightarrow> (string, string) omap \<Rightarrow> string list \<Rightarrow> resp" where
  "fastResponse b status hs cookies =
     \<lparr>rsStatus = status, rsHeaders = fold (headers_append ''set-cookie'') cookies (new_headers hs), rsBody = b, rsFast = True\<rparr>"

section \<open>The reply builder\<close>

record reply =
  rpStatus :: int
  rpHeaders :: "(string, string) omap"
  rpCookies :: "string list"
  rpSent :: bool

definition createReply :: reply where
  "createReply = \<lparr>rpStatus = 200, rpHeaders = [], rpCookies = [], rpSent = False\<rparr>"

definition reply_status :: "int \<Rightarrow> reply \<Rightarrow> reply" where
  "reply_status code r = r\<lparr>rpStatus := code\<rparr>"

text \<open>CR and LF are removed from the value.\<close>

definition reply_header :: "string \<Rightarrow> string \<Rightarrow> reply \<Rightarrow> reply" where
  "reply_header key v r =
     r\<lparr>rpHeaders := AList.update (to_lower key) (filter (\<lambda>c. c \<noteq> CHR 0x0D \<and> c \<noteq> CHR 0x0A) v) (rpHeaders r)\<rparr>"

text \<open>\<open>{ key: value, ...headers }\<close>\<close>

definition spread :: "(string, string) omap \<Rightarrow> (string, string) omap \<Rightarrow> (string, string) omap" where
  "spread defaults hs = fold (\<lambda>(k, v). AList.update k v) hs defaults"

datatype send_data = SendResponse resp | SendNothing | SendText string | SendBytes "nat list" | SendJson json

definition reply_send :: "send_data \<Rightarrow> reply \<Rightarrow> resp \<times> reply" where
  "reply_send data r =
     (let r1 = r\<lparr>rpSent := True\<rparr>; st = rpStatus r; hs = rpHeaders r; cs = rpCookies r in
      (case data of
         SendResponse x \<Rightarrow> x
       | SendNothing \<Rightarrow> fastResponse NoBody st hs cs
       | SendText t \<Rightarrow>
           if st = 204 \<or> st = 304 then fastResponse NoBody st hs cs
           else fastResponse (TextBody t) st (spread [(''content-type'', ''text/plain; charset=utf-8'')] hs) cs
       | SendBytes b \<Rightarrow>
           if st = 204 \<or> st = 304 then fastResponse NoBody st hs cs
           else fastResponse (BytesBody b) st (spread [(''content-type'', ''application/octet-stream'')] hs) cs
       | SendJson j \<Rightarrow>
           if st = 204 \<or> st = 304 then fastResponse NoBody st hs cs
           else fastResponse (JsonBody j) st (spread [(''content-type'', ''application/json; charset=utf-8'')] hs) cs, r1))"

definition reply_html :: "string \<Rightarrow> reply \<Rightarrow> resp \<times> reply" where
  "reply_html t r =
     (fastResponse (TextBody t) (rpStatus r) (spread [(''content-type'', ''text/html; charset=utf-8'')] (rpHeaders r)) (rpCookies r),
      r\<lparr>rpSent := True\<rparr>)"

definition reply_json :: "json \<Rightarrow> reply \<Rightarrow> resp \<times> reply" where
  "reply_json j r =
     (fastResponse (JsonBody j) (rpStatus r) (spread [(''content-type'', ''application/json; charset=utf-8'')] (rpHeaders r)) (rpCookies r),
      r\<lparr>rpSent := True\<rparr>)"

definition build_headers :: "reply \<Rightarrow> (string, string) omap \<Rightarrow> header_map" where
  "build_headers r extra = fold (headers_append ''set-cookie'') (rpCookies r) (new_headers extra)"

definition reply_stream :: "reply \<Rightarrow> resp \<times> reply" where
  "reply_stream r =
     (\<lparr>rsStatus = rpStatus r, rsHeaders = build_headers r (spread [(''content-type'', ''application/octet-stream'')] (rpHeaders r)),
       rsBody = StreamBody, rsFast = False\<rparr>, r\<lparr>rpSent := True\<rparr>)"

definition reply_cookie ::
    "(string \<Rightarrow> url option) \<Rightarrow> string \<Rightarrow> ustring \<Rightarrow> cookie_options \<Rightarrow> security_context \<Rightarrow> warn_state \<Rightarrow> reply \<Rightarrow>
     (cookie_error + reply) \<times> cookie_warning list \<times> warn_state" where
  "reply_cookie parse name v opts ctx w r =
     (case serializeCookie parse name v opts ctx w of
        (Inl e, ws, w') \<Rightarrow> (Inl e, ws, w')
      | (Inr c, ws, w') \<Rightarrow> (Inr (r\<lparr>rpCookies := rpCookies r @ [c]\<rparr>), ws, w'))"

definition reply_clearCookie ::
    "(string \<Rightarrow> url option) \<Rightarrow> string \<Rightarrow> cookie_options \<Rightarrow> security_context \<Rightarrow> warn_state \<Rightarrow> reply \<Rightarrow>
     (cookie_error + reply) \<times> cookie_warning list \<times> warn_state" where
  "reply_clearCookie parse name opts ctx w r = reply_cookie parse name [] (opts\<lparr>maxAge := Some 0\<rparr>) ctx w r"

section \<open>Error replies\<close>

definition reply_error :: "bool \<Rightarrow> int \<Rightarrow> string \<Rightarrow> string \<Rightarrow> bool \<Rightarrow> reply \<Rightarrow> resp \<times> reply" where
  "reply_error production status code message sanitize r =
     (let safeMessage = (if sanitize \<and> production then (if status = 500 then ''Internal Server Error'' else ''Service Unavailable'')
                         else message)
      in reply_json (JObj [(''error'', JStr safeMessage), (''statusCode'', JNum (of_int status)), (''code'', JStr code)]) (reply_status status r))"

definition or_default :: "string \<Rightarrow> string option \<Rightarrow> string" where
  "or_default d m = (case m of None \<Rightarrow> d | Some t \<Rightarrow> t)"

definition reply_notFound :: "bool \<Rightarrow> string option \<Rightarrow> reply \<Rightarrow> resp \<times> reply" where
  "reply_notFound pr m = reply_error pr 404 ''NOT_FOUND'' (or_default ''Not Found'' m) False"

definition reply_badRequest :: "bool \<Rightarrow> string option \<Rightarrow> reply \<Rightarrow> resp \<times> reply" where
  "reply_badRequest pr m = reply_error pr 400 ''BAD_REQUEST'' (or_default ''Bad Request'' m) False"

definition reply_unauthorized :: "bool \<Rightarrow> string option \<Rightarrow> reply \<Rightarrow> resp \<times> reply" where
  "reply_unauthorized pr m = reply_error pr 401 ''UNAUTHORIZED'' (or_default ''Unauthorized'' m) False"

definition reply_forbidden :: "bool \<Rightarrow> string option \<Rightarrow> reply \<Rightarrow> resp \<times> reply" where
  "reply_forbidden pr m = reply_error pr 403 ''FORBIDDEN'' (or_default ''Forbidden'' m) False"

definition reply_conflict :: "bool \<Rightarrow> string option \<Rightarrow> reply \<Rightarrow> resp \<times> reply" where
  "reply_conflict pr m = reply_error pr 409 ''CONFLICT'' (or_default ''Conflict'' m) False"

definition reply_gone :: "bool \<Rightarrow> string option \<Rightarrow> reply \<Rightarrow> resp \<times> reply" where
  "reply_gone pr m = reply_error pr 410 ''GONE'' (or_default ''Gone'' m) False"

definition reply_tooManyRequests :: "bool \<Rightarrow> string option \<Rightarrow> reply \<Rightarrow> resp \<times> reply" where
  "reply_tooManyRequests pr m = reply_error pr 429 ''TOO_MANY_REQUESTS'' (or_default ''Too Many Requests'' m) False"

definition reply_internalServerError :: "bool \<Rightarrow> string option \<Rightarrow> reply \<Rightarrow> resp \<times> reply" where
  "reply_internalServerError pr m = reply_error pr 500 ''INTERNAL_SERVER_ERROR'' (or_default ''Internal Server Error'' m) True"

definition reply_serviceUnavailable :: "bool \<Rightarrow> string option \<Rightarrow> reply \<Rightarrow> resp \<times> reply" where
  "reply_serviceUnavailable pr m = reply_error pr 503 ''SERVICE_UNAVAILABLE'' (or_default ''Service Unavailable'' m) True"

section \<open>Redirects\<close>

text \<open>The loop of \<open>normalizeRedirectTarget\<close>, by fuel: the second round changes nothing.\<close>

definition strip_target :: "string \<Rightarrow> string" where
  "strip_target s =
     map (\<lambda>c. if c = CHR 0x5C then CHR ''/'' else c) (filter (\<lambda>c. c \<noteq> CHR 0x09 \<and> c \<noteq> CHR 0x0A \<and> c \<noteq> CHR 0x0D) s)"

fun normalize_loop :: "nat \<Rightarrow> string \<Rightarrow> string option" where
  "normalize_loop 0 s = None"
| "normalize_loop (Suc n) s = (let t = strip_target s in if t = s then Some s else normalize_loop n t)"

definition normalizeRedirectTarget :: "string \<Rightarrow> string option" where
  "normalizeRedirectTarget s = normalize_loop 2 s"

record parsed_url =
  uProtocol :: string
  uHost :: string
  uHostname :: string
  uHref :: string

datatype redirect_error = ProtocolRelative | ControlCharacter | NotHttp | ExternalHost string

definition reply_hasControlChar :: "string \<Rightarrow> bool" where
  "reply_hasControlChar s = list_ex (\<lambda>c. (of_char c :: nat) \<le> 0x1F \<or> (of_char c :: nat) = 0x7F) s"

definition safeRedirectLocation :: "(string \<Rightarrow> parsed_url option) \<Rightarrow> string \<Rightarrow> string list option \<Rightarrow> (redirect_error + string) option" where
  "safeRedirectLocation parse u allowedHosts =
     (case normalizeRedirectTarget u of
        None \<Rightarrow> None
      | Some n \<Rightarrow> Some (
          if starts_with n ''/'' then
            (if starts_with n ''//'' then Inl ProtocolRelative
             else if reply_hasControlChar n then Inl ControlCharacter
             else Inr n)
          else (case parse n of
              None \<Rightarrow> Inl NotHttp
            | Some p \<Rightarrow>
                if uProtocol p \<noteq> ''http:'' \<and> uProtocol p \<noteq> ''https:'' then Inl NotHttp
                else (let hosts = (case allowedHosts of None \<Rightarrow> [] | Some h \<Rightarrow> h) in
                  if uHost p \<notin> set hosts \<and> uHostname p \<notin> set hosts then Inl (ExternalHost (uHost p))
                  else Inr (uHref p)))))"

definition reply_redirect ::
    "(string \<Rightarrow> parsed_url option) \<Rightarrow> string \<Rightarrow> int option \<Rightarrow> string list option \<Rightarrow> reply \<Rightarrow> ((redirect_error + resp) \<times> reply) option" where
  "reply_redirect parse u code hosts r =
     (case safeRedirectLocation parse u hosts of
        None \<Rightarrow> None
      | Some (Inl e) \<Rightarrow> Some (Inl e, r)
      | Some (Inr loc) \<Rightarrow>
          Some (Inr \<lparr>rsStatus = (case code of None \<Rightarrow> 302 | Some c \<Rightarrow> c),
                     rsHeaders = build_headers r (spread [(''location'', loc)] (rpHeaders r)), rsBody = NoBody, rsFast = False\<rparr>,
                r\<lparr>rpSent := True\<rparr>))"

section \<open>Content-Disposition\<close>

definition printable :: "char \<Rightarrow> bool" where
  "printable c = (let n = (of_char c :: nat) in 0x20 \<le> n \<and> n \<le> 0x7E)"

definition ascii_name :: "string \<Rightarrow> string" where
  "ascii_name name = map (\<lambda>c. if printable c then c else CHR ''_'') (filter (\<lambda>c. c \<noteq> CHR 0x22 \<and> c \<noteq> CHR 0x5C) name)"

definition rfc5987 :: "string \<Rightarrow> string" where
  "rfc5987 s = concat (map (\<lambda>c. if c \<in> set [CHR 0x27, CHR ''('', CHR '')'', CHR ''*''] then pct (of_char c) else [c]) s)"

definition contentDisposition :: "string \<Rightarrow> string option" where
  "contentDisposition name =
     (let a = ascii_name name; ascii = (if a = [] then ''download'' else a) in
      if ascii = name then Some (''attachment; filename='' @ [CHR 0x22] @ ascii @ [CHR 0x22])
      else map_option (\<lambda>e. ''attachment; filename='' @ [CHR 0x22] @ ascii @ [CHR 0x22] @ ''; filename*=UTF-8'' @ [CHR 0x27, CHR 0x27] @ rfc5987 e)
             (encodeURIComponent (uni name)))"

section \<open>Confined files\<close>

text \<open>\<open>resolve\<close> of \<open>node:path\<close> on POSIX: segments are normalized, an absolute second path replaces the first.\<close>

definition path_segments :: "string \<Rightarrow> string list" where
  "path_segments p =
     rev (fold (\<lambda>s acc. if s = [] \<or> s = ''.'' then acc else if s = ''..'' then tl acc else s # acc) (split_on CHR ''/'' p) [])"

definition absolute :: "string list \<Rightarrow> string" where
  "absolute segs = CHR ''/'' # join ''/'' segs"

definition resolve_path :: "string \<Rightarrow> string \<Rightarrow> string" where
  "resolve_path base p =
     (if starts_with p ''/'' then absolute (path_segments p) else absolute (path_segments (base @ ''/'' @ p)))"

definition isInside :: "string \<Rightarrow> string \<Rightarrow> bool" where
  "isInside target r = (target = r \<or> starts_with target (r @ ''/''))"

datatype 'a confined = Confined 'a | Refused nat

definition resolveConfinedPath ::
    "(string \<Rightarrow> string option) \<Rightarrow> string \<Rightarrow> string \<Rightarrow> string option \<Rightarrow> bool \<Rightarrow> string confined" where
  "resolveConfinedPath realpath cwd filePath r allowSymlinks =
     (let resolvedRoot = resolve_path cwd (case r of None \<Rightarrow> cwd | Some x \<Rightarrow> x);
          resolvedPath = resolve_path resolvedRoot filePath
      in if \<not> isInside resolvedPath resolvedRoot then Refused 403
         else if allowSymlinks then Confined resolvedPath
         else (case realpath resolvedRoot of
             None \<Rightarrow> Refused 404
           | Some realRoot \<Rightarrow>
               (case realpath resolvedPath of
                  None \<Rightarrow> Refused 404
                | Some realPath \<Rightarrow> if isInside realPath realRoot then Confined realPath else Refused 403)))"

text \<open>Opening a path, with \<open>O_NOFOLLOW\<close> or without: refused for a symbolic link, failed otherwise,
  or a handle whose read gives the bytes or fails.\<close>

datatype open_result = LinkRefused | OpenFailed | Opened "nat list option"

definition readConfinedFile ::
    "(string \<Rightarrow> string option) \<Rightarrow> (string \<Rightarrow> bool \<Rightarrow> open_result) \<Rightarrow> string \<Rightarrow> string \<Rightarrow> string option \<Rightarrow> bool \<Rightarrow>
     (nat list \<times> string) confined" where
  "readConfinedFile realpath opn cwd filePath r allowSymlinks =
     (case resolveConfinedPath realpath cwd filePath r allowSymlinks of
        Refused n \<Rightarrow> Refused n
      | Confined p \<Rightarrow>
          (case opn p (\<not> allowSymlinks) of
             LinkRefused \<Rightarrow> Refused 403
           | OpenFailed \<Rightarrow> Refused 404
           | Opened None \<Rightarrow> Refused 404
           | Opened (Some bytes) \<Rightarrow> Confined (bytes, p)))"

definition MIME_TYPES :: "(string \<times> string) list" where
  "MIME_TYPES =
     [(''.html'', ''text/html; charset=utf-8''),
      (''.js'', ''application/javascript; charset=utf-8''),
      (''.css'', ''text/css; charset=utf-8''),
      (''.json'', ''application/json; charset=utf-8''),
      (''.png'', ''image/png''),
      (''.jpg'', ''image/jpeg''),
      (''.jpeg'', ''image/jpeg''),
      (''.gif'', ''image/gif''),
      (''.svg'', ''image/svg+xml''),
      (''.pdf'', ''application/pdf''),
      (''.zip'', ''application/zip''),
      (''.csv'', ''text/csv; charset=utf-8''),
      (''.xml'', ''application/xml; charset=utf-8''),
      (''.txt'', ''text/plain; charset=utf-8''),
      (''.woff'', ''font/woff''),
      (''.woff2'', ''font/woff2''),
      (''.mp4'', ''video/mp4''),
      (''.webp'', ''image/webp''),
      (''.ico'', ''image/x-icon'')]"

text \<open>\<open>basename\<close> and \<open>extname\<close> of \<open>node:path\<close> on POSIX.\<close>

definition path_basename :: "string \<Rightarrow> string" where
  "path_basename p = (case filter (\<lambda>s. s \<noteq> []) (split_on CHR ''/'' p) of [] \<Rightarrow> [] | ss \<Rightarrow> last ss)"

definition path_extname :: "string \<Rightarrow> string" where
  "path_extname p =
     (let b = path_basename p in
      (case last_index_of CHR ''.'' b of
         Some i \<Rightarrow> if 0 < i \<and> b \<noteq> ''..'' then drop i b else []
       | None \<Rightarrow> []))"

definition content_type_of :: "string \<Rightarrow> string" where
  "content_type_of path =
     (case map_of MIME_TYPES (to_lower (path_extname path)) of Some t \<Rightarrow> t | None \<Rightarrow> ''application/octet-stream'')"

definition fileErrorResponse :: "reply \<Rightarrow> nat \<Rightarrow> resp" where
  "fileErrorResponse r status =
     \<lparr>rsStatus = int status,
      rsHeaders = build_headers r [(''content-type'', ''application/json; charset=utf-8'')],
      rsBody = JsonBody (JObj
        [(''error'', JStr (if status = 403 then ''Forbidden'' else ''Not Found'')), (''statusCode'', JNum (of_nat status)),
         (''code'', JStr (if status = 403 then ''FORBIDDEN'' else ''NOT_FOUND''))]),
      rsFast = False\<rparr>"

definition reply_sendFile ::
    "(string \<Rightarrow> string option) \<Rightarrow> (string \<Rightarrow> bool \<Rightarrow> open_result) \<Rightarrow> string \<Rightarrow> string \<Rightarrow> string option \<Rightarrow> bool \<Rightarrow>
     reply \<Rightarrow> resp \<times> reply" where
  "reply_sendFile realpath opn cwd filePath r allowSymlinks rp =
     (case readConfinedFile realpath opn cwd filePath r allowSymlinks of
        Refused n \<Rightarrow> fileErrorResponse rp n
      | Confined (bytes, path) \<Rightarrow>
          \<lparr>rsStatus = rpStatus rp,
           rsHeaders = build_headers rp (spread [(''content-type'', content_type_of path)] (rpHeaders rp)),
           rsBody = BytesBody bytes, rsFast = False\<rparr>,
      rp\<lparr>rpSent := True\<rparr>)"

text \<open>\<open>None\<close>: the name cannot be encoded, and the exception reaches the caller.\<close>

definition reply_download ::
    "(string \<Rightarrow> string option) \<Rightarrow> (string \<Rightarrow> bool \<Rightarrow> open_result) \<Rightarrow> string \<Rightarrow> string \<Rightarrow> string option \<Rightarrow> string option \<Rightarrow> bool \<Rightarrow>
     reply \<Rightarrow> resp option \<times> reply" where
  "reply_download realpath opn cwd filePath filename r allowSymlinks rp =
     (case readConfinedFile realpath opn cwd filePath r allowSymlinks of
        Refused n \<Rightarrow> Some (fileErrorResponse rp n)
      | Confined (bytes, path) \<Rightarrow>
          (let downloadName = path_basename (case filename of Some f \<Rightarrow> f | None \<Rightarrow> path_basename path) in
           map_option (\<lambda>cd.
             \<lparr>rsStatus = rpStatus rp,
              rsHeaders = build_headers rp
                (spread [(''content-type'', content_type_of path), (''content-disposition'', cd)] (rpHeaders rp)),
              rsBody = BytesBody bytes, rsFast = False\<rparr>) (contentDisposition downloadName)),
      rp\<lparr>rpSent := True\<rparr>)"

section \<open>Carrying the reply onto a response\<close>

text \<open>The loop of \<open>unionVary\<close>: \<open>None\<close> when it returns \<open>*\<close> at once.\<close>

fun vary_loop :: "string list \<Rightarrow> string list \<Rightarrow> string \<Rightarrow> string" where
  "vary_loop [] seen result = result"
| "vary_loop (raw # rest) seen result =
     (let token = trim raw in
      if token = [] then vary_loop rest seen result
      else if token = ''*'' then ''*''
      else if to_lower token \<in> set seen then vary_loop rest seen result
      else vary_loop rest (to_lower token # seen) (if trim result = [] then token else result @ '', '' @ token))"

definition vary_tokens :: "string \<Rightarrow> string list" where
  "vary_tokens s = filter (\<lambda>t. t \<noteq> []) (map trim (split_on CHR '','' s))"

definition unionVary :: "string \<Rightarrow> string \<Rightarrow> string" where
  "unionVary current extra =
     (let seen = map to_lower (vary_tokens current) in
      if ''*'' \<in> set seen then current else vary_loop (split_on CHR '','' extra) seen current)"

text \<open>The loop over the reply's headers; \<open>merged\<close> is the copy of the response's headers, once there is one.\<close>

fun merge_headers :: "header_map \<Rightarrow> (string, string) omap option \<Rightarrow> (string, string) omap \<Rightarrow> header_map option \<Rightarrow> header_map option" where
  "merge_headers own shown [] merged = merged"
| "merge_headers own shown ((key, v) # rest) merged =
     (let name = to_lower key; h = (case merged of None \<Rightarrow> own | Some m \<Rightarrow> m) in
      merge_headers own shown rest
        (if name = ''set-cookie'' then merged
         else (case headers_get name h of
             None \<Rightarrow> Some (headers_set name v h)
           | Some current \<Rightarrow>
               if current = v then merged
               else if name = ''vary'' then
                 (let u = unionVary current v in if u \<noteq> current then Some (headers_set name u h) else merged)
               else if (case shown of None \<Rightarrow> False | Some sh \<Rightarrow> map_of sh key = Some current) then Some (headers_set name v h)
               else merged)))"

fun merge_cookies :: "header_map \<Rightarrow> string list \<Rightarrow> string list \<Rightarrow> header_map option \<Rightarrow> header_map option" where
  "merge_cookies own [] present merged = merged"
| "merge_cookies own (c # cs) present merged =
     (if c \<in> set present then merge_cookies own cs present merged
      else merge_cookies own cs (present @ [c])
             (Some (headers_append ''set-cookie'' c (case merged of None \<Rightarrow> own | Some m \<Rightarrow> m))))"

definition mergeReplyIntoResponse :: "resp \<Rightarrow> reply \<Rightarrow> (string, string) omap option \<Rightarrow> resp" where
  "mergeReplyIntoResponse r rp shown =
     (let own = rsHeaders r;
          merged = merge_headers own shown (rpHeaders rp) None;
          pending = (case map_of (rpHeaders rp) ''set-cookie'' of Some c \<Rightarrow> c # rpCookies rp | None \<Rightarrow> rpCookies rp);
          merged2 = merge_cookies own pending (hcookies (case merged of None \<Rightarrow> own | Some m \<Rightarrow> m)) merged
      in (case merged2 of None \<Rightarrow> r | Some h \<Rightarrow> r\<lparr>rsHeaders := h, rsFast := False\<rparr>))"

end
