(* ===== verification/Request.thy ===== *)
theory Request
  imports Reply Router
begin

text \<open>
  The request the handlers see: \<open>packages/core/src/request.ts\<close>.

  \<^item> \<open>web_request\<close> is the platform's \<open>Request\<close> with what adapters put on it: their own
    properties, an \<open>ip\<close> property, and the peer address under its symbol.
  \<^item> \<open>request\<close> is the \<open>CelsianRequest\<close>. The body-reading methods and the signal, which only
    delegate to the platform's request, are left out; \<open>qCookies\<close> is the value of the lazy \<open>cookies\<close> property
    where it is defined, \<open>qProps\<close> are the other own properties.
  \<^item> \<open>URLSearchParams\<close> is a parameter: the list of pairs a query string stands for.
\<close>

section \<open>Requests\<close>

record 'v web_request =
  wMethod :: methd
  wUrl :: string
  wHeaders :: header_map
  wCustom :: "(string, 'v) omap"
  wIp :: "string option"
  wPeer :: "string option"

datatype query_value = One string | Many "string list"

type_synonym query = "(string, query_value) omap"

datatype 'f parsed_body = ParsedJson json | ParsedText string | ParsedForm 'f

record ('v, 'f) request =
  qMethod :: methd
  qUrl :: string
  qHeaders :: header_map
  qParams :: params
  qQuery :: query
  qBody :: "'f parsed_body option"
  qIp :: "string option"
  qCookies :: "(string, ustring) omap option"
  qProps :: "(string, 'v) omap"

section \<open>The client address\<close>

text \<open>\<open>undefined\<close>, \<open>null\<close> and the empty string are ignored.\<close>

definition setRemoteAddress :: "string option \<Rightarrow> 'v web_request \<Rightarrow> 'v web_request" where
  "setRemoteAddress address w =
     (case address of
        None \<Rightarrow> w
      | Some a \<Rightarrow> if a = [] then w else w\<lparr>wPeer := Some a\<rparr>)"

text \<open>The second argument of a fetch handler: no object, an object with \<open>requestIP\<close> (which may throw,
  or give something without a string address), one with an object \<open>remoteAddr\<close>, or another.\<close>

datatype serve_context =
    NotAnObject
  | BunServer "string option option"
  | DenoInfo "string option"
  | OtherObject

fun remoteAddressFromServeContext :: "serve_context \<Rightarrow> string option" where
  "remoteAddressFromServeContext NotAnObject = None"
| "remoteAddressFromServeContext (BunServer (Some address)) = address"
| "remoteAddressFromServeContext (BunServer None) = None"
| "remoteAddressFromServeContext (DenoInfo hostname) = hostname"
| "remoteAddressFromServeContext OtherObject = None"

definition is_hex :: "char \<Rightarrow> bool" where
  "is_hex c = (is_digit c \<or> c \<in> set ''abcdefABCDEF'')"

definition looksLikeIp :: "string \<Rightarrow> bool" where
  "looksLikeIp v =
     (length v \<le> 45 \<and> v \<noteq> [] \<and> list_all (\<lambda>c. is_hex c \<or> c = CHR '':'' \<or> c = CHR ''.'') v
      \<and> (includes_str v ''.'' \<or> includes_str v '':''))"

record client_ip =
  ciHeader :: string
  ciHops :: "int option"

definition resolveClientIp :: "'v web_request \<Rightarrow> client_ip option \<Rightarrow> string option" where
  "resolveClientIp w opt =
     (case opt of
        None \<Rightarrow> wPeer w
      | Some ci \<Rightarrow>
          (case headers_get (ciHeader ci) (wHeaders w) of
             None \<Rightarrow> wPeer w
           | Some raw \<Rightarrow>
               (let entries = split_on CHR '','' raw;
                    i = int (length entries) - (case ciHops ci of None \<Rightarrow> 1 | Some h \<Rightarrow> h)
                in if 0 \<le> i \<and> i < int (length entries) \<and> looksLikeIp (trim (entries ! nat i))
                   then Some (trim (entries ! nat i)) else wPeer w)))"

section \<open>The URL the client addressed\<close>

definition is_alnum :: "char \<Rightarrow> bool" where
  "is_alnum c = (let n = (of_char c :: nat) in is_digit c \<or> (65 \<le> n \<and> n \<le> 90) \<or> (97 \<le> n \<and> n \<le> 122))"

text \<open>The two alternatives of \<open>SAFE_AUTHORITY\<close> for the host, and the optional port of one to five digits.\<close>

definition safe_host :: "string \<Rightarrow> bool" where
  "safe_host h =
     (h \<noteq> [] \<and> list_all (\<lambda>c. is_alnum c \<or> c \<in> set ''._-'') h
      \<or> (2 < length h \<and> hd h = CHR ''['' \<and> last h = CHR '']''
         \<and> list_all (\<lambda>c. is_hex c \<or> c = CHR '':'' \<or> c = CHR ''.'') (butlast (tl h))))"

definition safe_authority :: "string \<Rightarrow> bool" where
  "safe_authority a =
     (safe_host a \<or>
      (case last_index_of CHR '':'' a of
         None \<Rightarrow> False
       | Some i \<Rightarrow>
           (let port = drop (Suc i) a in
            safe_host (take i a) \<and> port \<noteq> [] \<and> length port \<le> 5 \<and> list_all is_digit port)))"

definition safe_scheme :: "string \<Rightarrow> bool" where
  "safe_scheme s =
     (s \<noteq> [] \<and> is_alnum (hd s) \<and> \<not> is_digit (hd s) \<and> list_all (\<lambda>c. is_alnum c \<or> c \<in> set ''+.-'') (tl s))"

record trust_options =
  trustProxy :: bool
  trustedHosts :: "string list option"
  clientIp :: "client_ip option"

text \<open>\<open>headers.get(name)?.split(",", 1)[0]?.trim()\<close>\<close>

definition first_entry :: "string \<Rightarrow> header_map \<Rightarrow> string option" where
  "first_entry name h = map_option (\<lambda>v. trim (hd (split_on CHR '','' v))) (headers_get name h)"

text \<open>The scheme and the authority the headers ask for, given those of the transport.\<close>

definition next_scheme :: "header_map \<Rightarrow> trust_options \<Rightarrow> string \<Rightarrow> string" where
  "next_scheme hdrs options scheme =
     (if \<not> trustProxy options then scheme
      else (case first_entry ''x-forwarded-proto'' hdrs of
          Some p \<Rightarrow> if safe_scheme p then p else scheme
        | None \<Rightarrow> scheme))"

definition next_authority :: "header_map \<Rightarrow> trust_options \<Rightarrow> string \<Rightarrow> string" where
  "next_authority hdrs options authority =
     (let a1 = (case headers_get ''host'' hdrs of
                  Some h \<Rightarrow> if safe_authority h then h else authority
                | None \<Rightarrow> authority)
      in if \<not> trustProxy options then a1
         else (case first_entry ''x-forwarded-host'' hdrs of
             Some h \<Rightarrow>
               if safe_authority h \<and> (case trustedHosts options of None \<Rightarrow> False | Some hs \<Rightarrow> h \<in> set hs)
               then h else a1
           | None \<Rightarrow> a1))"

definition applyForwardedAuthority :: "string \<Rightarrow> int \<Rightarrow> nat \<Rightarrow> header_map \<Rightarrow> trust_options \<Rightarrow> string" where
  "applyForwardedAuthority rawUrl authorityStart authorityEnd hdrs options =
     (if authorityStart < 3 then rawUrl
      else
        (let start = nat authorityStart;
             authority = take (authorityEnd - start) (drop start rawUrl);
             scheme = take (start - 3) rawUrl;
             nextAuthority = next_authority hdrs options authority;
             nextScheme = next_scheme hdrs options scheme
         in if nextAuthority = authority \<and> nextScheme = scheme then rawUrl
            else nextScheme @ ''://'' @ nextAuthority @ drop authorityEnd rawUrl))"

text \<open>The position of \<open>://\<close>, and the end of the authority after it.\<close>

fun find_str :: "string \<Rightarrow> string \<Rightarrow> nat option" where
  "find_str p [] = (if p = [] then Some 0 else None)"
| "find_str p (c # s) = (if starts_with (c # s) p then Some 0 else map_option Suc (find_str p s))"

definition resolveEffectiveUrl :: "string \<Rightarrow> header_map \<Rightarrow> trust_options \<Rightarrow> string" where
  "resolveEffectiveUrl rawUrl hdrs options =
     (case find_str ''://'' rawUrl of
        None \<Rightarrow> rawUrl
      | Some i \<Rightarrow>
          (let start = i + 3;
               len = length (takeWhile (\<lambda>c. c \<notin> set ''/?#'') (drop start rawUrl))
           in applyForwardedAuthority rawUrl (int start) (start + len) hdrs options))"

section \<open>Building the request\<close>

text \<open>The blocked keys of a query are those of a cookie header (\<open>BLOCKED_KEYS\<close>, declared once per file).\<close>

definition add_query :: "string \<times> string \<Rightarrow> query \<Rightarrow> query" where
  "add_query kv q =
     (if fst kv \<in> set BLOCKED_KEYS then q
      else AList.update (fst kv)
        (case map_of q (fst kv) of
           None \<Rightarrow> One (snd kv)
         | Some (One v) \<Rightarrow> Many [v, snd kv]
         | Some (Many vs) \<Rightarrow> Many (vs @ [snd kv])) q)"

definition build_query :: "(string \<times> string) list \<Rightarrow> query" where
  "build_query pairs = fold add_query pairs []"

text \<open>The names a request has by itself: own properties, and for the fast wrapper those of its prototypes.\<close>

definition own_names :: "string list" where
  "own_names = [''headers'', ''method'', ''url'', ''signal'', ''params'', ''query'', ''parsedBody'',
     ''json'', ''text'', ''formData'', ''arrayBuffer'', ''blob'', ''clone'', ''body'', ''bodyUsed'']"

definition object_names :: "string list" where
  "object_names = [''constructor'', ''toString'', ''toLocaleString'', ''valueOf'', ''hasOwnProperty'', ''isPrototypeOf'',
     ''propertyIsEnumerable'', ''__proto__'', ''__defineGetter__'', ''__defineSetter__'', ''__lookupGetter__'', ''__lookupSetter__'']"

text \<open>Copying the adapter's properties; \<open>ip\<close> among them has a field of its own.\<close>

definition copy_custom :: "string list \<Rightarrow> (string, 'v) omap \<Rightarrow> (string, 'v) omap" where
  "copy_custom names custom = filter (\<lambda>(k, v). k \<notin> set names) custom"

definition buildRequest :: "'v web_request \<Rightarrow> string \<Rightarrow> (string \<times> string) list \<Rightarrow> params \<Rightarrow> ('v, 'f) request" where
  "buildRequest w href pairs ps =
     \<lparr>qMethod = wMethod w, qUrl = href, qHeaders = wHeaders w, qParams = ps, qQuery = build_query pairs,
      qBody = None, qIp = wIp w, qCookies = None, qProps = copy_custom own_names (wCustom w)\<rparr>"

definition buildRequestFast ::
    "(string \<Rightarrow> (string \<times> string) list) \<Rightarrow> 'v web_request \<Rightarrow> string \<Rightarrow> params \<Rightarrow> string \<Rightarrow> ('v, 'f) request" where
  "buildRequestFast searchParams w queryString ps effectiveUrl =
     \<lparr>qMethod = wMethod w, qUrl = effectiveUrl, qHeaders = wHeaders w, qParams = ps,
      qQuery = (if queryString = [] then [] else build_query (searchParams queryString)),
      qBody = None, qIp = wIp w, qCookies = None, qProps = copy_custom (own_names @ object_names) (wCustom w)\<rparr>"

section \<open>Properties\<close>

definition url_delims :: string where
  "url_delims = ''/?#@% '' @ [CHR 0x5C]"

definition auth_char :: "char \<Rightarrow> bool" where
  "auth_char c = (is_alnum c \<or> c \<in> set ''.:[]_-'')"

lemma safe_host_chars:
  assumes "safe_host h" and "c \<in> set h"
  shows "auth_char c"
proof -
  have "list_all is_alnum ''abcdefABCDEF''" by code_simp
  then have letters: "\<forall>c \<in> set ''abcdefABCDEF''. is_alnum c" by (simp only: list_all_iff)
  have digits: "is_digit c \<Longrightarrow> is_alnum c" for c by (simp add: is_alnum_def Let_def)
  have hex: "is_hex c \<Longrightarrow> auth_char c" for c
    unfolding is_hex_def auth_char_def using letters digits by blast
  consider "list_all (\<lambda>c. is_alnum c \<or> c \<in> set ''._-'') h"
    | "2 < length h" "hd h = CHR ''[''" "last h = CHR '']''" "list_all (\<lambda>c. is_hex c \<or> c = CHR '':'' \<or> c = CHR ''.'') (butlast (tl h))"
    using assms(1) by (auto simp: safe_host_def)
  then show ?thesis
  proof cases
    case 1
    then show ?thesis using assms(2) by (auto simp: list_all_iff auth_char_def)
  next
    case 2
    obtain x xs where h: "h = x # xs" using 2(1) by (cases h) auto
    then have l: "xs \<noteq> []" "last xs = CHR '']''" "x = CHR ''[''" using 2(1-3) by (auto split: if_splits)
    have "set (butlast xs @ [last xs]) = set xs" using l(1) by simp
    then have "c = x \<or> c \<in> set (butlast xs) \<or> c = last xs" using assms(2) h by (simp only: set_append list.set) blast
    moreover have "auth_char CHR ''['' \<and> auth_char CHR '']'' \<and> auth_char CHR '':'' \<and> auth_char CHR ''.''" by code_simp
    moreover have "\<forall>c \<in> set (butlast xs). is_hex c \<or> c = CHR '':'' \<or> c = CHR ''.''" using 2(4) h by (simp add: list_all_iff)
    ultimately show ?thesis using hex l by metis
  qed
qed

lemma safe_authority_chars:
  assumes "safe_authority a" and "c \<in> set a"
  shows "auth_char c"
proof (cases "safe_host a")
  case True
  then show ?thesis using safe_host_chars assms(2) by blast
next
  case False
  then obtain i where i: "last_index_of CHR '':'' a = Some i" "safe_host (take i a)" "list_all is_digit (drop (Suc i) a)"
    using assms(1) by (auto simp: safe_authority_def Let_def split: option.splits)
  have "i < length a \<and> a ! i = CHR '':''" using i(1)
    by (induction a arbitrary: i) (auto split: option.splits if_splits)
  then have "set a = set (take i a) \<union> {CHR '':''} \<union> set (drop (Suc i) a)"
    using id_take_nth_drop [of i a] by (metis Un_commute Un_insert_left Un_insert_right list.simps(15) set_append sup_bot.right_neutral)
  then show ?thesis
    using assms(2) safe_host_chars [OF i(2)] i(3) by (auto simp: list_all_iff auth_char_def is_alnum_def Let_def)
qed

lemma next_scheme_cases:
  "next_scheme h opts scheme = scheme \<or>
   (trustProxy opts \<and> safe_scheme (next_scheme h opts scheme)
    \<and> first_entry ''x-forwarded-proto'' h = Some (next_scheme h opts scheme))"
  by (simp add: next_scheme_def split: option.splits)

lemma next_authority_cases:
  "next_authority h opts a = a \<or>
   (safe_authority (next_authority h opts a) \<and>
     (headers_get ''host'' h = Some (next_authority h opts a) \<or>
      (trustProxy opts \<and> first_entry ''x-forwarded-host'' h = Some (next_authority h opts a)
        \<and> (\<exists>hs. trustedHosts opts = Some hs \<and> next_authority h opts a \<in> set hs))))"
  by (simp add: next_authority_def Let_def split: option.splits)

text \<open>
  C15.
  Host-header injection is not possible: the URL of a request is the one of the transport, or differs in
  authority and scheme only. Another authority is one a URL parser cannot read as user name, path or
  query, and comes from the \<open>Host\<close> header or, behind a trusted proxy, from the list of trusted hosts;
  another scheme needs a trusted proxy.
\<close>

theorem effective_url_guarded:
  "(applyForwardedAuthority raw s e h opts = raw \<or>
    (\<exists>scheme auth. applyForwardedAuthority raw s e h opts = scheme @ ''://'' @ auth @ drop e raw
      \<and> (auth = take (e - nat s) (drop (nat s) raw) \<or>
         (safe_authority auth \<and>
          (headers_get ''host'' h = Some auth \<or>
           (trustProxy opts \<and> first_entry ''x-forwarded-host'' h = Some auth \<and> (\<exists>hs. trustedHosts opts = Some hs \<and> auth \<in> set hs)))))
      \<and> (scheme = take (nat s - 3) raw \<or>
         (trustProxy opts \<and> safe_scheme scheme \<and> first_entry ''x-forwarded-proto'' h = Some scheme))))
   \<and> {c. \<exists>auth. safe_authority auth \<and> c \<in> set auth} \<inter> set url_delims = {}"
proof (intro conjI)
  show "applyForwardedAuthority raw s e h opts = raw \<or>
    (\<exists>scheme auth. applyForwardedAuthority raw s e h opts = scheme @ ''://'' @ auth @ drop e raw
      \<and> (auth = take (e - nat s) (drop (nat s) raw) \<or>
         (safe_authority auth \<and>
          (headers_get ''host'' h = Some auth \<or>
           (trustProxy opts \<and> first_entry ''x-forwarded-host'' h = Some auth \<and> (\<exists>hs. trustedHosts opts = Some hs \<and> auth \<in> set hs)))))
      \<and> (scheme = take (nat s - 3) raw \<or>
         (trustProxy opts \<and> safe_scheme scheme \<and> first_entry ''x-forwarded-proto'' h = Some scheme)))"
    using next_scheme_cases [of h opts "take (nat s - 3) raw"] next_authority_cases [of h opts "take (e - nat s) (drop (nat s) raw)"]
    unfolding applyForwardedAuthority_def Let_def by (auto split del: option.splits)
  have "list_all (\<lambda>c. \<not> auth_char c) url_delims" by code_simp
  then have "\<forall>c \<in> set url_delims. \<not> auth_char c" by (simp only: list_all_iff)
  then show "{c. \<exists>auth. safe_authority auth \<and> c \<in> set auth} \<inter> set url_delims = {}"
    using safe_authority_chars by blast
qed

text \<open>
  What the client writes into the forwarding header does not matter: behind as many proxies as
  configured, the address is the entry the outermost of them has appended.
\<close>

lemma client_ip_from_proxy:
  assumes "headers_get (ciHeader ci) (wHeaders w) = Some (forged @ '','' @ join '','' entries)"
    and "ciHops ci = Some (int (length entries))" and "\<And>x. x \<in> set entries \<Longrightarrow> CHR '','' \<notin> set x" and "entries \<noteq> []"
  shows "resolveClientIp w (Some ci) = (if looksLikeIp (trim (hd entries)) then Some (trim (hd entries)) else wPeer w)"
proof -
  have "split_on CHR '','' (forged @ '','' @ join '','' entries) = split_on CHR '','' forged @ entries"
    using split_append [of "CHR '',''" forged "join '','' entries"] split_join [of entries "CHR '',''"] assms(3,4) by simp
  moreover have "(split_on CHR '','' forged @ entries) ! length (split_on CHR '','' forged) = hd entries"
    using assms(4) by (simp add: nth_append hd_conv_nth)
  ultimately show ?thesis using assms by (simp add: resolveClientIp_def Let_def)
qed

text \<open>No key of a query reaches a prototype.\<close>

lemma build_query_keys: "set (keys_of (build_query pairs)) \<inter> set BLOCKED_KEYS = {}"
proof -
  have "set (keys_of q) \<inter> set BLOCKED_KEYS = {} \<Longrightarrow> set (keys_of (fold add_query pairs q)) \<inter> set BLOCKED_KEYS = {}" for q
    by (induction pairs arbitrary: q) (auto simp: add_query_def dom_update)
  then show ?thesis by (simp add: build_query_def)
qed

end
