(* ===== verification/Body_Parser.thy ===== *)
theory Body_Parser
  imports Request
begin

text \<open>
  Body parsing with size limits: \<open>packages/core/src/body-parser.ts\<close>.

  \<^item> A body is the list of chunks its stream delivers, and the error it may end with (message
    and stack); \<open>None\<close> is a request without a body.
  \<^item> Parameters: \<open>dec\<close> is \<open>TextDecoder\<close>, \<open>js_parse\<close> is \<open>JSON.parse\<close>, \<open>form\<close> is \<open>Request.formData\<close> for a
    content type and the bytes. The stack of an \<open>HttpError\<close> is what the runtime attaches.
  \<^item> A custom parser gets the request and the body it may read.
\<close>

type_synonym thrown = "string \<times> string"

record body_stream =
  chunks :: "nat list list"
  failure :: "thrown option"

type_synonym web_body = "body_stream option"

type_synonym ('v, 'f) body_parser = "('v, 'f) request \<Rightarrow> web_body \<Rightarrow> js_error + 'f parsed_body"

definition as_error :: "thrown \<Rightarrow> js_error" where
  "as_error t = OtherErr (fst t) None (Some (snd t))"

definition payloadTooLarge :: "string option \<Rightarrow> int \<Rightarrow> int \<Rightarrow> js_error" where
  "payloadTooLarge stk limit actual =
     HttpErr (mkHttpError 413
       (Some (''Payload Too Large: request body exceeds the '' @ show_int limit @ '' byte limit (received at least ''
         @ show_int actual @ '' bytes). Raise it with createApp({ bodyLimit: <bytes> }) or lower the payload size.''))
       None None stk)"

section \<open>Prototype pollution\<close>

fun scrubPrototypePollution :: "json \<Rightarrow> json" where
  "scrubPrototypePollution (JArr vs) = JArr (map scrubPrototypePollution vs)"
| "scrubPrototypePollution (JObj ps) =
     JObj (concat (map (\<lambda>(k, v). if k \<in> set BLOCKED_KEYS then [] else [(k, scrubPrototypePollution v)]) ps))"
| "scrubPrototypePollution v = v"

section \<open>Reading with a limit\<close>

text \<open>The \<open>content-length\<close> test of both readers.\<close>

definition declared_too_large :: "header_map \<Rightarrow> int \<Rightarrow> int option" where
  "declared_too_large h limit =
     (case headers_get ''content-length'' h of
        None \<Rightarrow> None
      | Some s \<Rightarrow>
          if s = [] then None
          else (case parse_int s of None \<Rightarrow> None | Some n \<Rightarrow> if limit < n then Some n else None))"

text \<open>The reading loop: the bytes so far, and the chunks to come.\<close>

fun read_capped :: "string option \<Rightarrow> int \<Rightarrow> nat list \<Rightarrow> nat list list \<Rightarrow> thrown option \<Rightarrow> js_error + nat list" where
  "read_capped stk limit acc [] fl = (case fl of None \<Rightarrow> Inr acc | Some t \<Rightarrow> Inl (as_error t))"
| "read_capped stk limit acc (c # cs) fl =
     (let total = int (length acc + length c) in
      if limit < total then Inl (payloadTooLarge stk limit total)
      else read_capped stk limit (acc @ c) cs fl)"

definition read_all :: "web_body \<Rightarrow> js_error + nat list" where
  "read_all b =
     (case b of
        None \<Rightarrow> Inr []
      | Some s \<Rightarrow> (case failure s of None \<Rightarrow> Inr (concat (chunks s)) | Some t \<Rightarrow> Inl (as_error t)))"

definition readBodyText :: "(nat list \<Rightarrow> string) \<Rightarrow> string option \<Rightarrow> header_map \<Rightarrow> web_body \<Rightarrow> int \<Rightarrow> js_error + string" where
  "readBodyText dec stk h b limit =
     (case declared_too_large h limit of
        Some n \<Rightarrow> Inl (payloadTooLarge stk limit n)
      | None \<Rightarrow>
          map_sum id dec
            (case b of
               None \<Rightarrow> read_all b
             | Some s \<Rightarrow> if limit \<le> 0 then read_all b else read_capped stk limit [] (chunks s) (failure s)))"

definition readBodyBytes :: "string option \<Rightarrow> header_map \<Rightarrow> web_body \<Rightarrow> int \<Rightarrow> js_error + nat list" where
  "readBodyBytes stk h b limit =
     (case declared_too_large h limit of
        Some n \<Rightarrow> Inl (payloadTooLarge stk limit n)
      | None \<Rightarrow>
          (case b of
             None \<Rightarrow> if limit < 0 then Inl (payloadTooLarge stk limit 0) else Inr []
           | Some s \<Rightarrow> read_capped stk limit [] (chunks s) (failure s)))"

definition parseFormData ::
    "(string \<Rightarrow> nat list \<Rightarrow> thrown + 'f) \<Rightarrow> string option \<Rightarrow> header_map \<Rightarrow> web_body \<Rightarrow> int \<Rightarrow> js_error + 'f" where
  "parseFormData form stk h b bodyLimit =
     (let contentType = (case headers_get ''content-type'' h of None \<Rightarrow> [] | Some c \<Rightarrow> c) in
      (case (if bodyLimit \<le> 0 then read_all b else readBodyBytes stk h b bodyLimit) of
         Inl e \<Rightarrow> Inl e
       | Inr bytes \<Rightarrow> map_sum as_error id (form contentType bytes)))"

definition capRequestBody :: "string option \<Rightarrow> header_map \<Rightarrow> web_body \<Rightarrow> int \<Rightarrow> js_error + web_body" where
  "capRequestBody stk h b bodyLimit =
     (if bodyLimit \<le> 0 then Inr b
      else map_sum id (\<lambda>bytes. Some \<lparr>chunks = [bytes], failure = None\<rparr>) (readBodyBytes stk h b bodyLimit))"

section \<open>parseBody\<close>

text \<open>The handlers around the JSON branch and around all of them: an \<open>HttpError\<close> passes, another error
  becomes a 400.\<close>

fun message_of :: "js_error \<Rightarrow> string \<times> string" where
  "message_of (HttpErr e) = (emessage e, [])"
| "message_of (ValidationErr v) = (vmessage v, [])"
| "message_of (OtherErr m c s) = (m, case s of None \<Rightarrow> [] | Some t \<Rightarrow> t)"

fun as_bad_request :: "string \<Rightarrow> string \<Rightarrow> string option \<Rightarrow> js_error \<Rightarrow> js_error" where
  "as_bad_request msg code stk (HttpErr e) = HttpErr e"
| "as_bad_request msg code stk e =
     HttpErr (mkHttpError 400 (Some (msg @ fst (message_of e))) (Some code) (Some (message_of e)) stk)"

definition find_parser :: "string \<Rightarrow> (string, 'p) omap \<Rightarrow> 'p option" where
  "find_parser contentType parsers = map_option snd (find (\<lambda>(t, p). contentType = t \<or> starts_with contentType t) parsers)"

definition parse_json_body ::
    "(nat list \<Rightarrow> string) \<Rightarrow> (string \<Rightarrow> thrown + json) \<Rightarrow> string option \<Rightarrow> string \<Rightarrow> header_map \<Rightarrow> web_body \<Rightarrow> int \<Rightarrow>
     js_error + 'f parsed_body option" where
  "parse_json_body dec js_parse stk contentType h b limit =
     map_sum (as_bad_request (''Invalid JSON (content-type: '' @ contentType @ ''): '') ''INVALID_JSON'' stk) id
       (case readBodyText dec stk h b limit of
          Inl e \<Rightarrow> Inl e
        | Inr t \<Rightarrow>
            if trim t = [] then Inr None
            else map_sum as_error (\<lambda>j. Some (ParsedJson (scrubPrototypePollution j))) (js_parse t))"

definition parse_by_type ::
    "(nat list \<Rightarrow> string) \<Rightarrow> (string \<Rightarrow> thrown + json) \<Rightarrow> (string \<Rightarrow> nat list \<Rightarrow> thrown + 'f) \<Rightarrow> string option \<Rightarrow>
     string \<Rightarrow> header_map \<Rightarrow> web_body \<Rightarrow> int \<Rightarrow> js_error + 'f parsed_body option" where
  "parse_by_type dec js_parse form stk contentType h b limit =
     map_sum (as_bad_request (''Failed to parse request body (content-type: '' @ contentType @ ''): '') ''INVALID_BODY'' stk) id
       (if includes_str contentType ''application/json'' then parse_json_body dec js_parse stk contentType h b limit
        else if includes_str contentType ''application/x-www-form-urlencoded'' \<or> includes_str contentType ''multipart/form-data''
        then map_sum id (\<lambda>f. Some (ParsedForm f)) (parseFormData form stk h b limit)
        else if includes_str contentType ''text/'' then map_sum id (\<lambda>t. Some (ParsedText t)) (readBodyText dec stk h b limit)
        else Inr None)"

definition parseBody ::
    "(nat list \<Rightarrow> string) \<Rightarrow> (string \<Rightarrow> thrown + json) \<Rightarrow> (string \<Rightarrow> nat list \<Rightarrow> thrown + 'f) \<Rightarrow> string option \<Rightarrow>
     int \<Rightarrow> (string, ('v, 'f) body_parser) omap \<Rightarrow> web_body \<Rightarrow> ('v, 'f) request \<Rightarrow> (js_error + ('v, 'f) request)" where
  "parseBody dec js_parse form stk bodyLimit parsers b q =
     (let h = qHeaders q; contentType = (case headers_get ''content-type'' h of None \<Rightarrow> [] | Some c \<Rightarrow> c) in
      if qMethod q = GET \<or> qMethod q = HEAD then Inr q
      else (case find_parser contentType parsers of
          Some parser \<Rightarrow>
            (case capRequestBody stk h b bodyLimit of
               Inl e \<Rightarrow> Inl e
             | Inr b' \<Rightarrow> map_sum id (\<lambda>v. q\<lparr>qBody := Some v\<rparr>) (parser q b'))
        | None \<Rightarrow>
            map_sum id (\<lambda>r. case r of None \<Rightarrow> q | Some v \<Rightarrow> q\<lparr>qBody := Some v\<rparr>)
              (parse_by_type dec js_parse form stk contentType h b bodyLimit)))"

end
