(* ===== verification/Context.thy ===== *)
theory Context
  imports Router
begin

text \<open>
  Plugin encapsulation: \<open>packages/core/src/context.ts\<close> with the hook store of
  \<open>packages/core/src/hooks.ts\<close>.

  \<^item> The contexts of an app form a tree of mutable objects that refer to their parent and
    their children. They are kept in a list; a reference is an index into it.
  \<^item> A binding's scope is the set of arrays that \<open>resolveBinding\<close> clears and refills. The
    router holds references to these arrays; here a route's handler carries the index of its
    binding, and the arrays are read through it.
  \<^item> Hooks and handlers are values of type \<open>'h\<close>, decorations values of type \<open>'v\<close>. The names of
    request decorations are strings.
  \<^item> Recursion along parents and children is by fuel. A child is always created after its
    parent, so the number of contexts is enough (\<open>Context_Props\<close>).
\<close>

section \<open>Hook stores\<close>

record 'h hook_store =
  hsOnRequest :: "'h list"
  hsPreParsing :: "'h list"
  hsPreValidation :: "'h list"
  hsPreHandler :: "'h list"
  hsPreSerialization :: "'h list"
  hsOnSend :: "'h list"
  hsOnResponse :: "'h list"
  hsOnError :: "'h list"

definition createHookStore :: "'h hook_store" where
  "createHookStore =
     \<lparr>hsOnRequest = [], hsPreParsing = [], hsPreValidation = [], hsPreHandler = [],
      hsPreSerialization = [], hsOnSend = [], hsOnResponse = [], hsOnError = []\<rparr>"

datatype hook_name = OnRequest | PreParsing | PreValidation | PreHandler | PreSerialization | OnSend | OnResponse | OnError

fun push_hook :: "hook_name \<Rightarrow> 'h \<Rightarrow> 'h hook_store \<Rightarrow> 'h hook_store" where
  "push_hook OnRequest h s = s\<lparr>hsOnRequest := hsOnRequest s @ [h]\<rparr>"
| "push_hook PreParsing h s = s\<lparr>hsPreParsing := hsPreParsing s @ [h]\<rparr>"
| "push_hook PreValidation h s = s\<lparr>hsPreValidation := hsPreValidation s @ [h]\<rparr>"
| "push_hook PreHandler h s = s\<lparr>hsPreHandler := hsPreHandler s @ [h]\<rparr>"
| "push_hook PreSerialization h s = s\<lparr>hsPreSerialization := hsPreSerialization s @ [h]\<rparr>"
| "push_hook OnSend h s = s\<lparr>hsOnSend := hsOnSend s @ [h]\<rparr>"
| "push_hook OnResponse h s = s\<lparr>hsOnResponse := hsOnResponse s @ [h]\<rparr>"
| "push_hook OnError h s = s\<lparr>hsOnError := hsOnError s @ [h]\<rparr>"

section \<open>Contexts, scopes and the registry\<close>

type_synonym cid = nat

record ('h, 'v) ctx =
  parent :: "cid option"
  cprefix :: string
  transparent :: bool
  kids :: "cid list"
  chooks :: "'h hook_store"
  decorations :: "(string, 'v) omap"
  requestDecorations :: "(string, 'v) omap"
  replyDecorations :: "(string, 'v) omap"

record ('h, 'v) scope =
  shooks :: "'h hook_store"
  sRequestDecorations :: "(string, 'v) omap"
  sReplyDecorations :: "(string, 'v) omap"

definition createScope :: "('h, 'v) scope" where
  "createScope = \<lparr>shooks = createHookStore, sRequestDecorations = [], sReplyDecorations = []\<rparr>"

text \<open>\<open>LocalHooks\<close>: the hooks of one route.\<close>

definition emptyLocalHooks :: "'h route_hooks" where
  "emptyLocalHooks = \<lparr>onRequest = [], preHandler = [], preSerialization = [], onSend = []\<rparr>"

record ('h, 'v) binding =
  bctx :: cid
  blocal :: "'h route_hooks"
  bscope :: "('h, 'v) scope"

type_synonym ('h, 'v) contexts = "('h, 'v) ctx list"

record ('h, 'v, 'x) app_ctx =
  ctxs :: "('h, 'v) contexts"
  dirty :: bool
  bindings :: "('h, 'v) binding list"
  crouter :: "('h \<times> nat, 'x) router"

section \<open>Resolving a scope\<close>

text \<open>The chain from a context up to the root.\<close>

fun chain_up :: "nat \<Rightarrow> ('h, 'v) contexts \<Rightarrow> cid \<Rightarrow> cid list" where
  "chain_up 0 cs c = []"
| "chain_up (Suc n) cs c = c # (case parent (cs ! c) of None \<Rightarrow> [] | Some p \<Rightarrow> chain_up n cs p)"

text \<open>The loop of \<open>collectTransparent\<close> over children, with \<open>seen\<close> and \<open>out\<close>.\<close>

fun collectTransparent :: "nat \<Rightarrow> ('h, 'v) contexts \<Rightarrow> cid list \<Rightarrow> cid set \<times> cid list \<Rightarrow> cid set \<times> cid list" where
  "collectTransparent 0 cs ks st = st"
| "collectTransparent (Suc n) cs ks st =
     fold (\<lambda>k (seen, out).
       if \<not> transparent (cs ! k) \<or> k \<in> seen then (seen, out)
       else collectTransparent n cs (kids (cs ! k)) (insert k seen, out @ [k])) ks st"

definition collectScopeContexts :: "('h, 'v) contexts \<Rightarrow> cid \<Rightarrow> cid list" where
  "collectScopeContexts cs leaf =
     (let chain = rev (chain_up (length cs) cs leaf) in
      snd (fold (\<lambda>c (seen, out). collectTransparent (length cs) cs (kids (cs ! c)) (seen, out @ [c])) chain (set chain, [])))"

text \<open>The body of the loop of \<open>resolveBinding\<close> over the contexts.\<close>

definition append_store :: "'h hook_store \<Rightarrow> 'h hook_store \<Rightarrow> 'h hook_store" where
  "append_store t s =
     \<lparr>hsOnRequest = hsOnRequest t @ hsOnRequest s, hsPreParsing = hsPreParsing t @ hsPreParsing s,
      hsPreValidation = hsPreValidation t @ hsPreValidation s, hsPreHandler = hsPreHandler t @ hsPreHandler s,
      hsPreSerialization = hsPreSerialization t @ hsPreSerialization s, hsOnSend = hsOnSend t @ hsOnSend s,
      hsOnResponse = hsOnResponse t @ hsOnResponse s, hsOnError = hsOnError t @ hsOnError s\<rparr>"

definition set_all :: "(string, 'v) omap \<Rightarrow> (string, 'v) omap \<Rightarrow> (string, 'v) omap" where
  "set_all source target = fold (\<lambda>(k, v). AList.update k v) source target"

definition add_context :: "('h, 'v) ctx \<Rightarrow> ('h, 'v) scope \<Rightarrow> ('h, 'v) scope" where
  "add_context c s =
     \<lparr>shooks = append_store (shooks s) (chooks c),
      sRequestDecorations = set_all (requestDecorations c) (sRequestDecorations s),
      sReplyDecorations = set_all (replyDecorations c) (sReplyDecorations s)\<rparr>"

definition add_local :: "'h route_hooks \<Rightarrow> 'h hook_store \<Rightarrow> 'h hook_store" where
  "add_local l s =
     s\<lparr>hsOnRequest := hsOnRequest s @ onRequest l, hsPreHandler := hsPreHandler s @ preHandler l,
       hsPreSerialization := hsPreSerialization s @ preSerialization l, hsOnSend := hsOnSend s @ onSend l\<rparr>"

definition resolved_scope :: "('h, 'v) contexts \<Rightarrow> cid \<Rightarrow> 'h route_hooks \<Rightarrow> ('h, 'v) scope" where
  "resolved_scope cs leaf l =
     (let s = fold (\<lambda>c. add_context (cs ! c)) (collectScopeContexts cs leaf) createScope
      in s\<lparr>shooks := add_local l (shooks s)\<rparr>)"

definition resolveBinding :: "('h, 'v) contexts \<Rightarrow> ('h, 'v) binding \<Rightarrow> ('h, 'v) binding" where
  "resolveBinding cs b = b\<lparr>bscope := resolved_scope cs (bctx b) (blocal b)\<rparr>"

section \<open>The scope registry\<close>

definition register_binding :: "('h, 'v) binding \<Rightarrow> ('h, 'v, 'x) app_ctx \<Rightarrow> ('h, 'v, 'x) app_ctx" where
  "register_binding b s = s\<lparr>bindings := bindings s @ [b], dirty := True\<rparr>"

definition invalidate :: "('h, 'v, 'x) app_ctx \<Rightarrow> ('h, 'v, 'x) app_ctx" where
  "invalidate s = s\<lparr>dirty := True\<rparr>"

definition flush :: "('h, 'v, 'x) app_ctx \<Rightarrow> ('h, 'v, 'x) app_ctx" where
  "flush s = (if \<not> dirty s then s else s\<lparr>dirty := False, bindings := map (resolveBinding (ctxs s)) (bindings s)\<rparr>)"

section \<open>Operations of a context\<close>

definition new_context :: "('h, 'v) contexts \<Rightarrow> cid option \<Rightarrow> string \<Rightarrow> ('h, 'v) ctx" where
  "new_context cs par prefix =
     \<lparr>parent = par, cprefix = (case par of None \<Rightarrow> prefix | Some p \<Rightarrow> cprefix (cs ! p) @ prefix),
      transparent = (prefix = []), kids = [], chooks = createHookStore,
      decorations = (case par of None \<Rightarrow> [] | Some p \<Rightarrow> decorations (cs ! p)),
      requestDecorations = [], replyDecorations = []\<rparr>"

text \<open>The app with its root context.\<close>

definition newAppCtx :: "string \<Rightarrow> ('h \<times> nat, 'x) router \<Rightarrow> ('h, 'v, 'x) app_ctx" where
  "newAppCtx prefix r = \<lparr>ctxs = [new_context [] None prefix], dirty = False, bindings = [], crouter = r\<rparr>"

definition update_ctx :: "cid \<Rightarrow> (('h, 'v) ctx \<Rightarrow> ('h, 'v) ctx) \<Rightarrow> ('h, 'v, 'x) app_ctx \<Rightarrow> ('h, 'v, 'x) app_ctx" where
  "update_ctx c f s = s\<lparr>ctxs := (ctxs s)[c := f (ctxs s ! c)]\<rparr>"

definition createChild :: "cid \<Rightarrow> string \<Rightarrow> ('h, 'v, 'x) app_ctx \<Rightarrow> cid \<times> ('h, 'v, 'x) app_ctx" where
  "createChild c prefix s =
     (let k = length (ctxs s); child = new_context (ctxs s) (Some c) prefix;
          s1 = update_ctx c (\<lambda>x. x\<lparr>kids := kids x @ [k]\<rparr>) s
      in (k, invalidate (s1\<lparr>ctxs := ctxs s1 @ [child]\<rparr>)))"

definition createContextScope :: "cid \<Rightarrow> ('h, 'v, 'x) app_ctx \<Rightarrow> nat \<times> ('h, 'v, 'x) app_ctx" where
  "createContextScope c s =
     (length (bindings s), register_binding \<lparr>bctx = c, blocal = emptyLocalHooks, bscope = createScope\<rparr> s)"

fun collectAllDecorations :: "nat \<Rightarrow> ('h, 'v) contexts \<Rightarrow> cid \<Rightarrow> (string, 'v) omap" where
  "collectAllDecorations 0 cs c = decorations (cs ! c)"
| "collectAllDecorations (Suc n) cs c =
     fold (\<lambda>k result.
       fold (\<lambda>(name, v) r. if map_of r name = None then AList.update name v r else r) (collectAllDecorations n cs k) result)
     (kids (cs ! c)) (decorations (cs ! c))"

section \<open>The plugin context\<close>

text \<open>\<open>toHookArray\<close>: an absent value, one hook or a list of hooks.\<close>

datatype 'h hook_arg = NoHook | OneHook 'h | HookList "'h list"

fun toHookArray :: "'h hook_arg \<Rightarrow> 'h list" where
  "toHookArray NoHook = []"
| "toHookArray (OneHook h) = [h]"
| "toHookArray (HookList hs) = hs"

record ('h, 'x) route_options =
  oOnRequest :: "'h hook_arg"
  oPreHandler :: "'h hook_arg"
  oPreSerialization :: "'h hook_arg"
  oOnSend :: "'h hook_arg"
  oKind :: "route_kind option"
  oSchema :: "'x option"
  oOpenapi :: "'x option"
  oHandler :: "'h option"

datatype plugin_error = NoHandler methd string | DecorationExists string

definition ctx_addRoute ::
    "cid \<Rightarrow> methd \<Rightarrow> string \<Rightarrow> 'h \<Rightarrow> ('h, 'x) route_options option \<Rightarrow> ('h, 'v, 'x) app_ctx \<Rightarrow>
     ('h \<times> nat, 'x) route_error option \<times> ('h, 'v, 'x) app_ctx" where
  "ctx_addRoute c m url h opts s =
     (let fullUrl = cprefix (ctxs s ! c) @ url;
          b = length (bindings s);
          loc = (case opts of
                     None \<Rightarrow> emptyLocalHooks
                   | Some x \<Rightarrow> \<lparr>onRequest = toHookArray (oOnRequest x), preHandler = toHookArray (oPreHandler x),
                                preSerialization = toHookArray (oPreSerialization x), onSend = toHookArray (oOnSend x)\<rparr>);
          s1 = register_binding \<lparr>bctx = c, blocal = loc, bscope = createScope\<rparr> s
      in (case addRoute (crouter s1) m fullUrl (h, b)
                 (case Option.bind opts oKind of None \<Rightarrow> Serverless | Some k \<Rightarrow> k)
                 (Option.bind opts oSchema) None (Option.bind opts oOpenapi) of
            (e, r) \<Rightarrow> (e, s1\<lparr>crouter := r\<rparr>)))"

text \<open>\<open>resolveHandler\<close>: a handler argument takes precedence over the one in the options.\<close>

definition resolveHandler :: "methd \<Rightarrow> string \<Rightarrow> ('h, 'x) route_options \<Rightarrow> 'h option \<Rightarrow> plugin_error + 'h" where
  "resolveHandler m url opts handler =
     (case (case handler of Some h \<Rightarrow> Some h | None \<Rightarrow> oHandler opts) of
        Some h \<Rightarrow> Inr h
      | None \<Rightarrow> Inl (NoHandler m url))"

datatype ('h, 'x) handler_or_opts = Handler 'h | Opts "('h, 'x) route_options"

text \<open>The methods \<open>get\<close>, \<open>post\<close>, \<open>put\<close>, \<open>patch\<close> and \<open>delete\<close>, which differ in the method name only.\<close>

datatype ('h, 'x) ctx_error = CtxPlugin plugin_error | CtxRoute "('h \<times> nat, 'x) route_error"

definition ctx_method ::
    "cid \<Rightarrow> methd \<Rightarrow> string \<Rightarrow> ('h, 'x) handler_or_opts \<Rightarrow> 'h option \<Rightarrow> ('h, 'v, 'x) app_ctx \<Rightarrow>
     ('h, 'x) ctx_error option \<times> ('h, 'v, 'x) app_ctx" where
  "ctx_method c m url x handler s =
     (case x of
        Handler h \<Rightarrow> (case ctx_addRoute c m url h None s of (e, s') \<Rightarrow> (map_option CtxRoute e, s'))
      | Opts opts \<Rightarrow>
          (case resolveHandler m url opts handler of
             Inl e \<Rightarrow> (Some (CtxPlugin e), s)
           | Inr h \<Rightarrow> (case ctx_addRoute c m url h (Some opts) s of (e, s') \<Rightarrow> (map_option CtxRoute e, s'))))"

text \<open>\<open>route\<close>: the loop over the methods stops at the first error.\<close>

fun ctx_route ::
    "cid \<Rightarrow> methd list \<Rightarrow> string \<Rightarrow> 'h \<Rightarrow> ('h, 'x) route_options \<Rightarrow> ('h, 'v, 'x) app_ctx \<Rightarrow>
     ('h \<times> nat, 'x) route_error option \<times> ('h, 'v, 'x) app_ctx" where
  "ctx_route c [] url h opts s = (None, s)"
| "ctx_route c (m # ms) url h opts s =
     (case ctx_addRoute c m url h (Some opts) s of
        (Some e, s') \<Rightarrow> (Some e, s')
      | (None, s') \<Rightarrow> ctx_route c ms url h opts s')"

definition ctx_addHook :: "cid \<Rightarrow> hook_name \<Rightarrow> 'h \<Rightarrow> ('h, 'v, 'x) app_ctx \<Rightarrow> ('h, 'v, 'x) app_ctx" where
  "ctx_addHook c name h s = invalidate (update_ctx c (\<lambda>x. x\<lparr>chooks := push_hook name h (chooks x)\<rparr>) s)"

definition ctx_decorate :: "cid \<Rightarrow> string \<Rightarrow> 'v \<Rightarrow> ('h, 'v, 'x) app_ctx \<Rightarrow> plugin_error option \<times> ('h, 'v, 'x) app_ctx" where
  "ctx_decorate c name v s =
     (if map_of (decorations (ctxs s ! c)) name \<noteq> None then (Some (DecorationExists name), s)
      else (None, update_ctx c (\<lambda>x. x\<lparr>decorations := AList.update name v (decorations x)\<rparr>) s))"

text \<open>The loop \<open>while (target.parent) target = target.parent\<close>.\<close>

fun to_root :: "nat \<Rightarrow> ('h, 'v) contexts \<Rightarrow> cid \<Rightarrow> cid" where
  "to_root 0 cs c = c"
| "to_root (Suc n) cs c = (case parent (cs ! c) of None \<Rightarrow> c | Some p \<Rightarrow> to_root n cs p)"

definition decoration_target :: "bool \<Rightarrow> cid \<Rightarrow> ('h, 'v, 'x) app_ctx \<Rightarrow> cid" where
  "decoration_target app_scope c s = (if app_scope then to_root (length (ctxs s)) (ctxs s) c else c)"

definition ctx_decorateRequest :: "cid \<Rightarrow> string \<Rightarrow> 'v \<Rightarrow> bool \<Rightarrow> ('h, 'v, 'x) app_ctx \<Rightarrow> ('h, 'v, 'x) app_ctx" where
  "ctx_decorateRequest c name v app_scope s =
     invalidate (update_ctx (decoration_target app_scope c s)
       (\<lambda>x. x\<lparr>requestDecorations := AList.update name v (requestDecorations x)\<rparr>) s)"

definition ctx_getRequestDecoration :: "cid \<Rightarrow> string \<Rightarrow> bool \<Rightarrow> ('h, 'v, 'x) app_ctx \<Rightarrow> 'v option" where
  "ctx_getRequestDecoration c name app_scope s =
     map_of (requestDecorations (ctxs s ! decoration_target app_scope c s)) name"

definition ctx_decorateReply :: "cid \<Rightarrow> string \<Rightarrow> 'v \<Rightarrow> ('h, 'v, 'x) app_ctx \<Rightarrow> ('h, 'v, 'x) app_ctx" where
  "ctx_decorateReply c name v s =
     invalidate (update_ctx c (\<lambda>x. x\<lparr>replyDecorations := AList.update name v (replyDecorations x)\<rparr>) s)"

text \<open>\<open>register\<close>: the context the plugin function is called with.\<close>

definition ctx_register :: "cid \<Rightarrow> bool option \<Rightarrow> string option \<Rightarrow> ('h, 'v, 'x) app_ctx \<Rightarrow> cid \<times> ('h, 'v, 'x) app_ctx" where
  "ctx_register c encapsulate prefix s =
     (if encapsulate = Some False then (c, s)
      else createChild c (case prefix of None \<Rightarrow> [] | Some p \<Rightarrow> p) s)"

definition ctx_getRoutes :: "('h, 'v, 'x) app_ctx \<Rightarrow> ('h \<times> nat, 'x) route list" where
  "ctx_getRoutes s = getAllRoutes (crouter s)"

end
