(* ===== verification/Lifecycle.thy ===== *)
theory Lifecycle
  imports Body_Parser Context
begin

text \<open>
  The lifecycle of one request: running hook chains (\<open>packages/core/src/hooks.ts\<close>), the choice of
  a response schema (\<open>response-schema.ts\<close>), and the stages between \<open>onRequest\<close> and \<open>onSend\<close>
  (\<open>runLifecycle\<close> and what it calls in \<open>app.ts\<close>).

  \<^item> Hooks and handlers are names of type \<open>'h\<close>; the environment \<open>env\<close> says what each does to the
    state \<open>st\<close>: the request, the reply, and the world outside of type \<open>'w\<close>.
  \<^item> Schemas are values of type \<open>'sc\<close>; \<open>vBody\<close> and so on are \<open>fromSchema(schema).validate\<close>.
  \<^item> A step gives \<open>Inl\<close> for a thrown error. An asynchronous hook is run to its end where the code
    awaits it, and an \<open>onResponse\<close> hook, which is not awaited, in the order of the calls.
\<close>

section \<open>State and environment\<close>

record ('v, 'w) st =
  sReq :: "('v, 'v) request"
  sRep :: reply
  sRepProps :: "(string, 'v) omap"
  sWorld :: 'w

datatype hook_outcome =
    HThrew js_error
  | HResponse resp
  | HNothing
  | HText string
  | HJson json

datatype 'a checked = SchemaThrew js_error | Invalid "issue list" | Valid 'a

text \<open>\<open>schema.response\<close>: no object, or an object with its own enumerable keys, which may itself be a schema.\<close>

datatype 'sc response_schemas =
    NoSchemaObject
  | SchemaObject (is_array: bool) (entries: "(string, 'sc option) omap") (itself: 'sc)

record 'sc route_schema =
  scBody :: "'sc option"
  scQuery :: "'sc option"
  scParams :: "'sc option"
  scResponse :: "'sc response_schemas option"

record ('h, 'v, 'x, 'sc, 'w) env =
  runHook :: "'h \<Rightarrow> ('v, 'w) st \<Rightarrow> hook_outcome \<times> ('v, 'w) st"
  runHandler :: "'h \<Rightarrow> ('v, 'w) st \<Rightarrow> hook_outcome \<times> ('v, 'w) st"
  runOnErrorHook :: "'h \<Rightarrow> (('v, 'w) st, resp) error_handler"
  decoValue :: "'v \<Rightarrow> 'v"
  schemaParts :: "'x \<Rightarrow> 'sc route_schema"
  vBody :: "'sc \<Rightarrow> 'v parsed_body option \<Rightarrow> 'v parsed_body checked"
  vQuery :: "'sc \<Rightarrow> query \<Rightarrow> query checked"
  vParams :: "'sc \<Rightarrow> params \<Rightarrow> params checked"
  vResponse :: "'sc \<Rightarrow> json \<Rightarrow> json checked"
  textDecode :: "nat list \<Rightarrow> string"
  jsonParse :: "string \<Rightarrow> thrown + json"
  formParse :: "string \<Rightarrow> nat list \<Rightarrow> thrown + 'v"
  searchParams :: "string \<Rightarrow> (string \<times> string) list"
  parseHref :: "string \<Rightarrow> (string \<times> (string \<times> string) list) option"
  stackOf :: "string option"
  bullet :: string
  devMode :: bool
  production :: bool

section \<open>Running hooks\<close>

fun runHooks ::
    "('h, 'v, 'x, 'sc, 'w) env \<Rightarrow> 'h list \<Rightarrow> ('v, 'w) st \<Rightarrow> (js_error + resp option) \<times> ('v, 'w) st" where
  "runHooks E [] s = (Inr None, s)"
| "runHooks E (h # hs) s =
     (case runHook E h s of
        (HThrew e, s1) \<Rightarrow> (Inl e, s1)
      | (HResponse r, s1) \<Rightarrow> (Inr (Some r), s1)
      | (_, s1) \<Rightarrow>
          if rpSent (sRep s1)
          then (case reply_send SendNothing (sRep s1) of (r, rp) \<Rightarrow> (Inr (Some r), s1\<lparr>sRep := rp\<rparr>))
          else runHooks E hs s1)"

fun runOnSendHooks :: "('h, 'v, 'x, 'sc, 'w) env \<Rightarrow> 'h list \<Rightarrow> ('v, 'w) st \<Rightarrow> js_error option \<times> ('v, 'w) st" where
  "runOnSendHooks E [] s = (None, s)"
| "runOnSendHooks E (h # hs) s =
     (case runHook E h s of (HThrew e, s1) \<Rightarrow> (Some e, s1) | (_, s1) \<Rightarrow> runOnSendHooks E hs s1)"

fun runHooksFireAndForget :: "('h, 'v, 'x, 'sc, 'w) env \<Rightarrow> 'h list \<Rightarrow> ('v, 'w) st \<Rightarrow> ('v, 'w) st" where
  "runHooksFireAndForget E [] s = s"
| "runHooksFireAndForget E (h # hs) s = runHooksFireAndForget E hs (snd (runHook E h s))"

section \<open>Response schemas\<close>

definition isStatusKey :: "string \<Rightarrow> bool" where
  "isStatusKey key = (length key = 3 \<and> hd key \<in> set ''12345'' \<and> list_all is_digit key)"

definition isStatusKeyedResponseMap :: "'sc response_schemas \<Rightarrow> bool" where
  "isStatusKeyedResponseMap v =
     (case v of
        NoSchemaObject \<Rightarrow> False
      | SchemaObject arr es _ \<Rightarrow> \<not> arr \<and> list_all (\<lambda>k. k = ''default'' \<or> isStatusKey k) (keys_of es))"

definition resolveResponseSchema :: "'sc response_schemas \<Rightarrow> int \<Rightarrow> 'sc option" where
  "resolveResponseSchema v status =
     (case v of
        NoSchemaObject \<Rightarrow> None
      | SchemaObject _ es self \<Rightarrow>
          if isStatusKeyedResponseMap v
          then (case Option.bind (map_of es (show_int status)) id of
                  Some sc \<Rightarrow> Some sc
                | None \<Rightarrow> Option.bind (map_of es ''default'') id)
          else if 200 \<le> status \<and> status < 300 then Some self else None)"

section \<open>Validation\<close>

definition validation_failed :: "('h, 'v, 'x, 'sc, 'w) env \<Rightarrow> issue list \<Rightarrow> js_error" where
  "validation_failed E is = ValidationErr (mkValidationError (bullet E) is (stackOf E))"

text \<open>\<open>validateRequest\<close>: the parts in the order of the code; what was assigned before a failure stays.\<close>

definition check_body ::
    "('h, 'v, 'x, 'sc, 'w) env \<Rightarrow> 'sc route_schema \<Rightarrow> ('v, 'v) request \<Rightarrow> js_error option \<times> ('v, 'v) request" where
  "check_body E sc q =
     (case scBody sc of
        None \<Rightarrow> (None, q)
      | Some b \<Rightarrow>
          (case vBody E b (qBody q) of
             SchemaThrew e \<Rightarrow> (Some e, q)
           | Invalid is \<Rightarrow> (Some (validation_failed E is), q)
           | Valid d \<Rightarrow> (None, q\<lparr>qBody := Some d\<rparr>)))"

definition check_query ::
    "('h, 'v, 'x, 'sc, 'w) env \<Rightarrow> 'sc route_schema \<Rightarrow> ('v, 'v) request \<Rightarrow> js_error option \<times> ('v, 'v) request" where
  "check_query E sc q =
     (case scQuery sc of
        None \<Rightarrow> (None, q)
      | Some b \<Rightarrow>
          (case vQuery E b (qQuery q) of
             SchemaThrew e \<Rightarrow> (Some e, q)
           | Invalid is \<Rightarrow> (Some (validation_failed E is), q)
           | Valid d \<Rightarrow> (None, q\<lparr>qQuery := d\<rparr>)))"

definition check_params ::
    "('h, 'v, 'x, 'sc, 'w) env \<Rightarrow> 'sc route_schema \<Rightarrow> ('v, 'v) request \<Rightarrow> js_error option \<times> ('v, 'v) request" where
  "check_params E sc q =
     (case scParams sc of
        None \<Rightarrow> (None, q)
      | Some b \<Rightarrow>
          (case vParams E b (qParams q) of
             SchemaThrew e \<Rightarrow> (Some e, q)
           | Invalid is \<Rightarrow> (Some (validation_failed E is), q)
           | Valid d \<Rightarrow> (None, q\<lparr>qParams := d\<rparr>)))"

definition validateRequest ::
    "('h, 'v, 'x, 'sc, 'w) env \<Rightarrow> 'sc route_schema \<Rightarrow> ('v, 'v) request \<Rightarrow> js_error option \<times> ('v, 'v) request" where
  "validateRequest E sc q =
     (case check_body E sc q of
        (Some e, q1) \<Rightarrow> (Some e, q1)
      | (None, q1) \<Rightarrow>
          (case check_query E sc q1 of
             (Some e, q2) \<Rightarrow> (Some e, q2)
           | (None, q2) \<Rightarrow> check_params E sc q2))"

text \<open>The body of a response that can be read without touching a stream.\<close>

fun fast_json :: "('h, 'v, 'x, 'sc, 'w) env \<Rightarrow> body \<Rightarrow> json option" where
  "fast_json E NoBody = None"
| "fast_json E (TextBody t) = (case jsonParse E t of Inl _ \<Rightarrow> None | Inr j \<Rightarrow> Some j)"
| "fast_json E (JsonBody j) = Some j"
| "fast_json E (BytesBody bs) = (case jsonParse E (textDecode E bs) of Inl _ \<Rightarrow> None | Inr j \<Rightarrow> Some j)"
| "fast_json E StreamBody = None"

definition RESPONSE_VALIDATION_BODY :: json where
  "RESPONSE_VALIDATION_BODY =
     JObj [(''error'', JStr ''Internal Server Error''), (''statusCode'', JNum 500), (''code'', JStr ''RESPONSE_VALIDATION_FAILED'')]"

definition response_payload :: "('h, 'v, 'x, 'sc, 'w) env \<Rightarrow> resp \<Rightarrow> hook_outcome \<Rightarrow> json option" where
  "response_payload E r result =
     (case result of
        HText t \<Rightarrow> Some (JStr t)
      | HJson j \<Rightarrow> Some j
      | _ \<Rightarrow>
          if \<not> includes_str (case headers_get ''content-type'' (rsHeaders r) of None \<Rightarrow> [] | Some c \<Rightarrow> c) ''json'' then None
          else if \<not> rsFast r then None
          else fast_json E (rsBody r))"

definition validateResponse ::
    "('h, 'v, 'x, 'sc, 'w) env \<Rightarrow> 'sc response_schemas \<Rightarrow> resp \<Rightarrow> hook_outcome \<Rightarrow> js_error + resp" where
  "validateResponse E schemas r result =
     (case resolveResponseSchema schemas (rsStatus r) of
        None \<Rightarrow> Inr r
      | Some sc \<Rightarrow>
          (case response_payload E r result of
             None \<Rightarrow> Inr r
           | Some payload \<Rightarrow>
               (case vResponse E sc payload of
                  SchemaThrew e \<Rightarrow> Inl e
                | Valid _ \<Rightarrow> Inr r
                | Invalid _ \<Rightarrow> Inr (fastResponse (JsonBody RESPONSE_VALIDATION_BODY) 500 json_headers []))))"

section \<open>The stages\<close>

definition merge_in :: "resp \<Rightarrow> ('v, 'w) st \<Rightarrow> (string, string) omap option \<Rightarrow> resp" where
  "merge_in r s shown = mergeReplyIntoResponse r (sRep s) shown"

text \<open>One stage of hooks: an early response gets the reply's headers; otherwise the rest runs.\<close>

definition stage ::
    "('h, 'v, 'x, 'sc, 'w) env \<Rightarrow> 'h list \<Rightarrow> (('v, 'w) st \<Rightarrow> (js_error + resp) \<times> ('v, 'w) st) \<Rightarrow>
     ('v, 'w) st \<Rightarrow> (js_error + resp) \<times> ('v, 'w) st" where
  "stage E hs rest s =
     (case runHooks E hs s of
        (Inl e, s1) \<Rightarrow> (Inl e, s1)
      | (Inr (Some r), s1) \<Rightarrow> (Inr (merge_in r s1 None), s1)
      | (Inr None, s1) \<Rightarrow> rest s1)"

text \<open>From what the handler gave to a response.\<close>

definition empty_response :: "int \<Rightarrow> resp" where
  "empty_response status = \<lparr>rsStatus = status, rsHeaders = new_headers [], rsBody = NoBody, rsFast = False\<rparr>"

definition status_or_200 :: "reply \<Rightarrow> int" where
  "status_or_200 rp = (if rpStatus rp = 0 then 200 else rpStatus rp)"

definition handler_response :: "hook_outcome \<Rightarrow> reply \<Rightarrow> resp" where
  "handler_response result rp =
     (case result of
        HResponse r \<Rightarrow> r
      | _ \<Rightarrow>
          if rpSent rp then empty_response (rpStatus rp)
          else (case result of
              HText t \<Rightarrow> fastResponse (TextBody t) (status_or_200 rp)
                (spread [(''content-type'', ''text/plain; charset=utf-8'')] (rpHeaders rp)) (rpCookies rp)
            | HJson j \<Rightarrow> fastResponse (JsonBody j) (status_or_200 rp)
                (spread [(''content-type'', ''application/json; charset=utf-8'')] (rpHeaders rp)) (rpCookies rp)
            | _ \<Rightarrow> empty_response 204))"

definition set_status :: "resp \<Rightarrow> ('v, 'w) st \<Rightarrow> ('v, 'w) st" where
  "set_status r s = s\<lparr>sRep := (sRep s)\<lparr>rpStatus := rsStatus r\<rparr>\<rparr>"

text \<open>The onSend stage, of the lifecycle and of \<open>applyOnSend\<close>: a hook that throws is logged and the
  response goes out as it was.\<close>

definition send_stage ::
    "('h, 'v, 'x, 'sc, 'w) env \<Rightarrow> 'h list \<Rightarrow> resp \<Rightarrow> ('v, 'w) st \<Rightarrow> resp \<times> ('v, 'w) st" where
  "send_stage E hooks r s =
     (let s1 = set_status r s in
      if hooks = [] then (r, s1)
      else (let shown = rpHeaders (sRep s1) in
        (case runOnSendHooks E hooks s1 of
           (Some e, s2) \<Rightarrow> (r, s2)
         | (None, s2) \<Rightarrow> (merge_in r s2 (Some shown), s2))))"

record ('v) app_config =
  bodyLimit :: int
  requestTimeout :: int
  validateResponses :: bool
  contentTypeParsers :: "(string, ('v, 'v) body_parser) omap"

definition after_handler ::
    "('h, 'v, 'x, 'sc, 'w) env \<Rightarrow> 'v app_config \<Rightarrow> 'x option \<Rightarrow> 'h hook_store \<Rightarrow> hook_outcome \<Rightarrow> ('v, 'w) st \<Rightarrow>
     (js_error + resp) \<times> ('v, 'w) st" where
  "after_handler E cfg schema hs result s =
     (let merged = merge_in (handler_response result (sRep s)) s None;
          checked = (case Option.bind schema (\<lambda>x. scResponse (schemaParts E x)) of
              Some schemas \<Rightarrow> if validateResponses cfg then validateResponse E schemas merged result else Inr merged
            | None \<Rightarrow> Inr merged)
      in (case checked of
            Inl e \<Rightarrow> (Inl e, s)
          | Inr r \<Rightarrow>
              (case runHooks E (hsPreSerialization hs) s of
                 (Inl e, s1) \<Rightarrow> (Inl e, s1)
               | (Inr _, s1) \<Rightarrow> (case send_stage E (hsOnSend hs) r s1 of (r2, s2) \<Rightarrow> (Inr r2, s2)))))"

definition handler_stage ::
    "('h, 'v, 'x, 'sc, 'w) env \<Rightarrow> 'v app_config \<Rightarrow> 'h \<Rightarrow> 'x option \<Rightarrow> 'h hook_store \<Rightarrow> ('v, 'w) st \<Rightarrow>
     (js_error + resp) \<times> ('v, 'w) st" where
  "handler_stage E cfg handler schema hs s =
     (case runHandler E handler s of
        (HThrew e, s1) \<Rightarrow> (Inl e, s1)
      | (result, s1) \<Rightarrow> after_handler E cfg schema hs result s1)"

definition validation_stage ::
    "('h, 'v, 'x, 'sc, 'w) env \<Rightarrow> 'x option \<Rightarrow> (('v, 'w) st \<Rightarrow> (js_error + resp) \<times> ('v, 'w) st) \<Rightarrow>
     ('v, 'w) st \<Rightarrow> (js_error + resp) \<times> ('v, 'w) st" where
  "validation_stage E schema rest s =
     (case schema of
        None \<Rightarrow> rest s
      | Some x \<Rightarrow>
          (case validateRequest E (schemaParts E x) (sReq s) of
             (Some e, q) \<Rightarrow> (Inl e, s\<lparr>sReq := q\<rparr>)
           | (None, q) \<Rightarrow> rest (s\<lparr>sReq := q\<rparr>)))"

definition parse_stage ::
    "('h, 'v, 'x, 'sc, 'w) env \<Rightarrow> 'v app_config \<Rightarrow> web_body \<Rightarrow> (('v, 'w) st \<Rightarrow> (js_error + resp) \<times> ('v, 'w) st) \<Rightarrow>
     ('v, 'w) st \<Rightarrow> (js_error + resp) \<times> ('v, 'w) st" where
  "parse_stage E cfg b rest s =
     (case parseBody (textDecode E) (jsonParse E) (formParse E) (stackOf E) (bodyLimit cfg) (contentTypeParsers cfg) b (sReq s) of
        Inl e \<Rightarrow> (Inl e, s)
      | Inr q \<Rightarrow> rest (s\<lparr>sReq := q\<rparr>))"

definition runLifecycle ::
    "('h, 'v, 'x, 'sc, 'w) env \<Rightarrow> 'v app_config \<Rightarrow> 'h \<Rightarrow> 'x option \<Rightarrow> 'h hook_store \<Rightarrow> web_body \<Rightarrow> ('v, 'w) st \<Rightarrow>
     (js_error + resp) \<times> ('v, 'w) st" where
  "runLifecycle E cfg handler schema hs b =
     stage E (hsOnRequest hs)
       (stage E (hsPreParsing hs)
         (parse_stage E cfg b
           (stage E (hsPreValidation hs)
             (validation_stage E schema
               (stage E (hsPreHandler hs) (handler_stage E cfg handler schema hs))))))"

text \<open>With a timeout, the timer may fire first: \<open>fired\<close> is then the state the lifecycle had reached.\<close>

definition gatewayTimeout :: "string option \<Rightarrow> js_error" where
  "gatewayTimeout stk = HttpErr (mkHttpError 504 (Some ''Gateway Timeout'') None None stk)"

definition runWithTimeout ::
    "('h, 'v, 'x, 'sc, 'w) env \<Rightarrow> 'v app_config \<Rightarrow> 'h \<Rightarrow> 'x option \<Rightarrow> 'h hook_store \<Rightarrow> web_body \<Rightarrow> ('v, 'w) st option \<Rightarrow>
     ('v, 'w) st \<Rightarrow> (js_error + resp) \<times> ('v, 'w) st" where
  "runWithTimeout E cfg handler schema hs b fired s =
     (if requestTimeout cfg \<le> 0 then runLifecycle E cfg handler schema hs b s
      else (case fired of
          None \<Rightarrow> runLifecycle E cfg handler schema hs b s
        | Some s' \<Rightarrow> (Inl (gatewayTimeout (stackOf E)), s')))"

section \<open>Outside the lifecycle\<close>

text \<open>\<open>applyOnSend\<close> and \<open>finish\<close>.\<close>

definition applyOnSend ::
    "('h, 'v, 'x, 'sc, 'w) env \<Rightarrow> 'h list \<Rightarrow> resp \<Rightarrow> ('v, 'w) st \<Rightarrow> resp \<times> ('v, 'w) st" where
  "applyOnSend E hooks r s = send_stage E hooks (merge_in r s None) s"

definition finish :: "('h, 'v, 'x, 'sc, 'w) env \<Rightarrow> 'h list \<Rightarrow> resp \<Rightarrow> ('v, 'w) st \<Rightarrow> resp \<times> ('v, 'w) st" where
  "finish E hooks r s = (r, runHooksFireAndForget E hooks (set_status r s))"

definition to_resp :: "response \<Rightarrow> resp" where
  "to_resp r = \<lparr>rsStatus = rstatus r, rsHeaders = new_headers (rheaders r), rsBody = JsonBody (rbody r), rsFast = False\<rparr>"

text \<open>The default response can throw; what it throws then leaves \<open>handle\<close>, as no \<open>try\<close> is around the call.\<close>

definition app_handleError ::
    "('h, 'v, 'x, 'sc, 'w) env \<Rightarrow> 'h option \<Rightarrow> 'h list \<Rightarrow> js_error \<Rightarrow> ('v, 'w) st \<Rightarrow> (js_error + resp) \<times> ('v, 'w) st" where
  "app_handleError E custom hooks e s =
     (case handleError (devMode E) (production E) to_resp (map_option (runOnErrorHook E) custom) (map (runOnErrorHook E) hooks) e s of
        (Some r, s1) \<Rightarrow> (Inr r, s1)
      | (None, s1) \<Rightarrow> (Inl (OtherErr ''Invalid response status'' None (stackOf E)), s1))"

text \<open>A \<open>HEAD\<close> response has no body.\<close>

definition strip_head :: "bool \<Rightarrow> resp \<Rightarrow> resp" where
  "strip_head isHead r = (if isHead then r\<lparr>rsBody := NoBody, rsFast := False\<rparr> else r)"

end
