(* ===== verification/App.thy ===== *)
theory App
  imports Lifecycle
begin

text \<open>
  The application: \<open>packages/core/src/app.ts\<close>. Registration is delegated to the root context;
  \<open>handle\<close> takes a request through routing, the lifecycle and the error handling.

  \<^item> Plugins are loaded: \<open>ready()\<close>, which awaits their promises, is not part of the model.
  \<^item> Logging, request ids and the one-time warnings are left out; nothing depends on them.
  \<^item> Decoration values that are functions are called by \<open>decoValue\<close>; they do not throw.
  \<^item> \<open>handle\<close> gives \<open>Inl\<close> when its promise is rejected.
\<close>

section \<open>The app\<close>

record ('h, 'v, 'x) app =
  actx :: "('h, 'v, 'x) app_ctx"
  rootScope :: nat
  pathScopes :: "(cid, nat) omap"
  notFoundHandler :: "'h option"
  errorHandler :: "'h option"
  config :: "'v app_config"
  trust :: trust_options

record app_options =
  optPrefix :: "string option"
  optBodyLimit :: "int option"
  optRequestTimeout :: "int option"
  optValidateResponses :: "bool option"
  optTrust :: trust_options

datatype app_error = BlankHeader | BadHops int

text \<open>The constructor. \<open>clientIp.hops\<close> is an integer here.\<close>

definition newApp :: "app_options \<Rightarrow> app_error + ('h, 'v, 'x) app" where
  "newApp opt =
     (case createContextScope 0 (newAppCtx (case optPrefix opt of None \<Rightarrow> [] | Some p \<Rightarrow> p) (newRouter None None)) of
        (b, ac) \<Rightarrow>
          (let a = \<lparr>actx = ac, rootScope = b, pathScopes = [], notFoundHandler = None, errorHandler = None,
                 config = \<lparr>bodyLimit = (case optBodyLimit opt of None \<Rightarrow> 1048576 | Some n \<Rightarrow> n),
                     requestTimeout = (case optRequestTimeout opt of None \<Rightarrow> 30000 | Some n \<Rightarrow> n),
                     validateResponses = (optValidateResponses opt \<noteq> Some False), contentTypeParsers = []\<rparr>,
                 trust = optTrust opt\<rparr>
           in (case clientIp (optTrust opt) of
                 None \<Rightarrow> Inr a
               | Some ci \<Rightarrow>
                   if trim (ciHeader ci) = [] then Inl BlankHeader
                   else (case ciHops ci of
                       Some h \<Rightarrow> if h < 1 then Inl (BadHops h) else Inr a
                     | None \<Rightarrow> Inr a))))"

section \<open>Registration\<close>

definition on_root ::
    "(('h, 'v, 'x) app_ctx \<Rightarrow> 'e \<times> ('h, 'v, 'x) app_ctx) \<Rightarrow> ('h, 'v, 'x) app \<Rightarrow> 'e \<times> ('h, 'v, 'x) app" where
  "on_root f a = (case f (actx a) of (e, ac) \<Rightarrow> (e, a\<lparr>actx := ac\<rparr>))"

definition app_route ::
    "methd list \<Rightarrow> string \<Rightarrow> 'h \<Rightarrow> ('h, 'x) route_options \<Rightarrow> ('h, 'v, 'x) app \<Rightarrow>
     ('h \<times> nat, 'x) route_error option \<times> ('h, 'v, 'x) app" where
  "app_route ms url h opts a = on_root (ctx_route 0 ms url h opts) a"

text \<open>\<open>_routeWithSchema\<close> passes on the schema, the documentation and two kinds of hooks only.\<close>

definition routeWithSchema ::
    "methd \<Rightarrow> string \<Rightarrow> ('h, 'x) route_options \<Rightarrow> 'h option \<Rightarrow> ('h, 'v, 'x) app \<Rightarrow>
     ('h, 'x) ctx_error option \<times> ('h, 'v, 'x) app" where
  "routeWithSchema m url opts handler a =
     (case resolveHandler m url opts handler of
        Inl e \<Rightarrow> (Some (CtxPlugin e), a)
      | Inr h \<Rightarrow>
          (case app_route [m] url h
              (opts\<lparr>oPreSerialization := NoHook, oOnSend := NoHook, oKind := None, oHandler := Some h\<rparr>) a of
             (e, a') \<Rightarrow> (map_option CtxRoute e, a')))"

text \<open>\<open>get\<close>, \<open>post\<close>, \<open>put\<close>, \<open>patch\<close> and \<open>delete\<close>, which differ in the method only.\<close>

definition app_method ::
    "methd \<Rightarrow> string \<Rightarrow> ('h, 'x) handler_or_opts \<Rightarrow> 'h option \<Rightarrow> ('h, 'v, 'x) app \<Rightarrow>
     ('h, 'x) ctx_error option \<times> ('h, 'v, 'x) app" where
  "app_method m url x handler a =
     (case x of
        Handler h \<Rightarrow> on_root (ctx_method 0 m url (Handler h) None) a
      | Opts opts \<Rightarrow> routeWithSchema m url opts handler a)"

definition app_addHook :: "hook_name \<Rightarrow> 'h \<Rightarrow> ('h, 'v, 'x) app \<Rightarrow> ('h, 'v, 'x) app" where
  "app_addHook name h a = a\<lparr>actx := ctx_addHook 0 name h (actx a)\<rparr>"

definition app_decorate :: "string \<Rightarrow> 'v \<Rightarrow> ('h, 'v, 'x) app \<Rightarrow> plugin_error option \<times> ('h, 'v, 'x) app" where
  "app_decorate name v a = on_root (ctx_decorate 0 name v) a"

definition getDecoration :: "string \<Rightarrow> ('h, 'v, 'x) app \<Rightarrow> 'v option" where
  "getDecoration name a = map_of (collectAllDecorations (length (ctxs (actx a))) (ctxs (actx a)) 0) name"

definition app_decorateRequest :: "string \<Rightarrow> 'v \<Rightarrow> ('h, 'v, 'x) app \<Rightarrow> ('h, 'v, 'x) app" where
  "app_decorateRequest name v a = a\<lparr>actx := ctx_decorateRequest 0 name v False (actx a)\<rparr>"

definition app_decorateReply :: "string \<Rightarrow> 'v \<Rightarrow> ('h, 'v, 'x) app \<Rightarrow> ('h, 'v, 'x) app" where
  "app_decorateReply name v a = a\<lparr>actx := ctx_decorateReply 0 name v (actx a)\<rparr>"

definition setNotFoundHandler :: "'h \<Rightarrow> ('h, 'v, 'x) app \<Rightarrow> ('h, 'v, 'x) app" where
  "setNotFoundHandler h a = a\<lparr>notFoundHandler := Some h\<rparr>"

definition setErrorHandler :: "'h \<Rightarrow> ('h, 'v, 'x) app \<Rightarrow> ('h, 'v, 'x) app" where
  "setErrorHandler h a = a\<lparr>errorHandler := Some h\<rparr>"

definition addContentTypeParser :: "string \<Rightarrow> ('v, 'v) body_parser \<Rightarrow> ('h, 'v, 'x) app \<Rightarrow> ('h, 'v, 'x) app" where
  "addContentTypeParser t p a =
     a\<lparr>config := (config a)\<lparr>contentTypeParsers := AList.update t p (contentTypeParsers (config a))\<rparr>\<rparr>"

definition app_getRoutes :: "route_kind option \<Rightarrow> ('h, 'v, 'x) app \<Rightarrow> ('h \<times> nat, 'x) route list" where
  "app_getRoutes kind a =
     (case kind of
        None \<Rightarrow> getAllRoutes (crouter (actx a))
      | Some k \<Rightarrow> filter (\<lambda>r. rkind r = k) (getAllRoutes (crouter (actx a))))"

text \<open>The three lists of \<open>getRouteManifest\<close>, of methods and URLs.\<close>

definition getRouteManifest :: "('h, 'v, 'x) app \<Rightarrow> route_kind \<Rightarrow> (methd \<times> string) list" where
  "getRouteManifest a k = map (\<lambda>r. (rmethod r, rurl r)) (filter (\<lambda>r. rkind r = k) (getAllRoutes (crouter (actx a))))"

section \<open>Guards of unrouted requests\<close>

definition prefixCoversPath :: "string \<Rightarrow> string \<Rightarrow> bool" where
  "prefixCoversPath prefix pathname =
     (if prefix = [] \<or> prefix = ''/'' then True
      else (let base = (if ends_with prefix ''/'' then butlast prefix else prefix)
            in pathname = base \<or> starts_with pathname (base @ ''/'')))"

abbreviation hooks_at :: "('h, 'v, 'x) app_ctx \<Rightarrow> nat \<Rightarrow> 'h hook_store" where
  "hooks_at ac b \<equiv> shooks (bscope (bindings ac ! b))"

text \<open>\<open>visit\<close>: the contexts below that cover the path.\<close>

fun visit_covering :: "nat \<Rightarrow> ('h, 'v) contexts \<Rightarrow> string \<Rightarrow> cid list \<Rightarrow> cid list" where
  "visit_covering 0 cs path ks = []"
| "visit_covering (Suc n) cs path ks =
     concat (map (\<lambda>k.
       if transparent (cs ! k) then visit_covering n cs path (kids (cs ! k))
       else if \<not> prefixCoversPath (cprefix (cs ! k)) path then []
       else k # visit_covering n cs path (kids (cs ! k))) ks)"

definition contextScope :: "cid \<Rightarrow> ('h, 'v, 'x) app \<Rightarrow> nat \<times> ('h, 'v, 'x) app" where
  "contextScope c a =
     (case map_of (pathScopes a) c of
        Some b \<Rightarrow> (b, a)
      | None \<Rightarrow>
          (case createContextScope c (actx a) of
             (b, ac) \<Rightarrow> (b, a\<lparr>actx := flush ac, pathScopes := AList.update c b (pathScopes a)\<rparr>)))"

definition add_unseen :: "'h list \<Rightarrow> 'h list \<Rightarrow> 'h list" where
  "add_unseen hs acc = fold (\<lambda>h acc. if h \<in> set acc then acc else acc @ [h]) hs acc"

fun add_scopes :: "cid list \<Rightarrow> 'h list \<Rightarrow> ('h, 'v, 'x) app \<Rightarrow> 'h list \<times> ('h, 'v, 'x) app" where
  "add_scopes [] hooks a = (hooks, a)"
| "add_scopes (c # cs) hooks a =
     (case contextScope c a of
        (b, a') \<Rightarrow> add_scopes cs (add_unseen (hsOnRequest (hooks_at (actx a') b)) hooks) a')"

abbreviation root_hooks :: "('h, 'v, 'x) app \<Rightarrow> 'h hook_store" where
  "root_hooks a \<equiv> hooks_at (actx a) (rootScope a)"

definition onRequestHooksForPath :: "string \<Rightarrow> ('h, 'v, 'x) app \<Rightarrow> 'h list \<times> ('h, 'v, 'x) app" where
  "onRequestHooksForPath pathname a =
     (let cs = ctxs (actx a); matched = visit_covering (length cs) cs pathname (kids (cs ! 0)) in
      if matched = [] then (hsOnRequest (root_hooks a), a)
      else add_scopes matched (hsOnRequest (root_hooks a)) a)"

definition getUpgradeHooks :: "string option \<Rightarrow> ('h, 'v, 'x) app \<Rightarrow> 'h list \<times> ('h, 'v, 'x) app" where
  "getUpgradeHooks pathname a0 =
     (let a = a0\<lparr>actx := flush (actx a0)\<rparr> in
      case pathname of
        None \<Rightarrow> (hsOnRequest (root_hooks a), a)
      | Some p \<Rightarrow> onRequestHooksForPath p a)"

definition routeScopeHooks :: "string \<Rightarrow> methd list \<Rightarrow> ('h, 'v, 'x) app \<Rightarrow> 'h list" where
  "routeScopeHooks pathname methods a =
     (let hooks = fold (\<lambda>m acc.
            case match_route (crouter (actx a)) m pathname of
              Inr (Some mt) \<Rightarrow> add_unseen (hsOnRequest (hooks_at (actx a) (snd (rhandler (mroute mt))))) acc
            | _ \<Rightarrow> acc) methods []
      in if hooks = [] then hsOnRequest (root_hooks a) else hooks)"

section \<open>handle\<close>

text \<open>The position of the n-th slash, from 1.\<close>

fun nth_slash :: "nat \<Rightarrow> string \<Rightarrow> nat option" where
  "nth_slash n [] = None"
| "nth_slash n (c # s) =
     (if c = CHR ''/'' then (if n = 1 then Some 0 else map_option Suc (nth_slash (n - 1) s))
      else map_option Suc (nth_slash n s))"

definition split_query :: "string \<Rightarrow> string \<times> string" where
  "split_query s = (case index_of CHR ''?'' s of None \<Rightarrow> (s, []) | Some q \<Rightarrow> (take q s, drop (Suc q) s))"

text \<open>Path, query, and the bounds of the authority; its start is -1 when there is none.\<close>

definition split_url :: "string \<Rightarrow> string \<times> string \<times> int \<times> nat" where
  "split_url rawUrl =
     (if starts_with rawUrl ''/'' then (case split_query rawUrl of (p, q) \<Rightarrow> (p, q, -1, 0))
      else
        (let start = (case nth_slash 2 rawUrl of None \<Rightarrow> -1 | Some i \<Rightarrow> int i + 1) in
         (case nth_slash 3 rawUrl of
            None \<Rightarrow> (''/'', [], start, length (takeWhile (\<lambda>c. c \<noteq> CHR ''?'' \<and> c \<noteq> CHR ''#'') rawUrl))
          | Some i \<Rightarrow> (case split_query (drop i rawUrl) of (p, q) \<Rightarrow> (p, q, start, i)))))"

definition reply_names :: "string list" where
  "reply_names = [''statusCode'', ''headers'', ''sent'', ''status'', ''header'', ''send'', ''html'', ''json'', ''stream'', ''redirect'',
     ''cookie'', ''clearCookie'', ''sendFile'', ''download'', ''notFound'', ''badRequest'', ''unauthorized'', ''forbidden'',
     ''conflict'', ''gone'', ''tooManyRequests'', ''internalServerError'', ''serviceUnavailable''] @ object_names"

text \<open>Adding decorations whose names are not taken.\<close>

definition add_decorations :: "('v \<Rightarrow> 'v) \<Rightarrow> string list \<Rightarrow> (string, 'v) omap \<Rightarrow> (string, 'v) omap \<Rightarrow> (string, 'v) omap" where
  "add_decorations f names decos props =
     fold (\<lambda>(k, v) ps. if k \<in> set names \<or> map_of ps k \<noteq> None then ps else AList.update k (f v) ps) decos props"

definition with_ip :: "'v web_request \<Rightarrow> trust_options \<Rightarrow> ('v, 'v) request \<Rightarrow> ('v, 'v) request" where
  "with_ip w t q = (if qIp q = None then q\<lparr>qIp := resolveClientIp w (clientIp t)\<rparr> else q)"

definition createMissContext ::
    "('h, 'v, 'x, 'sc, 'w) env \<Rightarrow> 'v web_request \<Rightarrow> string \<Rightarrow> 'w \<Rightarrow> ('h, 'v, 'x) app \<Rightarrow> js_error + ('v, 'w) st" where
  "createMissContext E w effectiveUrl world a =
     (case parseHref E effectiveUrl of
        None \<Rightarrow> Inl (OtherErr ''Invalid URL'' None (stackOf E))
      | Some (href, pairs) \<Rightarrow>
          Inr \<lparr>sReq = with_ip w (trust a) (buildRequest w href pairs []), sRep = createReply,
            sRepProps = fold (\<lambda>(k, v). AList.update k (decoValue E v)) (sReplyDecorations (bscope (bindings (actx a) ! rootScope a))) [],
            sWorld = world\<rparr>)"

definition finishMiss ::
    "('h, 'v, 'x, 'sc, 'w) env \<Rightarrow> ('h, 'v, 'x) app \<Rightarrow> resp \<times> ('v, 'w) st \<Rightarrow> resp \<times> ('v, 'w) st" where
  "finishMiss E a rs = finish E (hsOnResponse (root_hooks a)) (fst rs) (snd rs)"

definition json_response :: "int \<Rightarrow> string \<Rightarrow> string \<Rightarrow> (string, string) omap \<Rightarrow> resp" where
  "json_response status msg code extra =
     \<lparr>rsStatus = status, rsHeaders = new_headers (json_headers @ extra),
      rsBody = JsonBody (JObj [(''error'', JStr msg), (''statusCode'', JNum (of_int status)), (''code'', JStr code)]), rsFast = False\<rparr>"

definition NOT_FOUND_RESPONSE :: resp where
  "NOT_FOUND_RESPONSE = json_response 404 ''Not Found'' ''NOT_FOUND'' []"

fun method_name :: "methd \<Rightarrow> string" where
  "method_name GET = ''GET''"
| "method_name POST = ''POST''"
| "method_name PUT = ''PUT''"
| "method_name PATCH = ''PATCH''"
| "method_name DELETE = ''DELETE''"
| "method_name HEAD = ''HEAD''"
| "method_name OPTIONS = ''OPTIONS''"

definition METHOD_NOT_ALLOWED_RESPONSE :: "methd list \<Rightarrow> resp" where
  "METHOD_NOT_ALLOWED_RESPONSE allowed =
     json_response 405 ''Method Not Allowed'' ''METHOD_NOT_ALLOWED''
       (if allowed = [] then [] else [(''allow'', join '', '' (map method_name allowed))])"

text \<open>A malformed parameter: the error goes through the handlers of the root scope.\<close>

definition handle_malformed ::
    "('h, 'v, 'x, 'sc, 'w) env \<Rightarrow> ('h, 'v, 'x) app \<Rightarrow> http_error \<Rightarrow> ('v, 'w) st \<Rightarrow> (js_error + resp) \<times> ('v, 'w) st" where
  "handle_malformed E a e s =
     (case app_handleError E (errorHandler a) (hsOnError (root_hooks a)) (HttpErr e) s of
        (Inl err, s1) \<Rightarrow> (Inl err, s1)
      | (Inr r, s1) \<Rightarrow> map_prod Inr id (finishMiss E a (applyOnSend E (hsOnSend (root_hooks a)) r s1)))"

definition not_found ::
    "('h, 'v, 'x, 'sc, 'w) env \<Rightarrow> ('h, 'v, 'x) app \<Rightarrow> ('v, 'w) st \<Rightarrow> resp \<times> ('v, 'w) st" where
  "not_found E a s =
     (case notFoundHandler a of
        None \<Rightarrow> finishMiss E a (applyOnSend E (hsOnSend (root_hooks a)) NOT_FOUND_RESPONSE s)
      | Some h \<Rightarrow>
          (case runHandler E h s of
             (HThrew e, s1) \<Rightarrow> finishMiss E a (applyOnSend E (hsOnSend (root_hooks a)) NOT_FOUND_RESPONSE s1)
           | (HResponse r, s1) \<Rightarrow> finishMiss E a (applyOnSend E (hsOnSend (root_hooks a)) r s1)
           | (_, s1) \<Rightarrow>
               finishMiss E a
                 (merge_in (empty_response (if rpSent (sRep s1) then rpStatus (sRep s1) else 404)) s1 None, s1)))"

text \<open>No route: the guards of the path, then 405 or 404.\<close>

definition handle_miss ::
    "('h, 'v, 'x, 'sc, 'w) env \<Rightarrow> string \<Rightarrow> ('v, 'w) st \<Rightarrow> ('h, 'v, 'x) app \<Rightarrow>
     ((js_error + resp) \<times> ('v, 'w) st) \<times> ('h, 'v, 'x) app" where
  "handle_miss E pathname s a0 =
     (let rt = crouter (actx a0); isMethodMismatch = hasPath rt pathname;
          allowed = (if isMethodMismatch then allowedMethods rt pathname else [])
      in (case (if allowed \<noteq> [] then (routeScopeHooks pathname allowed a0, a0) else onRequestHooksForPath pathname a0) of
            (missHooks, a) \<Rightarrow>
              ((case runHooks E missHooks s of
                  (Inl e, s1) \<Rightarrow> (Inl e, s1)
                | (Inr (Some r), s1) \<Rightarrow> map_prod Inr id (finishMiss E a (merge_in r s1 None, s1))
                | (Inr None, s1) \<Rightarrow>
                    if isMethodMismatch
                    then map_prod Inr id
                      (finishMiss E a (applyOnSend E (hsOnSend (root_hooks a)) (METHOD_NOT_ALLOWED_RESPONSE allowed) s1))
                    else map_prod Inr id (not_found E a s1)), a)))"

text \<open>The request and reply of a matched route.\<close>

definition matched_state ::
    "('h, 'v, 'x, 'sc, 'w) env \<Rightarrow> 'v web_request \<Rightarrow> string \<Rightarrow> string \<Rightarrow> params \<Rightarrow> ('h, 'v) scope \<Rightarrow> trust_options \<Rightarrow> 'w \<Rightarrow>
     ('v, 'w) st" where
  "matched_state E w queryString effectiveUrl ps sc t world =
     (let q = with_ip w t (buildRequestFast (searchParams E) w queryString ps effectiveUrl)
      in \<lparr>sReq = q\<lparr>qProps := add_decorations (decoValue E) (own_names @ object_names @ [''ip'']) (sRequestDecorations sc) (qProps q),
            qCookies := Some (parseCookies (case headers_get ''cookie'' (wHeaders w) of None \<Rightarrow> [] | Some c \<Rightarrow> c))\<rparr>,
          sRep = createReply,
          sRepProps = add_decorations (decoValue E) reply_names (sReplyDecorations sc) [],
          sWorld = world\<rparr>)"

definition handle_matched ::
    "('h, 'v, 'x, 'sc, 'w) env \<Rightarrow> ('h, 'v, 'x) app \<Rightarrow> ('h \<times> nat, 'x) route \<Rightarrow> web_body \<Rightarrow> bool \<Rightarrow> ('v, 'w) st option \<Rightarrow>
     ('v, 'w) st \<Rightarrow> (js_error + resp) \<times> ('v, 'w) st" where
  "handle_matched E a rte b isHead fired s =
     (let hs = hooks_at (actx a) (snd (rhandler rte)) in
      (case runWithTimeout E (config a) (fst (rhandler rte)) (rschema rte) hs b fired s of
         (Inr r, s1) \<Rightarrow> map_prod Inr id (finish E (hsOnResponse hs) (strip_head isHead r) s1)
       | (Inl e, s1) \<Rightarrow>
           (case app_handleError E (errorHandler a) (hsOnError hs) e s1 of
              (Inl err, s2) \<Rightarrow> (Inl err, s2)
            | (Inr r, s2) \<Rightarrow>
                (case applyOnSend E (hsOnSend hs) r s2 of
                   (r2, s3) \<Rightarrow> map_prod Inr id (finish E (hsOnResponse hs) (strip_head isHead r2) s3)))))"

definition find_route ::
    "('h, 'x) router \<Rightarrow> methd \<Rightarrow> string \<Rightarrow> http_error + ('h, 'x) route_match option" where
  "find_route rt m pathname =
     (case match_route rt m pathname of
        Inr None \<Rightarrow> if m = HEAD then match_route rt GET pathname else Inr None
      | res \<Rightarrow> res)"

definition handle ::
    "('h, 'v, 'x, 'sc, 'w) env \<Rightarrow> 'v web_request \<Rightarrow> web_body \<Rightarrow> ('v, 'w) st option \<Rightarrow> 'w \<Rightarrow> ('h, 'v, 'x) app \<Rightarrow>
     ((js_error + resp) \<times> 'w) \<times> ('h, 'v, 'x) app" where
  "handle E w b fired world a0 =
     (let a = a0\<lparr>actx := flush (actx a0)\<rparr> in
      (case split_url (wUrl w) of
         (pathname, queryString, authorityStart, authorityEnd) \<Rightarrow>
           (let effectiveUrl = applyForwardedAuthority (wUrl w) authorityStart authorityEnd (wHeaders w) (trust a) in
            (case find_route (crouter (actx a)) (wMethod w) pathname of
               Inl e \<Rightarrow>
                 (case createMissContext E w effectiveUrl world a of
                    Inl err \<Rightarrow> ((Inl err, world), a)
                  | Inr s \<Rightarrow> (map_prod id sWorld (handle_malformed E a e s), a))
             | Inr None \<Rightarrow>
                 (case createMissContext E w effectiveUrl world a of
                    Inl err \<Rightarrow> ((Inl err, world), a)
                  | Inr s \<Rightarrow> (case handle_miss E pathname s a of (res, a') \<Rightarrow> (map_prod id sWorld res, a')))
             | Inr (Some mt) \<Rightarrow>
                 (map_prod id sWorld
                    (handle_matched E a (mroute mt) b (wMethod w = HEAD) fired
                      (matched_state E w queryString effectiveUrl (mparams mt)
                        (bscope (bindings (actx a) ! snd (rhandler (mroute mt)))) (trust a) world)), a)))))"

end
