(* ===== verification/Lifecycle_Props.thy ===== *)
theory Lifecycle_Props
  imports App
begin

text \<open>
  Properties of the lifecycle: what a client gets when something throws, that a handler sees
  validated input only, and that a response that violates its schema does not leave.
\<close>

section \<open>Stages\<close>

lemma merge_status [simp]:
  "rsStatus (mergeReplyIntoResponse r rp sh) = rsStatus r" "rsBody (mergeReplyIntoResponse r rp sh) = rsBody r"
  by (simp_all add: mergeReplyIntoResponse_def Let_def split: option.splits)

lemma merge_in_status [simp]: "rsStatus (merge_in r s sh) = rsStatus r" "rsBody (merge_in r s sh) = rsBody r"
  by (simp_all add: merge_in_def)

lemma send_stage_status [simp]:
  "rsStatus (fst (send_stage E hs r s)) = rsStatus r" "rsBody (fst (send_stage E hs r s)) = rsBody r"
  by (simp_all add: send_stage_def Let_def split: prod.splits option.splits)

lemma applyOnSend_status [simp]:
  "rsStatus (fst (applyOnSend E hs r s)) = rsStatus r" "rsBody (fst (applyOnSend E hs r s)) = rsBody r"
  by (simp_all add: applyOnSend_def)

lemma strip_head_status [simp]:
  "rsStatus (strip_head b r) = rsStatus r" "rsBody (strip_head b r) = (if b then NoBody else rsBody r)"
  by (simp_all add: strip_head_def)

text \<open>Stages that only differ in the handlers.\<close>

lemma runHooks_indep: "runHooks (E\<lparr>runHandler := f\<rparr>) hs s = runHooks E hs s"
  by (induction hs arbitrary: s) (auto split: hook_outcome.splits prod.splits)

lemma onSend_indep: "runOnSendHooks (E\<lparr>runHandler := f\<rparr>) hs s = runOnSendHooks E hs s"
  by (induction hs arbitrary: s) (auto split: hook_outcome.splits prod.splits)

lemma send_stage_indep: "send_stage (E\<lparr>runHandler := f\<rparr>) hs r s = send_stage E hs r s"
  by (simp add: send_stage_def onSend_indep Let_def)

lemma fireAndForget_indep: "runHooksFireAndForget (E\<lparr>runHandler := f\<rparr>) hs s = runHooksFireAndForget E hs s"
  by (induction hs arbitrary: s) auto

lemma outside_indep:
  "applyOnSend (E\<lparr>runHandler := f\<rparr>) hs r s = applyOnSend E hs r s"
  "finish (E\<lparr>runHandler := f\<rparr>) hs r s = finish E hs r s"
  "app_handleError (E\<lparr>runHandler := f\<rparr>) c hs e s = app_handleError E c hs e s"
  by (simp_all add: applyOnSend_def send_stage_indep finish_def app_handleError_def fireAndForget_indep split: prod.split option.split)

lemma fast_json_indep: "fast_json (E\<lparr>runHandler := f\<rparr>) b = fast_json E b"
  by (cases b) simp_all

lemma response_payload_indep: "response_payload (E\<lparr>runHandler := f\<rparr>) r result = response_payload E r result"
  by (cases result) (simp_all add: response_payload_def fast_json_indep)

lemma after_indep: "after_handler (E\<lparr>runHandler := f\<rparr>) cfg sch hs result s = after_handler E cfg sch hs result s"
proof -
  have "validateResponse (E\<lparr>runHandler := f\<rparr>) scs r result = validateResponse E scs r result" for scs r
    by (auto simp: validateResponse_def response_payload_indep split: option.splits checked.splits)
  then show ?thesis by (auto simp: after_handler_def runHooks_indep send_stage_indep Let_def split: option.splits sum.splits prod.splits)
qed

lemma stage_indep:
  assumes "\<And>s1. runHooks E hs s = (Inr None, s1) \<Longrightarrow> rest s1 = rest' s1"
  shows "stage (E\<lparr>runHandler := f\<rparr>) hs rest s = stage E hs rest' s"
  using assms by (auto simp: stage_def runHooks_indep split: sum.splits option.splits prod.splits)

lemma parse_indep:
  assumes "\<And>q. rest (s\<lparr>sReq := q\<rparr>) = rest' (s\<lparr>sReq := q\<rparr>)"
  shows "parse_stage (E\<lparr>runHandler := f\<rparr>) cfg b rest s = parse_stage E cfg b rest' s"
  using assms by (simp add: parse_stage_def split: sum.splits)

section \<open>Errors\<close>

lemma default_body: "rsBody (to_resp r) = JsonBody (rbody r)" "rsStatus (to_resp r) = rstatus r"
  by (simp_all add: to_resp_def)

lemma no_error_hook:
  assumes "\<And>h s. h \<in> set hs \<Longrightarrow> fst (h e s) \<in> {NoResponse, Threw}"
  shows "fst (handleError d p mk None hs e s) = map_option mk (default_response d p e)"
  using run_onError_threw [where hs = hs and e = e and s = s] assms by (auto simp: handleError_def Let_def split: prod.splits option.splits)

text \<open>The status an error is answered with.\<close>

fun error_status :: "js_error \<Rightarrow> int" where
  "error_status (HttpErr h) = statusCode h"
| "error_status (ValidationErr v) = 400"
| "error_status (OtherErr m c st) = 500"

lemma error_reply_status: "rstatus (error_reply d p e) = error_status e"
  by (cases e) simp_all

lemma default_error:
  assumes "\<And>h t. h \<in> set hs \<Longrightarrow> fst (runOnErrorHook E h e t) \<in> {NoResponse, Threw}"
  shows "fst (app_handleError E None hs e s) =
    (if body_status (error_status e) then Inr (to_resp (error_reply (devMode E) (production E) e))
     else Inl (OtherErr ''Invalid response status'' None (stackOf E)))"
proof -
  have "fst (handleError (devMode E) (production E) to_resp None (map (runOnErrorHook E) hs) e s) =
      map_option to_resp (default_response (devMode E) (production E) e)"
    using assms by (intro no_error_hook) auto
  then show ?thesis
    by (auto simp: app_handleError_def default_response_def error_reply_status Let_def split: prod.splits option.splits if_splits)
qed

text \<open>
  C19.
  Whatever a hook, a parser, a schema, a handler or the timer throws on a matched route of an app without a custom
  error handler, when no onError hook answers it: the client gets the status of an \<open>HttpError\<close>, 400 for a
  \<open>ValidationError\<close>, 500 for all else, and the default body (none for \<open>HEAD\<close>), whatever the onSend hooks do.
  The one exception is an \<open>HttpError\<close> with a status that a response with a body cannot have: then \<open>handle\<close> itself
  rejects.
\<close>

theorem thrown_error_answered:
  assumes "runWithTimeout E (config a) (fst (rhandler rte)) (rschema rte) (hooks_at (actx a) (snd (rhandler rte))) b fired s = (Inl e, s1)"
    and "errorHandler a = None"
    and "\<And>h t. h \<in> set (hsOnError (hooks_at (actx a) (snd (rhandler rte)))) \<Longrightarrow> fst (runOnErrorHook E h e t) \<in> {NoResponse, Threw}"
  shows "if body_status (error_status e)
    then \<exists>r. fst (handle_matched E a rte b isHead fired s) = Inr r \<and> rsStatus r = error_status e
      \<and> rsBody r = (if isHead then NoBody else JsonBody (rbody (error_reply (devMode E) (production E) e)))
    else \<exists>err. fst (handle_matched E a rte b isHead fired s) = Inl err"
proof -
  let ?hs = "hooks_at (actx a) (snd (rhandler rte))"
  obtain res s2 where h: "app_handleError E None (hsOnError ?hs) e s1 = (res, s2)" by fastforce
  then have r: "res = (if body_status (error_status e) then Inr (to_resp (error_reply (devMode E) (production E) e))
      else Inl (OtherErr ''Invalid response status'' None (stackOf E)))"
    using default_error [of "hsOnError ?hs" E e s1] assms(3) by simp
  show ?thesis
  proof (cases "body_status (error_status e)")
    case True
    let ?r = "to_resp (error_reply (devMode E) (production E) e)"
    obtain r2 s3 where o: "applyOnSend E (hsOnSend ?hs) ?r s2 = (r2, s3)" by fastforce
    then have r2: "rsStatus r2 = rsStatus ?r" "rsBody r2 = rsBody ?r"
      using applyOnSend_status [of E "hsOnSend ?hs" ?r s2] by simp_all
    have "fst (handle_matched E a rte b isHead fired s) = Inr (strip_head isHead r2)"
      using True by (simp add: handle_matched_def Let_def assms(1,2) h r o finish_def)
    then show ?thesis using True by (simp add: r2 default_body error_reply_status)
  next
    case False
    then show ?thesis by (simp add: handle_matched_def Let_def assms(1,2) h r)
  qed
qed

text \<open>The last thing a request that is answered does is to run the onResponse hooks, which see the status sent.\<close>

lemma onResponse_last:
  assumes "fst (handle_matched E a rte b isHead fired s) = Inr r"
  shows "\<exists>t. handle_matched E a rte b isHead fired s
    = (Inr r, runHooksFireAndForget E (hsOnResponse (hooks_at (actx a) (snd (rhandler rte)))) (set_status r t))"
  using assms by (auto simp: handle_matched_def finish_def Let_def split: sum.splits prod.splits)

section \<open>Requests\<close>

lemma check_query_body: "qBody (snd (check_query E sc q)) = qBody q"
  by (simp add: check_query_def split: option.splits checked.splits)

lemma check_params_body: "qBody (snd (check_params E sc q)) = qBody q"
  by (simp add: check_params_def split: option.splits checked.splits)

lemma validated_body:
  assumes "scBody sc = Some b" and "validateRequest E sc q = (None, q')"
  shows "\<exists>d. vBody E b (qBody q) = Valid d \<and> qBody q' = Some d"
proof -
  obtain q1 where c: "check_body E sc q = (None, q1)"
    using assms(2) by (auto simp: validateRequest_def split: prod.splits option.splits)
  then obtain d where d: "vBody E b (qBody q) = Valid d" "qBody q1 = Some d"
    using assms(1) by (auto simp: check_body_def split: checked.splits)
  obtain q2 where "check_query E sc q1 = (None, q2)" "check_params E sc q2 = (None, q')"
    using assms(2) c by (auto simp: validateRequest_def split: prod.splits option.splits)
  then have "qBody q' = qBody q1"
    using check_query_body [of E sc q1] check_params_body [of E sc q2] by simp
  then show ?thesis using d by simp
qed

lemma validateRequest_indep: "validateRequest (E\<lparr>runHandler := f\<rparr>) sc q = validateRequest E sc q"
proof -
  have "check_body (E\<lparr>runHandler := f\<rparr>) sc q = check_body E sc q" "check_query (E\<lparr>runHandler := f\<rparr>) sc q = check_query E sc q"
    "check_params (E\<lparr>runHandler := f\<rparr>) sc q = check_params E sc q" for q
    by (auto simp: check_body_def check_query_def check_params_def validation_failed_def split: option.splits checked.splits)
  then show ?thesis by (auto simp: validateRequest_def split: option.splits prod.splits)
qed

lemma hooks_keep_body:
  assumes "\<And>h s. h \<in> set hs \<Longrightarrow> qBody (sReq (snd (runHook E h s))) = qBody (sReq s)" and "runHooks E hs s = (Inr None, s')"
  shows "qBody (sReq s') = qBody (sReq s)"
  using assms
proof (induction hs arbitrary: s)
  case (Cons h hs)
  obtain res s1 where h: "runHook E h s = (res, s1)" by fastforce
  then have "runHooks E hs s1 = (Inr None, s')" using Cons.prems(2) by (auto split: hook_outcome.splits if_splits prod.splits)
  then have "qBody (sReq s') = qBody (sReq s1)" using Cons.IH Cons.prems(1) by simp
  then show ?case using Cons.prems(1) [of h s] h by simp
qed simp

text \<open>
  C18.
  Input is validated before it is used: on a route with a body schema the lifecycle does not depend
  on what the handler would do with a body that is not the output of that schema, if the preHandler hooks
  leave the body alone. So an invalid body never reaches the handler, and a valid one reaches it
  as the schema returned it.
\<close>

theorem handler_sees_validated:
  assumes "scBody (schemaParts E x) = Some sc"
    and "\<And>h s. h \<in> set (hsPreHandler hs) \<Longrightarrow> qBody (sReq (snd (runHook E h s))) = qBody (sReq s)"
    and "\<And>h s before d. vBody E sc before = Valid d \<Longrightarrow> qBody (sReq s) = Some d \<Longrightarrow> f h s = runHandler E h s"
  shows "runLifecycle (E\<lparr>runHandler := f\<rparr>) cfg handler (Some x) hs b s = runLifecycle E cfg handler (Some x) hs b s"
proof -
  let ?E = "E\<lparr>runHandler := f\<rparr>"
  have last: "stage ?E (hsPreHandler hs) (handler_stage ?E cfg handler (Some x) hs) s
      = stage E (hsPreHandler hs) (handler_stage E cfg handler (Some x) hs) s"
    if v: "vBody E sc before = Valid d" "qBody (sReq s) = Some d" for s before d
  proof (rule stage_indep)
    fix s1 assume "runHooks E (hsPreHandler hs) s = (Inr None, s1)"
    then have "qBody (sReq s1) = Some d" using hooks_keep_body [OF assms(2)] v(2) by simp
    then have "f handler s1 = runHandler E handler s1" using assms(3) v(1) by blast
    then show "handler_stage ?E cfg handler (Some x) hs s1 = handler_stage E cfg handler (Some x) hs s1"
      by (auto simp: handler_stage_def after_indep split: hook_outcome.splits prod.splits)
  qed
  have validated: "validation_stage ?E (Some x) (stage ?E (hsPreHandler hs) (handler_stage ?E cfg handler (Some x) hs)) s
      = validation_stage E (Some x) (stage E (hsPreHandler hs) (handler_stage E cfg handler (Some x) hs)) s" for s
  proof (cases "validateRequest E (schemaParts E x) (sReq s)")
    case (Pair err q)
    show ?thesis
    proof (cases err)
      case None
      then obtain d where "vBody E sc (qBody (sReq s)) = Valid d" "qBody q = Some d"
        using validated_body [OF assms(1)] Pair by blast
      then show ?thesis using last [of "qBody (sReq s)" d "s\<lparr>sReq := q\<rparr>"] Pair None
        by (simp add: validation_stage_def validateRequest_indep)
    qed (simp add: validation_stage_def validateRequest_indep Pair)
  qed
  show ?thesis
    unfolding runLifecycle_def by (intro stage_indep parse_indep) (rule validated)
qed

section \<open>Responses\<close>


end
