(* ===== verification/Context_Props.thy ===== *)
theory Context_Props
  imports Context
begin

text \<open>
  Encapsulation is correct: which contexts apply to a route, in which order, and that a
  resolved scope is never stale when a request reads it.
\<close>

section \<open>The tree of contexts\<close>

text \<open>Contexts are created after their parents, and parent and child references agree.\<close>

definition ctx_tree :: "('h, 'v) contexts \<Rightarrow> bool" where
  "ctx_tree cs \<longleftrightarrow>
     (\<forall>c < length cs. distinct (kids (cs ! c)) \<and>
        (\<forall>k \<in> set (kids (cs ! c)). c < k \<and> k < length cs \<and> parent (cs ! k) = Some c) \<and>
        (parent (cs ! c) = None \<longleftrightarrow> c = 0) \<and>
        (\<forall>p. parent (cs ! c) = Some p \<longrightarrow> p < c \<and> c \<in> set (kids (cs ! p))))
     \<and> cs \<noteq> []"

lemma treeD:
  assumes "ctx_tree cs" and "c < length cs"
  shows "distinct (kids (cs ! c))" "parent (cs ! c) = None \<longleftrightarrow> c = 0"
    "k \<in> set (kids (cs ! c)) \<Longrightarrow> c < k \<and> k < length cs \<and> parent (cs ! k) = Some c"
    "parent (cs ! c) = Some p \<Longrightarrow> p < c \<and> c \<in> set (kids (cs ! p))"
  using assms unfolding ctx_tree_def by blast+

text \<open>The ancestors of a context, itself included.\<close>

definition ancestors :: "('h, 'v) contexts \<Rightarrow> cid \<Rightarrow> cid list" where
  "ancestors cs c = chain_up (Suc c) cs c"

lemma chain_up_fuel:
  "ctx_tree cs \<Longrightarrow> c < length cs \<Longrightarrow> c < n \<Longrightarrow> chain_up n cs c = ancestors cs c"
proof (induction n arbitrary: c rule: less_induct)
  case (less n)
  obtain m where n: "n = Suc m" using less.prems(3) by (cases n) auto
  show ?case
  proof (cases "parent (cs ! c)")
    case None
    then show ?thesis by (simp add: n ancestors_def)
  next
    case (Some p)
    then have p: "p < c" using treeD(4) [OF less.prems(1,2)] by blast
    then have "chain_up m cs p = ancestors cs p" "chain_up c cs p = ancestors cs p"
      using less.IH [of m p] less.IH [of c p] less.prems n by auto
    moreover have "ancestors cs c = c # chain_up c cs p" using Some by (simp add: ancestors_def)
    ultimately show ?thesis using Some by (simp only: n chain_up.simps option.case)
  qed
qed

lemma tree_root: "ctx_tree cs \<Longrightarrow> 0 < length cs \<and> parent (cs ! 0) = None"
proof -
  assume t: "ctx_tree cs"
  then have "cs \<noteq> []" unfolding ctx_tree_def by blast
  then show ?thesis using treeD(2) [OF t, of 0] by simp
qed

lemma ancestors_root: "ctx_tree cs \<Longrightarrow> ancestors cs 0 = [0]"
  using tree_root [of cs] by (simp add: ancestors_def)

lemma ancestors_parent:
  "ctx_tree cs \<Longrightarrow> c < length cs \<Longrightarrow> parent (cs ! c) = Some p \<Longrightarrow> ancestors cs c = c # ancestors cs p"
proof -
  assume t: "ctx_tree cs" "c < length cs" "parent (cs ! c) = Some p"
  then have "p < c" using treeD(4) by blast
  then have "chain_up c cs p = ancestors cs p" using t by (intro chain_up_fuel) auto
  then show ?thesis using t(3) by (simp only: ancestors_def chain_up.simps option.case)
qed

lemma ctx_induct [consumes 2, case_names root child]:
  assumes "ctx_tree cs" and "c < length cs" and "P 0"
    and "\<And>c p. c < length cs \<Longrightarrow> parent (cs ! c) = Some p \<Longrightarrow> p < c \<Longrightarrow> P p \<Longrightarrow> P c"
  shows "P c"
  using assms(2)
proof (induction c rule: less_induct)
  case (less c)
  show ?case
  proof (cases "parent (cs ! c)")
    case None
    then show ?thesis using treeD(2) [OF assms(1) less.prems] assms(3) by simp
  next
    case (Some p)
    then have "p < c" using treeD(4) [OF assms(1) less.prems] by blast
    then show ?thesis using less Some assms(4) by simp
  qed
qed

lemma ancestors_self: "c \<in> set (ancestors cs c)"
  by (simp add: ancestors_def)

lemma ancestors_le:
  assumes t: "ctx_tree cs" and "c < length cs"
  shows "a \<in> set (ancestors cs c) \<Longrightarrow> a \<le> c"
  using assms
proof (induction c rule: ctx_induct)
  case root
  then show ?case by (simp add: ancestors_root [OF t])
next
  case (child c p)
  then show ?case by (auto simp: ancestors_parent [OF t])
qed

lemma ancestors_sorted:
  assumes t: "ctx_tree cs" and "c < length cs"
  shows "sorted_wrt (>) (ancestors cs c)"
  using assms
proof (induction c rule: ctx_induct)
  case root
  then show ?case by (simp add: ancestors_root [OF t])
next
  case (child c p)
  have "\<forall>a \<in> set (ancestors cs p). a < c"
    using ancestors_le [OF t, of p] child by fastforce
  then show ?case using child by (simp add: ancestors_parent [OF t])
qed

lemma ancestors_trans:
  assumes t: "ctx_tree cs" and "c < length cs"
  shows "a \<in> set (ancestors cs c) \<Longrightarrow> set (ancestors cs a) \<subseteq> set (ancestors cs c)"
  using assms
proof (induction c rule: ctx_induct)
  case root
  then show ?case by (simp add: ancestors_root [OF t])
next
  case (child c p)
  then show ?case by (auto simp: ancestors_parent [OF t])
qed

lemma ancestors_has_root:
  assumes t: "ctx_tree cs" and "c < length cs"
  shows "0 \<in> set (ancestors cs c)"
  using assms
proof (induction c rule: ctx_induct)
  case root
  then show ?case by (simp add: ancestors_root [OF t])
next
  case (child c p)
  then show ?case by (simp add: ancestors_parent [OF t])
qed

section \<open>The traversal of transparent children\<close>

text \<open>What the traversal appends, without the set of visited contexts: \<open>A\<close> is the route's own chain.\<close>

fun pre :: "cid set \<Rightarrow> nat \<Rightarrow> ('h, 'v) contexts \<Rightarrow> cid list \<Rightarrow> cid list" where
  "pre A 0 cs ks = []"
| "pre A (Suc n) cs ks =
     concat (map (\<lambda>k. if transparent (cs ! k) \<and> k \<notin> A then k # pre A n cs (kids (cs ! k)) else []) ks)"

text \<open>Every context in it is below one of the given ones, and no context of the chain is in between.\<close>

lemma pre_below:
  "ctx_tree cs \<Longrightarrow> v < length cs \<Longrightarrow> ks = kids (cs ! v) \<Longrightarrow> x \<in> set (pre A n cs ks) \<Longrightarrow>
   x < length cs \<and> v < x \<and> transparent (cs ! x) \<and> v \<in> set (ancestors cs x) \<and> set (ancestors cs x) \<inter> A \<subseteq> set (ancestors cs v)"
proof (induction n arbitrary: v ks)
  case (Suc n)
  then obtain k where k: "k \<in> set (kids (cs ! v))" "transparent (cs ! k)" "k \<notin> A"
      "x = k \<or> x \<in> set (pre A n cs (kids (cs ! k)))" by (auto split: if_splits)
  have kv: "v < k" "k < length cs" "parent (cs ! k) = Some v" using treeD(3) [OF Suc.prems(1,2) k(1)] by auto
  have ak: "ancestors cs k = k # ancestors cs v" by (rule ancestors_parent [OF Suc.prems(1) kv(2,3)])
  show ?case
  proof (cases "x = k")
    case True
    then show ?thesis using kv k ak ancestors_self [of v cs] by auto
  next
    case False
    then have "x < length cs \<and> k < x \<and> transparent (cs ! x) \<and> k \<in> set (ancestors cs x) \<and> set (ancestors cs x) \<inter> A \<subseteq> set (ancestors cs k)"
      using Suc.IH [OF Suc.prems(1) kv(2) refl] k(4) by blast
    moreover then have "set (ancestors cs k) \<subseteq> set (ancestors cs x)" using ancestors_trans [OF Suc.prems(1), of x k] by simp
    ultimately show ?thesis using kv(1) k(3) ak ancestors_self [of v cs] by auto
  qed
qed simp

text \<open>Subtrees of different siblings are disjoint.\<close>

lemma siblings_apart:
  assumes "ctx_tree cs" and "k \<in> set (kids (cs ! v))" and "j \<in> set (kids (cs ! v))" and "v < length cs" and "x < length cs"
    and "k \<in> set (ancestors cs x)" and "j \<in> set (ancestors cs x)"
  shows "k = j"
  using assms(1,5,6,7)
proof (induction x rule: ctx_induct)
  case root
  then show ?case by (simp add: ancestors_root [OF assms(1)])
next
  case (child x p)
  have pk: "parent (cs ! k) = Some v" "parent (cs ! j) = Some v" using treeD(3) [OF assms(1,4)] assms(2,3) by auto
  have x: "k \<in> insert x (set (ancestors cs p))" "j \<in> insert x (set (ancestors cs p))"
    using child.prems child.hyps by (auto simp: ancestors_parent [OF assms(1)])
  have no: "i \<notin> set (ancestors cs v)" if "i \<in> set (kids (cs ! v))" for i
    using treeD(3) [OF assms(1,4) that] ancestors_le [OF assms(1,4), of i] by auto
  show ?case
  proof (cases "k = x \<or> j = x")
    case True
    then have "p = v" using pk child.hyps by auto
    then show ?thesis using x no assms(2,3) by auto
  next
    case False
    then show ?thesis using child x by auto
  qed
qed

lemma pre_distinct:
  "ctx_tree cs \<Longrightarrow> v < length cs \<Longrightarrow> distinct (pre A n cs (kids (cs ! v)))"
proof (induction n arbitrary: v)
  case (Suc n)
  have part: "distinct (concat (map (\<lambda>k. if transparent (cs ! k) \<and> k \<notin> A then k # pre A n cs (kids (cs ! k)) else []) ks))"
    if "distinct ks" "set ks \<subseteq> set (kids (cs ! v))" for ks
    using that
  proof (induction ks)
    case (Cons k ks)
    have k: "k < length cs" using treeD(3) [OF Suc.prems, of k] Cons.prems by simp
    have anc: "i \<in> set (ancestors cs x) \<and> x < length cs"
      if "i \<in> set (kids (cs ! v))" "x \<in> set (if transparent (cs ! i) \<and> i \<notin> A then i # pre A n cs (kids (cs ! i)) else [])" for i x
    proof -
      have i: "i < length cs" using treeD(3) [OF Suc.prems that(1)] by simp
      then show ?thesis using that(2) pre_below [OF Suc.prems(1) i refl, of x A n] ancestors_self [of i cs] by (auto split: if_splits)
    qed
    have "distinct (if transparent (cs ! k) \<and> k \<notin> A then k # pre A n cs (kids (cs ! k)) else [])"
      using Suc.IH [OF Suc.prems(1) k] pre_below [OF Suc.prems(1) k refl, of k A n] by auto
    moreover have "set (if transparent (cs ! k) \<and> k \<notin> A then k # pre A n cs (kids (cs ! k)) else [])
        \<inter> set (concat (map (\<lambda>k. if transparent (cs ! k) \<and> k \<notin> A then k # pre A n cs (kids (cs ! k)) else []) ks)) = {}"
    proof -
      have "False" if x: "x \<in> set (if transparent (cs ! k) \<and> k \<notin> A then k # pre A n cs (kids (cs ! k)) else [])"
          "j \<in> set ks" "x \<in> set (if transparent (cs ! j) \<and> j \<notin> A then j # pre A n cs (kids (cs ! j)) else [])" for x j
      proof -
        have kj: "k \<in> set (kids (cs ! v))" "j \<in> set (kids (cs ! v))" using Cons.prems x(2) by auto
        have "k = j" using siblings_apart [OF Suc.prems(1) kj Suc.prems(2)] anc [OF kj(1) x(1)] anc [OF kj(2) x(3)] by blast
        then show False using Cons.prems(1) x(2) by simp
      qed
      then show ?thesis by fastforce
    qed
    ultimately show ?case using Cons by simp
  qed simp
  from part [OF treeD(1) [OF Suc.prems]] show ?case by simp
qed simp

text \<open>The traversal with its set of visited contexts is the one without.\<close>

lemma transparent_step:
  assumes t: "ctx_tree cs"
    and IH: "\<And>k seen out. k < length cs \<Longrightarrow> A \<subseteq> seen \<Longrightarrow> (\<forall>x < length cs. k \<in> set (ancestors cs x) \<and> x \<noteq> k \<longrightarrow> x \<in> seen \<longrightarrow> x \<in> A) \<Longrightarrow>
      collectTransparent n cs (kids (cs ! k)) (seen, out) = (seen \<union> set (pre A n cs (kids (cs ! k))), out @ pre A n cs (kids (cs ! k)))"
    and v: "v < length cs"
  shows "set ks \<subseteq> set (kids (cs ! v)) \<Longrightarrow> distinct ks \<Longrightarrow> A \<subseteq> seen \<Longrightarrow>
    (\<forall>k \<in> set ks. \<forall>x < length cs. k \<in> set (ancestors cs x) \<longrightarrow> x \<in> seen \<longrightarrow> x \<in> A) \<Longrightarrow>
    collectTransparent (Suc n) cs ks (seen, out) = (seen \<union> set (pre A (Suc n) cs ks), out @ pre A (Suc n) cs ks)"
proof (induction ks arbitrary: seen out)
  case (Cons k ks)
  let ?P = "pre A n cs (kids (cs ! k))"
  have k: "k \<in> set (kids (cs ! v))" "k < length cs" using Cons.prems(1) treeD(3) [OF t v, of k] by auto
  show ?case
  proof (cases "transparent (cs ! k) \<and> k \<notin> seen")
    case False
    then have "\<not> transparent (cs ! k) \<or> k \<in> A" using Cons.prems(4) k ancestors_self [of k cs] by auto
    then have "pre A (Suc n) cs (k # ks) = pre A (Suc n) cs ks" by auto
    moreover have "collectTransparent (Suc n) cs (k # ks) (seen, out) = collectTransparent (Suc n) cs ks (seen, out)"
      using False by auto
    ultimately show ?thesis using Cons by simp
  next
    case True
    then have kA: "k \<notin> A" using Cons.prems(3) by auto
    have sub: "\<forall>x < length cs. k \<in> set (ancestors cs x) \<and> x \<noteq> k \<longrightarrow> x \<in> insert k seen \<longrightarrow> x \<in> A" using Cons.prems(4) by auto
    have c: "collectTransparent n cs (kids (cs ! k)) (insert k seen, out @ [k]) = (insert k seen \<union> set ?P, (out @ [k]) @ ?P)"
      using Cons.prems(3) by (intro IH [OF k(2) _ sub]) auto
    have step: "collectTransparent (Suc n) cs (k # ks) (seen, out) = collectTransparent (Suc n) cs ks (insert k seen \<union> set ?P, (out @ [k]) @ ?P)"
      using True c by simp
    have apart: "\<forall>j \<in> set ks. \<forall>x < length cs. j \<in> set (ancestors cs x) \<longrightarrow> x \<in> insert k seen \<union> set ?P \<longrightarrow> x \<in> A"
    proof (intro ballI allI impI)
      fix j x
      assume j: "j \<in> set ks" and x: "x < length cs" "j \<in> set (ancestors cs x)" "x \<in> insert k seen \<union> set ?P"
      show "x \<in> A"
      proof (cases "x \<in> seen")
        case True
        then show ?thesis using Cons.prems(4) j x by auto
      next
        case False
        then have "k \<in> set (ancestors cs x)" using x(3) pre_below [OF t k(2) refl, of x A n] ancestors_self [of k cs] by auto
        then have "k = j" using siblings_apart [OF t k(1) _ v x(1) _ x(2)] Cons.prems(1) j by auto
        then show ?thesis using Cons.prems(2) j by simp
      qed
    qed
    have "collectTransparent (Suc n) cs ks (insert k seen \<union> set ?P, (out @ [k]) @ ?P) =
        ((insert k seen \<union> set ?P) \<union> set (pre A (Suc n) cs ks), ((out @ [k]) @ ?P) @ pre A (Suc n) cs ks)"
      using Cons.prems by (intro Cons.IH apart) auto
    moreover have "pre A (Suc n) cs (k # ks) = k # ?P @ pre A (Suc n) cs ks" using True kA by simp
    ultimately show ?thesis unfolding step by auto
  qed
qed simp

lemma collectTransparent_pre:
  assumes t: "ctx_tree cs" and "v < length cs" and "A \<subseteq> seen"
    and "\<forall>x < length cs. v \<in> set (ancestors cs x) \<and> x \<noteq> v \<longrightarrow> x \<in> seen \<longrightarrow> x \<in> A"
  shows "collectTransparent n cs (kids (cs ! v)) (seen, out) =
    (seen \<union> set (pre A n cs (kids (cs ! v))), out @ pre A n cs (kids (cs ! v)))"
  using assms(2-)
proof (induction n arbitrary: v seen out)
  case (Suc n)
  show ?case
  proof (rule transparent_step [OF t _ Suc.prems(1) subset_refl treeD(1) [OF t Suc.prems(1)] Suc.prems(2)])
    show "\<forall>k \<in> set (kids (cs ! v)). \<forall>x < length cs. k \<in> set (ancestors cs x) \<longrightarrow> x \<in> seen \<longrightarrow> x \<in> A"
    proof (intro ballI allI impI)
      fix k x
      assume k: "k \<in> set (kids (cs ! v))" and x: "x < length cs" "k \<in> set (ancestors cs x)" "x \<in> seen"
      have kv: "v < k" "k < length cs" "parent (cs ! k) = Some v" using treeD(3) [OF t Suc.prems(1) k] by auto
      have "v \<in> set (ancestors cs k)" using ancestors_parent [OF t kv(2,3)] ancestors_self [of v cs] by simp
      then have "v \<in> set (ancestors cs x)" using ancestors_trans [OF t x(1,2)] by auto
      moreover have "x \<noteq> v" using ancestors_le [OF t x(1,2)] kv(1) by auto
      ultimately show "x \<in> A" using Suc.prems(3) x by blast
    qed
  qed (use Suc.IH in blast)
qed simp

section \<open>Which contexts apply, and in which order\<close>

definition below :: "('h, 'v) contexts \<Rightarrow> cid list \<Rightarrow> cid \<Rightarrow> cid list" where
  "below cs chain a = pre (set chain) (length cs) cs (kids (cs ! a))"

lemma fold_chain:
  assumes t: "ctx_tree cs"
  shows "set vs \<subseteq> set chain \<Longrightarrow> sorted_wrt (<) vs \<Longrightarrow> (\<forall>v \<in> set vs. v < length cs) \<Longrightarrow> set chain \<subseteq> seen \<Longrightarrow>
    (\<forall>v \<in> set vs. \<forall>x < length cs. v \<in> set (ancestors cs x) \<longrightarrow> x \<in> seen \<longrightarrow> x \<in> set chain) \<Longrightarrow>
    snd (fold (\<lambda>c (seen, out). collectTransparent (length cs) cs (kids (cs ! c)) (seen, out @ [c])) vs (seen, out)) =
      out @ concat (map (\<lambda>a. a # below cs chain a) vs)"
proof (induction vs arbitrary: seen out)
  case (Cons v vs)
  have v: "v < length cs" using Cons.prems(3) by simp
  have c: "collectTransparent (length cs) cs (kids (cs ! v)) (seen, out @ [v]) = (seen \<union> set (below cs chain v), (out @ [v]) @ below cs chain v)"
    unfolding below_def using Cons.prems(4,5) by (intro collectTransparent_pre [OF t v]) auto
  have "\<forall>u \<in> set vs. \<forall>x < length cs. u \<in> set (ancestors cs x) \<longrightarrow> x \<in> seen \<union> set (below cs chain v) \<longrightarrow> x \<in> set chain"
  proof (intro ballI allI impI)
    fix u x
    assume u: "u \<in> set vs" and x: "x < length cs" "u \<in> set (ancestors cs x)" "x \<in> seen \<union> set (below cs chain v)"
    have "u \<in> set chain" "v < u" using Cons.prems(1,2) u by auto
    then have "x \<notin> set (below cs chain v)"
      using pre_below [OF t v refl, of x "set chain" "length cs"] ancestors_le [OF t v, of u] x(2) by (auto simp: below_def)
    then show "x \<in> set chain" using Cons.prems(5) u x by auto
  qed
  then have "snd (fold (\<lambda>c (seen, out). collectTransparent (length cs) cs (kids (cs ! c)) (seen, out @ [c])) vs
        (seen \<union> set (below cs chain v), (out @ [v]) @ below cs chain v))
      = ((out @ [v]) @ below cs chain v) @ concat (map (\<lambda>a. a # below cs chain a) vs)"
    using Cons.prems by (intro Cons.IH) auto
  then show ?case using c by simp
qed simp

lemma scope_contexts_eq:
  assumes t: "ctx_tree cs" and l: "leaf < length cs"
  shows "collectScopeContexts cs leaf = concat (map (\<lambda>a. a # below cs (rev (ancestors cs leaf)) a) (rev (ancestors cs leaf)))"
proof -
  let ?chain = "rev (ancestors cs leaf)"
  have ch: "rev (chain_up (length cs) cs leaf) = ?chain" using chain_up_fuel [OF t l l] by simp
  have "sorted_wrt (<) ?chain" using ancestors_sorted [OF t l] by (simp add: sorted_wrt_rev)
  moreover have "\<forall>v \<in> set ?chain. v < length cs" using ancestors_le [OF t l] l by force
  ultimately show ?thesis unfolding collectScopeContexts_def Let_def ch
    using fold_chain [OF t, of ?chain ?chain "set ?chain" "[]"] by simp
qed

text \<open>A context applies to a route when every prefixed context around it is around the route too.\<close>

definition applies :: "('h, 'v) contexts \<Rightarrow> cid \<Rightarrow> cid \<Rightarrow> bool" where
  "applies cs c leaf = list_all (\<lambda>p. transparent (cs ! p) \<or> p \<in> set (ancestors cs leaf)) (butlast (ancestors cs c))"

lemma ancestors_last: "ctx_tree cs \<Longrightarrow> c < length cs \<Longrightarrow> ancestors cs c \<noteq> [] \<and> last (ancestors cs c) = 0"
proof (induction c rule: less_induct)
  case (less c)
  show ?case
  proof (cases "parent (cs ! c)")
    case None
    then have "c = 0" using treeD(2) [OF less.prems] by blast
    then show ?thesis using ancestors_root [OF less.prems(1)] by simp
  next
    case (Some p)
    then have "p < c" using treeD(4) [OF less.prems] by blast
    then show ?thesis using less.IH [of p] less.prems ancestors_parent [OF less.prems Some] by simp
  qed
qed

lemma applies_root: "ctx_tree cs \<Longrightarrow> applies cs 0 leaf"
  by (simp add: applies_def ancestors_root)

lemma applies_child:
  assumes t: "ctx_tree cs" and c: "c < length cs" and p: "parent (cs ! c) = Some p"
  shows "applies cs c leaf \<longleftrightarrow> (transparent (cs ! c) \<or> c \<in> set (ancestors cs leaf)) \<and> applies cs p leaf"
proof -
  have "p < length cs" using treeD(4) [OF t c p] c by auto
  then have "ancestors cs p \<noteq> []" using ancestors_last [OF t] by blast
  then show ?thesis by (simp add: applies_def ancestors_parent [OF t c p])
qed

lemma applies_ancestor:
  assumes t: "ctx_tree cs" and "c < length cs" and "leaf < length cs" and "c \<in> set (ancestors cs leaf)"
  shows "applies cs c leaf"
  using t assms(2) assms(3,4)
proof (induction c rule: ctx_induct)
  case root
  then show ?case by (simp add: applies_root [OF t])
next
  case (child c p)
  have "set (ancestors cs c) \<subseteq> set (ancestors cs leaf)" by (rule ancestors_trans [OF t child.prems])
  then have "p \<in> set (ancestors cs leaf)" using ancestors_parent [OF t child.hyps(1,2)] ancestors_self [of p cs] by auto
  then show ?case using child applies_child [OF t child.hyps(1,2)] by blast
qed

text \<open>The traversal misses no transparent child of a context it reaches.\<close>

lemma pre_closed:
  assumes t: "ctx_tree cs"
  shows "v < length cs \<Longrightarrow> length cs \<le> n + v \<Longrightarrow> x \<in> set (pre A n cs (kids (cs ! v))) \<Longrightarrow> k \<in> set (kids (cs ! x)) \<Longrightarrow>
    transparent (cs ! k) \<Longrightarrow> k \<notin> A \<Longrightarrow> k \<in> set (pre A n cs (kids (cs ! v)))"
proof (induction n arbitrary: v)
  case (Suc n)
  obtain j where j: "j \<in> set (kids (cs ! v))" "transparent (cs ! j)" "j \<notin> A"
      "x = j \<or> x \<in> set (pre A n cs (kids (cs ! j)))" using Suc.prems(3) by (auto split: if_splits)
  have jv: "v < j" "j < length cs" using treeD(3) [OF t Suc.prems(1) j(1)] by auto
  have "k \<in> set (pre A n cs (kids (cs ! j)))"
  proof (cases "x = j")
    case True
    then have "j < k" "k < length cs" using treeD(3) [OF t jv(2), of k] Suc.prems(4) by auto
    then obtain m where "n = Suc m" using Suc.prems(2) jv by (cases n) auto
    then show ?thesis using True Suc.prems by auto
  next
    case False
    then show ?thesis using Suc.IH [OF jv(2)] j(4) jv Suc.prems by auto
  qed
  then show ?case using j by auto
qed simp

lemma parent_in_pre:
  assumes t: "ctx_tree cs" and v: "v < length cs" and "x \<in> set (pre A n cs (kids (cs ! v)))" and "x < length cs" "parent (cs ! x) = Some p"
  shows "p = v \<or> p \<in> set (pre A n cs (kids (cs ! v)))"
  using v assms(3)
proof (induction n arbitrary: v)
  case (Suc n)
  obtain j where j: "j \<in> set (kids (cs ! v))" "transparent (cs ! j)" "j \<notin> A"
      "x = j \<or> x \<in> set (pre A n cs (kids (cs ! j)))" using Suc.prems(2) by (auto split: if_splits)
  have jv: "j < length cs" "parent (cs ! j) = Some v" using treeD(3) [OF t Suc.prems(1) j(1)] by auto
  show ?case
  proof (cases "x = j")
    case True
    then show ?thesis using jv assms(5) by simp
  next
    case False
    then have "p = j \<or> p \<in> set (pre A n cs (kids (cs ! j)))" using Suc.IH [OF jv(1)] j(4) by blast
    then show ?thesis using j by auto
  qed
qed simp

lemma below_closed:
  assumes t: "ctx_tree cs" and v: "v < length cs" and x: "x = v \<or> x \<in> set (below cs chain v)" and xl: "x < length cs"
    and k: "k \<in> set (kids (cs ! x))" "transparent (cs ! k)" "k \<notin> set chain"
  shows "k \<in> set (below cs chain v)"
proof (cases "x = v")
  case True
  obtain m where "length cs = Suc m" using v by (cases "length cs") auto
  then show ?thesis using True k by (auto simp: below_def)
next
  case False
  then show ?thesis using pre_closed [OF t v, of "length cs"] x k by (auto simp: below_def)
qed

lemma scope_contexts_set:
  assumes t: "ctx_tree cs" and l: "leaf < length cs"
  shows "set (collectScopeContexts cs leaf) = {c. c < length cs \<and> applies cs c leaf}"
proof -
  let ?chain = "rev (ancestors cs leaf)"
  have S: "set (collectScopeContexts cs leaf) = (\<Union>a \<in> set (ancestors cs leaf). insert a (set (below cs ?chain a)))"
    unfolding scope_contexts_eq [OF assms] by auto
  have al: "a < length cs" if "a \<in> set (ancestors cs leaf)" for a using ancestors_le [OF t l that] l by simp
  have "applies cs x leaf \<longleftrightarrow> x \<in> (\<Union>a \<in> set (ancestors cs leaf). insert a (set (below cs ?chain a)))"
    if "x < length cs" for x
    using t that
  proof (induction x rule: ctx_induct)
    case root
    then show ?case using applies_root [OF t] ancestors_has_root [OF t l] by auto
  next
    case (child x p)
    have xk: "x \<in> set (kids (cs ! p))" and pl: "p < length cs" using treeD(4) [OF t child.hyps(1,2)] child.hyps by auto
    show ?case
    proof (cases "x \<in> set (ancestors cs leaf)")
      case True
      then show ?thesis using applies_ancestor [OF t child.hyps(1) l] by auto
    next
      case False
      have "x \<in> set (below cs ?chain a) \<longleftrightarrow> transparent (cs ! x) \<and> p \<in> insert a (set (below cs ?chain a))"
        if a: "a \<in> set (ancestors cs leaf)" for a
      proof
        assume b: "x \<in> set (below cs ?chain a)"
        show "transparent (cs ! x) \<and> p \<in> insert a (set (below cs ?chain a))"
          using b parent_in_pre [OF t al [OF a] b [unfolded below_def] child.hyps(1,2)] pre_below [OF t al [OF a] refl, of x] by (auto simp: below_def)
      next
        assume "transparent (cs ! x) \<and> p \<in> insert a (set (below cs ?chain a))"
        then show "x \<in> set (below cs ?chain a)" using below_closed [OF t al [OF a] _ pl xk] False by auto
      qed
      then have "x \<in> (\<Union>a \<in> set (ancestors cs leaf). insert a (set (below cs ?chain a))) \<longleftrightarrow>
          transparent (cs ! x) \<and> p \<in> (\<Union>a \<in> set (ancestors cs leaf). insert a (set (below cs ?chain a)))"
        using False by auto
      then show ?thesis using applies_child [OF t child.hyps(1,2), of leaf] child.IH False by blast
    qed
  qed
  moreover have "x < length cs" if "x \<in> (\<Union>a \<in> set (ancestors cs leaf). insert a (set (below cs ?chain a)))" for x
    using that al pre_below [OF t al refl] by (auto simp: below_def)
  ultimately show ?thesis unfolding S by auto
qed

text \<open>Each context once, and after its parent.\<close>

definition parents_first :: "('h, 'v) contexts \<Rightarrow> cid list \<Rightarrow> bool" where
  "parents_first cs xs \<longleftrightarrow> (\<forall>us c vs. xs = us @ c # vs \<longrightarrow> (case parent (cs ! c) of None \<Rightarrow> True | Some p \<Rightarrow> p \<in> set us))"

fun parents_in :: "('h, 'v) contexts \<Rightarrow> cid set \<Rightarrow> cid list \<Rightarrow> bool" where
  "parents_in cs S [] = True"
| "parents_in cs S (c # xs) = ((case parent (cs ! c) of None \<Rightarrow> True | Some p \<Rightarrow> p \<in> S) \<and> parents_in cs (insert c S) xs)"

lemma parents_in_append: "parents_in cs S (xs @ ys) \<longleftrightarrow> parents_in cs S xs \<and> parents_in cs (S \<union> set xs) ys"
  by (induction xs arbitrary: S) simp_all

lemma parents_in_mono: "parents_in cs S xs \<Longrightarrow> S \<subseteq> T \<Longrightarrow> parents_in cs T xs"
proof (induction xs arbitrary: S T)
  case (Cons c xs)
  have "parents_in cs (insert c S) xs" "insert c S \<subseteq> insert c T" using Cons.prems by auto
  then have "parents_in cs (insert c T) xs" by (rule Cons.IH)
  moreover have "case parent (cs ! c) of None \<Rightarrow> True | Some p \<Rightarrow> p \<in> T"
    using Cons.prems by (cases "parent (cs ! c)") auto
  ultimately show ?case by simp
qed simp

lemma parents_in_first: "parents_in cs {} xs \<Longrightarrow> parents_first cs xs"
  unfolding parents_first_def by (auto simp: parents_in_append)

lemma pre_parents:
  assumes t: "ctx_tree cs"
  shows "v < length cs \<Longrightarrow> v \<in> S \<Longrightarrow> parents_in cs S (pre A n cs (kids (cs ! v)))"
proof (induction n arbitrary: v S)
  case (Suc n)
  have "parents_in cs S (pre A (Suc n) cs ks)" if "set ks \<subseteq> set (kids (cs ! v))" for ks
    using that
  proof (induction ks)
    case (Cons k ks)
    have k: "k < length cs" "parent (cs ! k) = Some v" using treeD(3) [OF t Suc.prems(1), of k] Cons.prems by auto
    have "parents_in cs (insert k S) (pre A n cs (kids (cs ! k)))" by (rule Suc.IH [OF k(1)]) simp
    moreover have ks: "parents_in cs S (pre A (Suc n) cs ks)" using Cons by simp
    then have "parents_in cs (insert k S \<union> set (pre A n cs (kids (cs ! k)))) (pre A (Suc n) cs ks)" by (rule parents_in_mono) auto
    moreover have "pre A (Suc n) cs (k # ks) =
        (if transparent (cs ! k) \<and> k \<notin> A then k # pre A n cs (kids (cs ! k)) else []) @ pre A (Suc n) cs ks" by simp
    moreover have "S \<union> set (k # pre A n cs (kids (cs ! k))) = insert k S \<union> set (pre A n cs (kids (cs ! k)))" by auto
    ultimately show ?case using k(2) Suc.prems(2) ks
      by (cases "transparent (cs ! k) \<and> k \<notin> A") (simp_all only: parents_in_append, auto simp del: pre.simps)
  qed simp
  then show ?case by blast
qed simp

lemma scope_contexts_order:
  assumes t: "ctx_tree cs" and l: "leaf < length cs"
  shows "parents_first cs (collectScopeContexts cs leaf)"
proof -
  have "parents_in cs {} (concat (map (\<lambda>a. a # below cs chain a) (rev (ancestors cs c)))) \<and>
      set (ancestors cs c) \<subseteq> set (concat (map (\<lambda>a. a # below cs chain a) (rev (ancestors cs c))))"
    if "c < length cs" for c chain
    using t that
  proof (induction c rule: ctx_induct)
    case root
    then show ?case using pre_parents [OF t, of 0 "{0}"] tree_root [OF t]
      by (auto simp: ancestors_root [OF t] below_def)
  next
    case (child c p)
    let ?L = "concat (map (\<lambda>a. a # below cs chain a) (rev (ancestors cs p)))"
    have a: "ancestors cs c = c # ancestors cs p" by (rule ancestors_parent [OF t child.hyps(1,2)])
    have "p \<in> set ?L" using child.IH ancestors_self [of p cs] child.hyps by auto
    moreover have "parents_in cs (insert c (set ?L)) (below cs chain c)"
      unfolding below_def by (rule pre_parents [OF t child.hyps(1)]) simp
    ultimately show ?case using child by (auto simp: a parents_in_append)
  qed
  then show ?thesis unfolding scope_contexts_eq [OF assms] using l by (intro parents_in_first) blast
qed

lemma scope_contexts_distinct:
  assumes t: "ctx_tree cs" and l: "leaf < length cs"
  shows "distinct (collectScopeContexts cs leaf)"
proof -
  let ?chain = "rev (ancestors cs leaf)" and ?A = "set (ancestors cs leaf)"
  have al: "a < length cs" if "a \<in> ?A" for a using ancestors_le [OF t l that] l by simp
  have b: "x < length cs \<and> a < x \<and> a \<in> set (ancestors cs x) \<and> set (ancestors cs x) \<inter> ?A \<subseteq> set (ancestors cs a)"
    if "a \<in> ?A" "x \<in> set (below cs ?chain a)" for a x
    using pre_below [OF t al [OF that(1)] refl, of x] that(2) by (auto simp: below_def)
  have notA: "x \<notin> ?A" if "a \<in> ?A" "x \<in> set (below cs ?chain a)" for a x
    using b [OF that] ancestors_self [of x cs] ancestors_le [OF t al [OF that(1)], of x] by auto
  have one: "distinct (a # below cs ?chain a)" if "a \<in> ?A" for a
    using pre_distinct [OF t al [OF that]] notA [OF that, of a] that by (auto simp: below_def)
  have uniq: "a = a'" if "a \<in> ?A" "a' \<in> ?A" "x \<in> set (below cs ?chain a)" "x \<in> set (below cs ?chain a')" for a a' x
  proof -
    have "a' \<in> set (ancestors cs a)" "a \<in> set (ancestors cs a')"
      using b [OF that(1,3)] b [OF that(2,4)] that(1,2) by auto
    then show ?thesis using ancestors_le [OF t al] that(1,2) by (metis le_antisym)
  qed
  have "distinct (concat (map (\<lambda>a. a # below cs ?chain a) as))" if "distinct as" "set as \<subseteq> ?A" for as
    using that
  proof (induction as)
    case (Cons a as)
    have "set (a # below cs ?chain a) \<inter> set (a' # below cs ?chain a') = {}" if "a' \<in> set as" for a'
      using uniq [of a a'] notA [of a a'] notA [of a' a] that Cons.prems by auto
    then have "set (a # below cs ?chain a) \<inter> set (concat (map (\<lambda>a. a # below cs ?chain a) as)) = {}" by auto
    moreover have "distinct (concat (map (\<lambda>a. a # below cs ?chain a) as))" using Cons by simp
    moreover have "distinct (a # below cs ?chain a)" using one Cons.prems by simp
    ultimately have "distinct ((a # below cs ?chain a) @ concat (map (\<lambda>a. a # below cs ?chain a) as))"
      unfolding distinct_append by blast
    then show ?case by simp
  qed simp
  moreover have "distinct (ancestors cs leaf)"
  proof -
    have "sorted_wrt (<) (rev (ancestors cs leaf))" using ancestors_sorted [OF t l] by (simp add: sorted_wrt_rev)
    then show ?thesis by (simp add: strict_sorted_iff)
  qed
  ultimately show ?thesis unfolding scope_contexts_eq [OF assms] by simp
qed

section \<open>Operations keep the tree and mark stale scopes\<close>

datatype ('h, 'v, 'x) ctx_op =
    Register cid "bool option" "string option"
  | ContextScope cid
  | AddRoute cid methd string 'h "('h, 'x) route_options option"
  | AddHook cid hook_name 'h
  | Decorate cid string 'v
  | DecorateRequest cid string 'v bool
  | DecorateReply cid string 'v
  | Flush

text \<open>A plugin only holds contexts that exist.\<close>

fun run_ctx_op :: "('h, 'v, 'x) ctx_op \<Rightarrow> ('h, 'v, 'x) app_ctx \<Rightarrow> ('h, 'v, 'x) app_ctx" where
  "run_ctx_op (Register c e p) s = (if c < length (ctxs s) then snd (ctx_register c e p s) else s)"
| "run_ctx_op (ContextScope c) s = (if c < length (ctxs s) then snd (createContextScope c s) else s)"
| "run_ctx_op (AddRoute c m url h opts) s = (if c < length (ctxs s) then snd (ctx_addRoute c m url h opts s) else s)"
| "run_ctx_op (AddHook c name h) s = (if c < length (ctxs s) then ctx_addHook c name h s else s)"
| "run_ctx_op (Decorate c name v) s = (if c < length (ctxs s) then snd (ctx_decorate c name v s) else s)"
| "run_ctx_op (DecorateRequest c name v a) s = (if c < length (ctxs s) then ctx_decorateRequest c name v a s else s)"
| "run_ctx_op (DecorateReply c name v) s = (if c < length (ctxs s) then ctx_decorateReply c name v s else s)"
| "run_ctx_op Flush s = flush s"

definition run_ctx :: "('h, 'v, 'x) ctx_op list \<Rightarrow> string \<Rightarrow> ('h \<times> nat, 'x) router \<Rightarrow> ('h, 'v, 'x) app_ctx" where
  "run_ctx ops prefix r = fold run_ctx_op ops (newAppCtx prefix r)"

definition current :: "('h, 'v) contexts \<Rightarrow> ('h, 'v) binding \<Rightarrow> bool" where
  "current cs b \<longleftrightarrow> bscope b = resolved_scope cs (bctx b) (blocal b)"

definition ctx_inv :: "('h, 'v, 'x) app_ctx \<Rightarrow> bool" where
  "ctx_inv s \<longleftrightarrow> ctx_tree (ctxs s) \<and> (\<forall>b \<in> set (bindings s). bctx b < length (ctxs s) \<and> (\<not> dirty s \<longrightarrow> current (ctxs s) b))"

text \<open>Two lists of contexts with the same tree, and with the same hooks and decorations of requests and replies.\<close>

definition same_shape :: "('h, 'v) contexts \<Rightarrow> ('h, 'v) contexts \<Rightarrow> bool" where
  "same_shape cs ds \<longleftrightarrow> length cs = length ds \<and> (\<forall>k. parent (cs ! k) = parent (ds ! k) \<and> kids (cs ! k) = kids (ds ! k))"

definition same_scope :: "('h, 'v) contexts \<Rightarrow> ('h, 'v) contexts \<Rightarrow> bool" where
  "same_scope cs ds \<longleftrightarrow> same_shape cs ds \<and> (\<forall>k. transparent (cs ! k) = transparent (ds ! k) \<and> add_context (cs ! k) = add_context (ds ! k))"

lemma same_shape_tree:
  assumes "same_shape cs ds" and "ctx_tree cs"
  shows "ctx_tree ds"
proof -
  have e: "length ds = length cs" "\<And>k. parent (ds ! k) = parent (cs ! k)" "\<And>k. kids (ds ! k) = kids (cs ! k)"
    using assms(1) by (auto simp: same_shape_def)
  have "ds \<noteq> [] \<longleftrightarrow> cs \<noteq> []" using e(1) by (metis length_0_conv)
  then show ?thesis using assms(2) unfolding ctx_tree_def e by blast
qed

lemma same_shape_chain: "same_shape cs ds \<Longrightarrow> chain_up n cs c = chain_up n ds c"
  by (induction n arbitrary: c) (auto simp: same_shape_def split: option.split)

lemma same_scope_transparent: "same_scope cs ds \<Longrightarrow> collectTransparent n cs ks st = collectTransparent n ds ks st"
proof (induction n arbitrary: ks st)
  case (Suc n)
  then have "collectTransparent n cs = collectTransparent n ds" by (intro ext) blast
  moreover have "transparent (cs ! k) = transparent (ds ! k)" "kids (cs ! k) = kids (ds ! k)" for k
    using Suc.prems by (auto simp: same_scope_def same_shape_def)
  ultimately show ?case by (simp only: collectTransparent.simps)
qed simp

lemma same_scope_resolved: "same_scope cs ds \<Longrightarrow> resolved_scope cs c l = resolved_scope ds c l"
proof -
  assume s: "same_scope cs ds"
  have "collectTransparent n cs = collectTransparent n ds" for n using same_scope_transparent [OF s] by (intro ext) blast
  moreover have "chain_up n cs c = chain_up n ds c" for n using s by (intro same_shape_chain) (simp add: same_scope_def)
  moreover have e: "length cs = length ds" "\<And>k. kids (cs ! k) = kids (ds ! k)" "\<And>k. add_context (cs ! k) = add_context (ds ! k)"
    using s by (auto simp: same_scope_def same_shape_def)
  ultimately have "collectScopeContexts cs c = collectScopeContexts ds c" by (simp only: collectScopeContexts_def)
  then show ?thesis by (simp only: resolved_scope_def e)
qed

lemma update_shape:
  assumes "c < length cs" and "\<And>x. parent (f x) = parent x" and "\<And>x. kids (f x) = kids x"
  shows "same_shape cs (cs[c := f (cs ! c)])"
  using assms by (auto simp: same_shape_def nth_list_update)

lemma update_decorations_scope:
  "c < length cs \<Longrightarrow> same_scope cs (cs[c := (cs ! c)\<lparr>decorations := d\<rparr>])"
  by (auto simp: same_scope_def same_shape_def nth_list_update add_context_def)

lemma update_ctx_inv:
  assumes "ctx_inv s" and "c < length (ctxs s)" and "\<And>x. parent (f x) = parent x" and "\<And>x. kids (f x) = kids x"
  shows "ctx_inv (invalidate (update_ctx c f s))"
  using assms same_shape_tree [OF update_shape [of c "ctxs s" f]] by (simp add: ctx_inv_def invalidate_def update_ctx_def)

lemma createChild_tree:
  assumes t: "ctx_tree cs" and c: "c < length cs"
  shows "ctx_tree (cs[c := (cs ! c)\<lparr>kids := kids (cs ! c) @ [length cs]\<rparr>] @ [new_context ds (Some c) prefix])"
proof -
  let ?cs = "cs[c := (cs ! c)\<lparr>kids := kids (cs ! c) @ [length cs]\<rparr>] @ [new_context ds (Some c) prefix]"
  have nth: "?cs ! k = (if k = length cs then new_context ds (Some c) prefix
      else if k = c then (cs ! c)\<lparr>kids := kids (cs ! c) @ [length cs]\<rparr> else cs ! k)" if "k \<le> length cs" for k
    using that c by (auto simp: nth_append nth_list_update)
  have kids: "kids (?cs ! k) = (if k = length cs then [] else if k = c then kids (cs ! c) @ [length cs] else kids (cs ! k))"
    if "k \<le> length cs" for k unfolding nth [OF that] by (simp add: new_context_def)
  have par: "parent (?cs ! k) = (if k = length cs then Some c else parent (cs ! k))" if "k \<le> length cs" for k
    unfolding nth [OF that] by (simp add: new_context_def)
  have old: "k < length cs \<Longrightarrow> j \<in> set (kids (cs ! k)) \<Longrightarrow> k < j \<and> j < length cs \<and> parent (cs ! j) = Some k" for j k
    using treeD(3) [OF t] by blast
  show ?thesis
    unfolding ctx_tree_def
  proof (intro conjI allI impI)
    fix k
    assume k: "k < length ?cs"
    then have kl: "k \<le> length cs" by simp
    have new: "length cs \<notin> set (kids (cs ! c))" using old [OF c, of "length cs"] by auto
    show "distinct (kids (?cs ! k))" using treeD(1) [OF t, of k] kl c new treeD(1) [OF t c] by (simp add: kids)
    show "\<forall>j \<in> set (kids (?cs ! k)). k < j \<and> j < length ?cs \<and> parent (?cs ! j) = Some k"
    proof
      fix j
      assume "j \<in> set (kids (?cs ! k))"
      then have "k = c \<and> j = length cs \<or> k < length cs \<and> j \<in> set (kids (cs ! k))"
        using kl by (auto simp: kids split: if_splits)
      then show "k < j \<and> j < length ?cs \<and> parent (?cs ! j) = Some k"
        using old [of k j] c par [of j] by auto
    qed
    show "parent (?cs ! k) = None \<longleftrightarrow> k = 0" using par [OF kl] treeD(2) [OF t, of k] kl c by auto
    fix p
    assume "parent (?cs ! k) = Some p"
    then have p: "k = length cs \<and> p = c \<or> k < length cs \<and> p < k \<and> k \<in> set (kids (cs ! p))"
      using par [OF kl] treeD(4) [OF t, of k p] kl by (auto split: if_splits)
    then show "p < k" "k \<in> set (kids (?cs ! p))" using kids [of p] c kl by auto
  qed simp
qed

lemma to_root_root: "ctx_tree cs \<Longrightarrow> c < length cs \<Longrightarrow> c < n \<Longrightarrow> to_root n cs c = 0"
proof (induction n arbitrary: c)
  case (Suc n)
  show ?case
  proof (cases "parent (cs ! c)")
    case None
    then show ?thesis using treeD(2) [OF Suc.prems(1,2)] by simp
  next
    case (Some p)
    then have "p < c" using treeD(4) [OF Suc.prems(1,2)] by blast
    then show ?thesis using Suc Some by simp
  qed
qed simp

lemma register_binding_inv: "ctx_inv s \<Longrightarrow> bctx b < length (ctxs s) \<Longrightarrow> ctx_inv (register_binding b s)"
  by (auto simp: ctx_inv_def register_binding_def)

lemma flush_inv: "ctx_inv s \<Longrightarrow> ctx_inv (flush s)"
  by (auto simp: ctx_inv_def flush_def current_def resolveBinding_def)

lemma flush_current: "ctx_inv s \<Longrightarrow> b \<in> set (bindings (flush s)) \<Longrightarrow> current (ctxs (flush s)) b"
  by (auto simp: ctx_inv_def flush_def current_def resolveBinding_def)

lemma createChild_inv: "ctx_inv s \<Longrightarrow> c < length (ctxs s) \<Longrightarrow> ctx_inv (snd (createChild c p s))"
  using createChild_tree [of "ctxs s" c "ctxs s" p]
  by (auto simp: ctx_inv_def createChild_def Let_def invalidate_def update_ctx_def)

lemma router_inv: "ctx_inv (s\<lparr>crouter := r\<rparr>) = ctx_inv s"
  by (simp add: ctx_inv_def)

lemma ctx_addRoute_inv:
  assumes "ctx_inv s" and "c < length (ctxs s)"
  shows "ctx_inv (snd (ctx_addRoute c m url h opts s))"
  using assms by (simp add: ctx_addRoute_def Let_def router_inv register_binding_inv split: prod.split)

lemma decorate_inv:
  assumes "ctx_inv s" and c: "c < length (ctxs s)"
  shows "ctx_inv (snd (ctx_decorate c name v s))"
proof -
  let ?cs = "(ctxs s)[c := (ctxs s ! c)\<lparr>decorations := AList.update name v (decorations (ctxs s ! c))\<rparr>]"
  have same: "same_scope (ctxs s) ?cs" by (rule update_decorations_scope [OF c])
  then have "ctx_tree ?cs" using assms(1) same_shape_tree by (auto simp: ctx_inv_def same_scope_def)
  moreover have "current ?cs b = current (ctxs s) b" for b using same_scope_resolved [OF same] by (simp add: current_def)
  ultimately show ?thesis using assms(1) by (simp add: ctx_decorate_def ctx_inv_def update_ctx_def)
qed

lemma newAppCtx_inv: "ctx_inv (newAppCtx prefix r)"
  by (simp add: ctx_inv_def newAppCtx_def ctx_tree_def new_context_def)

lemma run_ctx_op_inv: "ctx_inv s \<Longrightarrow> ctx_inv (run_ctx_op x s)"
proof (cases x)
  case (Register c e p)
  assume "ctx_inv s"
  then show ?thesis using Register createChild_inv by (auto simp: ctx_register_def)
next
  case (ContextScope c)
  assume "ctx_inv s"
  then show ?thesis using ContextScope by (auto simp: createContextScope_def intro!: register_binding_inv)
next
  case (AddRoute c m url h opts)
  assume "ctx_inv s"
  then show ?thesis using AddRoute ctx_addRoute_inv by auto
next
  case (AddHook c name h)
  assume "ctx_inv s"
  then show ?thesis using AddHook by (auto simp: ctx_addHook_def intro!: update_ctx_inv)
next
  case (Decorate c name v)
  assume "ctx_inv s"
  then show ?thesis using Decorate decorate_inv by auto
next
  case (DecorateRequest c name v a)
  assume i: "ctx_inv s"
  show ?thesis
  proof (cases "c < length (ctxs s)")
    case True
    have "decoration_target a c s < length (ctxs s)"
      using i True to_root_root [of "ctxs s" c "length (ctxs s)"] by (auto simp: decoration_target_def ctx_inv_def)
    then show ?thesis using i True DecorateRequest by (auto simp: ctx_decorateRequest_def intro!: update_ctx_inv)
  qed (use i DecorateRequest in simp)
next
  case (DecorateReply c name v)
  assume "ctx_inv s"
  then show ?thesis using DecorateReply by (auto simp: ctx_decorateReply_def intro!: update_ctx_inv)
next
  case Flush
  assume "ctx_inv s"
  then show ?thesis using Flush flush_inv by simp
qed

lemma fold_ctx_inv: "ctx_inv s \<Longrightarrow> ctx_inv (fold run_ctx_op ops s)"
  by (induction ops arbitrary: s) (simp_all add: run_ctx_op_inv)

lemma run_ctx_inv: "ctx_inv (run_ctx ops prefix r)"
  unfolding run_ctx_def by (intro fold_ctx_inv newAppCtx_inv)

section \<open>Properties\<close>

text \<open>
  No request sees a stale hook chain: after any registrations of plugins, routes, hooks and
  decorations in any order, and the flush before a request, every route's scope is what its contexts
  say at that moment, although only a flag is kept between requests.
\<close>

theorem scopes_current:
  "map bscope (bindings (flush (run_ctx ops prefix r))) =
   map (\<lambda>b. resolved_scope (ctxs (flush (run_ctx ops prefix r))) (bctx b) (blocal b)) (bindings (flush (run_ctx ops prefix r)))"
  using flush_current [OF run_ctx_inv [of ops prefix r]] by (simp add: current_def)

text \<open>The hooks of a kind, and those a route brings along; a route has hooks of its own of four kinds.\<close>

fun hooks_of :: "hook_name \<Rightarrow> 'h hook_store \<Rightarrow> 'h list" where
  "hooks_of OnRequest s = hsOnRequest s"
| "hooks_of PreParsing s = hsPreParsing s"
| "hooks_of PreValidation s = hsPreValidation s"
| "hooks_of PreHandler s = hsPreHandler s"
| "hooks_of PreSerialization s = hsPreSerialization s"
| "hooks_of OnSend s = hsOnSend s"
| "hooks_of OnResponse s = hsOnResponse s"
| "hooks_of OnError s = hsOnError s"

fun route_hooks_of :: "hook_name \<Rightarrow> 'h route_hooks \<Rightarrow> 'h list" where
  "route_hooks_of OnRequest l = onRequest l"
| "route_hooks_of PreHandler l = preHandler l"
| "route_hooks_of PreSerialization l = preSerialization l"
| "route_hooks_of OnSend l = onSend l"
| "route_hooks_of k l = []"

lemma fold_add_context_hooks:
  "hooks_of k (shooks (fold (\<lambda>c. add_context (cs ! c)) xs s)) = hooks_of k (shooks s) @ concat (map (\<lambda>c. hooks_of k (chooks (cs ! c))) xs)"
  by (cases k; induction xs arbitrary: s) (simp_all add: add_context_def append_store_def)

lemma resolved_hooks:
  "hooks_of k (shooks (resolved_scope cs leaf l)) =
     concat (map (\<lambda>c. hooks_of k (chooks (cs ! c))) (collectScopeContexts cs leaf)) @ route_hooks_of k l"
proof -
  have "hooks_of k (add_local l s) = hooks_of k s @ route_hooks_of k l" for s by (cases k) (simp_all add: add_local_def)
  moreover have "hooks_of k (shooks createScope) = []" by (cases k) (simp_all add: createScope_def createHookStore_def)
  ultimately show ?thesis by (simp add: resolved_scope_def Let_def fold_add_context_hooks)
qed

lemmas resolved_onRequest = resolved_hooks [of OnRequest, unfolded hooks_of.simps route_hooks_of.simps]

text \<open>
  C12.
  Encapsulation: at the time of a request, the hooks of a route of any of the eight kinds are its own and
  those added to a context that applies, that is, to one all of whose enclosing prefixed contexts
  also enclose the route. So a hook registered under a prefix covers every route below it, those
  registered before it included, and no route outside it.
\<close>

theorem hooks_encapsulated:
  assumes "s = flush (run_ctx ops prefix r)" and "b \<in> set (bindings s)"
  shows "h \<in> set (hooks_of k (shooks (bscope b))) \<longleftrightarrow>
    h \<in> set (route_hooks_of k (blocal b)) \<or> (\<exists>c < length (ctxs s). applies (ctxs s) c (bctx b) \<and> h \<in> set (hooks_of k (chooks (ctxs s ! c))))"
proof -
  have i: "ctx_inv s" using assms(1) flush_inv run_ctx_inv by blast
  then have "bctx b < length (ctxs s)" "ctx_tree (ctxs s)" using assms(2) by (auto simp: ctx_inv_def)
  then have "set (collectScopeContexts (ctxs s) (bctx b)) = {c. c < length (ctxs s) \<and> applies (ctxs s) c (bctx b)}"
    by (intro scope_contexts_set)
  moreover have "bscope b = resolved_scope (ctxs s) (bctx b) (blocal b)"
    using flush_current [OF run_ctx_inv [of ops prefix r]] assms by (simp add: current_def)
  ultimately show ?thesis by (auto simp: resolved_hooks)
qed

text \<open>
  The order of the hooks: a route's chain takes the applicable contexts each once, every context
  after the one it was registered in, and the route's own hooks come last.
\<close>

theorem hook_order:
  assumes "s = flush (run_ctx ops prefix r)" and "b \<in> set (bindings s)"
  shows "\<exists>chain. distinct chain \<and> parents_first (ctxs s) chain \<and> set chain = {c. c < length (ctxs s) \<and> applies (ctxs s) c (bctx b)}
    \<and> (\<forall>k. hooks_of k (shooks (bscope b)) = concat (map (\<lambda>c. hooks_of k (chooks (ctxs s ! c))) chain) @ route_hooks_of k (blocal b))"
proof -
  have i: "ctx_inv s" using assms(1) flush_inv run_ctx_inv by blast
  then have t: "ctx_tree (ctxs s)" "bctx b < length (ctxs s)" using assms(2) by (auto simp: ctx_inv_def)
  have "bscope b = resolved_scope (ctxs s) (bctx b) (blocal b)"
    using flush_current [OF run_ctx_inv [of ops prefix r]] assms by (simp add: current_def)
  then show ?thesis
    using scope_contexts_distinct [OF t] scope_contexts_order [OF t] scope_contexts_set [OF t]
    by (intro exI [of _ "collectScopeContexts (ctxs s) (bctx b)"]) (simp add: resolved_hooks)
qed

section \<open>The walks end\<close>

text \<open>Below a context there are only later ones, so as many rounds as there are contexts are enough.\<close>

lemma kids_later:
  "ctx_tree cs \<Longrightarrow> k < length cs \<Longrightarrow> i \<in> set (kids (cs ! k)) \<Longrightarrow> Suc k \<le> i \<and> i < length cs"
  using treeD(3) [of cs k i] by auto

lemma collect_fuel:
  assumes "ctx_tree cs"
  shows "\<forall>k \<in> set ks. j \<le> k \<and> k < length cs \<Longrightarrow> length cs \<le> n + j \<Longrightarrow> length cs \<le> m + j \<Longrightarrow>
    collectTransparent n cs ks st = collectTransparent m cs ks st"
proof (induction n arbitrary: j ks m st)
  case 0
  then have "ks = []" by (cases ks) auto
  then show ?case by (cases m) simp_all
next
  case (Suc n)
  show ?case
  proof (cases m)
    case 0
    then have "ks = []" using Suc.prems by (cases ks) auto
    then show ?thesis using 0 by simp
  next
    case (Suc m')
    have "collectTransparent n cs (kids (cs ! k)) st' = collectTransparent m' cs (kids (cs ! k)) st'" if "k \<in> set ks" for k st'
    proof (rule Suc.IH [of _ "Suc k"])
      show "\<forall>i \<in> set (kids (cs ! k)). Suc k \<le> i \<and> i < length cs"
        using kids_later [OF assms] Suc.prems(1) that by blast
    qed (use Suc.prems that \<open>m = Suc m'\<close> in auto)
    then show ?thesis using \<open>m = Suc m'\<close> by (auto intro!: fold_cong split: prod.splits)
  qed
qed

lemma decorations_fuel:
  assumes "ctx_tree cs"
  shows "c < length cs \<Longrightarrow> length cs \<le> n + c \<Longrightarrow> length cs \<le> m + c \<Longrightarrow> collectAllDecorations n cs c = collectAllDecorations m cs c"
proof (induction n arbitrary: c m)
  case (Suc n)
  obtain m' where m: "m = Suc m'" using Suc.prems by (cases m) auto
  have "collectAllDecorations n cs k = collectAllDecorations m' cs k" if "k \<in> set (kids (cs ! c))" for k
    using kids_later [OF assms Suc.prems(1) that] Suc.prems m by (intro Suc.IH) auto
  then show ?case unfolding m by (auto intro!: fold_cong)
qed simp

lemma to_root_fuel:
  assumes "ctx_tree cs"
  shows "c < length cs \<Longrightarrow> c \<le> n \<Longrightarrow> c \<le> m \<Longrightarrow> to_root n cs c = to_root m cs c"
proof (induction n arbitrary: c m)
  case 0
  then show ?case using tree_root [OF assms] by (cases m) auto
next
  case (Suc n)
  show ?case
  proof (cases "parent (cs ! c)")
    case None
    then show ?thesis by (cases m) auto
  next
    case (Some p)
    then have p: "p < c" using treeD(4) [OF assms Suc.prems(1)] by blast
    then obtain m' where m: "m = Suc m'" using Suc.prems by (cases m) auto
    have "to_root n cs p = to_root m' cs p" using Suc.prems p m by (intro Suc.IH) auto
    then show ?thesis by (simp add: m Some)
  qed
qed

text \<open>
  C37.
  The loops over the tree of contexts end: whatever was registered, walking up to the root, collecting the
  transparent plugins, the decorations or the root takes no more rounds than there are
  contexts; further rounds change nothing.
\<close>

theorem context_walks_end:
  assumes "s = run_ctx ops prefix r" and "c < length (ctxs s)" and "length (ctxs s) \<le> n"
  shows "chain_up n (ctxs s) c = chain_up (length (ctxs s)) (ctxs s) c
    \<and> collectTransparent n (ctxs s) (kids (ctxs s ! c)) st = collectTransparent (length (ctxs s)) (ctxs s) (kids (ctxs s ! c)) st
    \<and> collectAllDecorations n (ctxs s) c = collectAllDecorations (length (ctxs s)) (ctxs s) c
    \<and> to_root n (ctxs s) c = to_root (length (ctxs s)) (ctxs s) c
    \<and> last (chain_up (length (ctxs s)) (ctxs s) c) = 0"
proof -
  have t: "ctx_tree (ctxs s)" using run_ctx_inv [of ops prefix r] assms(1) by (simp add: ctx_inv_def)
  have "chain_up n (ctxs s) c = ancestors (ctxs s) c" "chain_up (length (ctxs s)) (ctxs s) c = ancestors (ctxs s) c"
    using assms(2,3) by (auto intro: chain_up_fuel [OF t])
  moreover have "\<forall>k \<in> set (kids (ctxs s ! c)). Suc c \<le> k \<and> k < length (ctxs s)" using kids_later [OF t assms(2)] by blast
  then have "collectTransparent n (ctxs s) (kids (ctxs s ! c)) st = collectTransparent (length (ctxs s)) (ctxs s) (kids (ctxs s ! c)) st"
    using assms(3) by (intro collect_fuel [OF t]) auto
  ultimately show ?thesis
    using assms decorations_fuel [OF t assms(2)] to_root_fuel [OF t assms(2)] ancestors_last [OF t assms(2)] by simp
qed

text \<open>A guard under \<open>/admin\<close>, one route inside it and one outside.\<close>

definition demo_ops :: "(nat, nat, nat) ctx_op list" where
  "demo_ops = [Register 0 None (Some ''/admin''), AddRoute 1 GET ''/users'' 10 None, AddRoute 0 GET ''/public'' 11 None,
     AddHook 1 OnRequest 7, Register 0 None None, AddHook 2 OnRequest 8]"

abbreviation demo_app :: "(nat, nat, nat) app_ctx" where
  "demo_app \<equiv> flush (run_ctx demo_ops [] (newRouter None None))"

lemma demo_bindings: "map (\<lambda>b. (bctx b, hsOnRequest (shooks (bscope b)))) (bindings demo_app) = [(1, [8, 7]), (0, [8])]"
  by code_simp

lemma demo_count: "length (bindings demo_app) = 2"
proof -
  have "length (map (\<lambda>b. (bctx b, hsOnRequest (shooks (bscope b)))) (bindings demo_app)) = 2" unfolding demo_bindings by simp
  then show ?thesis by (simp only: length_map)
qed

theorem hooks_encapsulated_witness:
  "(7 :: nat) \<notin> set (onRequest (blocal (bindings demo_app ! 1))) \<and> \<not> (\<exists>c < length (ctxs demo_app).
     applies (ctxs demo_app) c (bctx (bindings demo_app ! 1)) \<and> 7 \<in> set (hsOnRequest (chooks (ctxs demo_app ! c))))"
proof -
  note l = demo_count
  then have "bindings demo_app ! 1 \<in> set (bindings demo_app)" by (intro nth_mem) simp
  from hooks_encapsulated [OF refl this, of 7 OnRequest] have "7 \<in> set (hsOnRequest (shooks (bscope (bindings demo_app ! 1)))) \<longleftrightarrow>
    7 \<in> set (onRequest (blocal (bindings demo_app ! 1))) \<or> (\<exists>c < length (ctxs demo_app).
     applies (ctxs demo_app) c (bctx (bindings demo_app ! 1)) \<and> 7 \<in> set (hsOnRequest (chooks (ctxs demo_app ! c))))"
    by (simp only: hooks_of.simps route_hooks_of.simps)
  moreover have "hsOnRequest (shooks (bscope (bindings demo_app ! 1))) = [8]"
  proof -
    have "map (\<lambda>b. (bctx b, hsOnRequest (shooks (bscope b)))) (bindings demo_app) ! 1 = (0, [8])" by (simp only: demo_bindings) simp
    then show ?thesis using l by (simp only: nth_map) simp
  qed
  ultimately show ?thesis by simp
qed

theorem hook_order_witness:
  "\<exists>chain. distinct chain \<and> hsOnRequest (shooks (bscope (bindings demo_app ! 0))) =
     concat (map (\<lambda>c. hsOnRequest (chooks (ctxs demo_app ! c))) chain) @ onRequest (blocal (bindings demo_app ! 0))"
proof -
  note demo_count
  then have "bindings demo_app ! 0 \<in> set (bindings demo_app)" by (intro nth_mem) simp
  from hook_order [OF refl this] obtain chain where d: "distinct chain"
    and c: "\<forall>k. hooks_of k (shooks (bscope (bindings demo_app ! 0))) =
       concat (map (\<lambda>c. hooks_of k (chooks (ctxs demo_app ! c))) chain) @ route_hooks_of k (blocal (bindings demo_app ! 0))" by blast
  show ?thesis using d c [THEN spec, of OnRequest] unfolding hooks_of.simps route_hooks_of.simps by blast
qed

theorem context_walks_end_witness:
  "chain_up 9 (ctxs (run_ctx demo_ops [] (newRouter None None))) 2 = chain_up 3 (ctxs (run_ctx demo_ops [] (newRouter None None))) 2"
proof -
  have l: "length (ctxs (run_ctx demo_ops [] (newRouter None None))) = 3" by code_simp
  have "2 < length (ctxs (run_ctx demo_ops [] (newRouter None None)))" unfolding l by simp
  from context_walks_end [OF refl this, of 9] show ?thesis unfolding l by simp
qed

end
