(* ===== verification/App_Props.thy ===== *)
theory App_Props
  imports Lifecycle_Props Context_Props Router_Match
begin

text \<open>
  Properties of the application: the states it can reach, guards that stop a request before the
  handler, guards of connection upgrades, and what a client gets when something throws.
\<close>

section \<open>Reachable apps\<close>

text \<open>Registrations on any context, handlers and parsers, and the changes \<open>handle\<close> itself makes.\<close>

inductive app_reach :: "('h, 'v, 'x) app \<Rightarrow> bool" where
  app_start: "newApp opt = Inr a \<Longrightarrow> app_reach a"
| app_ctx: "app_reach a \<Longrightarrow> app_reach (a\<lparr>actx := run_ctx_op x (actx a)\<rparr>)"
| app_notFound: "app_reach a \<Longrightarrow> app_reach (setNotFoundHandler h a)"
| app_error: "app_reach a \<Longrightarrow> app_reach (setErrorHandler h a)"
| app_parser: "app_reach a \<Longrightarrow> app_reach (addContentTypeParser t p a)"
| app_guards: "app_reach a \<Longrightarrow> app_reach (snd (onRequestHooksForPath path a))"

definition route_scope :: "('h, 'v) binding \<Rightarrow> cid \<times> 'h route_hooks" where
  "route_scope b = (bctx b, blocal b)"

text \<open>Every reference of an app points to something that exists.\<close>

definition scope_of :: "('h, 'v, 'x) app_ctx \<Rightarrow> nat \<Rightarrow> cid \<Rightarrow> bool" where
  "scope_of ac b c \<longleftrightarrow> b < length (bindings ac) \<and> route_scope (bindings ac ! b) = (c, emptyLocalHooks)"

definition app_wf :: "('h, 'v, 'x) app \<Rightarrow> bool" where
  "app_wf a \<longleftrightarrow>
     ctx_inv (actx a) \<and> router_inv (crouter (actx a))
     \<and> (\<forall>r \<in> set (getAllRoutes (crouter (actx a))). snd (rhandler r) < length (bindings (actx a)))
     \<and> scope_of (actx a) (rootScope a) 0
     \<and> (\<forall>(c, b) \<in> set (pathScopes a). c < length (ctxs (actx a)) \<and> scope_of (actx a) b c)"

subsection \<open>What an operation keeps of the bindings\<close>

definition grows :: "('h, 'v, 'x) app_ctx \<Rightarrow> ('h, 'v, 'x) app_ctx \<Rightarrow> bool" where
  "grows s t \<longleftrightarrow> (\<exists>bs. map route_scope (bindings t) = map route_scope (bindings s) @ bs) \<and> length (ctxs s) \<le> length (ctxs t)"

lemma grows_refl: "grows s s"
  by (simp add: grows_def)

lemma grows_trans: "grows s t \<Longrightarrow> grows t u \<Longrightarrow> grows s u"
proof -
  assume st: "grows s t" and tu: "grows t u"
  from st obtain bs where bs: "map route_scope (bindings t) = map route_scope (bindings s) @ bs" by (auto simp: grows_def)
  from tu obtain cs where "map route_scope (bindings u) = map route_scope (bindings t) @ cs" by (auto simp: grows_def)
  then have "map route_scope (bindings u) = map route_scope (bindings s) @ (bs @ cs)" using bs by simp
  then show ?thesis using st tu by (auto simp: grows_def)
qed

lemma flush_scopes: "map route_scope (bindings (flush s)) = map route_scope (bindings s)"
  by (auto simp: flush_def resolveBinding_def route_scope_def)

lemma flush_same [simp]: "ctxs (flush s) = ctxs s" "crouter (flush s) = crouter s" "length (bindings (flush s)) = length (bindings s)"
  by (simp_all add: flush_def)

lemma grows_flush: "grows s (flush s)"
  by (simp add: grows_def flush_scopes)

lemma grows_same: "map route_scope (bindings t) = map route_scope (bindings s) \<Longrightarrow> length (ctxs s) \<le> length (ctxs t) \<Longrightarrow> grows s t"
  by (simp add: grows_def)

lemma grows_scope_of: "grows s t \<Longrightarrow> scope_of s b c \<Longrightarrow> scope_of t b c"
proof -
  assume g: "grows s t" and s: "scope_of s b c"
  obtain bs where bs: "map route_scope (bindings t) = map route_scope (bindings s) @ bs" using g by (auto simp: grows_def)
  have b: "b < length (bindings s)" using s by (simp add: scope_of_def)
  have "length (bindings t) = length (bindings s) + length bs" using arg_cong [OF bs, of length] by simp
  moreover have "map route_scope (bindings t) ! b = map route_scope (bindings s) ! b" using b by (simp only: bs nth_append length_map if_True)
  ultimately show ?thesis using s b by (simp add: scope_of_def)
qed

lemma grows_length: "grows s t \<Longrightarrow> length (bindings s) \<le> length (bindings t)"
  by (auto simp: grows_def dest: arg_cong [where f = length])

lemma grows_op: "grows s (run_ctx_op x s)"
proof (cases x)
  case Flush
  then show ?thesis using grows_flush by simp
qed (auto simp: grows_def ctx_register_def createChild_def createContextScope_def ctx_addRoute_def ctx_addHook_def ctx_decorate_def
      ctx_decorateRequest_def ctx_decorateReply_def register_binding_def invalidate_def update_ctx_def Let_def split: prod.splits)

subsection \<open>Routes\<close>

lemma all_routes_lookup: "router_inv rt \<Longrightarrow> r \<in> set (getAllRoutes rt) \<longleftrightarrow> route_lookup rt (route_key r) = Some r"
  by (simp add: all_routes_iff route_lookup_key route_key_def)

lemma added_routes:
  assumes inv: "router_inv rt" and r: "r \<in> set (getAllRoutes (snd (addRouteObj rt q)))"
  shows "r = q \<or> r \<in> set (getAllRoutes rt)"
proof -
  obtain e rt' where a: "addRouteObj rt q = (e, rt')" by (cases "addRouteObj rt q")
  have inv': "router_inv rt'" using addRoute_inv [OF inv a] .
  have l: "route_lookup rt' (route_key r) = Some r" using r a all_routes_lookup [OF inv'] by simp
  note old = all_routes_lookup [OF inv, of r]
  show ?thesis
  proof (cases e)
    case None
    then have u: "route_lookup rt' = (route_lookup rt)(route_key q \<mapsto> q)" using routes_registry.add_ok [OF inv] a by blast
    show ?thesis
    proof (cases "route_key r = route_key q")
      case True
      then have "Some q = Some r" using l u by (simp only: fun_upd_same)
      then show ?thesis by simp
    next
      case False
      then have "route_lookup rt (route_key r) = Some r" using l u by simp
      then show ?thesis using old by blast
    qed
  next
    case (Some e')
    then have "route_lookup rt' = route_lookup rt" using routes_registry.add_error [OF inv] a by blast
    then show ?thesis using l old by simp
  qed
qed

lemma op_router:
  "crouter (run_ctx_op x s) = crouter s \<or>
   (\<exists>q. crouter (run_ctx_op x s) = snd (addRouteObj (crouter s) q) \<and> snd (rhandler q) < length (bindings (run_ctx_op x s)))"
proof (cases x)
  case (AddRoute c m url h opts)
  let ?q = "mkRoute m (cprefix (ctxs s ! c) @ url) (h, length (bindings s))
      (case Option.bind opts oKind of None \<Rightarrow> Serverless | Some k \<Rightarrow> k) (Option.bind opts oSchema) None (Option.bind opts oOpenapi)"
  have "snd (rhandler ?q) = length (bindings s)" by (simp add: mkRoute_def)
  moreover have "crouter (run_ctx_op x s) = snd (addRouteObj (crouter s) ?q) \<and> length (bindings (run_ctx_op x s)) = Suc (length (bindings s))"
    if "c < length (ctxs s)"
    using that by (simp add: AddRoute ctx_addRoute_def addRoute_def register_binding_def Let_def split: prod.splits)
  ultimately show ?thesis using AddRoute by (cases "c < length (ctxs s)") (metis lessI, simp)
qed (auto simp: ctx_register_def createChild_def createContextScope_def ctx_addHook_def ctx_decorate_def
      ctx_decorateRequest_def ctx_decorateReply_def register_binding_def invalidate_def update_ctx_def Let_def)

lemma wf_op: "app_wf a \<Longrightarrow> app_wf (a\<lparr>actx := run_ctx_op x (actx a)\<rparr>)"
proof -
  assume wf: "app_wf a"
  let ?s = "actx a" and ?t = "run_ctx_op x (actx a)"
  note g = grows_op [of ?s x]
  have inv: "router_inv (crouter ?s)" using wf by (simp add: app_wf_def)
  have routes: "\<forall>r \<in> set (getAllRoutes (crouter ?s)). snd (rhandler r) < length (bindings ?t)"
    using wf grows_length [OF g] by (fastforce simp: app_wf_def)
  have "router_inv (crouter ?t) \<and> (\<forall>r \<in> set (getAllRoutes (crouter ?t)). snd (rhandler r) < length (bindings ?t))"
    using op_router [of x ?s]
  proof
    assume "crouter ?t = crouter ?s"
    then show ?thesis using inv routes by simp
  next
    assume "\<exists>q. crouter ?t = snd (addRouteObj (crouter ?s) q) \<and> snd (rhandler q) < length (bindings ?t)"
    then obtain q where q: "crouter ?t = snd (addRouteObj (crouter ?s) q)" "snd (rhandler q) < length (bindings ?t)" by blast
    then show ?thesis using added_routes [OF inv] routes addRoute_inv [OF inv, of q] by (metis prod.collapse)
  qed
  moreover have "length (ctxs ?s) \<le> length (ctxs ?t)" using g by (simp add: grows_def)
  ultimately show ?thesis
    using wf run_ctx_op_inv [of ?s x] grows_scope_of [OF g] by (fastforce simp: app_wf_def)
qed

lemma wf_start: "newApp opt = Inr a \<Longrightarrow> app_wf a"
proof -
  assume "newApp opt = Inr a"
  then have a: "actx a = snd (createContextScope 0 (newAppCtx (case optPrefix opt of None \<Rightarrow> [] | Some p \<Rightarrow> p) (newRouter None None)))"
    "rootScope a = 0" "pathScopes a = []"
    by (auto simp: newApp_def createContextScope_def newAppCtx_def Let_def split: option.splits if_splits)
  have "ctx_inv (actx a)"
    using newAppCtx_inv by (auto simp: a createContextScope_def newAppCtx_def intro!: register_binding_inv)
  moreover have "getAllRoutes (newRouter None None) = ([] :: ('a \<times> nat, 'c) route list)"
    by (simp add: getAllRoutes_def newRouter_def createNode_def)
  ultimately show ?thesis
    using router_inv_new [of None None]
    by (simp add: app_wf_def a createContextScope_def newAppCtx_def register_binding_def scope_of_def route_scope_def)
qed

text \<open>The scope of a context, and the walk that asks for scopes.\<close>

lemma context_scope_wf:
  assumes wf: "app_wf a" and c: "c < length (ctxs (actx a))" and r: "contextScope c a = (b, a')"
  shows "app_wf a' \<and> scope_of (actx a') b c \<and> ctxs (actx a') = ctxs (actx a) \<and> crouter (actx a') = crouter (actx a)
    \<and> grows (actx a) (actx a') \<and> rootScope a' = rootScope a"
proof (cases "map_of (pathScopes a) c")
  case None
  let ?r = "register_binding \<lparr>bctx = c, blocal = emptyLocalHooks, bscope = createScope\<rparr> (actx a)"
  have a': "a' = a\<lparr>actx := flush ?r, pathScopes := AList.update c b (pathScopes a)\<rparr>" and b: "b = length (bindings (actx a))"
    using r None by (auto simp: contextScope_def createContextScope_def)
  have g: "grows (actx a) (flush ?r)"
  proof -
    have "map route_scope (bindings (flush ?r)) = map route_scope (bindings ?r)" by (rule flush_scopes)
    then show ?thesis by (simp add: grows_def register_binding_def)
  qed
  have i: "ctx_inv (flush ?r)" using wf c by (intro flush_inv register_binding_inv) (simp_all add: app_wf_def)
  have s: "scope_of (flush ?r) b c"
  proof -
    have "map route_scope (bindings (flush ?r)) ! b = (c, emptyLocalHooks)"
      unfolding flush_scopes by (simp add: register_binding_def b route_scope_def nth_append)
    then show ?thesis by (simp add: scope_of_def b register_binding_def)
  qed
  have "snd (rhandler q) < length (bindings (flush ?r))" if "q \<in> set (getAllRoutes (crouter (actx a)))" for q
    using wf that by (fastforce simp: app_wf_def register_binding_def)
  moreover have "d < length (ctxs (actx a)) \<and> scope_of (flush ?r) e d" if "(d, e) \<in> set (AList.update c b (pathScopes a))" for d e
  proof -
    have "AList.update c b (pathScopes a) = pathScopes a @ [(c, b)]" using None by (simp add: map_simps map_of_None_keys)
    then show ?thesis using that wf s c grows_scope_of [OF g] by (auto simp: app_wf_def)
  qed
  ultimately have "app_wf a'"
    using wf i grows_scope_of [OF g] by (auto simp: app_wf_def a' register_binding_def)
  then show ?thesis using g s by (simp add: a' register_binding_def)
next
  case (Some b')
  then have "b = b'" "a' = a" using r by (auto simp: contextScope_def)
  then show ?thesis using wf Some grows_refl by (auto simp: app_wf_def dest: map_of_SomeD)
qed

lemma add_scopes_wf:
  "app_wf a \<Longrightarrow> \<forall>c \<in> set cs. c < length (ctxs (actx a)) \<Longrightarrow> add_scopes cs hooks a = (hs, a') \<Longrightarrow>
    app_wf a' \<and> ctxs (actx a') = ctxs (actx a) \<and> crouter (actx a') = crouter (actx a) \<and> grows (actx a) (actx a')"
proof (induction cs arbitrary: hooks a)
  case Nil
  then show ?case by (simp add: grows_refl)
next
  case (Cons c cs)
  obtain b a1 where c: "contextScope c a = (b, a1)" by (cases "contextScope c a")
  have 1: "app_wf a1 \<and> ctxs (actx a1) = ctxs (actx a) \<and> crouter (actx a1) = crouter (actx a) \<and> grows (actx a) (actx a1)"
    using context_scope_wf [OF Cons.prems(1) _ c] Cons.prems(2) by simp
  have 2: "app_wf a' \<and> ctxs (actx a') = ctxs (actx a1) \<and> crouter (actx a') = crouter (actx a1) \<and> grows (actx a1) (actx a')"
    using Cons.IH [of a1] 1 Cons.prems(2,3) c by simp
  have "grows (actx a) (actx a')" using 1 2 grows_trans by blast
  then show ?case using 1 2 by simp
qed

lemma visit_below:
  "ctx_tree cs \<Longrightarrow> \<forall>k \<in> set ks. k < length cs \<Longrightarrow> c \<in> set (visit_covering n cs path ks) \<Longrightarrow> c < length cs"
proof (induction n arbitrary: ks)
  case (Suc n)
  have kids: "\<forall>j \<in> set (kids (cs ! k)). j < length cs" if "k \<in> set ks" for k
    using treeD(3) [OF Suc.prems(1), of k] Suc.prems(2) that by blast
  then show ?case using Suc.IH [OF Suc.prems(1) kids] Suc.prems(2,3) by (auto split: if_splits)
qed simp

lemma matched_below: "app_wf a \<Longrightarrow> c \<in> set (visit_covering n (ctxs (actx a)) path (kids (ctxs (actx a) ! 0))) \<Longrightarrow> c < length (ctxs (actx a))"
proof -
  assume wf: "app_wf a" and c: "c \<in> set (visit_covering n (ctxs (actx a)) path (kids (ctxs (actx a) ! 0)))"
  have t: "ctx_tree (ctxs (actx a))" using wf by (simp add: app_wf_def ctx_inv_def)
  then have "0 < length (ctxs (actx a))" using tree_root by blast
  then have "\<forall>k \<in> set (kids (ctxs (actx a) ! 0)). k < length (ctxs (actx a))" using treeD(3) [OF t] by blast
  then show ?thesis by (rule visit_below [OF t _ c])
qed

lemma guards_wf:
  assumes "app_wf a"
  shows "app_wf (snd (onRequestHooksForPath path a))"
proof -
  obtain hs a' where r: "onRequestHooksForPath path a = (hs, a')" by (cases "onRequestHooksForPath path a")
  show ?thesis
  proof (cases "visit_covering (length (ctxs (actx a))) (ctxs (actx a)) path (kids (ctxs (actx a) ! 0)) = []")
    case True
    then show ?thesis using assms by (simp add: onRequestHooksForPath_def Let_def)
  next
    case False
    then have "add_scopes (visit_covering (length (ctxs (actx a))) (ctxs (actx a)) path (kids (ctxs (actx a) ! 0)))
        (hsOnRequest (root_hooks a)) a = (hs, a')"
      using r by (simp add: onRequestHooksForPath_def Let_def)
    then have "app_wf a'" using add_scopes_wf [OF assms] matched_below [OF assms] by blast
    then show ?thesis by (simp add: r)
  qed
qed

lemma wf_config: "app_wf (a\<lparr>notFoundHandler := x\<rparr>) = app_wf a" "app_wf (a\<lparr>errorHandler := x\<rparr>) = app_wf a"
  "app_wf (a\<lparr>config := y\<rparr>) = app_wf a"
  by (simp_all add: app_wf_def)

text \<open>
  C21.
  Every state an app can reach is well formed: the contexts form a tree, the router satisfies its
  invariant, and every scope a route, the root or a memoized context refers to exists and belongs
  to that context. So no lookup of \<open>handle\<close> leaves the arrays.
\<close>

theorem app_well_formed:
  assumes "app_reach a"
  shows "app_wf a"
  using assms
proof (induction a rule: app_reach.induct)
  case (app_start opt a)
  then show ?case by (rule wf_start)
next
  case (app_ctx a x)
  then show ?case by (blast intro: wf_op)
next
  case (app_guards a path)
  then show ?case by (blast intro: guards_wf)
qed (simp_all add: setNotFoundHandler_def setErrorHandler_def addContentTypeParser_def wf_config)

section \<open>Guards\<close>

lemma scope_hooks:
  assumes "ctx_inv s" and "b < length (bindings s)" and "current (ctxs s) (bindings s ! b)"
  shows "h \<in> set (hsOnRequest (hooks_at s b)) \<longleftrightarrow>
    h \<in> set (onRequest (blocal (bindings s ! b)))
    \<or> (\<exists>c < length (ctxs s). applies (ctxs s) c (bctx (bindings s ! b)) \<and> h \<in> set (hsOnRequest (chooks (ctxs s ! c))))"
proof -
  have "bctx (bindings s ! b) < length (ctxs s)" "ctx_tree (ctxs s)" using assms(1,2) by (auto simp: ctx_inv_def)
  then have "set (collectScopeContexts (ctxs s) (bctx (bindings s ! b))) = {c. c < length (ctxs s) \<and> applies (ctxs s) c (bctx (bindings s ! b))}"
    by (intro scope_contexts_set)
  then show ?thesis using assms(3) by (auto simp: current_def resolved_onRequest)
qed

lemma flush_scope_hooks:
  assumes "ctx_inv s" and "b < length (bindings s)" and "c < length (ctxs s)"
    and "applies (ctxs s) c (bctx (bindings (flush s) ! b))" and "h \<in> set (hsOnRequest (chooks (ctxs s ! c)))"
  shows "h \<in> set (hsOnRequest (hooks_at (flush s) b))"
  using assms scope_hooks [OF flush_inv [OF assms(1)], of b h] flush_current [OF assms(1), of "bindings (flush s) ! b"]
  by auto

lemma find_route_in: "router_inv rt \<Longrightarrow> find_route rt m p = Inr (Some mt) \<Longrightarrow> mroute mt \<in> set (getAllRoutes rt)"
proof -
  assume i: "router_inv rt" and f: "find_route rt m p = Inr (Some mt)"
  have "match_route rt k p = Inr (Some mt) \<Longrightarrow> mroute mt \<in> set (getAllRoutes rt)" for k
    using match_route_sound [OF i] .
  then show ?thesis using f by (auto simp: find_route_def split: sum.splits option.splits if_splits)
qed

lemma guarded_chain:
  assumes "\<And>s. \<exists>r s'. runHook E g s = (HResponse r, s')" and "g \<in> set hs"
  shows "fst (runHooks E hs s) \<noteq> Inr None"
  using assms(2)
proof (induction hs arbitrary: s)
  case (Cons h hs)
  obtain r s' where g: "runHook E g s = (HResponse r, s')" using assms(1) by blast
  show ?case
  proof (cases "h = g")
    case True
    then show ?thesis using g by simp
  next
    case False
    then show ?thesis using Cons by (auto split: hook_outcome.splits prod.splits)
  qed
qed simp

lemma guarded_stage:
  assumes "fst (runHooks E hs s) \<noteq> Inr None"
  shows "stage (E\<lparr>runHandler := f\<rparr>) hs rest s = stage E hs rest' s"
  using assms by (auto simp: stage_def runHooks_indep split: sum.splits option.splits prod.splits)

text \<open>
  C2.
  A guard cannot be passed: if the \<open>onRequest\<close> hook \<open>g\<close>, added to a context that applies to the
  matched route, always answers, then the response, the world and the app after the request do not
  depend on what the handlers do. It does not matter in which order routes, plugins and
  hooks were registered, or which requests came before.
\<close>

theorem guard_blocks_handler:
  assumes reach: "app_reach a0" and ac: "ac = flush (actx a0)"
    and m: "find_route (crouter ac) (wMethod w) (fst (split_url (wUrl w))) = Inr (Some mt)"
    and c: "c < length (ctxs ac)" and ap: "applies (ctxs ac) c (bctx (bindings ac ! snd (rhandler (mroute mt))))"
    and g: "g \<in> set (hsOnRequest (chooks (ctxs ac ! c)))" and answers: "\<And>s. \<exists>r s'. runHook E g s = (HResponse r, s')"
  shows "handle (E\<lparr>runHandler := f\<rparr>) w b None world a0 = handle E w b None world a0"
proof -
  have wf: "app_wf a0" using reach by (rule app_well_formed)
  then have inv: "ctx_inv (actx a0)" by (simp add: app_wf_def)
  let ?i = "snd (rhandler (mroute mt))"
  have "router_inv (crouter ac)" using wf by (simp add: app_wf_def ac)
  from find_route_in [OF this m] have i: "?i < length (bindings (actx a0))" using wf by (simp add: app_wf_def ac)
  have "g \<in> set (hsOnRequest (hooks_at ac ?i))"
    using flush_scope_hooks [OF inv i] c ap g by (simp add: ac)
  then have no: "fst (runHooks E (hsOnRequest (hooks_at ac ?i)) s) \<noteq> Inr None" for s
    by (rule guarded_chain [OF answers])
  have life: "runWithTimeout (E\<lparr>runHandler := f\<rparr>) cfg h sch (hooks_at ac ?i) b None s
      = runWithTimeout E cfg h sch (hooks_at ac ?i) b None s" for cfg h sch s
    by (simp add: runWithTimeout_def runLifecycle_def guarded_stage [OF no])
  have matched: "handle_matched (E\<lparr>runHandler := f\<rparr>) (a0\<lparr>actx := ac\<rparr>) (mroute mt) b hd None s
      = handle_matched E (a0\<lparr>actx := ac\<rparr>) (mroute mt) b hd None s" for hd s
    by (simp add: handle_matched_def life outside_indep Let_def split: sum.splits prod.splits)
  obtain p q s e where u: "split_url (wUrl w) = (p, q, s, e)" by (cases "split_url (wUrl w)")
  have st: "matched_state (E\<lparr>runHandler := f\<rparr>) w q eff ps sc t world = matched_state E w q eff ps sc t world" for eff ps sc t
    by (simp add: matched_state_def)
  show ?thesis
    using m by (simp add: handle_def u ac [symmetric] matched st Let_def)
qed

section \<open>Guards of connection upgrades\<close>

text \<open>All prefixed contexts around \<open>c\<close>, itself included, cover the path.\<close>

definition covered :: "('h, 'v) contexts \<Rightarrow> string \<Rightarrow> cid \<Rightarrow> bool" where
  "covered cs path c = list_all (\<lambda>p. transparent (cs ! p) \<or> prefixCoversPath (cprefix (cs ! p)) path) (butlast (ancestors cs c))"

lemma visit_into:
  "k \<in> set ks \<Longrightarrow> transparent (cs ! k) \<or> prefixCoversPath (cprefix (cs ! k)) path \<Longrightarrow>
    set (visit_covering n cs path (kids (cs ! k))) \<subseteq> set (visit_covering (Suc n) cs path ks)"
  by force

lemma visit_self:
  "k \<in> set ks \<Longrightarrow> \<not> transparent (cs ! k) \<Longrightarrow> prefixCoversPath (cprefix (cs ! k)) path \<Longrightarrow>
    k \<in> set (visit_covering (Suc n) cs path ks)"
  by force

lemma ancestors_butlast:
  assumes "ctx_tree cs" and "c < length cs" and "parent (cs ! c) = Some p"
  shows "butlast (ancestors cs c) = c # butlast (ancestors cs p)"
  using ancestors_parent [OF assms] ancestors_self [of p cs] by (cases "ancestors cs p") auto

lemma chain_up_length: "length (chain_up n cs c) \<le> n"
  by (induction n arbitrary: c) (auto split: option.splits)

lemma visit_reach:
  assumes t: "ctx_tree cs" and "p < length cs" and "covered cs path p"
  shows "set (visit_covering n cs path (kids (cs ! p))) \<subseteq> set (visit_covering (n + (length (ancestors cs p) - 1)) cs path (kids (cs ! 0)))"
  using assms
proof (induction p arbitrary: n rule: ctx_induct)
  case root
  then show ?case by (simp add: ancestors_root [OF t])
next
  case (child c p)
  have cov: "covered cs path p" "transparent (cs ! c) \<or> prefixCoversPath (cprefix (cs ! c)) path"
    using child.prems ancestors_butlast [OF t child.hyps(1,2)] by (simp_all add: covered_def)
  have "c \<in> set (kids (cs ! p))" using treeD(4) [OF t child.hyps(1,2)] by blast
  from visit_into [where n = n, OF this cov(2)]
  have "set (visit_covering n cs path (kids (cs ! c))) \<subseteq> set (visit_covering (Suc n) cs path (kids (cs ! p)))" .
  also have "\<dots> \<subseteq> set (visit_covering (Suc n + (length (ancestors cs p) - 1)) cs path (kids (cs ! 0)))"
    by (rule child.IH [OF cov(1)])
  also have "Suc n + (length (ancestors cs p) - 1) = n + (length (ancestors cs c) - 1)"
  proof -
    have "0 < length (ancestors cs p)" using ancestors_self [of p cs] by (cases "ancestors cs p") auto
    moreover have "length (ancestors cs c) = Suc (length (ancestors cs p))" by (simp add: ancestors_parent [OF t child.hyps(1,2)])
    ultimately show ?thesis by linarith
  qed
  finally show ?case .
qed

lemma visit_complete:
  assumes t: "ctx_tree cs" and d: "d < length cs" "parent (cs ! d) = Some p" and n: "\<not> transparent (cs ! d)" and cov: "covered cs path d"
  shows "d \<in> set (visit_covering (length cs) cs path (kids (cs ! 0)))"
proof -
  have c: "covered cs path p" "prefixCoversPath (cprefix (cs ! d)) path"
    using cov n ancestors_butlast [OF t d] by (simp_all add: covered_def)
  have p: "p < length cs" "d \<in> set (kids (cs ! p))" using treeD(4) [OF t d] d(1) by auto
  have "length (ancestors cs d) \<le> Suc d" unfolding ancestors_def by (rule chain_up_length)
  moreover have "length (ancestors cs d) = Suc (length (ancestors cs p))" by (simp add: ancestors_parent [OF t d])
  moreover have "0 < length (ancestors cs p)" using ancestors_self [of p cs] by (cases "ancestors cs p") auto
  ultimately have len: "Suc (length cs - length (ancestors cs p)) + (length (ancestors cs p) - 1) = length cs"
    using d(1) by linarith
  have "d \<in> set (visit_covering (Suc (length cs - length (ancestors cs p))) cs path (kids (cs ! p)))"
    by (rule visit_self [OF p(2) n c(2)])
  then have "d \<in> set (visit_covering (Suc (length cs - length (ancestors cs p)) + (length (ancestors cs p) - 1)) cs path (kids (cs ! 0)))"
    by (rule subsetD [OF visit_reach [OF t p(1) c(1)]])
  then show ?thesis by (simp only: len)
qed

text \<open>The nearest prefixed context around \<open>c\<close>, or the root.\<close>

lemma nearest_prefixed:
  assumes t: "ctx_tree cs" and "c < length cs" and "covered cs path c"
  shows "applies cs c 0 \<or>
    (\<exists>d p. d < length cs \<and> parent (cs ! d) = Some p \<and> \<not> transparent (cs ! d) \<and> covered cs path d \<and> applies cs c d)"
  using assms
proof (induction c rule: ctx_induct)
  case root
  then show ?case by (simp add: applies_def ancestors_root [OF t])
next
  case (child c p)
  note b = ancestors_butlast [OF t child.hyps(1,2)]
  show ?case
  proof (cases "transparent (cs ! c)")
    case True
    have "covered cs path p" using child.prems b by (simp add: covered_def)
    then show ?thesis using child.IH True b by (simp add: applies_def)
  next
    case False
    have "applies cs c c" unfolding applies_def list_all_iff by (auto dest: in_set_butlastD)
    then show ?thesis using False child.hyps child.prems by blast
  qed
qed

lemma set_add_unseen: "set (add_unseen hs acc) = set acc \<union> set hs"
  by (induction hs arbitrary: acc) (auto simp: add_unseen_def)

lemma add_scopes_keeps: "set hooks \<subseteq> set (fst (add_scopes cs hooks a))"
proof (induction cs arbitrary: hooks a)
  case (Cons c cs)
  obtain b a1 where c: "contextScope c a = (b, a1)" by (cases "contextScope c a")
  have "set hooks \<subseteq> set (add_unseen (hsOnRequest (hooks_at (actx a1) b)) hooks)" by (simp add: set_add_unseen)
  then show ?case using Cons.IH [of "add_unseen (hsOnRequest (hooks_at (actx a1) b)) hooks" a1] by (simp add: c)
qed simp

lemma context_scope_clean: "contextScope c a = (b, a') \<Longrightarrow> \<not> dirty (actx a) \<Longrightarrow> \<not> dirty (actx a')"
  by (auto simp: contextScope_def createContextScope_def flush_def register_binding_def split: option.splits)

lemma add_scopes_hooks:
  assumes "app_wf a" and "\<not> dirty (actx a)" and "\<forall>c \<in> set ds. c < length (ctxs (actx a))" and "d \<in> set ds"
    and "c < length (ctxs (actx a))" and "applies (ctxs (actx a)) c d" and "g \<in> set (hsOnRequest (chooks (ctxs (actx a) ! c)))"
  shows "g \<in> set (fst (add_scopes ds hooks a))"
  using assms
proof (induction ds arbitrary: hooks a)
  case (Cons e ds)
  obtain b a1 where e: "contextScope e a = (b, a1)" by (cases "contextScope e a")
  have w: "app_wf a1" "scope_of (actx a1) b e" "ctxs (actx a1) = ctxs (actx a)"
    using context_scope_wf [OF Cons.prems(1) _ e] Cons.prems(3) by auto
  have cl: "\<not> dirty (actx a1)" using context_scope_clean [OF e Cons.prems(2)] .
  let ?hooks = "add_unseen (hsOnRequest (hooks_at (actx a1) b)) hooks"
  show ?case
  proof (cases "d = e")
    case True
    have i: "ctx_inv (actx a1)" and b: "b < length (bindings (actx a1))" "bctx (bindings (actx a1) ! b) = d"
      using w True by (auto simp: app_wf_def scope_of_def route_scope_def)
    have "current (ctxs (actx a1)) (bindings (actx a1) ! b)" using i cl b(1) by (simp add: ctx_inv_def)
    then have "g \<in> set (hsOnRequest (hooks_at (actx a1) b))"
      using scope_hooks [OF i b(1), of g] b(2) w(3) Cons.prems(5-7) by auto
    then show ?thesis using add_scopes_keeps [of ?hooks ds a1] by (auto simp: e set_add_unseen)
  next
    case False
    then have "g \<in> set (fst (add_scopes ds ?hooks a1))" using Cons.IH [of a1 ?hooks] w cl Cons.prems by simp
    then show ?thesis by (simp add: e)
  qed
qed simp

text \<open>
  C10.
  A guard that covers a path also gates the upgrades at it: every \<open>onRequest\<close> hook of a context
  all of whose enclosing prefixes cover the path, plain plugins and nested prefixes alike, is among
  the hooks a WebSocket upgrade to that path has to pass.
\<close>

theorem upgrade_guarded:
  assumes reach: "app_reach a" and c: "c < length (ctxs (actx a))" and cov: "covered (ctxs (actx a)) path c"
    and g: "g \<in> set (hsOnRequest (chooks (ctxs (actx a) ! c)))"
  shows "g \<in> set (fst (getUpgradeHooks (Some path) a))"
proof -
  define f where "f = a\<lparr>actx := flush (actx a)\<rparr>"
  have wf: "app_wf f" using wf_op [OF app_well_formed [OF reach], of Flush] by (simp add: f_def)
  have cs: "ctxs (actx f) = ctxs (actx a)" and cl: "\<not> dirty (actx f)" by (simp_all add: f_def flush_def)
  let ?cs = "ctxs (actx f)"
  let ?ds = "visit_covering (length ?cs) ?cs path (kids (?cs ! 0))"
  have t: "ctx_tree ?cs" and i: "ctx_inv (actx f)" using wf by (auto simp: app_wf_def ctx_inv_def)
  have r: "getUpgradeHooks (Some path) a = (if ?ds = [] then (hsOnRequest (root_hooks f), f) else add_scopes ?ds (hsOnRequest (root_hooks f)) f)"
    by (simp add: getUpgradeHooks_def onRequestHooksForPath_def f_def [symmetric] Let_def)
  have "c < length ?cs" "covered ?cs path c" using c cov by (simp_all add: cs)
  from nearest_prefixed [OF t this] show ?thesis
  proof
    assume ap: "applies ?cs c 0"
    have b: "rootScope f < length (bindings (actx f))" "bctx (bindings (actx f) ! rootScope f) = 0"
      using wf by (auto simp: app_wf_def scope_of_def route_scope_def)
    have "current ?cs (bindings (actx f) ! rootScope f)" using i cl b(1) by (simp add: ctx_inv_def)
    then have "g \<in> set (hsOnRequest (root_hooks f))" using scope_hooks [OF i b(1), of g] b(2) ap c g by (auto simp: cs)
    then show ?thesis using add_scopes_keeps [of "hsOnRequest (root_hooks f)" ?ds f] by (auto simp: r)
  next
    assume "\<exists>d p. d < length ?cs \<and> parent (?cs ! d) = Some p \<and> \<not> transparent (?cs ! d) \<and> covered ?cs path d \<and> applies ?cs c d"
    then obtain d p where d: "d < length ?cs" "parent (?cs ! d) = Some p" "\<not> transparent (?cs ! d)" "covered ?cs path d" "applies ?cs c d"
      by blast
    then have "d \<in> set ?ds" by (intro visit_complete [OF t])
    moreover have "\<forall>k \<in> set ?ds. k < length ?cs" using matched_below [OF wf] by blast
    ultimately show ?thesis
      using add_scopes_hooks [OF wf cl, of ?ds d c g] d(5) c g by (auto simp: r cs)
  qed
qed

section \<open>A concrete app\<close>

text \<open>A guard 7 under \<open>/admin\<close> that always answers 401, and a handler that returns its own number.\<close>

definition demo_env :: "(nat, unit, nat, nat, nat) env" where
  "demo_env =
     \<lparr>runHook = (\<lambda>h s. if h = 7 then (HResponse (empty_response 401), s) else (HNothing, s)),
      runHandler = (\<lambda>h s. (HJson (JNum (of_nat h)), s)), runOnErrorHook = (\<lambda>h e s. (NoResponse, s)), decoValue = id,
      schemaParts = (\<lambda>x. \<lparr>scBody = Some x, scQuery = None, scParams = None, scResponse = Some (SchemaObject False [(''200'', Some x)] x)\<rparr>),
      vBody = (\<lambda>sc b. case b of None \<Rightarrow> Invalid [] | Some v \<Rightarrow> Valid v), vQuery = (\<lambda>sc q. Valid q), vParams = (\<lambda>sc p. Valid p),
      vResponse = (\<lambda>sc j. if j = JNum 0 then Invalid [] else Valid j),
      textDecode = (\<lambda>_. []), jsonParse = (\<lambda>_. Inr JNull), formParse = (\<lambda>_ _. Inr ()), searchParams = (\<lambda>_. []),
      parseHref = (\<lambda>u. Some (u, [])), stackOf = None, bullet = [], devMode = False, production = True\<rparr>"

definition demo_options :: app_options where
  "demo_options =
     \<lparr>optPrefix = None, optBodyLimit = None, optRequestTimeout = None, optValidateResponses = None,
      optTrust = \<lparr>trustProxy = False, trustedHosts = None, clientIp = None\<rparr>\<rparr>"

definition demo_site :: "(nat, unit, nat) app" where
  "demo_site = (projr (newApp demo_options))\<lparr>actx := fold run_ctx_op
     [Register 0 None (Some ''/admin''), AddRoute 1 GET ''/users'' 10 None, AddHook 1 OnRequest 7] (actx (projr (newApp demo_options)))\<rparr>"

definition demo_get :: "unit web_request" where
  "demo_get = \<lparr>wMethod = GET, wUrl = ''http://h/admin/users'', wHeaders = \<lparr>hmap = [], hcookies = []\<rparr>, wCustom = [], wIp = None, wPeer = None\<rparr>"

lemma reach_ops: "app_reach a \<Longrightarrow> app_reach (a\<lparr>actx := fold run_ctx_op ops (actx a)\<rparr>)"
proof (induction ops arbitrary: a)
  case (Cons x ops)
  from Cons.IH [OF app_reach.app_ctx [OF Cons.prems, of x]] show ?case by simp
qed simp

lemma demo_reach: "app_reach demo_site"
proof -
  have "newApp demo_options = Inr (projr (newApp demo_options))" by (simp add: newApp_def demo_options_def createContextScope_def)
  then have "app_reach (projr (newApp demo_options :: app_error + (nat, unit, nat) app))" by (rule app_reach.app_start)
  then show ?thesis unfolding demo_site_def by (rule reach_ops)
qed

lemma demo_found:
  "case find_route (crouter (flush (actx demo_site))) GET ''/admin/users'' of Inr (Some m) \<Rightarrow> snd (rhandler (mroute m)) = 1 | _ \<Rightarrow> False"
  by code_simp

lemma site_facts: "fst (split_url (wUrl demo_get)) = ''/admin/users''" "length (ctxs (flush (actx demo_site))) = 2"
  "applies (ctxs (flush (actx demo_site))) 1 (bctx (bindings (flush (actx demo_site)) ! 1))"
  "hsOnRequest (chooks (ctxs (flush (actx demo_site)) ! 1)) = [7]"
  "covered (ctxs (actx demo_site)) ''/admin/chat'' 1" "wMethod demo_get = GET"
  by code_simp+

theorem app_well_formed_witness: "app_wf demo_site"
  using app_well_formed [OF demo_reach] .

theorem guard_blocks_handler_witness:
  "handle (demo_env\<lparr>runHandler := \<lambda>h s. (HText ''secret'', s)\<rparr>) demo_get None None 0 demo_site
   = handle demo_env demo_get None None 0 demo_site"
proof -
  obtain mt where mt: "find_route (crouter (flush (actx demo_site))) GET ''/admin/users'' = Inr (Some mt)"
      "snd (rhandler (mroute mt)) = 1"
    using demo_found by (auto split: sum.splits option.splits)
  show ?thesis
  proof (rule guard_blocks_handler [OF demo_reach refl])
    show "find_route (crouter (flush (actx demo_site))) (wMethod demo_get) (fst (split_url (wUrl demo_get))) = Inr (Some mt)"
      unfolding site_facts by (rule mt(1))
    show "1 < length (ctxs (flush (actx demo_site)))" unfolding site_facts by simp
    show "applies (ctxs (flush (actx demo_site))) 1 (bctx (bindings (flush (actx demo_site)) ! snd (rhandler (mroute mt))))"
      unfolding mt(2) by (rule site_facts)
    show "7 \<in> set (hsOnRequest (chooks (ctxs (flush (actx demo_site)) ! 1)))" unfolding site_facts by simp
  qed (simp add: demo_env_def)
qed

theorem upgrade_guarded_witness: "7 \<in> set (fst (getUpgradeHooks (Some ''/admin/chat'') demo_site))"
proof (rule upgrade_guarded [OF demo_reach])
  show "1 < length (ctxs (actx demo_site))" using site_facts(2) by simp
  show "7 \<in> set (hsOnRequest (chooks (ctxs (actx demo_site) ! 1)))" using site_facts(4) by simp
qed (rule site_facts)

definition demo_st :: "(unit, nat) st" where
  "demo_st = \<lparr>sReq = buildRequest demo_get ''http://h/'' [] [], sRep = createReply, sRepProps = [], sWorld = 0\<rparr>"

definition demo_route :: "(nat \<times> nat, nat) route" where
  "demo_route = mkRoute GET ''/'' (10, 0) Serverless None None None"

theorem thrown_error_answered_witness:
  "\<exists>r. fst (handle_matched demo_env demo_site demo_route None False (Some demo_st) demo_st) = Inr r \<and> rsStatus r = 504"
proof -
  have e: "runWithTimeout demo_env (config demo_site) (fst (rhandler demo_route)) (rschema demo_route)
      (hooks_at (actx demo_site) (snd (rhandler demo_route))) None (Some demo_st) demo_st = (Inl (gatewayTimeout None), demo_st)"
    by (simp add: runWithTimeout_def demo_site_def newApp_def demo_options_def createContextScope_def demo_env_def)
  have n: "errorHandler demo_site = None"
    by (simp add: demo_site_def newApp_def demo_options_def createContextScope_def)
  show ?thesis
    using thrown_error_answered [OF e n, of False] by (auto simp: demo_env_def gatewayTimeout_def mkHttpError_def body_status_def)
qed

theorem handler_sees_validated_witness:
  "runLifecycle (demo_env\<lparr>runHandler := \<lambda>h s. if qBody (sReq s) = None then (HText ''raw'', s) else (HJson (JNum (of_nat h)), s)\<rparr>)
     (config demo_site) 10 (Some 0) createHookStore None demo_st
   = runLifecycle demo_env (config demo_site) 10 (Some 0) createHookStore None demo_st"
  by (rule handler_sees_validated [where sc = 0]) (auto simp: demo_env_def createHookStore_def)


text \<open>
  On a path without a route the guards run outside every \<open>try\<close>: one that throws makes \<open>handle\<close> reject,
  where on a route it would be answered (\<open>thrown_error_answered\<close>).
\<close>

lemma unmatched_guard_rejects:
  assumes "hasPath (crouter (actx a)) p = False" and "onRequestHooksForPath p a = (hs, a')" and "runHooks E hs s = (Inl e, s')"
  shows "fst (handle_miss E p s a) = (Inl e, s')"
  using assms by (simp add: handle_miss_def)

end
