(* ===== verification/Reply_Props.thy ===== *)
theory Reply_Props
  imports Reply
begin

text \<open>
  Properties of replies: redirects do not leave the site, served files do not leave their
  root, and the headers of a reply reach the response without replacing its own.
\<close>

section \<open>Redirects\<close>

lemma strip_target_chars:
  "c \<in> set (strip_target s) \<Longrightarrow> c \<noteq> CHR 0x5C \<and> c \<noteq> CHR 0x09 \<and> c \<noteq> CHR 0x0A \<and> c \<noteq> CHR 0x0D"
  by (auto simp: strip_target_def)

lemma strip_target_fixed:
  assumes "\<And>c. c \<in> set s \<Longrightarrow> c \<noteq> CHR 0x5C \<and> c \<noteq> CHR 0x09 \<and> c \<noteq> CHR 0x0A \<and> c \<noteq> CHR 0x0D"
  shows "strip_target s = s"
proof -
  have "filter (\<lambda>c. c \<noteq> CHR 0x09 \<and> c \<noteq> CHR 0x0A \<and> c \<noteq> CHR 0x0D) s = s"
    using assms by (intro filter_True) blast
  moreover have "map (\<lambda>c. if c = CHR 0x5C then CHR ''/'' else c) s = s"
    using assms by (intro map_idI) auto
  ultimately show ?thesis by (simp add: strip_target_def)
qed

lemma strip_target_idem: "strip_target (strip_target s) = strip_target s"
  using strip_target_chars by (intro strip_target_fixed) blast

lemma normalize_total: "normalizeRedirectTarget s = Some (strip_target s)"
  by (simp add: normalizeRedirectTarget_def numeral_2_eq_2 Let_def strip_target_idem)

definition on_site :: "string \<Rightarrow> bool" where
  "on_site loc \<longleftrightarrow> starts_with loc ''/'' \<and> \<not> starts_with loc ''//'' \<and> CHR 0x5C \<notin> set loc \<and> (\<forall>c \<in> set loc. 0x1F < (of_char c :: nat))"

text \<open>What a validated \<open>Location\<close> is.\<close>

definition safe_location :: "(string \<Rightarrow> parsed_url option) \<Rightarrow> string \<Rightarrow> string list option \<Rightarrow> string \<Rightarrow> bool" where
  "safe_location parse u hosts loc \<longleftrightarrow> on_site loc \<or>
     (\<exists>p allowed. parse (strip_target u) = Some p \<and> hosts = Some allowed \<and> loc = http_trim (uHref p) \<and> uProtocol p \<in> {''http:'', ''https:''}
        \<and> (uHost p \<in> set allowed \<or> uHostname p \<in> set allowed))"

lemma http_trim_slash: "http_trim (CHR ''/'' # s) = CHR ''/'' # rev (dropWhile http_ws (rev s))"
proof -
  have "\<not> http_ws CHR ''/''" by (simp add: http_ws_def)
  then have "dropWhile http_ws (rev s @ [CHR ''/'']) = dropWhile http_ws (rev s) @ [CHR ''/'']" for s
    by (induction s rule: rev_induct) auto
  then show ?thesis using \<open>\<not> http_ws CHR ''/''\<close> by (simp add: http_trim_def)
qed

lemma on_site_trim:
  assumes "on_site loc"
  shows "on_site (http_trim loc)"
proof -
  obtain s where s: "loc = CHR ''/'' # s" using assms by (cases loc) (auto simp: on_site_def)
  have "rev s = takeWhile http_ws (rev s) @ dropWhile http_ws (rev s)" by simp
  then have "s = rev (dropWhile http_ws (rev s)) @ rev (takeWhile http_ws (rev s))" by (metis rev_append rev_rev_ident)
  then obtain t where t: "s = rev (dropWhile http_ws (rev s)) @ t" by blast
  then have "set (rev (dropWhile http_ws (rev s))) \<subseteq> set s" by (metis set_append sup_ge1)
  moreover have "starts_with (rev (dropWhile http_ws (rev s))) ''/'' \<Longrightarrow> starts_with s ''/''"
    by (subst t) (auto simp: starts_with_iff)
  ultimately show ?thesis using assms unfolding s http_trim_slash by (auto simp: on_site_def starts_with_iff)
qed

lemma safeRedirect_location:
  "\<exists>res. safeRedirectLocation parse u hosts = Some res \<and> (\<forall>loc. res = Inr loc \<longrightarrow> safe_location parse u hosts (http_trim loc))"
proof -
  have "on_site loc \<or> (\<exists>p allowed. parse (strip_target u) = Some p \<and> hosts = Some allowed \<and> loc = uHref p \<and> uProtocol p \<in> {''http:'', ''https:''}
        \<and> (uHost p \<in> set allowed \<or> uHostname p \<in> set allowed))" if "safeRedirectLocation parse u hosts = Some (Inr loc)" for loc
    using that strip_target_chars [of _ u]
    by (auto simp: safeRedirectLocation_def normalize_total on_site_def reply_hasControlChar_def list_ex_iff Let_def
        split: option.splits if_splits)
  then have "safe_location parse u hosts (http_trim loc)" if "safeRedirectLocation parse u hosts = Some (Inr loc)" for loc
    using that on_site_trim by (auto simp: safe_location_def)
  moreover obtain res where "safeRedirectLocation parse u hosts = Some res" by (auto simp: safeRedirectLocation_def normalize_total)
  ultimately show ?thesis by auto
qed

section \<open>Headers of a reply\<close>

definition lower_keys :: "(string, string) omap \<Rightarrow> bool" where
  "lower_keys hs \<longleftrightarrow> distinct (keys_of hs) \<and> (\<forall>k \<in> set (keys_of hs). to_lower k = k)"

text \<open>\<open>reply.header\<close> keeps the names lower case and distinct.\<close>

lemma reply_header_lower: "lower_keys (rpHeaders r) \<Longrightarrow> lower_keys (rpHeaders (reply_header k v r))"
  by (auto simp: lower_keys_def reply_header_def distinct_update dom_update)

lemma headers_set_other: "to_lower k \<noteq> name \<Longrightarrow> map_of (hmap (headers_set k v h)) name = map_of (hmap h) name"
  by (simp add: headers_set_def map_simps)

lemma headers_set_same: "map_of (hmap (headers_set k v h)) (to_lower k) = Some (http_trim v)"
  by (simp add: headers_set_def map_simps)

lemma headers_set_cookies [simp]: "hcookies (headers_set k v h) = hcookies h"
  by (simp add: headers_set_def)

lemma headers_append_other: "to_lower k \<noteq> name \<Longrightarrow> map_of (hmap (headers_append k v h)) name = map_of (hmap h) name"
  by (simp add: headers_append_def headers_set_other map_simps split: option.split)

lemma headers_append_new:
  assumes "to_lower k = k" and "k \<noteq> ''set-cookie''" and "map_of (hmap h) k = None"
  shows "map_of (hmap (headers_append k v h)) k = Some (http_trim v)"
  using assms headers_set_same [of k v h] by (simp add: headers_append_def headers_get_def)

text \<open>Of a plain object with distinct lower-case names, \<open>Headers\<close> takes every value, trimmed.\<close>

lemma fold_append_value:
  "lower_keys hs \<Longrightarrow> name \<noteq> ''set-cookie'' \<Longrightarrow> (name \<in> set (keys_of hs) \<Longrightarrow> map_of (hmap h) name = None) \<Longrightarrow>
   map_of (hmap (fold (\<lambda>(k, v). headers_append k v) hs h)) name =
     (case map_of hs name of Some v \<Rightarrow> Some (http_trim v) | None \<Rightarrow> map_of (hmap h) name)"
proof (induction hs arbitrary: h)
  case Nil
  then show ?case by simp
next
  case (Cons e hs)
  obtain k v where e: "e = (k, v)" by (cases e)
  have k: "to_lower k = k" "k \<notin> set (keys_of hs)" "lower_keys hs" using Cons.prems(1) by (auto simp: e lower_keys_def)
  show ?case
  proof (cases "k = name")
    case True
    then have "map_of (hmap (headers_append k v h)) name = Some (http_trim v)"
      using Cons.prems(2,3) k(1) headers_append_new [of k h v] by (simp add: e)
    moreover have "map_of hs name = None" using k(2) True by (simp add: map_of_eq_None_iff)
    ultimately show ?thesis using Cons.IH [OF k(3) Cons.prems(2), of "headers_append k v h"] True k(2) by (simp add: e)
  next
    case False
    then have "map_of (hmap (headers_append k v h)) name = map_of (hmap h) name" using k(1) headers_append_other [of k name v h] by simp
    then show ?thesis using Cons.IH [OF k(3) Cons.prems(2), of "headers_append k v h"] False Cons.prems(3) by (simp add: e split: option.split)
  qed
qed

lemma fold_cookies_value: "name \<noteq> ''set-cookie'' \<Longrightarrow> map_of (hmap (fold (headers_append ''set-cookie'') cs h)) name = map_of (hmap h) name"
proof (induction cs arbitrary: h)
  case (Cons c cs)
  have "to_lower ''set-cookie'' = ''set-cookie''" by code_simp
  then show ?case using Cons headers_append_other [of "''set-cookie''" name c h] by simp
qed simp

lemma build_headers_value:
  assumes "lower_keys hs" and "name \<noteq> ''set-cookie''"
  shows "map_of (hmap (build_headers r hs)) name = map_option http_trim (map_of hs name)"
  using fold_append_value [OF assms, of "\<lparr>hmap = [], hcookies = []\<rparr>"] fold_cookies_value [OF assms(2)]
  by (simp add: build_headers_def new_headers_def split: option.split)

lemma spread_one:
  assumes "lower_keys hs" and "to_lower k = k" and "k \<notin> set (keys_of hs)"
  shows "spread [(k, v)] hs = (k, v) # hs" and "lower_keys ((k, v) # hs)"
proof -
  have "fold (\<lambda>(k, v). AList.update k v) hs acc = acc @ hs" if "distinct (keys_of (acc @ hs))" for hs acc :: "(string, string) omap"
    using that by (induction hs arbitrary: acc) (auto simp: keys_update_new)
  from this [of "[(k, v)]" hs] show "spread [(k, v)] hs = (k, v) # hs" using assms by (auto simp: spread_def lower_keys_def)
  show "lower_keys ((k, v) # hs)" using assms by (simp add: lower_keys_def)
qed

text \<open>
  C13.
  No open redirect: \<open>redirect\<close> always ends, it throws or gives a response, and the \<open>Location\<close> of the response
  is a path on the site that no URL parser reads as another authority (one slash first, no backslash, no control
  character), or an http(s) URL whose host the caller has allowed, unless the application has set a \<open>location\<close>
  header on the reply itself, which wins.
\<close>

theorem redirect_stays_on_site:
  assumes "lower_keys (rpHeaders r)" and "''location'' \<notin> set (keys_of (rpHeaders r))"
  shows "\<exists>res r'. reply_redirect parse u code hosts r = Some (res, r') \<and>
    (case res of
       Inl e \<Rightarrow> r' = r
     | Inr x \<Rightarrow> \<exists>loc. headers_get ''location'' (rsHeaders x) = Some loc \<and> safe_location parse u hosts loc)"
proof -
  obtain res where res: "safeRedirectLocation parse u hosts = Some res"
      "\<And>loc. res = Inr loc \<Longrightarrow> safe_location parse u hosts (http_trim loc)"
    using safeRedirect_location [of parse u hosts] by blast
  have l: "to_lower ''location'' = ''location''" by code_simp
  show ?thesis
  proof (cases res)
    case (Inl e)
    then show ?thesis by (simp add: reply_redirect_def res(1))
  next
    case (Inr loc)
    note s = spread_one [OF assms(1) l assms(2), of loc]
    have "map_of (hmap (build_headers r ((''location'', loc) # rpHeaders r))) ''location'' = Some (http_trim loc)"
      using build_headers_value [OF s(2), of "''location''" r] by simp
    then show ?thesis using res(2) [OF Inr] Inr by (simp add: reply_redirect_def res(1) s(1) headers_get_def l)
  qed
qed

theorem redirect_stays_on_site_witness:
  "\<exists>res r'. reply_redirect (\<lambda>_. None) ''/a'' None None (reply_header ''X-A'' ''1'' createReply) = Some (res, r') \<and>
    (case res of
       Inl e \<Rightarrow> r' = reply_header ''X-A'' ''1'' createReply
     | Inr x \<Rightarrow> \<exists>loc. headers_get ''location'' (rsHeaders x) = Some loc \<and> safe_location (\<lambda>_. None) ''/a'' None loc)"
proof (rule redirect_stays_on_site)
  have h: "rpHeaders (reply_header ''X-A'' ''1'' createReply) = [(''x-a'', ''1'')]" by code_simp
  have "to_lower ''x-a'' = ''x-a''" by code_simp
  then show "lower_keys (rpHeaders (reply_header ''X-A'' ''1'' createReply))" by (simp add: h lower_keys_def)
  show "''location'' \<notin> set (keys_of (rpHeaders (reply_header ''X-A'' ''1'' createReply)))" by (simp add: h)
qed

section \<open>Files\<close>

text \<open>Inside, on the normalized paths that \<open>resolve\<close> gives, is being at or below it.\<close>

definition clean_segments :: "string list \<Rightarrow> bool" where
  "clean_segments ss \<longleftrightarrow> (\<forall>s \<in> set ss. s \<noteq> [] \<and> CHR ''/'' \<notin> set s \<and> s \<noteq> ''.'' \<and> s \<noteq> ''..'')"

lemma clean_fold:
  "clean_segments acc \<Longrightarrow> (\<And>s. s \<in> set ss \<Longrightarrow> CHR ''/'' \<notin> set s) \<Longrightarrow>
    clean_segments (fold (\<lambda>s acc. if s = [] \<or> s = ''.'' then acc else if s = ''..'' then tl acc else s # acc) ss acc)"
proof (induction ss arbitrary: acc)
  case (Cons s ss)
  have t: "clean_segments (tl acc)" using Cons.prems(1) by (cases acc) (simp_all add: clean_segments_def)
  have s: "CHR ''/'' \<notin> set s" and ss: "\<And>x. x \<in> set ss \<Longrightarrow> CHR ''/'' \<notin> set x" using Cons.prems(2) by simp_all
  have "clean_segments (if s = [] \<or> s = ''.'' then acc else if s = ''..'' then tl acc else s # acc)"
    using Cons.prems(1) t s by (simp add: clean_segments_def)
  from Cons.IH [OF this ss] show ?case by simp
qed simp

lemma clean_rev: "clean_segments (rev ss) = clean_segments ss"
  by (simp add: clean_segments_def)

lemma path_segments_clean: "clean_segments (path_segments p)"
  unfolding path_segments_def clean_rev
  by (rule clean_fold) (simp add: clean_segments_def, rule split_pieces_no_sep)

lemma split_absolute:
  "clean_segments ss \<Longrightarrow> ss \<noteq> [] \<Longrightarrow> split_on CHR ''/'' (absolute ss) = [] # ss"
  by (simp add: absolute_def clean_segments_def split_join)

text \<open>A request path with parent segments cannot climb out: what is inside a root is a longer list of names.\<close>

lemma inside_prefix:
  assumes "clean_segments ss" and "clean_segments rs" and "rs \<noteq> []" and "ss \<noteq> []"
  shows "isInside (absolute ss) (absolute rs) \<longleftrightarrow> (\<exists>ts. ss = rs @ ts)"
proof
  assume "isInside (absolute ss) (absolute rs)"
  then consider "absolute ss = absolute rs" | t where "absolute ss = absolute rs @ CHR ''/'' # t"
    by (auto simp: isInside_def starts_with_iff)
  then show "\<exists>ts. ss = rs @ ts"
  proof cases
    case 1
    then have "[] # ss = [] # rs" using split_absolute assms by metis
    then show ?thesis by simp
  next
    case 2
    then have "[] # ss = ([] # rs) @ split_on CHR ''/'' t"
      using split_absolute [OF assms(1,4)] split_absolute [OF assms(2,3)] split_append [of "CHR ''/''" "absolute rs" t] by simp
    then show ?thesis by simp
  qed
next
  assume "\<exists>ts. ss = rs @ ts"
  then obtain ts where ts: "ss = rs @ ts" by blast
  have "join ''/'' (rs @ ts) = join ''/'' rs @ ''/'' @ join ''/'' ts" if "ts \<noteq> []" "rs \<noteq> []" for rs ts :: "string list"
    using that(2,1) by (induction rs rule: list_nonempty_induct) (auto simp: join_Cons)
  then show "isInside (absolute ss) (absolute rs)"
    using assms(3) ts by (cases "ts = []") (auto simp: isInside_def absolute_def starts_with_iff)
qed

lemma inside_root:
  assumes "isInside (absolute ss) (absolute rs)" and "clean_segments ss" and "clean_segments rs"
  shows "\<exists>ts. ss = rs @ ts"
proof -
  have r: "\<exists>c t. absolute rs = CHR ''/'' # c # t" if ne: "rs \<noteq> []"
  proof -
    obtain x xs where xs: "rs = x # xs" using ne by (cases rs) auto
    then obtain c cs where "x = c # cs" using assms(3) by (cases x) (auto simp: clean_segments_def)
    then show ?thesis unfolding xs by (cases xs) (simp_all add: absolute_def)
  qed
  consider "rs = []" | "rs \<noteq> []" "ss = []" | "rs \<noteq> []" "ss \<noteq> []" by blast
  then show ?thesis
  proof cases
    case 2
    then have "absolute ss = ''/''" by (simp add: absolute_def)
    then show ?thesis using assms(1) r [OF 2(1)] by (auto simp: isInside_def starts_with_iff)
  next
    case 3
    then show ?thesis using inside_prefix [OF assms(2,3)] assms(1) by simp
  qed simp
qed

text \<open>Below a directory: its names, followed by more of them, none of which is empty, \<open>.\<close>, \<open>..\<close> or has a slash in it.\<close>

definition below :: "string \<Rightarrow> string \<Rightarrow> bool" where
  "below dir path \<longleftrightarrow> (\<exists>rs ts. clean_segments (rs @ ts) \<and> dir = absolute rs \<and> path = absolute (rs @ ts))"

lemma inside_below:
  assumes "isInside (absolute ss) (absolute rs)" and "clean_segments ss" and "clean_segments rs"
  shows "below (absolute rs) (absolute ss)"
  using inside_root [OF assms] assms(2) by (auto simp: below_def)

lemma resolve_absolute: "\<exists>ss. clean_segments ss \<and> resolve_path base p = absolute ss"
  using path_segments_clean by (auto simp: resolve_path_def)

text \<open>
  C36.
  Served files stay inside the root: the path asked for, \<open>..\<close> resolved, consists of the names of the root followed by
  further names; without \<open>allowSymlinks\<close> the same holds of its real path and the real path of the root, that real
  path is what is opened, and it is opened without following a link planted in between. \<open>realpath\<close> gives
  absolute normalized paths.
\<close>

theorem file_confined:
  assumes "\<And>x y. realpath x = Some y \<Longrightarrow> \<exists>ss. clean_segments ss \<and> y = absolute ss"
    and "readConfinedFile realpath opn cwd p r allow = Confined (bytes, q)"
  shows "let root = resolve_path cwd (case r of None \<Rightarrow> cwd | Some x \<Rightarrow> x); target = resolve_path root p in
    opn q (\<not> allow) = Opened (Some bytes) \<and> below root target
    \<and> (if allow then q = target else \<exists>rr. realpath root = Some rr \<and> realpath target = Some q \<and> below rr q)"
proof -
  define root where "root = resolve_path cwd (case r of None \<Rightarrow> cwd | Some x \<Rightarrow> x)"
  define target where "target = resolve_path root p"
  have o: "opn q (\<not> allow) = Opened (Some bytes)" "isInside target root"
    "if allow then q = target else \<exists>rr. realpath root = Some rr \<and> realpath target = Some q \<and> isInside q rr"
    using assms(2) unfolding target_def root_def
    by (auto simp: readConfinedFile_def resolveConfinedPath_def Let_def
        split: confined.splits open_result.splits option.splits if_splits)
  obtain rs ts where "clean_segments rs" "root = absolute rs" "clean_segments ts" "target = absolute ts"
    using resolve_absolute unfolding root_def target_def by metis
  then have "below root target" using o(2) inside_below by simp
  moreover have "below rr q" if "realpath root = Some rr" "realpath target = Some q" "isInside q rr" for rr
    using assms(1) [OF that(1)] assms(1) [OF that(2)] that(3) inside_below by auto
  ultimately show ?thesis using o(1,3) by (auto simp: Let_def root_def [symmetric] target_def [symmetric])
qed

text \<open>A file system without links under \<open>/s\<close>, where \<open>realpath\<close> normalizes.\<close>

theorem file_confined_witness:
  "readConfinedFile (\<lambda>x. Some (resolve_path ''/'' x)) (\<lambda>q nofollow. Opened (Some [1])) ''/'' ''a'' (Some ''/s'') False = Confined ([1], ''/s/a'')
    \<and> below ''/s'' ''/s/a''"
proof -
  have r: "readConfinedFile (\<lambda>x. Some (resolve_path ''/'' x)) (\<lambda>q nofollow. Opened (Some [1])) ''/'' ''a'' (Some ''/s'') False = Confined ([1], ''/s/a'')"
    by code_simp
  have "\<exists>ss. clean_segments ss \<and> y = absolute ss" if "Some (resolve_path ''/'' x) = Some y" for x y
    using resolve_absolute [of "''/''" x] that by auto
  from file_confined [OF this r] have "below (resolve_path ''/'' ''/s'') (resolve_path (resolve_path ''/'' ''/s'') ''a'')" by (simp add: Let_def)
  moreover have "resolve_path ''/'' ''/s'' = ''/s''" "resolve_path ''/s'' ''a'' = ''/s/a''" by code_simp+
  ultimately show ?thesis using r by simp
qed

text \<open>A path that merely begins with the text of the root is refused.\<close>

lemma sibling_refused: "resolveConfinedPath Some ''/'' ''../ab/x'' (Some ''/srv/a'') False = Refused 403"
  by code_simp

section \<open>The file name of a download\<close>

lemma pct_printable: "n < 256 \<Longrightarrow> c \<in> set (pct n) \<Longrightarrow> printable c"
  by (auto simp: pct_def hex_digit_def printable_def Let_def)

lemma rfc5987_chars: "(\<And>c. c \<in> set s \<Longrightarrow> printable c) \<Longrightarrow> c \<in> set (rfc5987 s) \<Longrightarrow> printable c"
  using pct_printable [of 39 c] pct_printable [of 40 c] pct_printable [of 41 c] pct_printable [of 42 c]
  by (auto simp: rfc5987_def split: if_splits)

lemma ascii_name_chars: "c \<in> set (ascii_name n) \<Longrightarrow> printable c \<and> c \<noteq> CHR 0x22 \<and> c \<noteq> CHR 0x5C"
  by (auto simp: ascii_name_def printable_def)

section \<open>Carrying the reply onto a response\<close>

text \<open>The copy in hand: the response's own headers until the first change.\<close>

abbreviation in_hand :: "header_map \<Rightarrow> header_map option \<Rightarrow> header_map" where
  "in_hand own m \<equiv> (case m of None \<Rightarrow> own | Some h \<Rightarrow> h)"

lemma merge_headers_cookies: "hcookies (in_hand own (merge_headers own shown hs m)) = hcookies (in_hand own m)"
  by (induction own shown hs m rule: merge_headers.induct) (auto simp: Let_def split: option.splits)

lemma merge_headers_value:
  assumes "lower_keys hs" and "name \<notin> {''vary'', ''set-cookie''}"
  shows "map_of (hmap (in_hand own (merge_headers own None hs m))) name
    = (case map_of (hmap (in_hand own m)) name of Some v \<Rightarrow> Some v | None \<Rightarrow> map_option http_trim (map_of hs name))"
  using assms(1)
proof (induction hs arbitrary: m)
  case Nil
  then show ?case by (simp split: option.splits)
next
  case (Cons e hs)
  obtain key v where e: "e = (key, v)" by (cases e)
  have low: "to_lower key = key" and lk: "lower_keys hs" and fresh: "map_of hs key = None"
    using Cons.prems e by (auto simp: lower_keys_def map_of_None_keys)
  let ?h = "in_hand own m"
  define m' where "m' = (if key = ''set-cookie'' then m
      else (case headers_get key ?h of
          None \<Rightarrow> Some (headers_set key v ?h)
        | Some cur \<Rightarrow> if cur = v then m
            else if key = ''vary'' then (let u = unionVary cur v in if u \<noteq> cur then Some (headers_set key u ?h) else m)
            else m))"
  have step: "merge_headers own None (e # hs) m = merge_headers own None hs m'"
    by (auto simp: e low m'_def Let_def split: option.splits)
  have other: "map_of (hmap (in_hand own m')) name = map_of (hmap ?h) name" if "name \<noteq> key"
    using that low by (auto simp: m'_def headers_set_other Let_def split: option.splits)
  have same: "map_of (hmap (in_hand own m')) key
      = (case map_of (hmap ?h) key of Some w \<Rightarrow> Some w | None \<Rightarrow> Some (http_trim v))" if "name = key"
    using that assms(2) low headers_set_same [of key v ?h]
    by (cases "map_of (hmap ?h) key") (auto simp: m'_def headers_get_def)
  show ?case
  proof (cases "name = key")
    case True
    then show ?thesis unfolding step using Cons.IH [OF lk, of m'] same e fresh by (auto split: option.splits)
  next
    case False
    then show ?thesis unfolding step using Cons.IH [OF lk, of m'] other e by (auto split: option.splits)
  qed
qed

lemma merge_cookies_set:
  assumes "set present = set (hcookies (in_hand own m))"
    and "\<And>c. c \<in> set cs \<Longrightarrow> http_trim c = c"
  shows "set (hcookies (in_hand own (merge_cookies own cs present m))) = set (hcookies (in_hand own m)) \<union> set cs
    \<and> (distinct (hcookies (in_hand own m)) \<longrightarrow> distinct (hcookies (in_hand own (merge_cookies own cs present m))))
    \<and> hmap (in_hand own (merge_cookies own cs present m)) = hmap (in_hand own m)"
  using assms
proof (induction cs arbitrary: present m)
  case (Cons c cs)
  have tr: "\<And>c. c \<in> set cs \<Longrightarrow> http_trim c = c" using Cons.prems(2) by simp
  show ?case
  proof (cases "c \<in> set present")
    case True
    then show ?thesis using Cons.IH [OF Cons.prems(1) tr] Cons.prems(1) by auto
  next
    case False
    let ?m = "Some (headers_append ''set-cookie'' c (in_hand own m))"
    have l: "to_lower ''set-cookie'' = ''set-cookie''" by code_simp
    have a: "hcookies (in_hand own ?m) = hcookies (in_hand own m) @ [c]" "hmap (in_hand own ?m) = hmap (in_hand own m)"
      using Cons.prems(2) [of c] by (simp_all add: headers_append_def l)
    then have "set (present @ [c]) = set (hcookies (in_hand own ?m))" using Cons.prems(1) by simp
    from Cons.IH [OF this tr] show ?thesis using False a Cons.prems(1) by auto
  qed
qed simp

text \<open>
  Headers and cookies set on the reply reach a response the handler built itself: a header the
  response has keeps its value, one it lacks takes the reply's, and of the cookies none is lost
  and none doubled; status and body stay. The \<open>Vary\<close> header is united and so left out here.
\<close>

theorem reply_merge:
  assumes "lower_keys (rpHeaders rp)" and "name \<notin> {''vary'', ''set-cookie''}"
    and "map_of (rpHeaders rp) ''set-cookie'' = None" and "\<And>c. c \<in> set (rpCookies rp) \<Longrightarrow> http_trim c = c"
  shows "map_of (hmap (rsHeaders (mergeReplyIntoResponse r rp None))) name
      = (case map_of (hmap (rsHeaders r)) name of Some v \<Rightarrow> Some v | None \<Rightarrow> map_option http_trim (map_of (rpHeaders rp) name))
    \<and> set (hcookies (rsHeaders (mergeReplyIntoResponse r rp None))) = set (hcookies (rsHeaders r)) \<union> set (rpCookies rp)
    \<and> (distinct (hcookies (rsHeaders r)) \<longrightarrow> distinct (hcookies (rsHeaders (mergeReplyIntoResponse r rp None))))
    \<and> rsStatus (mergeReplyIntoResponse r rp None) = rsStatus r \<and> rsBody (mergeReplyIntoResponse r rp None) = rsBody r"
proof -
  let ?own = "rsHeaders r"
  let ?m = "merge_headers ?own None (rpHeaders rp) None"
  let ?m2 = "merge_cookies ?own (rpCookies rp) (hcookies (in_hand ?own ?m)) ?m"
  have res: "mergeReplyIntoResponse r rp None = (case ?m2 of None \<Rightarrow> r | Some h \<Rightarrow> r\<lparr>rsHeaders := h, rsFast := False\<rparr>)"
    by (simp add: mergeReplyIntoResponse_def assms(3) Let_def)
  then have h: "rsHeaders (mergeReplyIntoResponse r rp None) = in_hand ?own ?m2" by (simp split: option.splits)
  have rest: "rsStatus (mergeReplyIntoResponse r rp None) = rsStatus r" "rsBody (mergeReplyIntoResponse r rp None) = rsBody r"
    by (simp_all add: res split: option.splits)
  show ?thesis
    unfolding h
    using merge_cookies_set [OF refl assms(4), where own = ?own and m = ?m and cs = "rpCookies rp"]
      merge_headers_cookies [of ?own None "rpHeaders rp" None]
      merge_headers_value [OF assms(1,2), of ?own None] rest
    by simp
qed

text \<open>A reply with a header the response has, one it lacks, and a cookie it has already.\<close>

definition demo_resp :: resp where
  "demo_resp = \<lparr>rsStatus = 200, rsHeaders = \<lparr>hmap = [(''etag'', ''x'')], hcookies = [''a=1'']\<rparr>, rsBody = NoBody, rsFast = False\<rparr>"

definition demo_reply :: reply where
  "demo_reply = \<lparr>rpStatus = 200, rpHeaders = [(''etag'', ''y''), (''x-id'', ''7'')], rpCookies = [''a=1'', ''b=2''], rpSent = False\<rparr>"

lemma demo_lower: "lower_keys (rpHeaders demo_reply)"
  by (simp add: lower_keys_def demo_reply_def) code_simp

lemma demo_trim: "c \<in> set (rpCookies demo_reply) \<Longrightarrow> http_trim c = c"
  by (auto simp: demo_reply_def http_trim_def http_ws_def)

theorem reply_merge_witness:
  "map_of (hmap (rsHeaders (mergeReplyIntoResponse demo_resp demo_reply None))) ''x-id'' = Some ''7''"
proof -
  have n: "''x-id'' \<notin> {''vary'', ''set-cookie''}" "map_of (rpHeaders demo_reply) ''set-cookie'' = None"
    by (simp_all add: demo_reply_def)
  show ?thesis
    using reply_merge [OF demo_lower n demo_trim, of demo_resp]
    by (simp add: demo_resp_def demo_reply_def http_trim_def http_ws_def)
qed

end
