(* ===== verification/Body_Props.thy ===== *)
theory Body_Props
  imports Body_Parser
begin

text \<open>
  Properties of body parsing: the size limit holds on every path, and what JSON bodies carry.
\<close>

section \<open>The limit\<close>

definition body_size :: "web_body \<Rightarrow> nat" where
  "body_size b = (case b of None \<Rightarrow> 0 | Some s \<Rightarrow> length (concat (chunks s)))"

definition too_large :: "js_error \<Rightarrow> bool" where
  "too_large e \<longleftrightarrow> (\<exists>h. e = HttpErr h \<and> statusCode h = 413)"

lemma payload_too_large: "too_large (payloadTooLarge stk l a)"
  by (simp add: too_large_def payloadTooLarge_def mkHttpError_def)

lemma read_capped_over:
  "limit < int (length acc + length (concat cs)) \<Longrightarrow> int (length acc) \<le> limit \<Longrightarrow>
    \<exists>e. read_capped stk limit acc cs fl = Inl e \<and> too_large e"
proof (induction cs arbitrary: acc)
  case (Cons c cs)
  then show ?case using payload_too_large by (cases "limit < int (length acc + length c)") (auto simp: Let_def)
qed simp

lemma read_capped_within:
  "int (length acc + length (concat cs)) \<le> limit \<Longrightarrow>
    read_capped stk limit acc cs fl = (case fl of None \<Rightarrow> Inr (acc @ concat cs) | Some t \<Rightarrow> Inl (as_error t))"
  by (induction cs arbitrary: acc) (auto simp: Let_def split: option.splits)

text \<open>With a limit set, a reader gives the bytes of the body or an error, and 413 when there are too many.\<close>

lemma body_bytes_over:
  assumes "0 < limit" and "limit < int (body_size b)"
  shows "\<exists>e. readBodyBytes stk h b limit = Inl e \<and> too_large e"
  using assms payload_too_large read_capped_over [of limit "[]"]
  by (auto simp: readBodyBytes_def body_size_def split: option.splits)

lemma body_text_over:
  assumes "0 < limit" and "limit < int (body_size b)"
  shows "\<exists>e. readBodyText dec stk h b limit = Inl e \<and> too_large e"
proof (cases "declared_too_large h limit")
  case None
  obtain s where "b = Some s" using assms by (cases b) (auto simp: body_size_def)
  moreover have "\<exists>e. read_capped stk limit [] (chunks s) (failure s) = Inl e \<and> too_large e"
    using assms \<open>b = Some s\<close> by (intro read_capped_over) (auto simp: body_size_def)
  ultimately show ?thesis using assms(1) None by (auto simp: readBodyText_def)
qed (simp add: readBodyText_def payload_too_large)

lemma bad_request_keeps: "too_large e \<Longrightarrow> as_bad_request m c stk e = e"
  by (auto simp: too_large_def)

text \<open>The content types that make the parser read the body.\<close>

definition read_type :: "string \<Rightarrow> bool" where
  "read_type ct \<longleftrightarrow> includes_str ct ''application/json'' \<or> includes_str ct ''application/x-www-form-urlencoded''
     \<or> includes_str ct ''multipart/form-data'' \<or> includes_str ct ''text/''"

definition is_read :: "string \<Rightarrow> (string, 'p) omap \<Rightarrow> bool" where
  "is_read ct parsers \<longleftrightarrow> find_parser ct parsers \<noteq> None \<or> read_type ct"

abbreviation type_of_request :: "('v, 'f) request \<Rightarrow> string" where
  "type_of_request q \<equiv> (case headers_get ''content-type'' (qHeaders q) of None \<Rightarrow> [] | Some c \<Rightarrow> c)"

lemma by_type_over:
  fixes form :: "string \<Rightarrow> nat list \<Rightarrow> thrown + 'f"
  assumes "0 < limit" and "limit < int (body_size b)"
  shows "if read_type ct then \<exists>e. parse_by_type dec js form stk ct h b limit = Inl e \<and> too_large e
    else parse_by_type dec js form stk ct h b limit = Inr None"
proof -
  obtain e where e: "readBodyText dec stk h b limit = Inl e" "too_large e" using body_text_over [OF assms] by blast
  obtain d where d: "readBodyBytes stk h b limit = Inl d" "too_large d" using body_bytes_over [OF assms] by blast
  have "(parse_json_body dec js stk ct h b limit :: js_error + 'f parsed_body option) = Inl e"
    by (simp add: parse_json_body_def e bad_request_keeps)
  moreover have "parseFormData form stk h b limit = Inl d"
    using assms(1) d by (simp add: parseFormData_def Let_def)
  ultimately show ?thesis
    using e d bad_request_keeps by (simp add: parse_by_type_def read_type_def)
qed

text \<open>
  C14.
  The body limit holds however the body is encoded and whoever parses it: a longer body is answered
  413 when its type is read at all, custom parsers included, whatever length it declares; otherwise
  the request goes on without a body. No parser sees it.
\<close>

theorem body_limited:
  assumes "0 < limit" and "limit < int (body_size b)" and "qMethod q \<notin> {GET, HEAD}"
  shows "if is_read (type_of_request q) parsers
    then \<exists>e. parseBody dec js form stk limit parsers b q = Inl (HttpErr e) \<and> statusCode e = 413
    else parseBody dec js form stk limit parsers b q = Inr q"
proof (cases "find_parser (type_of_request q) parsers")
  case None
  then have r: "is_read (type_of_request q) parsers = read_type (type_of_request q)" by (simp add: is_read_def)
  have "parseBody dec js form stk limit parsers b q =
      map_sum id (\<lambda>r. case r of None \<Rightarrow> q | Some v \<Rightarrow> q\<lparr>qBody := Some v\<rparr>)
        (parse_by_type dec js form stk (type_of_request q) (qHeaders q) b limit)"
    using assms(3) None by (simp add: parseBody_def Let_def)
  then show ?thesis
    using by_type_over [OF assms(1,2), where dec = dec and js = js and form = form and stk = stk
        and ct = "type_of_request q" and h = "qHeaders q"] r
    by (simp only: too_large_def split: if_splits) auto
next
  case (Some parser)
  obtain d where d: "readBodyBytes stk (qHeaders q) b limit = Inl d" "too_large d" using body_bytes_over [OF assms(1,2)] by blast
  have "capRequestBody stk (qHeaders q) b limit = Inl d" using assms(1) d by (simp add: capRequestBody_def)
  then show ?thesis
    using assms(3) Some d(2) by (auto simp: parseBody_def Let_def too_large_def is_read_def)
qed

text \<open>A request with a body of three bytes in two chunks.\<close>

definition demo_request :: "string \<Rightarrow> (unit, unit) request" where
  "demo_request ct =
     \<lparr>qMethod = POST, qUrl = ''/'', qHeaders = \<lparr>hmap = [(''content-type'', ct)], hcookies = []\<rparr>, qParams = [], qQuery = [],
      qBody = None, qIp = None, qCookies = None, qProps = []\<rparr>"

definition demo_body :: web_body where
  "demo_body = Some \<lparr>chunks = [[1, 2], [3]], failure = None\<rparr>"

lemma content_type_lower: "to_lower ''content-type'' = ''content-type''"
  by code_simp

lemma demo_type: "type_of_request (demo_request ct) = ct" "qMethod (demo_request ct) = POST" "qBody (demo_request ct) = None"
  by (simp_all add: demo_request_def headers_get_def content_type_lower)

theorem body_limited_witness:
  "\<exists>e. parseBody (\<lambda>_. []) (\<lambda>_. Inr JNull) (\<lambda>_ _. Inr ()) None 2 [] demo_body (demo_request ''text/plain'') = Inl (HttpErr e)
    \<and> statusCode e = 413"
proof -
  have "(2::int) < int (body_size demo_body)" by (simp add: demo_body_def body_size_def)
  moreover have "read_type ''text/plain''" by (simp add: read_type_def)
  then have "is_read ''text/plain'' ps" for ps :: "(string, (unit, unit) body_parser) omap" by (simp add: is_read_def)
  ultimately show ?thesis
    using body_limited [where limit = 2 and b = demo_body and q = "demo_request ''text/plain''" and parsers = "[]"]
    by (simp add: demo_type)
qed

text \<open>Within the limit the parser of the type gets exactly the bytes sent.\<close>

lemma body_within:
  assumes "int (body_size (Some s)) \<le> limit" and "failure s = None" and "declared_too_large h limit = None" and "0 < limit"
  shows "readBodyBytes stk h (Some s) limit = Inr (concat (chunks s))
    \<and> readBodyText dec stk h (Some s) limit = Inr (dec (concat (chunks s)))"
  using assms read_capped_within [of "[]" "chunks s" limit stk "failure s"]
  by (simp add: readBodyBytes_def readBodyText_def body_size_def)

text \<open>
  A limit of 0, documented as no limit, refuses every text or JSON body that declares a length: the
  test of the header comes before the one for the limit.
\<close>

lemma zero_limit_refuses:
  assumes "headers_get ''content-length'' h = Some s" and "parse_int s = Some n" and "0 < n"
  shows "\<exists>e. readBodyText dec stk h b 0 = Inl e \<and> too_large e"
proof -
  have "s \<noteq> []" using assms(2) by (auto simp: parse_int_def)
  then have "declared_too_large h 0 = Some n" using assms by (simp add: declared_too_large_def)
  then show ?thesis using payload_too_large by (simp add: readBodyText_def)
qed

section \<open>JSON bodies\<close>

fun json_keys :: "json \<Rightarrow> string set" where
  "json_keys (JArr vs) = (\<Union>v \<in> set vs. json_keys v)"
| "json_keys (JObj ps) = (\<Union>p \<in> set ps. insert (fst p) (json_keys (snd p)))"
| "json_keys v = {}"

lemma scrubbed_keys: "json_keys (scrubPrototypePollution j) \<inter> set BLOCKED_KEYS = {}"
proof (induction j rule: scrubPrototypePollution.induct)
  case (1 vs)
  then show ?case by auto
next
  case (2 ps)
  have "x \<notin> set BLOCKED_KEYS" if x: "x \<in> json_keys (scrubPrototypePollution (JObj ps))" for x
  proof -
    from x obtain k v where kv: "(k, v) \<in> set ps" "k \<notin> set BLOCKED_KEYS" "x = k \<or> x \<in> json_keys (scrubPrototypePollution v)"
      by (auto split: if_splits)
    then show ?thesis using "2.IH" [OF kv(1) refl kv(2)] by blast
  qed
  then show ?case by blast
qed simp_all

text \<open>Scrubbing keeps what it does not drop.\<close>

lemma scrub_clean: "json_keys j \<inter> set BLOCKED_KEYS = {} \<Longrightarrow> scrubPrototypePollution j = j"
proof (induction j rule: scrubPrototypePollution.induct)
  case (1 vs)
  have "scrubPrototypePollution v = v" if v: "v \<in> set vs" for v
  proof -
    have "json_keys v \<subseteq> json_keys (JArr vs)" using v by auto
    then have "json_keys v \<inter> set BLOCKED_KEYS = {}" using "1.prems" by blast
    then show ?thesis by (rule "1.IH" [OF v])
  qed
  then show ?case by (simp add: map_idI)
next
  case (2 ps)
  have e: "(if k \<in> set BLOCKED_KEYS then [] else [(k, scrubPrototypePollution v)]) = [(k, v)]" if kv: "(k, v) \<in> set ps" for k v
  proof -
    have "insert k (json_keys v) \<subseteq> json_keys (JObj ps)" using kv by force
    then have k: "k \<notin> set BLOCKED_KEYS" and v: "json_keys v \<inter> set BLOCKED_KEYS = {}"
      using "2.prems" by blast+
    show ?thesis using "2.IH" [OF kv refl k v] k by simp
  qed
  have "map (\<lambda>(k, v). if k \<in> set BLOCKED_KEYS then [] else [(k, scrubPrototypePollution v)]) ps = map (\<lambda>p. [p]) ps"
    using e by (intro map_cong refl) (auto simp only: split: prod.splits)
  then show ?case by (simp only: scrubPrototypePollution.simps concat_map_singleton list.map_ident)
qed simp_all

lemma scrub_idem: "scrubPrototypePollution (scrubPrototypePollution j) = scrubPrototypePollution j"
  by (rule scrub_clean [OF scrubbed_keys])

text \<open>
  No prototype pollution through a JSON body: whatever \<open>JSON.parse\<close> gives, the body a handler sees has no
  \<open>__proto__\<close>, \<open>constructor\<close> or \<open>prototype\<close> key at any depth.
\<close>

theorem json_body_clean:
  assumes "parseBody dec js form stk limit [] b q = Inr q'" and "qBody q' = Some (ParsedJson j)" and "qBody q = None"
  shows "json_keys j \<inter> set BLOCKED_KEYS = {}"
proof -
  have "parse_by_type dec js form stk (type_of_request q) (qHeaders q) b limit = Inr (Some (ParsedJson j))"
    using assms by (auto simp: parseBody_def find_parser_def Let_def map_sum_Inr split: if_splits option.splits)
  then obtain i where "j = scrubPrototypePollution i"
    unfolding parse_by_type_def map_sum_Inr
    by (auto simp: parse_json_body_def map_sum_Inr split: if_splits sum.splits)
  then show ?thesis using scrubbed_keys by blast
qed

theorem json_body_clean_witness:
  "json_keys (JObj [(''a'', JNum 1)]) \<inter> set BLOCKED_KEYS = {}"
proof (rule json_body_clean)
  show "parseBody (\<lambda>_. ''x'') (\<lambda>_. Inr (JObj [(''__proto__'', JNull), (''a'', JNum 1)])) (\<lambda>_ _. Inr ()) None 9 []
      demo_body (demo_request ''application/json'')
    = Inr ((demo_request ''application/json'')\<lparr>qBody := Some (ParsedJson (JObj [(''a'', JNum 1)]))\<rparr>)"
    by code_simp
qed (simp_all add: demo_type)

end
