(* ===== verification/Session.thy ===== *)
theory Session
  imports Uri_Codec Kv_Store
begin

text \<open>
  Sessions, \<open>packages/cache/src/session.ts\<close>, as a client of the \<open>KVStore\<close> interface.

  \<^item> The operations of the store are the argument \<open>store_ops\<close>; they work on the state of the store.
  \<^item> \<open>save\<close> hands the store a reference to the session's data object, which the store keeps, so later
    changes of the session are visible there without another \<open>save\<close>; \<open>load\<close> copies. Data objects
    therefore live in a list \<open>objects\<close>, and the store holds their indices.
  \<^item> A data object is its own properties in insertion order; names of \<open>Object.prototype\<close>
    are not used as keys. Session ids, names and prefixes are Latin-1 strings.
  \<^item> The result of \<open>generateId()\<close>, called at most once per operation, is the argument \<open>newId\<close>.
\<close>

section \<open>Ids in cookies\<close>

datatype session_error = EmptySessionId | MalformedSessionId

text \<open>The regular expression \<open>COOKIE_VALUE_SAFE\<close>.\<close>

definition cookie_octet :: "char \<Rightarrow> bool" where
  "cookie_octet c = (let n = (of_char c :: nat) in
     n = 0x21 \<or> 0x23 \<le> n \<and> n \<le> 0x2B \<or> 0x2D \<le> n \<and> n \<le> 0x3A \<or> 0x3C \<le> n \<and> n \<le> 0x5B \<or> 0x5D \<le> n \<and> n \<le> 0x7E)"

definition encodeCookieValue :: "string \<Rightarrow> session_error + string" where
  "encodeCookieValue sessionId =
     (if sessionId = [] then Inl EmptySessionId
      else if list_all cookie_octet sessionId then Inr sessionId
      else (case encodeURIComponent (uni sessionId) of None \<Rightarrow> Inl MalformedSessionId | Some e \<Rightarrow> Inr e))"

fun cookie_loop :: "string \<Rightarrow> string list \<Rightarrow> ustring option" where
  "cookie_loop name [] = None"
| "cookie_loop name (c # cs) =
     (let parts = split_on CHR ''='' (trim c) in
      if List.hd parts = name then
        (let raw = join ''='' (tl parts) in
         Some (case decodeURIComponent raw of Some v \<Rightarrow> v | None \<Rightarrow> uni raw))
      else cookie_loop name cs)"

definition parseCookie :: "string \<Rightarrow> string \<Rightarrow> ustring option" where
  "parseCookie header name = cookie_loop name (split_on CHR '';'' header)"

text \<open>A text as a key of the model: a text beyond Latin-1 names no session.\<close>

definition latin1 :: "ustring \<Rightarrow> string option" where
  "latin1 u = (if list_all (\<lambda>x. x < 256) u then Some (map char_of u) else None)"

definition defaultGenerateId :: "nat list \<Rightarrow> string" where
  "defaultGenerateId bytes =
     concat (map (\<lambda>b. [to_lower [hex_digit (b div 16)] ! 0, to_lower [hex_digit (b mod 16)] ! 0]) bytes)"

section \<open>State\<close>

record session_config =
  ttlMs :: int
  cookieName :: string
  sprefix :: string

record session =
  sid :: string
  sdata :: nat

type_synonym 'v session_data = "(string, 'v) omap"

record ('s, 'v) session_world =
  kv :: 's
  objects :: "'v session_data list"

definition createSessionManager :: "int option \<Rightarrow> string option \<Rightarrow> string option \<Rightarrow> session_config" where
  "createSessionManager ttl name pfx =
     \<lparr>ttlMs = (case ttl of None \<Rightarrow> 24 * 60 * 60 * 1000 | Some t \<Rightarrow> t),
      cookieName = (case name of None \<Rightarrow> ''sid'' | Some n \<Rightarrow> n),
      sprefix = (case pfx of None \<Rightarrow> ''sess:'' | Some p \<Rightarrow> p)\<rparr>"

section \<open>A session\<close>

definition makeSession :: "string \<Rightarrow> 'v session_data \<Rightarrow> ('s, 'v) session_world \<Rightarrow> session \<times> ('s, 'v) session_world" where
  "makeSession initialId data w =
     (\<lparr>sid = initialId, sdata = length (objects w)\<rparr>, w\<lparr>objects := objects w @ [data]\<rparr>)"

definition sess_all :: "session \<Rightarrow> ('s, 'v) session_world \<Rightarrow> 'v session_data" where
  "sess_all s w = objects w ! sdata s"

definition sess_get :: "string \<Rightarrow> session \<Rightarrow> ('s, 'v) session_world \<Rightarrow> 'v option" where
  "sess_get k s w = map_of (sess_all s w) k"

definition sess_set :: "string \<Rightarrow> 'v \<Rightarrow> session \<Rightarrow> ('s, 'v) session_world \<Rightarrow> ('s, 'v) session_world" where
  "sess_set k v s w = w\<lparr>objects := (objects w)[sdata s := AList.update k v (sess_all s w)]\<rparr>"

definition sess_delete :: "string \<Rightarrow> session \<Rightarrow> ('s, 'v) session_world \<Rightarrow> ('s, 'v) session_world" where
  "sess_delete k s w = w\<lparr>objects := (objects w)[sdata s := AList.delete k (sess_all s w)]\<rparr>"

definition sess_destroy :: "('s, nat) store_ops \<Rightarrow> session_config \<Rightarrow> session \<Rightarrow> ('s, 'v) session_world \<Rightarrow> ('s, 'v) session_world" where
  "sess_destroy ops cfg s w =
     w\<lparr>kv := snd (delete_op ops (sprefix cfg @ sid s) (kv w)), objects := (objects w)[sdata s := []]\<rparr>"

definition sess_save :: "('s, nat) store_ops \<Rightarrow> session_config \<Rightarrow> time \<Rightarrow> session \<Rightarrow> ('s, 'v) session_world \<Rightarrow> ('s, 'v) session_world" where
  "sess_save ops cfg now s w =
     (if sess_all s w = [] then w\<lparr>kv := snd (delete_op ops (sprefix cfg @ sid s) (kv w))\<rparr>
      else w\<lparr>kv := set_op ops now (sprefix cfg @ sid s) (Other (sdata s)) (Some (ttlMs cfg)) (kv w)\<rparr>)"

text \<open>The session returned is the same object with its id rotated.\<close>

definition sess_regenerate ::
  "('s, nat) store_ops \<Rightarrow> session_config \<Rightarrow> time \<Rightarrow> string \<Rightarrow> session \<Rightarrow> ('s, 'v) session_world \<Rightarrow> session \<times> ('s, 'v) session_world" where
  "sess_regenerate ops cfg now newId s w =
     (if newId = sid s then (s, w)
      else
        (let s1 = s\<lparr>sid := newId\<rparr>;
             w1 = sess_save ops cfg now s1 w
         in (s1, w1\<lparr>kv := snd (delete_op ops (sprefix cfg @ sid s) (kv w1))\<rparr>)))"

section \<open>The manager\<close>

definition createSession ::
  "('s, nat) store_ops \<Rightarrow> session_config \<Rightarrow> time \<Rightarrow> string \<Rightarrow> 'v session_data option \<Rightarrow> ('s, 'v) session_world \<Rightarrow>
     session \<times> ('s, 'v) session_world" where
  "createSession ops cfg now newId initialData w =
     (case makeSession newId (case initialData of None \<Rightarrow> [] | Some d \<Rightarrow> d) w of
        (s, w1) \<Rightarrow>
          (s, if initialData \<noteq> None \<and> initialData \<noteq> Some [] then sess_save ops cfg now s w1 else w1))"

text \<open>The value read may be a number another user of the store left there: 0 is no session, and
  the spread of another number is an empty object.\<close>

definition loadSession ::
  "('s, nat) store_ops \<Rightarrow> session_config \<Rightarrow> time \<Rightarrow> string \<Rightarrow> ('s, 'v) session_world \<Rightarrow> session option \<times> ('s, 'v) session_world" where
  "loadSession ops cfg now sessionId w =
     (case get_op ops now (sprefix cfg @ sessionId) (kv w) of
        (r, st) \<Rightarrow>
          (let w1 = w\<lparr>kv := st\<rparr> in
           case r of
             None \<Rightarrow> (None, w1)
           | Some (Num n) \<Rightarrow> if n = 0 then (None, w1) else map_prod Some id (makeSession sessionId [] w1)
           | Some (Other a) \<Rightarrow> map_prod Some id (makeSession sessionId (objects w1 ! a) w1)))"

definition fromRequest ::
  "('s, nat) store_ops \<Rightarrow> session_config \<Rightarrow> time \<Rightarrow> string \<Rightarrow> string option \<Rightarrow> ('s, 'v) session_world \<Rightarrow>
     session \<times> ('s, 'v) session_world" where
  "fromRequest ops cfg now newId header w =
     (case parseCookie (case header of None \<Rightarrow> [] | Some h \<Rightarrow> h) (cookieName cfg) of
        None \<Rightarrow> createSession ops cfg now newId None w
      | Some u \<Rightarrow>
          if u = [] then createSession ops cfg now newId None w
          else (case latin1 u of
              None \<Rightarrow> createSession ops cfg now newId None w
            | Some i \<Rightarrow>
                (case loadSession ops cfg now i w of
                   (Some existing, w1) \<Rightarrow> (existing, w1)
                 | (None, w1) \<Rightarrow> createSession ops cfg now newId None w1)))"

definition destroySession :: "('s, nat) store_ops \<Rightarrow> session_config \<Rightarrow> string \<Rightarrow> ('s, 'v) session_world \<Rightarrow> ('s, 'v) session_world" where
  "destroySession ops cfg sessionId w = w\<lparr>kv := snd (delete_op ops (sprefix cfg @ sessionId) (kv w))\<rparr>"

datatype site_policy = SiteStrict | SiteLax | SiteNone

definition site_policy_text :: "site_policy \<Rightarrow> string" where
  "site_policy_text p = (case p of SiteStrict \<Rightarrow> ''Strict'' | SiteLax \<Rightarrow> ''Lax'' | SiteNone \<Rightarrow> ''None'')"

record set_cookie_options =
  so_httpOnly :: "bool option"
  so_secure :: "bool option"
  so_sameSite :: "site_policy option"
  so_path :: "string option"
  so_maxAge :: "int option"

definition sessionCookie :: "session_config \<Rightarrow> string \<Rightarrow> set_cookie_options \<Rightarrow> session_error + string" where
  "sessionCookie cfg sessionId opts =
     map_sum id (\<lambda>safeValue.
       cookieName cfg @ ''='' @ safeValue @ ''; Path='' @ (case so_path opts of None \<Rightarrow> ''/'' | Some p \<Rightarrow> p)
       @ ''; Max-Age='' @ show_int (case so_maxAge opts of None \<Rightarrow> ttlMs cfg div 1000 | Some m \<Rightarrow> m)
       @ ''; SameSite='' @ site_policy_text (case so_sameSite opts of None \<Rightarrow> SiteLax | Some p \<Rightarrow> p)
       @ (if so_httpOnly opts \<noteq> Some False then ''; HttpOnly'' else [])
       @ (if so_secure opts \<noteq> Some False then ''; Secure'' else [])) (encodeCookieValue sessionId)"

end
