(* ===== verification/Session_Props.thy ===== *)
theory Session_Props
  imports Session Kv_Props Cookie_Props
begin

text \<open>
  Properties of sessions, for every store that keeps the laws of \<open>kv_store\<close>, and so for the
  memory store: a saved session comes back with its cookie, rotation of the id ends the old one, and ids
  are issued by the server only.
\<close>

section \<open>Ids and cookies\<close>

lemma latin1_uni [simp]: "latin1 (uni s) = Some s"
  by (auto simp: latin1_def uni_def list_all_iff o_def)

text \<open>An id that only the serializer changes: \<open>%\<close> is a cookie octet and is not escaped.\<close>

definition id_ok :: "string \<Rightarrow> bool" where
  "id_ok i = (i \<noteq> [] \<and> (list_all cookie_octet i \<longrightarrow> CHR ''%'' \<notin> set i))"

lemma octet_plain: "list_all cookie_octet s \<Longrightarrow> CHR '';'' \<notin> set s \<and> (\<forall>c \<in> set s. \<not> is_ws c)"
  by (auto simp: list_all_iff cookie_octet_def is_ws_def Let_def)

lemma encoded_id:
  assumes "id_ok i" and "encodeCookieValue i = Inr e"
  shows "CHR '';'' \<notin> set e" and "\<forall>c \<in> set e. \<not> is_ws c" and "decodeURIComponent e = Some (uni i)"
proof -
  have "CHR '';'' \<notin> set e \<and> (\<forall>c \<in> set e. \<not> is_ws c) \<and> decodeURIComponent e = Some (uni i)"
  proof (cases "list_all cookie_octet i")
    case True
    then show ?thesis using assms octet_plain [OF True] by (auto simp: encodeCookieValue_def id_ok_def decode_no_escape)
  next
    case False
    then have e: "encodeURIComponent (uni i) = Some e"
      using assms by (auto simp: encodeCookieValue_def id_ok_def split: option.splits)
    have b: "\<forall>u \<in> set (uni i). u < 0x10000"
      by (auto simp: uni_def intro: less_trans [OF nat_of_char_less_256])
    show ?thesis using encode_safe [OF e b, THEN safe_char_not(1)] encode_safe [OF e b, THEN safe_char_not(3)] decode_encode [OF e b]
      by blast
  qed
  then show "CHR '';'' \<notin> set e" "\<forall>c \<in> set e. \<not> is_ws c" "decodeURIComponent e = Some (uni i)" by blast+
qed

text \<open>The name of the cookie in one piece of a \<open>Cookie\<close> header.\<close>

definition piece_name :: "string \<Rightarrow> string" where
  "piece_name p = List.hd (split_on CHR ''='' (trim p))"

lemma loop_skips: "\<forall>p \<in> set ps. piece_name p \<noteq> name \<Longrightarrow> cookie_loop name (ps @ qs) = cookie_loop name qs"
  by (induction ps) (auto simp: piece_name_def Let_def)

lemma loop_finds:
  assumes "CHR ''='' \<notin> set name" and "trim (name @ CHR ''='' # e) = name @ CHR ''='' # e" and "decodeURIComponent e = Some v"
  shows "cookie_loop name ((name @ CHR ''='' # e) # qs) = Some v"
  using assms by (simp add: split_append_sep)

lemma loop_space: "cookie_loop name (map ((#) CHR '' '') ps) = cookie_loop name ps"
  by (induction ps) (simp_all add: trim_space Let_def)

lemma parse_cookie_header:
  assumes "cs \<noteq> []"
  shows "parseCookie (cookie_header cs) name = cookie_loop name (map cookie_pair cs)"
proof -
  have "\<forall>p \<in> set (map cookie_pair cs). CHR '';'' \<notin> set p"
    using split_pieces_no_sep [OF list.set_sel(1) [OF split_on_not_Nil]] by (auto simp: cookie_pair_def)
  then have s: "split_on CHR '';'' (cookie_header cs) = List.hd (map cookie_pair cs) # map ((#) CHR '' '') (tl (map cookie_pair cs))"
    unfolding cookie_header_def using assms by (intro split_join_sp) auto
  obtain p ps where ps: "map cookie_pair cs = p # ps" using assms by (cases cs) auto
  show ?thesis using loop_space [of name ps] by (simp add: parseCookie_def s ps Let_def)
qed

definition session_name_ok :: "string \<Rightarrow> bool" where
  "session_name_ok n = (n \<noteq> [] \<and> CHR ''='' \<notin> set n \<and> CHR '';'' \<notin> set n \<and> \<not> is_ws (List.hd n))"

lemma session_cookie_pair:
  assumes "id_ok i" and "session_name_ok (cookieName cfg)" and "sessionCookie cfg i opts = Inr c"
  obtains e where "encodeCookieValue i = Inr e" "cookie_pair c = cookieName cfg @ CHR ''='' # e"
proof -
  obtain e where e: "encodeCookieValue i = Inr e"
    using assms(3) by (cases "encodeCookieValue i") (auto simp: sessionCookie_def)
  have ns: "CHR '';'' \<notin> set (cookieName cfg @ CHR ''='' # e)"
    using assms(2) encoded_id(1) [OF assms(1) e] by (auto simp: session_name_ok_def)
  obtain rest where "c = (cookieName cfg @ CHR ''='' # e) @ CHR '';'' # rest"
    using assms(3) by (auto simp: sessionCookie_def e)
  then have "cookie_pair c = cookieName cfg @ CHR ''='' # e"
    unfolding cookie_pair_def using split_append_sep [OF ns] by (metis list.sel(1))
  with e show thesis by (rule that)
qed

lemma cookie_found:
  assumes "id_ok i" and "session_name_ok (cookieName cfg)" and "sessionCookie cfg i opts = Inr c"
    and "\<forall>b \<in> set before. piece_name (cookie_pair b) \<noteq> cookieName cfg"
  shows "parseCookie (cookie_header (before @ c # after)) (cookieName cfg) = Some (uni i)"
proof -
  obtain e where e: "encodeCookieValue i = Inr e" "cookie_pair c = cookieName cfg @ CHR ''='' # e"
    by (rule session_cookie_pair [OF assms(1-3)])
  have ne: "i \<noteq> []" "cookieName cfg \<noteq> []" using assms(1,2) by (simp_all add: id_ok_def session_name_ok_def)
  have "\<not> is_ws CHR ''=''" by (simp add: is_ws_def)
  then have t: "trim (cookieName cfg @ CHR ''='' # e) = cookieName cfg @ CHR ''='' # e"
    using encoded_id(2) [OF assms(1) e(1)] assms(2) ne by (intro trim_id) (auto simp: session_name_ok_def)
  show ?thesis
    using loop_skips [of "map cookie_pair before" "cookieName cfg"] assms(2,4) loop_finds [OF _ t encoded_id(3) [OF assms(1) e(1)]]
    by (simp add: parse_cookie_header e(2) session_name_ok_def)
qed


section \<open>Sessions over any store\<close>

text \<open>The data a session id names, and well-formed worlds.\<close>

definition peek ::
  "(time \<Rightarrow> 's \<Rightarrow> string \<Rightarrow> nat kv_value option) \<Rightarrow> session_config \<Rightarrow> time \<Rightarrow> string \<Rightarrow> ('s, 'v) session_world \<Rightarrow>
     'v session_data option" where
  "peek view cfg t i w =
     (case view t (kv w) (sprefix cfg @ i) of
        None \<Rightarrow> None
      | Some (Num n) \<Rightarrow> if n = 0 then None else Some []
      | Some (Other a) \<Rightarrow> Some (objects w ! a))"

definition world_ok ::
  "(time \<Rightarrow> 's \<Rightarrow> string \<Rightarrow> nat kv_value option) \<Rightarrow> ('s \<Rightarrow> bool) \<Rightarrow> ('s, 'v) session_world \<Rightarrow> bool" where
  "world_ok view good w = (good (kv w) \<and> (\<forall>t k a. view t (kv w) k = Some (Other a) \<longrightarrow> a < length (objects w)))"

locale session_client = kv_store "get_op ops" "set_op ops" "delete_op ops" view inv
  for ops :: "('s, nat) store_ops" and view and inv
begin

lemma save_inv:
  assumes "world_ok view inv w" and "sdata s < length (objects w)"
  shows "world_ok view inv (sess_save ops cfg now s w)"
proof -
  have i: "inv (kv w)" using assms by (simp add: world_ok_def)
  have "a < length (objects w)" if "view t (set_op ops now (sprefix cfg @ sid s) (Other (sdata s)) (Some (ttlMs cfg)) (kv w)) k = Some (Other a)" for t k a
    using that put_written [OF i, of t now "sprefix cfg @ sid s"] put_other [OF i, of k "sprefix cfg @ sid s" t now] assms
    unfolding world_ok_def by (metis kv_value.inject(2))
  then show ?thesis using assms i put_inv [OF i] remove_inv [OF i] remove_view [OF i]
    by (auto simp: world_ok_def sess_save_def split: if_splits)
qed

lemma save_keeps_objects: "objects (sess_save ops cfg now s w) = objects w"
  by (simp add: sess_save_def)

lemma save_peek:
  assumes "world_ok view inv w" and "sess_all s w \<noteq> []" and "unexpired now (Some (ttlMs cfg)) t"
  shows "peek view cfg t (sid s) (sess_save ops cfg now s w) = Some (sess_all s w)"
  using put_same [of "kv w" now "Some (ttlMs cfg)" t] assms
  by (simp add: peek_def sess_save_def world_ok_def sess_all_def)

text \<open>Saving and removing bring no other id to life.\<close>

lemma save_other:
  assumes "world_ok view inv w" and "k \<noteq> sprefix cfg @ sid s" and "view t (kv (sess_save ops cfg now s w)) k = Some v"
  shows "view t (kv w) k = Some v"
  using put_other [of "kv w" k _ t now] remove_view [of "kv w" t] assms
  by (auto simp: sess_save_def world_ok_def split: if_splits)

lemma remove_peek:
  assumes "world_ok view inv w"
  shows "peek view cfg t j (w\<lparr>kv := snd (delete_op ops (sprefix cfg @ i) (kv w))\<rparr>) = (if j = i then None else peek view cfg t j w)"
  using assms by (auto simp: peek_def remove_view world_ok_def split: option.splits kv_value.splits)

lemma remove_ok:
  assumes "world_ok view inv w"
  shows "world_ok view inv (w\<lparr>kv := snd (delete_op ops k (kv w))\<rparr>)"
  using assms remove_inv [of "kv w" k] remove_view [of "kv w" _ k] by (auto simp: world_ok_def split: if_splits)

lemma regenerate_peek:
  assumes "world_ok view inv w" and "sdata s < length (objects w)" and "newId \<noteq> sid s"
    and "sess_regenerate ops cfg now newId s w = (s1, w1)"
  shows "sid s1 = newId" and "sdata s1 = sdata s" and "objects w1 = objects w"
    and "peek view cfg t (sid s) w1 = None"
    and "sess_all s w \<noteq> [] \<Longrightarrow> unexpired now (Some (ttlMs cfg)) t \<Longrightarrow> peek view cfg t newId w1 = Some (sess_all s w)"
    and "world_ok view inv w1"
proof -
  let ?s = "s\<lparr>sid := newId\<rparr>"
  have ok: "world_ok view inv (sess_save ops cfg now ?s w)" using assms(2) by (intro save_inv [OF assms(1)]) simp
  have e: "s1 = ?s" "w1 = (sess_save ops cfg now ?s w)\<lparr>kv := snd (delete_op ops (sprefix cfg @ sid s) (kv (sess_save ops cfg now ?s w)))\<rparr>"
    using assms(3,4) by (auto simp: sess_regenerate_def Let_def)
  show "sid s1 = newId" "sdata s1 = sdata s" by (simp_all add: e)
  show "objects w1 = objects w" by (simp add: e save_keeps_objects)
  show "peek view cfg t (sid s) w1 = None" unfolding e(2) using remove_peek [OF ok] by simp
  show "world_ok view inv w1" unfolding e(2) by (rule remove_ok [OF ok])
  assume "sess_all s w \<noteq> []" "unexpired now (Some (ttlMs cfg)) t"
  then show "peek view cfg t newId w1 = Some (sess_all s w)"
    unfolding e(2) using remove_peek [OF ok] save_peek [OF assms(1), of ?s now cfg t] assms(3) by (simp add: sess_all_def)
qed

text \<open>Loading.\<close>

lemma load_peek:
  assumes "world_ok view inv w" and "loadSession ops cfg now i w = (r, w1)"
  shows "case peek view cfg now i w of
      None \<Rightarrow> r = None \<and> objects w1 = objects w
    | Some d \<Rightarrow> \<exists>s. r = Some s \<and> sid s = i \<and> sdata s = length (objects w) \<and> objects w1 = objects w @ [d]"
    and "world_ok view inv w1"
    and "view t (kv w1) k = Some v \<Longrightarrow> view t (kv w) k = Some v"
proof -
  have i: "inv (kv w)" using assms(1) by (simp add: world_ok_def)
  obtain g st where g: "get_op ops now (sprefix cfg @ i) (kv w) = (g, st)" by fastforce
  have gv: "g = view now (kv w) (sprefix cfg @ i)" using get_result [OF i, of now "sprefix cfg @ i"] g by simp
  have kv: "kv w1 = st" using assms(2) g
    by (auto simp: loadSession_def makeSession_def Let_def split: option.splits kv_value.splits if_splits)
  show c: "case peek view cfg now i w of
      None \<Rightarrow> r = None \<and> objects w1 = objects w
    | Some d \<Rightarrow> \<exists>s. r = Some s \<and> sid s = i \<and> sdata s = length (objects w) \<and> objects w1 = objects w @ [d]"
    using assms(2) g gv
    by (auto simp: loadSession_def makeSession_def peek_def Let_def split: option.splits kv_value.splits if_splits)
  have keeps: "view t (kv w1) k = Some v \<Longrightarrow> view t (kv w) k = Some v" for t k v
    using get_keeps [OF i, of t now "sprefix cfg @ i"] g kv by simp
  then show "view t (kv w1) k = Some v \<Longrightarrow> view t (kv w) k = Some v" .
  have "length (objects w) \<le> length (objects w1)" using c by (auto split: option.splits)
  moreover have "inv (kv w1)" using get_inv [OF i, of now "sprefix cfg @ i"] g kv by simp
  ultimately show "world_ok view inv w1" using assms(1) keeps unfolding world_ok_def by (meson order_less_le_trans)
qed

end

section \<open>A server with sessions\<close>

text \<open>The calls an application makes, on the session objects it holds, in any order; \<open>newId\<close> is what the
  generator returns if it is called.\<close>

datatype 'v session_op =
    OpCreate string "'v session_data option"
  | OpRequest string "string option"
  | OpLoad string
  | OpSet nat string 'v
  | OpDelete nat string
  | OpSave nat
  | OpRegenerate nat string
  | OpDestroy nat
  | OpDestroyId string

record ('s, 'v) session_state =
  world :: "('s, 'v) session_world"
  handles :: "session list"

definition hold :: "session \<times> ('s, 'v) session_world \<Rightarrow> ('s, 'v) session_state \<Rightarrow> ('s, 'v) session_state" where
  "hold r st = \<lparr>world = snd r, handles = handles st @ [fst r]\<rparr>"

fun session_step :: "('s, nat) store_ops \<Rightarrow> session_config \<Rightarrow> time \<Rightarrow> 'v session_op \<Rightarrow> ('s, 'v) session_state \<Rightarrow> ('s, 'v) session_state" where
  "session_step ops cfg now (OpCreate newId d) st = hold (createSession ops cfg now newId d (world st)) st"
| "session_step ops cfg now (OpRequest newId h) st = hold (fromRequest ops cfg now newId h (world st)) st"
| "session_step ops cfg now (OpLoad i) st =
     (case loadSession ops cfg now i (world st) of
        (Some s, w) \<Rightarrow> hold (s, w) st
      | (None, w) \<Rightarrow> st\<lparr>world := w\<rparr>)"
| "session_step ops cfg now (OpSet h k v) st =
     (if h < length (handles st) then st\<lparr>world := sess_set k v (handles st ! h) (world st)\<rparr> else st)"
| "session_step ops cfg now (OpDelete h k) st =
     (if h < length (handles st) then st\<lparr>world := sess_delete k (handles st ! h) (world st)\<rparr> else st)"
| "session_step ops cfg now (OpSave h) st =
     (if h < length (handles st) then st\<lparr>world := sess_save ops cfg now (handles st ! h) (world st)\<rparr> else st)"
| "session_step ops cfg now (OpRegenerate h newId) st =
     (if h < length (handles st) then
        (case sess_regenerate ops cfg now newId (handles st ! h) (world st) of
           (s, w) \<Rightarrow> \<lparr>world = w, handles = (handles st)[h := s]\<rparr>)
      else st)"
| "session_step ops cfg now (OpDestroy h) st =
     (if h < length (handles st) then st\<lparr>world := sess_destroy ops cfg (handles st ! h) (world st)\<rparr> else st)"
| "session_step ops cfg now (OpDestroyId i) st = st\<lparr>world := destroySession ops cfg i (world st)\<rparr>"

text \<open>The ids an operation may take from the generator.\<close>

fun generated :: "'v session_op \<Rightarrow> string list" where
  "generated (OpCreate i d) = [i]"
| "generated (OpRequest i h) = [i]"
| "generated (OpRegenerate h i) = [i]"
| "generated _ = []"

inductive session_run ::
  "('s, nat) store_ops \<Rightarrow> session_config \<Rightarrow> ('s, 'v) session_state \<Rightarrow> (time \<times> 'v session_op) list \<Rightarrow> ('s, 'v) session_state \<Rightarrow> bool"
  for ops cfg st0 where
  start: "session_run ops cfg st0 [] st0"
| step: "session_run ops cfg st0 xs st \<Longrightarrow> session_run ops cfg st0 (xs @ [(now, x)]) (session_step ops cfg now x st)"

definition ids_issued ::
  "(time \<Rightarrow> 's \<Rightarrow> string \<Rightarrow> nat kv_value option) \<Rightarrow> ('s \<Rightarrow> bool) \<Rightarrow> session_config \<Rightarrow> string set \<Rightarrow> ('s, 'v) session_state \<Rightarrow> bool" where
  "ids_issued view good cfg I st =
     (world_ok view good (world st) \<and>
      (\<forall>s \<in> set (handles st). sid s \<in> I \<and> sdata s < length (objects (world st))) \<and>
      (\<forall>t i. view t (kv (world st)) (sprefix cfg @ i) \<noteq> None \<longrightarrow> i \<in> I))"

context session_client
begin

lemma hold_issued:
  assumes "ids_issued view inv cfg I st" and "world_ok view inv w" and "sid s \<in> J" and "I \<subseteq> J" and "sdata s < length (objects w)"
    and "length (objects (world st)) \<le> length (objects w)"
    and "\<And>t i. view t (kv w) (sprefix cfg @ i) \<noteq> None \<Longrightarrow> i \<in> J"
  shows "ids_issued view inv cfg J (hold (s, w) st)"
  using assms by (fastforce simp: ids_issued_def hold_def)

lemma make_ok:
  assumes "world_ok view inv w" and "makeSession i d w = (s, w1)"
  shows "world_ok view inv w1" and "kv w1 = kv w" and "sid s = i" and "sdata s < length (objects w1)"
    and "length (objects w) \<le> length (objects w1)"
  using assms by (auto simp: makeSession_def world_ok_def less_Suc_eq)

lemma create_issued:
  assumes "world_ok view inv w" and "createSession ops cfg now i d w = (s, w1)"
  shows "world_ok view inv w1" and "sid s = i" and "sdata s < length (objects w1)"
    and "length (objects w) \<le> length (objects w1)"
    and "view t (kv w1) (sprefix cfg @ j) \<noteq> None \<Longrightarrow> j = i \<or> view t (kv w) (sprefix cfg @ j) \<noteq> None"
proof -
  obtain s' w' where m: "makeSession i (case d of None \<Rightarrow> [] | Some d \<Rightarrow> d) w = (s', w')" by fastforce
  note mk = make_ok [OF assms(1) m]
  have e: "s = s'" "w1 = (if d \<noteq> None \<and> d \<noteq> Some [] then sess_save ops cfg now s' w' else w')"
    using assms(2) m by (simp_all add: createSession_def)
  show "world_ok view inv w1" using mk(1) save_inv [OF mk(1,4)] by (simp add: e)
  show "sid s = i" "sdata s < length (objects w1)" "length (objects w) \<le> length (objects w1)"
    using mk by (simp_all add: e save_keeps_objects)
  assume "view t (kv w1) (sprefix cfg @ j) \<noteq> None"
  then show "j = i \<or> view t (kv w) (sprefix cfg @ j) \<noteq> None"
    using save_other [OF mk(1), of "sprefix cfg @ j" cfg s' t now] mk(2,3) by (auto simp: e split: if_splits)
qed

text \<open>A request gets a session under a fresh id and empty, or the stored data of the id.\<close>

lemma request_session:
  assumes "world_ok view inv w" and "fromRequest ops cfg now newId h w = (s, w1)"
  shows "sid s = newId \<and> sess_all s w1 = [] \<or> peek view cfg now (sid s) w = Some (sess_all s w1)"
    and "world_ok view inv w1" and "sdata s < length (objects w1)" and "length (objects w) \<le> length (objects w1)"
    and "view t (kv w1) (sprefix cfg @ j) \<noteq> None \<Longrightarrow> j = newId \<or> view t (kv w) (sprefix cfg @ j) \<noteq> None"
proof -
  have fresh: "createSession ops cfg now newId None w' = (s, w1) \<Longrightarrow> sid s = newId \<and> sess_all s w1 = []" for w'
    by (auto simp: createSession_def makeSession_def sess_all_def)
  let ?C = "(sid s = newId \<and> sess_all s w1 = [] \<or> peek view cfg now (sid s) w = Some (sess_all s w1)) \<and>
      world_ok view inv w1 \<and> sdata s < length (objects w1) \<and> length (objects w) \<le> length (objects w1) \<and>
      (\<forall>t j. view t (kv w1) (sprefix cfg @ j) \<noteq> None \<longrightarrow> j = newId \<or> view t (kv w) (sprefix cfg @ j) \<noteq> None)"
  consider (new) "createSession ops cfg now newId None w = (s, w1)"
    | (miss) i w' where "loadSession ops cfg now i w = (None, w')" "createSession ops cfg now newId None w' = (s, w1)"
    | (found) i where "loadSession ops cfg now i w = (Some s, w1)"
    using assms(2) by (auto simp: fromRequest_def split: option.splits if_splits prod.splits)
  then have ?C
  proof cases
    case new
    then show ?thesis using fresh [OF new] create_issued [OF assms(1) new] by blast
  next
    case miss
    note l = load_peek [OF assms(1) miss(1)]
    have "objects w' = objects w" using l(1) by (auto split: option.splits)
    then show ?thesis using fresh [OF miss(2)] create_issued [OF l(2) miss(2)] l(3) by (metis not_None_eq)
  next
    case found
    note l = load_peek [OF assms(1) found]
    have "sid s = i \<and> sdata s = length (objects w) \<and> (\<exists>d. peek view cfg now i w = Some d \<and> objects w1 = objects w @ [d])"
      using l(1) by (auto split: option.splits)
    then show ?thesis using l(2,3) by (auto simp: sess_all_def)
  qed
  then show "sid s = newId \<and> sess_all s w1 = [] \<or> peek view cfg now (sid s) w = Some (sess_all s w1)"
    "world_ok view inv w1" "sdata s < length (objects w1)" "length (objects w) \<le> length (objects w1)"
    "view t (kv w1) (sprefix cfg @ j) \<noteq> None \<Longrightarrow> j = newId \<or> view t (kv w) (sprefix cfg @ j) \<noteq> None"
    by blast+
qed

lemma step_issued:
  assumes "ids_issued view inv cfg I st"
  shows "ids_issued view inv cfg (I \<union> set (generated x)) (session_step ops cfg now x st)"
proof -
  have w: "world_ok view inv (world st)" and hs: "\<And>h. h < length (handles st) \<Longrightarrow> sid (handles st ! h) \<in> I \<and> sdata (handles st ! h) < length (objects (world st))"
    and ks: "\<And>t i. view t (kv (world st)) (sprefix cfg @ i) \<noteq> None \<Longrightarrow> i \<in> I"
    using assms by (auto simp: ids_issued_def)
  have i: "inv (kv (world st))" using w by (simp add: world_ok_def)
  show ?thesis
  proof (cases x)
    case (OpCreate newId d)
    obtain s w1 where c: "createSession ops cfg now newId d (world st) = (s, w1)" by fastforce
    note r = create_issued [OF w c]
    have "view t (kv w1) (sprefix cfg @ j) \<noteq> None \<Longrightarrow> j \<in> insert newId I" for t j using r(5) ks by blast
    then show ?thesis using hold_issued [OF assms r(1), of s "insert newId I"] r(2-4) OpCreate c by auto
  next
    case (OpRequest newId h)
    obtain s w1 where c: "fromRequest ops cfg now newId h (world st) = (s, w1)" by fastforce
    note r = request_session [OF w c]
    have "sid s = newId \<or> view now (kv (world st)) (sprefix cfg @ sid s) \<noteq> None"
      using r(1) by (auto simp: peek_def split: option.splits)
    then have "sid s \<in> insert newId I" using ks by blast
    moreover have "view t (kv w1) (sprefix cfg @ j) \<noteq> None \<Longrightarrow> j \<in> insert newId I" for t j using r(5) ks by blast
    ultimately show ?thesis using hold_issued [OF assms r(2), of s "insert newId I"] r(3,4) OpRequest c by auto
  next
    case (OpLoad i)
    obtain r w1 where c: "loadSession ops cfg now i (world st) = (r, w1)" by fastforce
    note l = load_peek [OF w c]
    have k: "view t (kv w1) (sprefix cfg @ j) \<noteq> None \<Longrightarrow> j \<in> I" for t j using l(3) ks by blast
    show ?thesis
    proof (cases r)
      case None
      then have "objects w1 = objects (world st)" using l(1) by (auto split: option.splits)
      then show ?thesis using assms l(2) k None OpLoad c unfolding ids_issued_def by simp
    next
      case (Some s)
      then have s: "sid s = i" "sdata s = length (objects (world st))" "length (objects w1) = Suc (length (objects (world st)))"
        "view now (kv (world st)) (sprefix cfg @ i) \<noteq> None"
        using l(1) by (auto simp: peek_def split: option.splits)
      then have "sid s \<in> I" using ks by blast
      then show ?thesis using hold_issued [OF assms l(2), of s I] k s Some OpLoad c by simp
    qed
  next
    case (OpSet h k v)
    then show ?thesis using assms by (auto simp: ids_issued_def world_ok_def sess_set_def)
  next
    case (OpDelete h k)
    then show ?thesis using assms by (auto simp: ids_issued_def world_ok_def sess_delete_def)
  next
    case (OpSave h)
    show ?thesis
    proof (cases "h < length (handles st)")
      case True
      have "j \<in> I" if "view t (kv (sess_save ops cfg now (handles st ! h) (world st))) (sprefix cfg @ j) \<noteq> None" for t j
        using that save_other [OF w, of "sprefix cfg @ j" cfg "handles st ! h" t now] ks hs [OF True] by (cases "j = sid (handles st ! h)") auto
      then show ?thesis using assms True OpSave save_inv [OF w, of "handles st ! h"] hs [OF True]
        by (auto simp: ids_issued_def save_keeps_objects)
    qed (use OpSave assms in simp)
  next
    case (OpRegenerate h newId)
    show ?thesis
    proof (cases "h < length (handles st) \<and> newId \<noteq> sid (handles st ! h)")
      case True
      let ?s = "handles st ! h"
      obtain s1 w1 where c: "sess_regenerate ops cfg now newId ?s (world st) = (s1, w1)" by fastforce
      note r = regenerate_peek [OF w _ _ c]
      have r6: "world_ok view inv w1" "sid s1 = newId" "sdata s1 = sdata ?s" "objects w1 = objects (world st)"
        using r hs True by simp_all
      have "j \<in> insert newId I" if v: "view t (kv w1) (sprefix cfg @ j) \<noteq> None" for t j
      proof -
        have ok: "world_ok view inv (sess_save ops cfg now (?s\<lparr>sid := newId\<rparr>) (world st))"
          using hs True by (intro save_inv [OF w]) simp
        have "view t (kv (sess_save ops cfg now (?s\<lparr>sid := newId\<rparr>) (world st))) (sprefix cfg @ j) \<noteq> None"
          using v c True ok remove_view [of "kv (sess_save ops cfg now (?s\<lparr>sid := newId\<rparr>) (world st))" t]
          by (auto simp: sess_regenerate_def Let_def world_ok_def split: if_splits)
        then show ?thesis
          using save_other [OF w, of "sprefix cfg @ j" cfg "?s\<lparr>sid := newId\<rparr>" t now] ks by (cases "j = newId") auto
      qed
      then show ?thesis using assms True OpRegenerate c r6 hs
        by (auto simp: ids_issued_def in_set_conv_nth nth_list_update split: if_splits)
    qed (use OpRegenerate assms in \<open>auto simp: sess_regenerate_def ids_issued_def\<close>)
  next
    case (OpDestroy h)
    then show ?thesis
      using assms remove_inv [OF i] remove_view [OF i] by (auto simp: ids_issued_def world_ok_def sess_destroy_def split: if_splits)
  next
    case (OpDestroyId j)
    then show ?thesis
      using assms remove_inv [OF i] remove_view [OF i] by (auto simp: ids_issued_def world_ok_def destroySession_def split: if_splits)
  qed
qed

lemma run_issued:
  assumes "session_run ops cfg st0 xs st" and "ids_issued view inv cfg I st0"
  shows "ids_issued view inv cfg (I \<union> set (concat (map (generated \<circ> snd) xs))) st"
  using assms
proof (induction rule: session_run.induct)
  case (step xs st now x)
  then show ?case using step_issued [of cfg "I \<union> set (concat (map (generated \<circ> snd) xs))" st x now] by (simp add: Un_assoc)
qed simp

end

interpretation memory_sessions: session_client memory_ops kv_view kv_inv
  by (simp add: session_client_def memory_ops_def memory_kv.kv_store_axioms)

section \<open>Properties\<close>

text \<open>The initial state: a fresh memory store and no session object.\<close>

definition session_start :: "int option \<Rightarrow> (nat kvstore, 'v) session_state" where
  "session_start mx = \<lparr>world = \<lparr>kv = newStore mx, objects = []\<rparr>, handles = []\<rparr>"

lemma start_issued: "ids_issued kv_view kv_inv cfg {} (session_start mx)"
  by (auto simp: session_start_def ids_issued_def world_ok_def newStore_def kv_inv_def kv_view_def)

text \<open>
  C26. Only the server issues session ids: after any sequence of calls on a session manager over
  a fresh memory store, with whatever \<open>Cookie\<close> headers and ids clients sent and however the
  clock moved, every session object the application holds and every id under which a session is
  stored came out of \<open>generateId\<close>.
\<close>

theorem session_ids_issued:
  assumes "session_run memory_ops cfg (session_start mx) xs st"
  shows "(\<forall>s \<in> set (handles st). sid s \<in> set (concat (map (generated \<circ> snd) xs))) \<and>
    (\<forall>t i. kv_view t (kv (world st)) (sprefix cfg @ i) \<noteq> None \<longrightarrow> i \<in> set (concat (map (generated \<circ> snd) xs)))"
  using memory_sessions.run_issued [OF assms start_issued] by (simp add: ids_issued_def)

definition demo_manager :: session_config where
  "demo_manager = createSessionManager None None None"

definition demo_ops :: "(time \<times> string session_op) list" where
  "demo_ops = [(0, OpRequest ''a1'' (Some ''sid=planted'')), (1, OpSet 0 ''user'' ''ann''), (2, OpSave 0), (3, OpRegenerate 0 ''b2''),
    (4, OpRequest ''c3'' (Some ''x=1; sid=b2''))]"

definition demo_asked :: "(nat kvstore, string) session_state" where
  "demo_asked = session_step memory_ops demo_manager 0 (OpRequest ''a1'' (Some ''sid=planted'')) (session_start None)"

definition demo_filled :: "(nat kvstore, string) session_state" where
  "demo_filled = session_step memory_ops demo_manager 1 (OpSet 0 ''user'' ''ann'') demo_asked"

definition demo_saved :: "(nat kvstore, string) session_state" where
  "demo_saved = session_step memory_ops demo_manager 2 (OpSave 0) demo_filled"

definition demo_rotated :: "(nat kvstore, string) session_state" where
  "demo_rotated = session_step memory_ops demo_manager 3 (OpRegenerate 0 ''b2'') demo_saved"

definition demo_sessions :: "(nat kvstore, string) session_state" where
  "demo_sessions = session_step memory_ops demo_manager 4 (OpRequest ''c3'' (Some ''x=1; sid=b2'')) demo_rotated"

lemma demo_session_run: "session_run memory_ops demo_manager (session_start None) demo_ops demo_sessions"
  unfolding demo_sessions_def demo_rotated_def demo_saved_def demo_filled_def demo_asked_def demo_ops_def
  using session_run.step [OF session_run.step [OF session_run.step [OF session_run.step [OF session_run.step [OF session_run.start
    [of memory_ops demo_manager "session_start None"], of 0 "OpRequest ''a1'' (Some ''sid=planted'')"], of 1 "OpSet 0 ''user'' ''ann''"],
    of 2 "OpSave 0"], of 3 "OpRegenerate 0 ''b2''"], of 4 "OpRequest ''c3'' (Some ''x=1; sid=b2'')"] by simp

lemma demo_session_handles: "map sid (handles demo_sessions) = [''b2'', ''b2'']"
  by code_simp

theorem session_ids_issued_witness: "map sid (handles demo_sessions) = [''b2'', ''b2''] \<and> ''b2'' \<in> set (concat (map (generated \<circ> snd) demo_ops))"
proof -
  have "set (map sid (handles demo_sessions)) = {''b2''}" by (simp only: demo_session_handles) simp
  then have "''b2'' \<in> sid ` set (handles demo_sessions)" by simp
  then obtain s where s: "s \<in> set (handles demo_sessions)" "''b2'' = sid s" by (rule imageE)
  show ?thesis using session_ids_issued [OF demo_session_run, THEN conjunct1, rule_format, OF s(1)]
    unfolding s(2) [symmetric] demo_session_handles by simp
qed

text \<open>
  A saved session comes back: when a session with data is saved and its cookie, as \<open>cookie\<close>
  formats it, returns within the lifetime among other cookies, \<open>fromRequest\<close> yields a session with the
  same id and the same data, on an object of its own. The id may hold any Latin-1 text, except a
  \<open>%\<close> in an id that is sent unescaped.
\<close>

theorem session_survives:
  assumes "world_ok kv_view kv_inv w" and "sdata s < length (objects w)" and "sess_all s w \<noteq> []"
    and "unexpired now (Some (ttlMs cfg)) t"
    and "id_ok (sid s)" and "session_name_ok (cookieName cfg)" and "sessionCookie cfg (sid s) opts = Inr c"
    and "\<forall>b \<in> set before. piece_name (cookie_pair b) \<noteq> cookieName cfg"
    and "fromRequest memory_ops cfg t newId (Some (cookie_header (before @ c # after))) (sess_save memory_ops cfg now s w) = (s', w')"
  shows "sid s' = sid s \<and> sess_all s' w' = sess_all s w \<and> sdata s' \<noteq> sdata s"
proof -
  let ?w = "sess_save memory_ops cfg now s w"
  have ok: "world_ok kv_view kv_inv ?w" by (rule memory_sessions.save_inv [OF assms(1,2)])
  have p: "peek kv_view cfg t (sid s) ?w = Some (sess_all s w)"
    by (rule memory_sessions.save_peek [OF assms(1,3,4)])
  obtain r w1 where l: "loadSession memory_ops cfg t (sid s) ?w = (r, w1)" by fastforce
  obtain s1 where s1: "r = Some s1" "sid s1 = sid s" "sdata s1 = length (objects w)" "objects w1 = objects w @ [sess_all s w]"
    using memory_sessions.load_peek(1) [OF ok l] p by (auto simp: memory_sessions.save_keeps_objects)
  have "s' = s1 \<and> w' = w1"
    using assms(5,9) l s1(1) cookie_found [OF assms(5-8), of after] by (simp add: fromRequest_def uni_def id_ok_def latin1_uni [unfolded uni_def])
  then show ?thesis using s1 assms(2) by (simp add: sess_all_def)
qed

text \<open>
  C25. Rotation ends the old id: after \<open>regenerate\<close> no request gets a session under the old id, whatever its
  headers and the time; one that presents the old id gets a fresh empty session. The data is found under the new
  id, for the lifetime, and in the same session object.
\<close>

theorem rotation_ends_old_id:
  assumes "world_ok kv_view kv_inv w" and "sdata s < length (objects w)" and "newId \<noteq> sid s"
    and "sess_regenerate memory_ops cfg now newId s w = (s1, w1)"
    and "fromRequest memory_ops cfg t newId2 header w1 = (s2, w2)" and "newId2 \<noteq> sid s"
  shows "sid s2 \<noteq> sid s \<and>
    (parseCookie (case header of None \<Rightarrow> [] | Some h \<Rightarrow> h) (cookieName cfg) = Some (uni (sid s)) \<longrightarrow>
       sid s2 = newId2 \<and> sess_all s2 w2 = []) \<and>
    sid s1 = newId \<and> sess_all s1 w1 = sess_all s w \<and>
    (sess_all s w \<noteq> [] \<and> unexpired now (Some (ttlMs cfg)) t \<longrightarrow> peek kv_view cfg t newId w1 = Some (sess_all s w))"
proof -
  note r = memory_sessions.regenerate_peek [OF assms(1-4)]
  note q = memory_sessions.request_session [OF r(6) assms(5)]
  have ne: "sid s2 \<noteq> sid s" using q(1) r(4) [of t] assms(6) by auto
  have "sid s2 = newId2 \<and> sess_all s2 w2 = []"
    if "parseCookie (case header of None \<Rightarrow> [] | Some h \<Rightarrow> h) (cookieName cfg) = Some (uni (sid s))"
  proof -
    obtain x w' where l: "loadSession memory_ops cfg t (sid s) w1 = (x, w')" by fastforce
    have "x = None" using memory_sessions.load_peek(1) [OF r(6) l] r(4) [of t] by simp
    then show ?thesis using assms(5) that l
      by (auto simp: fromRequest_def createSession_def makeSession_def sess_all_def split: if_splits)
  qed
  then show ?thesis using ne r(1,2,3,5) by (simp add: sess_all_def)
qed

text \<open>The states of the example, for the witnesses.\<close>

definition demo_handle :: session where
  "demo_handle = \<lparr>sid = ''a1'', sdata = 0\<rparr>"

lemma demo_world_ok: "world_ok kv_view kv_inv (world demo_filled)"
proof -
  have "session_run memory_ops demo_manager (session_start None)
      [(0, OpRequest ''a1'' (Some ''sid=planted'')), (1, OpSet 0 ''user'' ''ann'')] demo_filled"
    unfolding demo_filled_def demo_asked_def
    using session_run.step [OF session_run.step [OF session_run.start
      [of memory_ops demo_manager "session_start None"], of 0 "OpRequest ''a1'' (Some ''sid=planted'')"], of 1 "OpSet 0 ''user'' ''ann''"] by simp
  from memory_sessions.run_issued [OF this start_issued] show ?thesis by (simp add: ids_issued_def)
qed

lemma demo_data: "sess_all demo_handle (world demo_filled) = [(''user'', ''ann'')] \<and> length (objects (world demo_filled)) = 1"
  by code_simp

lemma demo_cookie: "sessionCookie demo_manager ''a1'' \<lparr>so_httpOnly = None, so_secure = None, so_sameSite = None, so_path = None, so_maxAge = Some 60\<rparr> =
    Inr ''sid=a1; Path=/; Max-Age=60; SameSite=Lax; HttpOnly; Secure''"
  by code_simp

lemma demo_id: "id_ok ''a1'' \<and> session_name_ok (cookieName demo_manager) \<and> piece_name (cookie_pair ''theme=dark; Path=/'') \<noteq> cookieName demo_manager"
  by code_simp

theorem session_survives_witness:
  "sess_all (fst (fromRequest memory_ops demo_manager 9 ''z9''
      (Some (cookie_header ([''theme=dark; Path=/''] @ ''sid=a1; Path=/; Max-Age=60; SameSite=Lax; HttpOnly; Secure'' # [])))
      (sess_save memory_ops demo_manager 2 demo_handle (world demo_filled))))
    (snd (fromRequest memory_ops demo_manager 9 ''z9''
      (Some (cookie_header ([''theme=dark; Path=/''] @ ''sid=a1; Path=/; Max-Age=60; SameSite=Lax; HttpOnly; Secure'' # [])))
      (sess_save memory_ops demo_manager 2 demo_handle (world demo_filled)))) = [(''user'', ''ann'')]"
proof -
  have i: "sid demo_handle = ''a1''" "sdata demo_handle = 0" by (simp_all add: demo_handle_def)
  have t: "unexpired 2 (Some (ttlMs demo_manager)) 9" by code_simp
  have len: "sdata demo_handle < length (objects (world demo_filled))" using demo_data i by simp
  have ne: "sess_all demo_handle (world demo_filled) \<noteq> []" using demo_data by simp
  note f = session_survives [OF demo_world_ok len ne t, unfolded i, OF conjunct1 [OF demo_id] conjunct1 [OF conjunct2 [OF demo_id]] demo_cookie]
  have b: "\<forall>b \<in> set [''theme=dark; Path=/'']. piece_name (cookie_pair b) \<noteq> cookieName demo_manager"
    using conjunct2 [OF conjunct2 [OF demo_id]] by (simp only: list.set) blast
  show ?thesis using f [OF b prod.collapse [symmetric]] demo_data by metis
qed

theorem rotation_ends_old_id_witness:
  "sid (fst (fromRequest memory_ops demo_manager 9 ''z9'' (Some ''sid=a1'')
     (snd (sess_regenerate memory_ops demo_manager 3 ''b2'' demo_handle (world demo_filled))))) \<noteq> ''a1''"
proof -
  have i: "sid demo_handle = ''a1''" "sdata demo_handle = 0" by (simp_all add: demo_handle_def)
  have len: "sdata demo_handle < length (objects (world demo_filled))" using demo_data i by simp
  have ne: "''b2'' \<noteq> sid demo_handle" "''z9'' \<noteq> sid demo_handle" by (simp_all add: i)
  show ?thesis using rotation_ends_old_id [OF demo_world_ok len ne(1) prod.collapse [symmetric] prod.collapse [symmetric] ne(2)] i(1)
    by metis
qed

text \<open>An id with a percent sign that is sent as it is does not come back: the escape is decoded.\<close>

lemma percent_id_lost: "encodeCookieValue ''a%41'' = Inr ''a%41'' \<and> parseCookie ''sid=a%41'' ''sid'' = Some (uni ''aA'')"
  by code_simp

text \<open>Changes after \<open>save\<close> reach the store without another \<open>save\<close>.\<close>

lemma unsaved_change_visible:
  "peek kv_view demo_manager 5 ''a1'' (sess_set ''role'' ''admin'' demo_handle (world demo_saved)) = Some [(''user'', ''ann''), (''role'', ''admin'')]"
  by code_simp

end
