(* ===== verification/Base64.thy ===== *)
theory Base64
  imports Js_String
begin

text \<open>
  \<open>btoa\<close> and \<open>atob\<close> of the platform on octets, as the HTML standard defines them, and the
  two routines of \<open>packages/cache/src/response-cache.ts\<close> over them.
\<close>

definition b64_char :: "nat \<Rightarrow> char" where
  "b64_char n =
     (if n < 26 then char_of (65 + n) else if n < 52 then char_of (71 + n) else if n < 62 then char_of (n - 4)
      else if n = 62 then CHR ''+'' else CHR ''/'')"

definition b64_val :: "char \<Rightarrow> nat option" where
  "b64_val c = (let n = (of_char c :: nat) in
     if 65 \<le> n \<and> n \<le> 90 then Some (n - 65)
     else if 97 \<le> n \<and> n \<le> 122 then Some (n - 71)
     else if 48 \<le> n \<and> n \<le> 57 then Some (n + 4)
     else if n = 43 then Some 62 else if n = 47 then Some 63 else None)"

fun b64_groups :: "nat list \<Rightarrow> string" where
  "b64_groups [] = []"
| "b64_groups [a] = [b64_char (a div 4), b64_char (a mod 4 * 16)]"
| "b64_groups [a, b] = [b64_char (a div 4), b64_char (a mod 4 * 16 + b div 16), b64_char (b mod 16 * 4)]"
| "b64_groups (a # b # c # bs) =
     b64_char (a div 4) # b64_char (a mod 4 * 16 + b div 16) # b64_char (b mod 16 * 4 + c div 64) # b64_char (c mod 64) # b64_groups bs"

definition btoa :: "nat list \<Rightarrow> string" where
  "btoa bs = b64_groups bs @ replicate (if length bs mod 3 = 0 then 0 else 3 - length bs mod 3) CHR ''=''"

fun sextets :: "nat list \<Rightarrow> nat list" where
  "sextets [] = []"
| "sextets [a] = []"
| "sextets [a, b] = [a * 4 + b div 16]"
| "sextets [a, b, c] = [a * 4 + b div 16, b mod 16 * 16 + c div 4]"
| "sextets (a # b # c # d # ss) = (a * 4 + b div 16) # (b mod 16 * 16 + c div 4) # (c mod 4 * 64 + d) # sextets ss"

definition drop_padding :: "string \<Rightarrow> string" where
  "drop_padding s =
     (let t = (if s \<noteq> [] \<and> last s = CHR ''='' then butlast s else s)
      in if length t < length s \<and> t \<noteq> [] \<and> last t = CHR ''='' then butlast t else t)"

text \<open>\<open>None\<close> is the \<open>InvalidCharacterError\<close>.\<close>

definition atob :: "string \<Rightarrow> nat list option" where
  "atob s =
     (let t = filter (\<lambda>c. c \<notin> set [CHR 0x09, CHR 0x0A, CHR 0x0C, CHR 0x0D, CHR 0x20]) s;
          u = (if length t mod 4 = 0 then drop_padding t else t)
      in if length u mod 4 = 1 \<or> list_ex (\<lambda>c. b64_val c = None) u then None
         else Some (sextets (map (the \<circ> b64_val) u)))"

section \<open>The cache's routines\<close>

function binary_of :: "nat list \<Rightarrow> nat list" where
  "binary_of bytes = (if bytes = [] then [] else take 0x8000 bytes @ binary_of (drop 0x8000 bytes))"
  by pat_completeness auto
termination by (relation "measure length") auto

declare binary_of.simps [simp del]

definition bytesToBase64 :: "nat list \<Rightarrow> string" where
  "bytesToBase64 bytes = btoa (binary_of bytes)"

definition base64ToBytes :: "string \<Rightarrow> nat list option" where
  "base64ToBytes encoded = atob encoded"

section \<open>Round trip\<close>

lemma binary_of_id [code]: "binary_of bytes = bytes"
proof (induction bytes rule: binary_of.induct)
  case (1 bytes)
  show ?case
  proof (cases "bytes = []")
    case True
    then show ?thesis by (subst binary_of.simps) simp
  next
    case False
    then show ?thesis using 1 by (subst binary_of.simps) simp
  qed
qed

lemma b64_val_char: "n < 64 \<Longrightarrow> b64_val (b64_char n) = Some n"
  by (auto simp: b64_char_def b64_val_def Let_def)

lemma b64_char_plain: "b64_val c \<noteq> None \<Longrightarrow> c \<notin> set [CHR 0x09, CHR 0x0A, CHR 0x0C, CHR 0x0D, CHR 0x20] \<and> c \<noteq> CHR ''=''"
  by (auto simp: b64_val_def Let_def)

lemma second_sextet:
  fixes a b :: nat
  assumes "b < 256"
  shows "a mod 4 * 16 + b div 16 < 64" and "(a mod 4 * 16 + b div 16) div 16 = a mod 4"
    and "(a mod 4 * 16 + b div 16) mod 16 = b div 16"
proof -
  have b: "b div 16 < 16" using assms by simp
  then show "a mod 4 * 16 + b div 16 < 64" by linarith
  show "(a mod 4 * 16 + b div 16) div 16 = a mod 4" "(a mod 4 * 16 + b div 16) mod 16 = b div 16"
    using b by simp_all
qed

lemma third_sextet:
  fixes b c :: nat
  assumes "c < 256"
  shows "b mod 16 * 4 + c div 64 < 64" and "(b mod 16 * 4 + c div 64) div 4 = b mod 16"
    and "(b mod 16 * 4 + c div 64) mod 4 = c div 64"
proof -
  have c: "c div 64 < 4" using assms by simp
  then show "b mod 16 * 4 + c div 64 < 64" by linarith
  show "(b mod 16 * 4 + c div 64) div 4 = b mod 16" "(b mod 16 * 4 + c div 64) mod 4 = c div 64"
    using c by simp_all
qed

lemma group_chars: "\<forall>b \<in> set bs. b < 256 \<Longrightarrow> c \<in> set (b64_groups bs) \<Longrightarrow> b64_val c \<noteq> None"
proof (induction bs rule: b64_groups.induct)
  case (4 a b c' bs)
  then show ?case using second_sextet(1) [of b a] third_sextet(1) [of c' b] by (auto simp: b64_val_char)
qed (auto simp: b64_val_char)

lemma sextets_groups: "\<forall>b \<in> set bs. b < 256 \<Longrightarrow> sextets (map (the \<circ> b64_val) (b64_groups bs)) = bs"
proof (induction bs rule: b64_groups.induct)
  case (2 a)
  then show ?case by (simp add: b64_val_char)
next
  case (3 a b)
  then have "a div 4 < 64" "b < 256" by (simp_all add: less_mult_imp_div_less)
  then show ?case using second_sextet [of b a] third_sextet [of 0 b] by (simp add: b64_val_char)
next
  case (4 a b c bs)
  then have "a div 4 < 64" "c mod 64 < 64" "b < 256" "c < 256" by (simp_all add: less_mult_imp_div_less)
  moreover from this have "b div 16 mod 16 = b div 16" "c div 64 mod 4 = c div 64" by (simp_all add: less_mult_imp_div_less)
  ultimately show ?case using 4 second_sextet [of b a] third_sextet [of c b] by (simp add: b64_val_char)
qed simp

lemma groups_length: "length (b64_groups bs) = length bs div 3 * 4 + (if length bs mod 3 = 0 then 0 else Suc (length bs mod 3))"
proof (induction bs rule: b64_groups.induct)
  case (4 a b c bs)
  have "length (a # b # c # bs) div 3 = Suc (length bs div 3)" "length (a # b # c # bs) mod 3 = length bs mod 3"
    unfolding list.size by presburger+
  then show ?case using 4 by simp
qed simp_all

lemma drop_padding_id: "CHR ''='' \<notin> set s \<Longrightarrow> drop_padding s = s"
proof -
  assume n: "CHR ''='' \<notin> set s"
  then have "s = [] \<or> last s \<noteq> CHR ''=''" using last_in_set [of s] by metis
  then show ?thesis by (auto simp: drop_padding_def Let_def)
qed

lemma drop_padding_1: "CHR ''='' \<notin> set s \<Longrightarrow> drop_padding (s @ [CHR ''='']) = s"
proof -
  assume n: "CHR ''='' \<notin> set s"
  then have "s = [] \<or> last s \<noteq> CHR ''=''" using last_in_set [of s] by metis
  then show ?thesis by (auto simp: drop_padding_def Let_def)
qed

lemma drop_padding_2: "CHR ''='' \<notin> set s \<Longrightarrow> drop_padding (s @ [CHR ''='', CHR ''='']) = s"
  by (simp add: drop_padding_def Let_def butlast_append)

lemma atob_btoa:
  assumes "\<forall>b \<in> set bs. b < 256"
  shows "atob (btoa bs) = Some bs"
proof -
  let ?ws = "\<lambda>c. c \<notin> set [CHR 0x09, CHR 0x0A, CHR 0x0C, CHR 0x0D, CHR 0x20]"
  let ?g = "b64_groups bs"
  note gc = group_chars [OF assms]
  have eq: "CHR ''='' \<notin> set ?g" using gc b64_char_plain by blast
  have pad: "filter ?ws (replicate n CHR ''='') = replicate n CHR ''=''" for n by (induction n) auto
  have f: "filter ?ws ?g = ?g" using gc b64_char_plain by (intro filter_True) blast
  have t: "filter ?ws (btoa bs) = btoa bs" unfolding btoa_def filter_append f pad ..
  define k r where kr: "k = length bs div 3" "r = length bs mod 3"
  have r: "r = 0 \<or> r = 1 \<or> r = 2" unfolding kr by linarith
  have len: "length ?g = k * 4 + (if r = 0 then 0 else Suc r)" unfolding kr by (rule groups_length)
  have b: "btoa bs = ?g @ replicate (if r = 0 then 0 else 3 - r) CHR ''=''" unfolding kr btoa_def ..
  have "length (btoa bs) = 4 * (k + (if r = 0 then 0 else 1))" using r len b by auto
  then have "length (btoa bs) mod 4 = 0" by simp
  moreover have "drop_padding (btoa bs) = ?g"
    using r drop_padding_id [OF eq] drop_padding_1 [OF eq] drop_padding_2 [OF eq] b by (auto simp: eval_nat_numeral)
  moreover have "length ?g mod 4 \<noteq> 1" using r len by auto
  moreover have "\<not> list_ex (\<lambda>c. b64_val c = None) ?g" using gc by (auto simp: list_ex_iff)
  ultimately show ?thesis unfolding atob_def Let_def t using sextets_groups [OF assms] by simp
qed

lemma base64_roundtrip: "\<forall>b \<in> set bs. b < 256 \<Longrightarrow> base64ToBytes (bytesToBase64 bs) = Some bs"
  by (simp add: base64ToBytes_def bytesToBase64_def binary_of_id atob_btoa)

end
