(* ===== verification/Response_Cache.thy ===== *)
theory Response_Cache
  imports Base64 Uri_Codec Reply Kv_Store "HOL-Library.List_Lexorder" "HOL-Library.Word"
begin

text \<open>
  The shared response cache, \<open>packages/cache/src/response-cache.ts\<close>, over the operations of a
  key-value store.

  \<^item> A request carries its parsed URL, whose query entries are scalar value strings; header names are lower case.
    \<open>Date.parse\<close> and the hash of \<open>crypto.subtle\<close> are the parameters \<open>parse_date\<close> and \<open>sha\<close>, in hexadecimal.
  \<^item> \<open>cached\<close> is cut at its \<open>await\<close>s: a call is a \<open>job\<close> with a program counter, and \<open>cache_step\<close> runs one job
    up to its next suspension, which is atomic in JavaScript. An in-flight execution is named by the index
    of the job that started it. The origin handler's outcome comes with the step.
  \<^item> Responses are built with statuses \<open>Response\<close> accepts.
\<close>

section \<open>Requests, responses, entries\<close>

type_synonym octets = "8 word list"

record cache_url =
  cuProtocol :: string
  cuHost :: string
  cuPathname :: string
  cuParams :: "(ustring \<times> ustring) list"

record cache_request =
  cqMethod :: string
  cqUrl :: cache_url
  cqHeaders :: "(string, string) omap"

datatype cache_body = NullBody | Bytes octets | Chars string

record cache_response =
  crStatus :: int
  crHeaders :: header_map
  crBody :: cache_body

record cache_entry =
  enStatus :: int
  enHeaders :: "(string, string) omap"
  enBody :: string
  enBase64 :: bool
  enCachedAt :: time
  enKeyBase :: "string option"

datatype cache_error = NotAnEntry | BadBase64 | NullBodyStatus | OriginFailed

definition response_octets :: "cache_response \<Rightarrow> octets" where
  "response_octets r =
     (case crBody r of
        NullBody \<Rightarrow> []
      | Bytes b \<Rightarrow> b
      | Chars t \<Rightarrow> map of_nat (concat (map (\<lambda>c. utf8_of_cp (of_char c)) t)))"

text \<open>\<open>new Response(body, init)\<close> refuses a body with a null body status.\<close>

definition new_response :: "cache_body \<Rightarrow> int \<Rightarrow> header_map \<Rightarrow> cache_error + cache_response" where
  "new_response b st hs =
     (if b \<noteq> NullBody \<and> st \<in> {101, 103, 204, 205, 304} then Inl NullBodyStatus
      else Inr \<lparr>crStatus = st, crHeaders = hs, crBody = b\<rparr>)"

section \<open>Directives\<close>

definition hasDirective :: "string option \<Rightarrow> string list \<Rightarrow> bool" where
  "hasDirective v directives =
     (case v of
        None \<Rightarrow> False
      | Some s \<Rightarrow> s \<noteq> [] \<and>
          list_ex (\<lambda>part. let d = trim (hd (split_on CHR ''='' (to_lower (trim part)))) in d \<noteq> [] \<and> d \<in> set directives)
            (split_on CHR '','' s))"

text \<open>\<open>None\<close> is \<open>null\<close>, \<open>Some None\<close> is \<open>NaN\<close>.\<close>

definition unquote :: "string \<Rightarrow> string" where
  "unquote s =
     (let t = (if s \<noteq> [] \<and> hd s = CHR 0x22 then tl s else s)
      in if t \<noteq> [] \<and> last t = CHR 0x22 then butlast t else t)"

definition seconds_value :: "string \<Rightarrow> int option" where
  "seconds_value raw = (if raw \<noteq> [] \<and> list_all is_digit raw then Some (int (dec_val raw)) else None)"

fun directive_loop :: "string \<Rightarrow> string list \<Rightarrow> int option option" where
  "directive_loop name [] = None"
| "directive_loop name (part # ps) =
     (let kv = split_on CHR ''='' part in
      if to_lower (trim (hd kv)) \<noteq> name then directive_loop name ps
      else Some (seconds_value (unquote (trim (join ''='' (tl kv))))))"

definition directiveSeconds :: "string option \<Rightarrow> string \<Rightarrow> int option option" where
  "directiveSeconds v name =
     (case v of None \<Rightarrow> None | Some s \<Rightarrow> if s = [] then None else directive_loop name (split_on CHR '','' s))"

definition hasZeroMaxAge :: "string option \<Rightarrow> bool" where
  "hasZeroMaxAge v = (directiveSeconds v ''max-age'' = Some (Some 0) \<or> directiveSeconds v ''s-maxage'' = Some (Some 0))"

definition isExplicitlyPublic :: "string option \<Rightarrow> bool" where
  "isExplicitlyPublic cc =
     (if hasDirective cc [''public''] then True
      else (case directiveSeconds cc ''s-maxage'' of Some (Some n) \<Rightarrow> 0 < n | _ \<Rightarrow> False))"

definition hasPragmaNoCache :: "string option \<Rightarrow> bool" where
  "hasPragmaNoCache v = (case v of None \<Rightarrow> False | Some s \<Rightarrow> list_ex (\<lambda>t. trim t = ''no-cache'') (split_on CHR '','' (to_lower s)))"

text \<open>A lifetime, already stale (\<open>null\<close>), or nothing said (\<open>undefined\<close>).\<close>

datatype freshness = Lifetime int | AlreadyStale | Unstated

definition declaredFreshnessMs :: "(string \<Rightarrow> time option) \<Rightarrow> time \<Rightarrow> string option \<Rightarrow> string option \<Rightarrow> freshness" where
  "declaredFreshnessMs parse_date now cc expires =
     (case (case directiveSeconds cc ''s-maxage'' of Some n \<Rightarrow> Some n | None \<Rightarrow> directiveSeconds cc ''max-age'') of
        Some None \<Rightarrow> AlreadyStale
      | Some (Some n) \<Rightarrow> if n \<le> 0 then AlreadyStale else Lifetime (n * 1000)
      | None \<Rightarrow>
          (case expires of
             None \<Rightarrow> Unstated
           | Some e \<Rightarrow>
               (case parse_date e of
                  None \<Rightarrow> AlreadyStale
                | Some expires \<Rightarrow> if 0 < expires - now then Lifetime (expires - now) else AlreadyStale)))"

definition hasWildcardVary :: "string option \<Rightarrow> bool" where
  "hasWildcardVary v = (case v of None \<Rightarrow> False | Some s \<Rightarrow> list_ex (\<lambda>h. trim h = ''*'') (split_on CHR '','' s))"

definition parseVary :: "string option \<Rightarrow> string list" where
  "parseVary v =
     (case v of None \<Rightarrow> [] | Some s \<Rightarrow> if s = [] then [] else filter (\<lambda>h. h \<noteq> []) (map (\<lambda>h. to_lower (trim h)) (split_on CHR '','' s)))"

fun vary_push :: "string list \<Rightarrow> string list \<Rightarrow> string list \<Rightarrow> string list" where
  "vary_push [] names seen = names"
| "vary_push (h # hs) names seen =
     (if to_lower h \<in> set seen then vary_push hs names seen else vary_push hs (names @ [h]) (to_lower h # seen))"

definition existing_vary :: "string option \<Rightarrow> string list" where
  "existing_vary existing =
     (case existing of None \<Rightarrow> [] | Some s \<Rightarrow> if s = [] then [] else filter (\<lambda>h. h \<noteq> []) (map trim (split_on CHR '','' s)))"

definition mergeVary :: "string option \<Rightarrow> string list \<Rightarrow> string option" where
  "mergeVary existing configured =
     (let names = vary_push configured (existing_vary existing) (map to_lower (existing_vary existing))
      in if names \<noteq> [] then Some (join '', '' names) else None)"

section \<open>Header lists\<close>

definition HOST_REWRITE_HEADERS :: "string list" where
  "HOST_REWRITE_HEADERS =
     [''host'', ''forwarded'', ''x-forwarded-host'', ''x-forwarded-proto'', ''x-forwarded-scheme'', ''x-forwarded-port'',
      ''x-forwarded-server'', ''x-forwarded-prefix'', ''x-forwarded-uri'', ''x-forwarded-ssl'', ''x-host'', ''x-http-host-override'',
      ''x-original-host'', ''x-original-url'', ''x-original-uri'', ''x-rewrite-url'']"

definition NON_CACHEABLE_HEADERS :: "string list" where
  "NON_CACHEABLE_HEADERS =
     [''set-cookie'', ''set-cookie2'', ''authorization'', ''proxy-authorization'', ''www-authenticate'', ''proxy-authenticate'', ''x-cache'']"

definition PUBLIC_REQUEST_HEADERS :: "string list" where
  "PUBLIC_REQUEST_HEADERS =
     [''accept'', ''accept-charset'', ''accept-datetime'', ''accept-encoding'', ''accept-language'', ''cache-control'', ''connection'',
      ''content-length'', ''content-type'', ''device-memory'', ''dnt'', ''downlink'', ''dpr'', ''early-data'', ''ect'', ''if-match'',
      ''if-modified-since'', ''if-none-match'', ''if-range'', ''if-unmodified-since'', ''keep-alive'', ''max-forwards'', ''origin'',
      ''pragma'', ''priority'', ''purpose'', ''range'', ''referer'', ''rtt'', ''save-data'', ''sec-ch-ua'', ''sec-ch-ua-arch'',
      ''sec-ch-ua-bitness'', ''sec-ch-ua-full-version'', ''sec-ch-ua-full-version-list'', ''sec-ch-ua-mobile'', ''sec-ch-ua-model'',
      ''sec-ch-ua-platform'', ''sec-ch-ua-platform-version'', ''sec-fetch-dest'', ''sec-fetch-mode'', ''sec-fetch-site'', ''sec-fetch-user'',
      ''sec-gpc'', ''sec-purpose'', ''te'', ''trailer'', ''transfer-encoding'', ''upgrade-insecure-requests'', ''user-agent'', ''via'',
      ''viewport-width'', ''width'', ''x-forwarded-for'', ''x-real-ip'', ''x-requested-with'']"

definition DEFAULT_CREDENTIAL_HEADERS :: "string list" where
  "DEFAULT_CREDENTIAL_HEADERS = [''authorization'', ''cookie'', ''proxy-authorization'']"

definition PRIVATE_RESPONSE_HEADERS :: "string list" where
  "PRIVATE_RESPONSE_HEADERS = [''set-cookie'', ''set-cookie2'', ''authorization'', ''proxy-authorization'']"

definition SHARED_CACHE_PROHIBITED_DIRECTIVES :: "string list" where
  "SHARED_CACHE_PROHIBITED_DIRECTIVES = [''private'', ''no-store'', ''no-cache'']"

definition REQUEST_CACHE_BYPASS_DIRECTIVES :: "string list" where
  "REQUEST_CACHE_BYPASS_DIRECTIVES = [''no-store'', ''no-cache'']"

text \<open>The elements of \<open>new Set(xs)\<close> in iteration order.\<close>

definition set_of_list :: "string list \<Rightarrow> string list" where
  "set_of_list xs = rev (remdups (rev xs))"

section \<open>Configuration\<close>

record cache_options =
  coTtlMs :: "int option"
  coKeyGenerator :: "(cache_request \<Rightarrow> string) option"
  coQueryParams :: "ustring list option"
  coMaxKeyLength :: "int option"
  coMethods :: "string list option"
  coStatusCodes :: "int list option"
  coExclude :: "string list option"
  coPrefix :: "string option"
  coVaryHeaders :: "string list option"
  coCredentialHeaders :: "string list option"
  coPublicHeaders :: "string list option"

record cache_config =
  ccTtlMs :: int
  methods :: "string list"
  statusCodes :: "int list"
  exclude :: "string list"
  ccPrefix :: string
  varyHeaders :: "string list"
  representedVaryHeaders :: "string list"
  credentialHeaders :: "string list"
  publicHeaders :: "string list"
  maxKeyLength :: int
  keyGenerator :: "cache_request \<Rightarrow> string"

definition default_to :: "'a \<Rightarrow> 'a option \<Rightarrow> 'a" where
  "default_to d x = (case x of None \<Rightarrow> d | Some y \<Rightarrow> y)"

text \<open>\<open>encodeURIComponent\<close> on a scalar value string, where it does not throw.\<close>

definition encoded :: "ustring \<Rightarrow> string" where
  "encoded u = default_to [] (encodeURIComponent u)"

definition normalizeSearch :: "ustring list option \<Rightarrow> cache_url \<Rightarrow> string" where
  "normalizeSearch queryParams u =
     (let params = filter (\<lambda>(name, _). case queryParams of None \<Rightarrow> True | Some q \<Rightarrow> name \<in> set q) (cuParams u)
      in if params = [] then []
         else ''?'' @ join ''&'' (map (\<lambda>(name, v). encoded name @ ''='' @ encoded v) (sort_key fst params)))"

definition defaultKeyGenerator :: "ustring list option \<Rightarrow> cache_request \<Rightarrow> string" where
  "defaultKeyGenerator queryParams r =
     (let u = cqUrl r;
          scheme = (if ends_with (cuProtocol u) '':'' then butlast (cuProtocol u) else cuProtocol u)
      in cqMethod r @ '':'' @ scheme @ ''//'' @ cuHost u @ '':'' @ cuPathname u @ normalizeSearch queryParams u)"

definition createResponseCache :: "cache_options \<Rightarrow> cache_config" where
  "createResponseCache o' =
     (let vary = default_to [] (coVaryHeaders o');
          represented = set_of_list ([''origin'', ''accept-encoding''] @ HOST_REWRITE_HEADERS @ map to_lower vary);
          credential = set_of_list (map to_lower (DEFAULT_CREDENTIAL_HEADERS @ default_to [] (coCredentialHeaders o')))
      in \<lparr>ccTtlMs = default_to 60000 (coTtlMs o'),
          methods = default_to [''GET'', ''HEAD''] (coMethods o'),
          statusCodes = default_to [200] (coStatusCodes o'),
          exclude = default_to [] (coExclude o'),
          ccPrefix = default_to ''rc:'' (coPrefix o'),
          varyHeaders = vary,
          representedVaryHeaders = represented,
          credentialHeaders = credential,
          publicHeaders = filter (\<lambda>h. h \<notin> set credential)
            (PUBLIC_REQUEST_HEADERS @ represented @ map to_lower (default_to [] (coPublicHeaders o'))),
          maxKeyLength = default_to 512 (coMaxKeyLength o'),
          keyGenerator = default_to (defaultKeyGenerator (coQueryParams o')) (coKeyGenerator o')\<rparr>)"

section \<open>Keys\<close>

definition DIGEST_LENGTH :: nat where
  "DIGEST_LENGTH = 32"

definition HASH_MARKER :: string where
  "HASH_MARKER = ''#sha256=''"

definition logical_key :: "cache_config \<Rightarrow> cache_request \<Rightarrow> string" where
  "logical_key cfg r =
     keyGenerator cfg r @
     concat (map (\<lambda>h. ''|'' @ h @ ''='' @ encoded (uni (default_to [] (map_of (cqHeaders r) h)))) (representedVaryHeaders cfg))"

text \<open>The store key and, when the key is hashed, the base kept in the entry.\<close>

definition cacheKeyForRequest :: "(string \<Rightarrow> string) \<Rightarrow> cache_config \<Rightarrow> cache_request \<Rightarrow> string \<times> string option" where
  "cacheKeyForRequest sha cfg r =
     (let readable = keyGenerator cfg r;
          logical = logical_key cfg r;
          plain = ccPrefix cfg @ logical
      in if int (length plain) \<le> maxKeyLength cfg then (plain, None)
         else
           (let budget = max 0 (maxKeyLength cfg - int (length (ccPrefix cfg)) - int (length HASH_MARKER) - int DIGEST_LENGTH)
            in (ccPrefix cfg @ take (nat budget) readable @ HASH_MARKER @ take DIGEST_LENGTH (sha logical), Some readable)))"

definition isExcluded :: "cache_config \<Rightarrow> string \<Rightarrow> bool" where
  "isExcluded cfg pathname = list_ex (\<lambda>p. starts_with pathname p) (exclude cfg)"

definition isPossiblyCredentialed :: "cache_config \<Rightarrow> cache_request \<Rightarrow> bool" where
  "isPossiblyCredentialed cfg r =
     list_ex (\<lambda>(name, _). let h = to_lower name in h \<in> set (credentialHeaders cfg) \<or> h \<notin> set (publicHeaders cfg)) (cqHeaders r)"

section \<open>What may be shared\<close>

definition canStoreSharedResponse ::
  "cache_config \<Rightarrow> (string \<Rightarrow> time option) \<Rightarrow> time \<Rightarrow> cache_response \<Rightarrow> bool \<Rightarrow> bool" where
  "canStoreSharedResponse cfg parse_date now r credentialed =
     (let h = crHeaders r; cc = headers_get ''cache-control'' h in
      if hasDirective cc SHARED_CACHE_PROHIBITED_DIRECTIVES \<or> hasZeroMaxAge cc then False
      else if hasPragmaNoCache (headers_get ''pragma'' h) then False
      else if declaredFreshnessMs parse_date now cc (headers_get ''expires'' h) = AlreadyStale then False
      else if credentialed \<and> \<not> isExplicitlyPublic cc then False
      else if hasWildcardVary (headers_get ''vary'' h) then False
      else if list_ex (\<lambda>x. x \<notin> set (representedVaryHeaders cfg)) (parseVary (headers_get ''vary'' h)) then False
      else \<not> list_ex (\<lambda>x. if x = ''set-cookie'' then hcookies h \<noteq> [] else headers_get x h \<noteq> None) PRIVATE_RESPONSE_HEADERS)"

definition canReplaySharedResponse :: "cache_config \<Rightarrow> cache_entry \<Rightarrow> bool" where
  "canReplaySharedResponse cfg e =
     (let cc = map_of (enHeaders e) ''cache-control'' in
      if hasDirective cc SHARED_CACHE_PROHIBITED_DIRECTIVES \<or> hasZeroMaxAge cc then False
      else if hasPragmaNoCache (map_of (enHeaders e) ''pragma'') then False
      else if hasWildcardVary (map_of (enHeaders e) ''vary'') then False
      else if list_ex (\<lambda>x. x \<notin> set (representedVaryHeaders cfg)) (parseVary (map_of (enHeaders e) ''vary'')) then False
      else \<not> list_ex (\<lambda>x. map_of (enHeaders e) x \<noteq> None) PRIVATE_RESPONSE_HEADERS)"

definition replay :: "string \<Rightarrow> cache_entry \<Rightarrow> cache_error + cache_response" where
  "replay method e =
     (case (if enBase64 e then map_option (\<lambda>b. Bytes (map of_nat b)) (base64ToBytes (enBody e)) else Some (Chars (enBody e))) of
        None \<Rightarrow> Inl BadBase64
      | Some b \<Rightarrow>
          new_response (if method = ''HEAD'' then NullBody else b) (enStatus e)
            (new_headers (AList.update ''x-cache'' ''HIT'' (enHeaders e))))"

definition canServe :: "cache_config \<Rightarrow> bool \<Rightarrow> cache_entry \<Rightarrow> bool" where
  "canServe cfg credentialed e =
     (canReplaySharedResponse cfg e \<and> (\<not> credentialed \<or> isExplicitlyPublic (map_of (enHeaders e) ''cache-control'')))"

definition bypassRead :: "cache_request \<Rightarrow> bool" where
  "bypassRead r =
     (let cc = map_of (cqHeaders r) ''cache-control'' in
      hasDirective cc REQUEST_CACHE_BYPASS_DIRECTIVES \<or> hasZeroMaxAge cc \<or> hasPragmaNoCache (map_of (cqHeaders r) ''pragma''))"

text \<open>\<open>headers.set("vary", \<dots>)\<close> with the configured names merged in.\<close>

definition replay_headers :: "cache_config \<Rightarrow> cache_response \<Rightarrow> header_map" where
  "replay_headers cfg r =
     (case mergeVary (headers_get ''vary'' (crHeaders r)) (varyHeaders cfg) of
        None \<Rightarrow> crHeaders r
      | Some v \<Rightarrow> headers_set ''vary'' v (crHeaders r))"

definition make_entry :: "cache_config \<Rightarrow> string option \<Rightarrow> time \<Rightarrow> cache_response \<Rightarrow> cache_entry" where
  "make_entry cfg keyBase now r =
     \<lparr>enStatus = crStatus r,
      enHeaders = filter (\<lambda>(k, _). to_lower k \<notin> set NON_CACHEABLE_HEADERS) (hmap (replay_headers cfg r)),
      enBody = bytesToBase64 (map unat (response_octets r)),
      enBase64 = True, enCachedAt = now, enKeyBase = keyBase\<rparr>"

definition effectiveTtl :: "cache_config \<Rightarrow> (string \<Rightarrow> time option) \<Rightarrow> time \<Rightarrow> int option \<Rightarrow> cache_response \<Rightarrow> int" where
  "effectiveTtl cfg parse_date now customTtl r =
     (let configured = default_to (ccTtlMs cfg) customTtl; h = replay_headers cfg r in
      case declaredFreshnessMs parse_date now (headers_get ''cache-control'' h) (headers_get ''expires'' h) of
        Lifetime d \<Rightarrow> min configured d
      | _ \<Rightarrow> configured)"

end
