(* ===== verification/Cache_Steps.thy ===== *)
theory Cache_Steps
  imports Response_Cache
begin

text \<open>
  Calls of \<open>cached\<close> on one response cache, interleaved at their \<open>await\<close>s, and invalidation.
  \<open>jqFetched\<close> records what the origin handler of a job returned.
\<close>

section \<open>Jobs\<close>

datatype cache_source = Bypassed | Uncached | FromOrigin | FromCache

datatype cache_pc =
    Start
  | Direct
  | Lookup
  | Looked "cache_entry kv_value option"
  | Joining
  | Wait nat time
  | Relooked time "cache_entry kv_value option"
  | Execute
  | Persist cache_response
  | Stored cache_response
  | Done cache_source cache_response
  | Failed cache_error

record cache_job =
  jqReq :: cache_request
  jqTtl :: "int option"
  jqPc :: cache_pc
  jqFetched :: "cache_response option"

record 's cache_state =
  cstore :: 's
  cjobs :: "cache_job list"
  inFlight :: "(string, nat) omap"

record 's cache_env =
  ceCfg :: cache_config
  ceOps :: "('s, cache_entry) store_ops"
  ceDate :: "string \<Rightarrow> time option"
  ceSha :: "string \<Rightarrow> string"

datatype origin_outcome = Rejects | Returns cache_response

definition job_key :: "'s cache_env \<Rightarrow> cache_job \<Rightarrow> string" where
  "job_key env j = fst (cacheKeyForRequest (ceSha env) (ceCfg env) (jqReq j))"

definition job_base :: "'s cache_env \<Rightarrow> cache_job \<Rightarrow> string option" where
  "job_base env j = snd (cacheKeyForRequest (ceSha env) (ceCfg env) (jqReq j))"

definition job_credentialed :: "'s cache_env \<Rightarrow> cache_job \<Rightarrow> bool" where
  "job_credentialed env j = isPossiblyCredentialed (ceCfg env) (jqReq j)"

definition set_pc :: "nat \<Rightarrow> cache_pc \<Rightarrow> 's cache_state \<Rightarrow> 's cache_state" where
  "set_pc i pc st = st\<lparr>cjobs := (cjobs st)[i := (cjobs st ! i)\<lparr>jqPc := pc\<rparr>]\<rparr>"

definition settled :: "cache_pc \<Rightarrow> bool" where
  "settled pc = (case pc of Done _ _ \<Rightarrow> True | Failed _ \<Rightarrow> True | _ \<Rightarrow> False)"

section \<open>The parts of \<open>cached\<close>\<close>

definition start_execution :: "'s cache_env \<Rightarrow> nat \<Rightarrow> 's cache_state \<Rightarrow> 's cache_state" where
  "start_execution env i st =
     set_pc i Execute (st\<lparr>inFlight := AList.update (job_key env (cjobs st ! i)) i (inFlight st)\<rparr>)"

definition join_flight :: "'s cache_env \<Rightarrow> time \<Rightarrow> nat \<Rightarrow> 's cache_state \<Rightarrow> 's cache_state" where
  "join_flight env now i st =
     (case map_of (inFlight st) (job_key env (cjobs st ! i)) of
        Some e \<Rightarrow> set_pc i (Wait e now) st
      | None \<Rightarrow> start_execution env i st)"

text \<open>The end of a leader: the execution settles and its own in-flight entry is cleared.\<close>

definition settle :: "'s cache_env \<Rightarrow> nat \<Rightarrow> cache_pc \<Rightarrow> 's cache_state \<Rightarrow> 's cache_state" where
  "settle env i pc st =
     (let k = job_key env (cjobs st ! i) in
      set_pc i pc (if map_of (inFlight st) k = Some i then st\<lparr>inFlight := AList.delete k (inFlight st)\<rparr> else st))"

definition answer :: "cache_source \<Rightarrow> cache_error + cache_response \<Rightarrow> cache_pc" where
  "answer src x = (case x of Inl e \<Rightarrow> Failed e | Inr r \<Rightarrow> Done src r)"

definition step_start :: "'s cache_env \<Rightarrow> nat \<Rightarrow> 's cache_state \<Rightarrow> 's cache_state" where
  "step_start env i st =
     (let r = jqReq (cjobs st ! i) in
      if to_upper (cqMethod r) \<notin> set (methods (ceCfg env)) then set_pc i Direct st
      else if isExcluded (ceCfg env) (cuPathname (cqUrl r)) then set_pc i Direct st
      else set_pc i Lookup st)"

definition read_key :: "'s cache_env \<Rightarrow> time \<Rightarrow> nat \<Rightarrow> (cache_entry kv_value option \<Rightarrow> cache_pc) \<Rightarrow> 's cache_state \<Rightarrow> 's cache_state" where
  "read_key env now i pc st =
     (case get_op (ceOps env) now (job_key env (cjobs st ! i)) (cstore st) of
        (r, s) \<Rightarrow> set_pc i (pc r) (st\<lparr>cstore := s\<rparr>))"

definition step_lookup :: "'s cache_env \<Rightarrow> time \<Rightarrow> nat \<Rightarrow> 's cache_state \<Rightarrow> 's cache_state" where
  "step_lookup env now i st =
     (if bypassRead (jqReq (cjobs st ! i)) then join_flight env now i st else read_key env now i Looked st)"

text \<open>A stored number is falsy when 0, and has no \<open>headers\<close> otherwise.\<close>

definition step_looked :: "'s cache_env \<Rightarrow> time \<Rightarrow> nat \<Rightarrow> cache_entry kv_value option \<Rightarrow> 's cache_state \<Rightarrow> 's cache_state" where
  "step_looked env now i r st =
     (let j = cjobs st ! i in
      case r of
        None \<Rightarrow> join_flight env now i st
      | Some (Num n) \<Rightarrow> if n = 0 then join_flight env now i st else set_pc i (Failed NotAnEntry) st
      | Some (Other e) \<Rightarrow>
          if \<not> canReplaySharedResponse (ceCfg env) e then
            set_pc i Joining (st\<lparr>cstore := snd (delete_op (ceOps env) (job_key env j) (cstore st))\<rparr>)
          else if canServe (ceCfg env) (job_credentialed env j) e then
            set_pc i (answer FromCache (replay (to_upper (cqMethod (jqReq j))) e)) st
          else join_flight env now i st)"

definition freshEnough :: "cache_request \<Rightarrow> time \<Rightarrow> cache_entry \<Rightarrow> bool" where
  "freshEnough r waitingSince e = (\<not> bypassRead r \<or> waitingSince \<le> enCachedAt e)"

definition step_relooked :: "'s cache_env \<Rightarrow> nat \<Rightarrow> time \<Rightarrow> cache_entry kv_value option \<Rightarrow> 's cache_state \<Rightarrow> 's cache_state" where
  "step_relooked env i since r st =
     (let j = cjobs st ! i in
      case r of
        None \<Rightarrow> start_execution env i st
      | Some (Num n) \<Rightarrow>
          if n = 0 \<or> bypassRead (jqReq j) then start_execution env i st else set_pc i (Failed NotAnEntry) st
      | Some (Other e) \<Rightarrow>
          if freshEnough (jqReq j) since e \<and> canServe (ceCfg env) (job_credentialed env j) e then
            set_pc i (answer FromCache (replay (to_upper (cqMethod (jqReq j))) e)) st
          else start_execution env i st)"

definition step_execute :: "'s cache_env \<Rightarrow> time \<Rightarrow> nat \<Rightarrow> origin_outcome \<Rightarrow> 's cache_state \<Rightarrow> 's cache_state" where
  "step_execute env now i out st =
     (case out of
        Rejects \<Rightarrow> settle env i (Failed OriginFailed) st
      | Returns r \<Rightarrow>
          (let st1 = st\<lparr>cjobs := (cjobs st)[i := (cjobs st ! i)\<lparr>jqFetched := Some r\<rparr>]\<rparr> in
           if crStatus r \<notin> set (statusCodes (ceCfg env)) then settle env i (Done Uncached r) st1
           else if \<not> canStoreSharedResponse (ceCfg env) (ceDate env) now r (job_credentialed env (cjobs st ! i)) then
             settle env i (Done Uncached r) st1
           else set_pc i (Persist r) st1))"

definition step_persist :: "'s cache_env \<Rightarrow> time \<Rightarrow> nat \<Rightarrow> origin_outcome \<Rightarrow> cache_response \<Rightarrow> 's cache_state \<Rightarrow> 's cache_state" where
  "step_persist env now i out r st =
     (let j = cjobs st ! i in
      case out of
        Rejects \<Rightarrow> settle env i (Failed OriginFailed) st
      | Returns _ \<Rightarrow>
          set_pc i (Stored r)
            (st\<lparr>cstore := set_op (ceOps env) now (job_key env j) (Other (make_entry (ceCfg env) (job_base env j) now r))
                 (Some (effectiveTtl (ceCfg env) (ceDate env) now (jqTtl j) r)) (cstore st)\<rparr>))"

definition miss_response :: "cache_config \<Rightarrow> cache_response \<Rightarrow> cache_error + cache_response" where
  "miss_response cfg r =
     new_response (Bytes (response_octets r)) (crStatus r) (headers_set ''x-cache'' ''MISS'' (replay_headers cfg r))"

text \<open>One run of a job, from one suspension to the next; a waiting job runs when the execution it waits for has settled.\<close>

definition run_job :: "'s cache_env \<Rightarrow> time \<Rightarrow> nat \<Rightarrow> origin_outcome \<Rightarrow> 's cache_state \<Rightarrow> 's cache_state" where
  "run_job env now i out st =
     (case jqPc (cjobs st ! i) of
        Start \<Rightarrow> step_start env i st
      | Direct \<Rightarrow> set_pc i (case out of Rejects \<Rightarrow> Failed OriginFailed | Returns r \<Rightarrow> Done Bypassed r) st
      | Lookup \<Rightarrow> step_lookup env now i st
      | Looked r \<Rightarrow> step_looked env now i r st
      | Joining \<Rightarrow> join_flight env now i st
      | Wait e since \<Rightarrow>
          if settled (jqPc (cjobs st ! e)) then read_key env now i (Relooked since) st else st
      | Relooked since r \<Rightarrow> step_relooked env i since r st
      | Execute \<Rightarrow> step_execute env now i out st
      | Persist r \<Rightarrow> step_persist env now i out r st
      | Stored r \<Rightarrow> settle env i (answer FromOrigin (miss_response (ceCfg env) r)) st
      | Done src r \<Rightarrow> st
      | Failed e \<Rightarrow> st)"

datatype cache_event = Arrive cache_request "int option" | Run nat origin_outcome

fun cache_step :: "'s cache_env \<Rightarrow> time \<Rightarrow> cache_event \<Rightarrow> 's cache_state \<Rightarrow> 's cache_state" where
  "cache_step env now (Arrive r ttl) st =
     st\<lparr>cjobs := cjobs st @ [\<lparr>jqReq = r, jqTtl = ttl, jqPc = Start, jqFetched = None\<rparr>]\<rparr>"
| "cache_step env now (Run i out) st = (if i < length (cjobs st) then run_job env now i out st else st)"

inductive cache_reach :: "'s cache_env \<Rightarrow> 's \<Rightarrow> 's cache_state \<Rightarrow> bool" for env s0 where
  start: "cache_reach env s0 \<lparr>cstore = s0, cjobs = [], inFlight = []\<rparr>"
| step: "cache_reach env s0 st \<Longrightarrow> cache_reach env s0 (cache_step env now ev st)"

section \<open>Invalidation\<close>

fun index_sub :: "string \<Rightarrow> string \<Rightarrow> nat option" where
  "index_sub pat [] = (if pat = [] then Some 0 else None)"
| "index_sub pat (c # s) = (if starts_with (c # s) pat then Some 0 else map_option Suc (index_sub pat s))"

record key_base =
  kbMethod :: "string option"
  kbAuthority :: "string option"
  kbPath :: string

definition splitBase :: "string \<Rightarrow> key_base" where
  "splitBase base =
     (case index_of CHR '':'' base of
        None \<Rightarrow> \<lparr>kbMethod = None, kbAuthority = None, kbPath = base\<rparr>
      | Some sep \<Rightarrow>
          (let rest = drop (Suc sep) base in
           case index_sub '':/'' rest of
             None \<Rightarrow> \<lparr>kbMethod = Some (take sep base), kbAuthority = None, kbPath = rest\<rparr>
           | Some p \<Rightarrow> \<lparr>kbMethod = Some (take sep base), kbAuthority = Some (take p rest), kbPath = drop (Suc p) rest\<rparr>))"

definition before_char :: "char \<Rightarrow> string \<Rightarrow> string" where
  "before_char c s = hd (split_on c s)"

text \<open>The body of the loop over the keys. The entry of a hashed key is read for its base.\<close>

definition base_of_key ::
  "('s, cache_entry) store_ops \<Rightarrow> cache_config \<Rightarrow> time \<Rightarrow> string \<Rightarrow> 's \<Rightarrow> string \<times> 's" where
  "base_of_key ops cfg now candidate s =
     (let rest = drop (length (ccPrefix cfg)) candidate in
      case index_sub HASH_MARKER rest of
        None \<Rightarrow> (before_char CHR ''|'' rest, s)
      | Some m \<Rightarrow>
          (case get_op ops now candidate s of
             (Some (Other e), s1) \<Rightarrow>
               (case enKeyBase e of Some b \<Rightarrow> b | None \<Rightarrow> before_char CHR ''|'' (take m rest), s1)
           | (_, s1) \<Rightarrow> (before_char CHR ''|'' (take m rest), s1)))"

definition base_matches :: "string \<Rightarrow> string \<Rightarrow> bool" where
  "base_matches key base =
     (if base = key then True
      else
        (let p = splitBase base in
         case (kbMethod p, kbAuthority p) of
           (Some m, Some a) \<Rightarrow>
             (let path = (if CHR ''?'' \<in> set key then kbPath p else before_char CHR ''?'' (kbPath p))
              in m @ '':'' @ a @ '':'' @ path = key \<or> m @ '':'' @ path = key)
         | _ \<Rightarrow> False))"

definition invalidate_key ::
  "('s, cache_entry) store_ops \<Rightarrow> cache_config \<Rightarrow> time \<Rightarrow> string \<Rightarrow> string \<Rightarrow> 's \<Rightarrow> bool \<times> 's" where
  "invalidate_key ops cfg now key candidate s =
     (if \<not> starts_with candidate (ccPrefix cfg) then (False, s)
      else (case base_of_key ops cfg now candidate s of
          (base, s1) \<Rightarrow> if base_matches key base then delete_op ops candidate s1 else (False, s1)))"

text \<open>The calls run to completion one after the other.\<close>

fun invalidate_loop ::
  "('s, cache_entry) store_ops \<Rightarrow> cache_config \<Rightarrow> time \<Rightarrow> string \<Rightarrow> string list \<Rightarrow> 's \<Rightarrow> bool \<times> 's" where
  "invalidate_loop ops cfg now key [] s = (False, s)"
| "invalidate_loop ops cfg now key (k # ks) s =
     (case invalidate_key ops cfg now key k s of
        (b, s1) \<Rightarrow> case invalidate_loop ops cfg now key ks s1 of (b', s2) \<Rightarrow> (b \<or> b', s2))"

definition cache_invalidate ::
  "('s, cache_entry) store_ops \<Rightarrow> cache_config \<Rightarrow> time \<Rightarrow> string \<Rightarrow> 's \<Rightarrow> bool \<times> 's" where
  "cache_invalidate ops cfg now key s =
     (case keys_op ops now None s of (ks, s1) \<Rightarrow> invalidate_loop ops cfg now key ks s1)"

definition invalidateAll :: "('s, cache_entry) store_ops \<Rightarrow> cache_config \<Rightarrow> string option \<Rightarrow> 's \<Rightarrow> 's" where
  "invalidateAll ops cfg pattern s = clear_op ops (Some (ccPrefix cfg @ default_to [] pattern)) s"

end
