(* ===== verification/Cache_Inv.thy ===== *)
theory Cache_Inv
  imports Cache_Steps Kv_Props Cookie_Props
begin

text \<open>
  The invariant of the response cache, for every store that keeps the laws of \<open>kv_store_keys\<close>, and so
  for the memory store: what a reachable cache holds and answers comes from an execution of the
  origin handler under the same key that was allowed to be shared.
\<close>

section \<open>The invariant\<close>

text \<open>An entry comes from what the origin returned to a job with the key, and was live at \<open>t\<close>.\<close>

definition came_from :: "'s cache_env \<Rightarrow> cache_job list \<Rightarrow> string \<Rightarrow> cache_entry \<Rightarrow> time \<Rightarrow> nat \<Rightarrow> cache_response \<Rightarrow> bool" where
  "came_from env js k e t j r =
     (j < length js \<and> job_key env (js ! j) = k \<and> jqFetched (js ! j) = Some r \<and>
      crStatus r \<in> set (statusCodes (ceCfg env)) \<and>
      (\<exists>t1. canStoreSharedResponse (ceCfg env) (ceDate env) t1 r (job_credentialed env (js ! j))) \<and>
      e = make_entry (ceCfg env) (job_base env (js ! j)) (enCachedAt e) r \<and>
      unexpired (enCachedAt e) (Some (effectiveTtl (ceCfg env) (ceDate env) (enCachedAt e) (jqTtl (js ! j)) r)) t)"

definition legitimate :: "'s cache_env \<Rightarrow> cache_job list \<Rightarrow> string \<Rightarrow> cache_entry \<Rightarrow> time \<Rightarrow> bool" where
  "legitimate env js k e t = (\<exists>j r. came_from env js k e t j r)"

definition read_ok :: "'s cache_env \<Rightarrow> cache_job list \<Rightarrow> string \<Rightarrow> cache_entry kv_value option \<Rightarrow> bool" where
  "read_ok env js k v = (case v of None \<Rightarrow> True | Some (Num n) \<Rightarrow> False | Some (Other e) \<Rightarrow> \<exists>t. legitimate env js k e t)"

definition fetched_ok :: "'s cache_env \<Rightarrow> cache_job \<Rightarrow> cache_response \<Rightarrow> bool" where
  "fetched_ok env j r =
     (jqFetched j = Some r \<and> crStatus r \<in> set (statusCodes (ceCfg env)) \<and>
      (\<exists>t1. canStoreSharedResponse (ceCfg env) (ceDate env) t1 r (job_credentialed env j)))"

definition pc_ok :: "'s cache_env \<Rightarrow> cache_job list \<Rightarrow> cache_job \<Rightarrow> bool" where
  "pc_ok env js j =
     (case jqPc j of
        Looked v \<Rightarrow> jqFetched j = None \<and> read_ok env js (job_key env j) v
      | Relooked since v \<Rightarrow> jqFetched j = None \<and> read_ok env js (job_key env j) v
      | Wait e since \<Rightarrow> jqFetched j = None \<and> e < length js \<and> job_key env (js ! e) = job_key env j
      | Persist r \<Rightarrow> fetched_ok env j r
      | Stored r \<Rightarrow> fetched_ok env j r
      | Done src x \<Rightarrow>
          src = FromCache \<longrightarrow>
            (\<exists>e t. legitimate env js (job_key env j) e t \<and> canServe (ceCfg env) (job_credentialed env j) e \<and>
               replay (to_upper (cqMethod (jqReq j))) e = Inr x)
      | Failed e \<Rightarrow> True
      | _ \<Rightarrow> jqFetched j = None)"

definition flying :: "cache_pc \<Rightarrow> bool" where
  "flying pc = (case pc of Execute \<Rightarrow> True | Persist _ \<Rightarrow> True | Stored _ \<Rightarrow> True | _ \<Rightarrow> False)"

definition cache_ok ::
  "'s cache_env \<Rightarrow> (time \<Rightarrow> 's \<Rightarrow> string \<Rightarrow> cache_entry kv_value option) \<Rightarrow> ('s \<Rightarrow> bool) \<Rightarrow> 's cache_state \<Rightarrow> bool" where
  "cache_ok env view good st =
     (good (cstore st) \<and>
      (\<forall>t k v. view t (cstore st) k = Some v \<longrightarrow> (\<exists>e. v = Other e \<and> legitimate env (cjobs st) k e t)) \<and>
      (\<forall>j \<in> set (cjobs st). pc_ok env (cjobs st) j) \<and>
      (\<forall>k i. map_of (inFlight st) k = Some i \<longrightarrow>
         i < length (cjobs st) \<and> job_key env (cjobs st ! i) = k \<and> flying (jqPc (cjobs st ! i))))"

lemma okD:
  assumes "cache_ok env view good st"
  shows ok_good: "good (cstore st)"
    and ok_entry: "view t (cstore st) k = Some v \<Longrightarrow> \<exists>e. v = Other e \<and> legitimate env (cjobs st) k e t"
    and ok_pc: "i < length (cjobs st) \<Longrightarrow> pc_ok env (cjobs st) (cjobs st ! i)"
    and ok_flight: "map_of (inFlight st) k = Some n \<Longrightarrow>
      n < length (cjobs st) \<and> job_key env (cjobs st ! n) = k \<and> flying (jqPc (cjobs st ! n))"
  using assms by (simp_all add: cache_ok_def)

lemma set_pc_eq: "set_pc i pc st = \<lparr>cstore = cstore st, cjobs = (cjobs st)[i := (cjobs st ! i)\<lparr>jqPc := pc\<rparr>], inFlight = inFlight st\<rparr>"
  by (cases st) (simp add: set_pc_def)

text \<open>Jobs only gain: their requests stay, and what was fetched stays.\<close>

definition extends :: "cache_job list \<Rightarrow> cache_job list \<Rightarrow> bool" where
  "extends js js' =
     (length js \<le> length js' \<and>
      (\<forall>j < length js. jqReq (js' ! j) = jqReq (js ! j) \<and> jqTtl (js' ! j) = jqTtl (js ! j) \<and>
         (\<forall>r. jqFetched (js ! j) = Some r \<longrightarrow> jqFetched (js' ! j) = Some r)))"

lemma job_key_cong: "jqReq i = jqReq j \<Longrightarrow> job_key env i = job_key env j \<and> job_base env i = job_base env j \<and>
    job_credentialed env i = job_credentialed env j"
  by (simp add: job_key_def job_base_def job_credentialed_def)

lemma came_from_mono:
  assumes "extends js js'" and "came_from env js k e t j r"
  shows "came_from env js' k e t j r"
proof -
  have "j < length js'" "jqReq (js' ! j) = jqReq (js ! j)" "jqTtl (js' ! j) = jqTtl (js ! j)" "jqFetched (js' ! j) = Some r"
    using assms by (auto simp: extends_def came_from_def)
  then have e: "job_key env (js' ! j) = job_key env (js ! j)" "job_base env (js' ! j) = job_base env (js ! j)"
    "job_credentialed env (js' ! j) = job_credentialed env (js ! j)" "jqTtl (js' ! j) = jqTtl (js ! j)" "j < length js'"
    "jqFetched (js' ! j) = Some r"
    using job_key_cong [of "js' ! j" "js ! j" env] by auto
  show ?thesis using assms(2) unfolding came_from_def e(1-4) using e(5,6) by blast
qed

lemma legitimate_mono: "extends js js' \<Longrightarrow> legitimate env js k e t \<Longrightarrow> legitimate env js' k e t"
  by (auto simp: legitimate_def intro: came_from_mono)

lemma read_ok_mono: "extends js js' \<Longrightarrow> read_ok env js k v \<Longrightarrow> read_ok env js' k v"
  by (auto simp: read_ok_def intro: legitimate_mono split: option.splits kv_value.splits)

lemma pc_ok_mono:
  assumes "extends js js'" and "pc_ok env js j"
  shows "pc_ok env js' j"
proof -
  have "e < length js \<Longrightarrow> e < length js' \<and> job_key env (js' ! e) = job_key env (js ! e)" for e
    using assms(1) job_key_cong [of "js' ! e" "js ! e" env] by (auto simp: extends_def)
  note mono = this read_ok_mono [OF assms(1)] legitimate_mono [OF assms(1)]
  show ?thesis
  proof (cases "jqPc j")
    case (Done src x)
    then show ?thesis using assms(2) mono(3) unfolding pc_ok_def by simp blast
  qed (use assms(2) mono(1,2) in \<open>auto simp: pc_ok_def\<close>)
qed

text \<open>Changing one job.\<close>

lemma extends_update:
  "jqReq j = jqReq (js ! i) \<Longrightarrow> jqTtl j = jqTtl (js ! i) \<Longrightarrow> (\<And>r. jqFetched (js ! i) = Some r \<Longrightarrow> jqFetched j = Some r) \<Longrightarrow>
   extends js (js[i := j])"
  by (cases "i < length js") (auto simp: extends_def nth_list_update list_update_beyond)

lemma cache_ok_update:
  assumes "cache_ok env view good st" and "i < length (cjobs st)"
    and "jqReq j = jqReq (cjobs st ! i)" and "jqTtl j = jqTtl (cjobs st ! i)"
    and "\<And>r. jqFetched (cjobs st ! i) = Some r \<Longrightarrow> jqFetched j = Some r"
    and "pc_ok env (cjobs st) j"
    and "good s" and "\<And>t k v. view t s k = Some v \<Longrightarrow> view t (cstore st) k = Some v \<or> (\<exists>e. v = Other e \<and> legitimate env (cjobs st) k e t)"
    and "\<And>k n. map_of fl k = Some n \<Longrightarrow>
      n = i \<and> k = job_key env (cjobs st ! i) \<and> flying (jqPc j) \<or> n \<noteq> i \<and> map_of (inFlight st) k = Some n"
  shows "cache_ok env view good \<lparr>cstore = s, cjobs = (cjobs st)[i := j], inFlight = fl\<rparr>"
proof -
  let ?js = "(cjobs st)[i := j]"
  have ext: "extends (cjobs st) ?js" using assms(3-5) by (rule extends_update)
  have key: "job_key env j = job_key env (cjobs st ! i)" using job_key_cong [OF assms(3), of env] by simp
  have "\<exists>e. v = Other e \<and> legitimate env ?js k e t" if "view t s k = Some v" for t k v
  proof -
    have "\<exists>e. v = Other e \<and> legitimate env (cjobs st) k e t"
      using assms(8) [OF that] assms(1) by (auto simp: cache_ok_def)
    then show ?thesis using legitimate_mono [OF ext] by blast
  qed
  moreover have "pc_ok env ?js x" if "x \<in> set ?js" for x
  proof -
    have "x = j \<or> x \<in> set (cjobs st)" using that by (meson insertE set_update_subset_insert subsetD)
    then have "pc_ok env (cjobs st) x" using assms(1,6) by (auto simp: cache_ok_def)
    then show ?thesis by (rule pc_ok_mono [OF ext])
  qed
  moreover have "n < length ?js \<and> job_key env (?js ! n) = k \<and> flying (jqPc (?js ! n))" if "map_of fl k = Some n" for k n
  proof (cases "n = i")
    case True
    then show ?thesis using assms(9) [OF that] assms(2) key by simp
  next
    case False
    then have "map_of (inFlight st) k = Some n" using assms(9) [OF that] by simp
    then show ?thesis using assms(1) False by (simp add: cache_ok_def)
  qed
  ultimately show ?thesis using assms(7) by (simp add: cache_ok_def)
qed

text \<open>The shapes of the steps.\<close>

lemma quiet_ok:
  assumes "cache_ok env view good st" and "i < length (cjobs st)" and "\<not> flying (jqPc (cjobs st ! i))"
    and "pc_ok env (cjobs st) ((cjobs st ! i)\<lparr>jqPc := pc\<rparr>)"
    and "good s" and "\<And>t k v. view t s k = Some v \<Longrightarrow> view t (cstore st) k = Some v"
  shows "cache_ok env view good (set_pc i pc (st\<lparr>cstore := s\<rparr>))"
proof -
  let ?j = "(cjobs st ! i)\<lparr>jqPc := pc\<rparr>"
  have "map_of (inFlight st) k = Some n \<Longrightarrow> n \<noteq> i" for k n using ok_flight [OF assms(1)] assms(3) by blast
  then have "cache_ok env view good \<lparr>cstore = s, cjobs = (cjobs st)[i := ?j], inFlight = inFlight st\<rparr>"
    using assms by (intro cache_ok_update [OF assms(1,2)]) auto
  then show ?thesis by (simp add: set_pc_eq)
qed

lemma execution_ok:
  assumes "cache_ok env view good st" and "i < length (cjobs st)" and "\<not> flying (jqPc (cjobs st ! i))"
    and "jqFetched (cjobs st ! i) = None"
  shows "cache_ok env view good (start_execution env i st)"
proof -
  let ?j = "(cjobs st ! i)\<lparr>jqPc := Execute\<rparr>" and ?k = "job_key env (cjobs st ! i)"
  have old: "map_of (inFlight st) k = Some n \<Longrightarrow> n \<noteq> i" for k n using ok_flight [OF assms(1)] assms(3) by blast
  have "cache_ok env view good
      \<lparr>cstore = cstore st, cjobs = (cjobs st)[i := ?j], inFlight = AList.update ?k i (inFlight st)\<rparr>"
    using assms(4) old ok_good [OF assms(1)]
    by (intro cache_ok_update [OF assms(1,2)]) (auto simp: pc_ok_def flying_def map_of_update split: if_splits)
  then show ?thesis by (simp add: start_execution_def set_pc_eq)
qed

lemma join_ok:
  assumes "cache_ok env view good st" and "i < length (cjobs st)" and "\<not> flying (jqPc (cjobs st ! i))"
    and "jqFetched (cjobs st ! i) = None"
  shows "cache_ok env view good (join_flight env now i st)"
proof (cases "map_of (inFlight st) (job_key env (cjobs st ! i))")
  case None
  then show ?thesis using execution_ok [OF assms] by (simp add: join_flight_def)
next
  case (Some e)
  have "job_key env ((cjobs st ! i)\<lparr>jqPc := pc\<rparr>) = job_key env (cjobs st ! i)" for pc by (simp add: job_key_def)
  then have "pc_ok env (cjobs st) ((cjobs st ! i)\<lparr>jqPc := Wait e now\<rparr>)"
    using assms(4) ok_flight [OF assms(1) Some] by (simp add: pc_ok_def)
  then show ?thesis
    using quiet_ok [OF assms(1-3), of "Wait e now" "cstore st"] ok_good [OF assms(1)] Some by (simp add: join_flight_def)
qed

lemma settle_ok:
  assumes "cache_ok env view good st" and "i < length (cjobs st)"
    and "jqReq j = jqReq (cjobs st ! i)" and "jqTtl j = jqTtl (cjobs st ! i)"
    and "\<And>r. jqFetched (cjobs st ! i) = Some r \<Longrightarrow> jqFetched j = Some r"
    and "pc_ok env (cjobs st) (j\<lparr>jqPc := pc\<rparr>)"
  shows "cache_ok env view good (settle env i pc (st\<lparr>cjobs := (cjobs st)[i := j]\<rparr>))"
proof -
  let ?k = "job_key env (cjobs st ! i)"
  let ?fl = "if map_of (inFlight st) ?k = Some i then AList.delete ?k (inFlight st) else inFlight st"
  have key: "job_key env j = ?k" using job_key_cong [OF assms(3), of env] by simp
  have only: "map_of (inFlight st) k = Some i \<Longrightarrow> k = ?k" for k using ok_flight [OF assms(1)] by blast
  have fl: "n \<noteq> i \<and> map_of (inFlight st) k = Some n" if a: "map_of ?fl k = Some n" for k n
  proof (cases "map_of (inFlight st) ?k = Some i")
    case True
    then have "k \<noteq> ?k \<and> map_of (inFlight st) k = Some n" using a by (simp add: map_of_delete split: if_splits)
    then show ?thesis using only by blast
  next
    case False
    then have m: "map_of (inFlight st) k = Some n" using a by simp
    then show ?thesis using only [of k] False by blast
  qed
  have "cache_ok env view good \<lparr>cstore = cstore st, cjobs = (cjobs st)[i := j\<lparr>jqPc := pc\<rparr>], inFlight = ?fl\<rparr>"
  proof (rule cache_ok_update [OF assms(1,2)])
    show "n = i \<and> k = ?k \<and> flying (jqPc (j\<lparr>jqPc := pc\<rparr>)) \<or> n \<noteq> i \<and> map_of (inFlight st) k = Some n"
      if "map_of ?fl k = Some n" for k n using fl [OF that] by blast
  qed (use assms(3-6) ok_good [OF assms(1)] in simp_all)
  then show ?thesis using assms(2) key by (auto simp: settle_def set_pc_eq Let_def split: if_splits)
qed

lemma jobs_self: "i < length js \<Longrightarrow> js[i := js ! i] = js"
  by simp

lemma settle_same_ok:
  assumes "cache_ok env view good st" and "i < length (cjobs st)" and "pc_ok env (cjobs st) ((cjobs st ! i)\<lparr>jqPc := pc\<rparr>)"
  shows "cache_ok env view good (settle env i pc st)"
  using settle_ok [OF assms(1,2), of "cjobs st ! i" pc] assms(3) by simp

lemma pc_ok_failed [simp]: "pc_ok env js (j\<lparr>jqPc := Failed e\<rparr>)"
  by (simp add: pc_ok_def)

lemma pc_ok_answer: "src \<noteq> FromCache \<Longrightarrow> pc_ok env js (j\<lparr>jqPc := answer src x\<rparr>)"
  by (auto simp: pc_ok_def answer_def split: sum.splits)

lemma pc_ok_hit:
  assumes "legitimate env js (job_key env j) e t" and "canServe (ceCfg env) (job_credentialed env j) e"
  shows "pc_ok env js (j\<lparr>jqPc := answer FromCache (replay (to_upper (cqMethod (jqReq j))) e)\<rparr>)"
proof (cases "replay (to_upper (cqMethod (jqReq j))) e")
  case (Inr x)
  then show ?thesis using assms job_key_cong [of "j\<lparr>jqPc := Done FromCache x\<rparr>" j env] unfolding pc_ok_def answer_def by simp blast
qed (simp add: answer_def)

section \<open>Over any store\<close>

locale response_cache = kv_store_keys "get_op (ceOps env)" "set_op (ceOps env)" "delete_op (ceOps env)" view inv
    "keys_op (ceOps env)" "clear_op (ceOps env)"
  for env :: "'s cache_env" and view and inv
begin

lemma read_step_ok:
  assumes "cache_ok env view inv st" and "i < length (cjobs st)" and "\<not> flying (jqPc (cjobs st ! i))"
    and "\<And>v. read_ok env (cjobs st) (job_key env (cjobs st ! i)) v \<Longrightarrow> pc_ok env (cjobs st) ((cjobs st ! i)\<lparr>jqPc := pc v\<rparr>)"
  shows "cache_ok env view inv (read_key env now i pc st)"
proof -
  let ?k = "job_key env (cjobs st ! i)"
  obtain r s where g: "get_op (ceOps env) now ?k (cstore st) = (r, s)" by fastforce
  have i: "inv (cstore st)" by (rule ok_good [OF assms(1)])
  have r: "r = view now (cstore st) ?k" using get_result [OF i, of now ?k] g by simp
  have "read_ok env (cjobs st) ?k r"
  proof (cases r)
    case (Some v)
    then obtain e where "v = Other e" "legitimate env (cjobs st) ?k e now" using r ok_entry [OF assms(1)] by metis
    then show ?thesis using Some by (auto simp: read_ok_def)
  qed (simp add: read_ok_def)
  then have "cache_ok env view inv (set_pc i (pc r) (st\<lparr>cstore := s\<rparr>))"
    using get_inv [OF i, of now ?k] get_keeps [OF i, of _ now ?k] g assms(4) by (intro quiet_ok [OF assms(1-3)]) auto
  then show ?thesis by (simp add: read_key_def g)
qed

lemma looked_ok:
  assumes "cache_ok env view inv st" and "i < length (cjobs st)" and "jqPc (cjobs st ! i) = Looked v"
  shows "cache_ok env view inv (step_looked env now i v st)"
proof -
  let ?j = "cjobs st ! i"
  have p: "jqFetched ?j = None" "read_ok env (cjobs st) (job_key env ?j) v" "\<not> flying (jqPc ?j)"
    using ok_pc [OF assms(1,2)] assms(3) by (simp_all add: pc_ok_def flying_def)
  note join = join_ok [OF assms(1,2) p(3,1)]
  have i: "inv (cstore st)" by (rule ok_good [OF assms(1)])
  consider "v = None" | e t where "v = Some (Other e)" "legitimate env (cjobs st) (job_key env ?j) e t"
    using p(2) by (auto simp: read_ok_def split: option.splits kv_value.splits)
  then show ?thesis
  proof cases
    case 1
    then show ?thesis using join by (simp add: step_looked_def)
  next
    case (2 e t)
    have drop: "cache_ok env view inv (set_pc i Joining (st\<lparr>cstore := snd (delete_op (ceOps env) (job_key env ?j) (cstore st))\<rparr>))"
      using p(1) remove_inv [OF i] remove_view [OF i]
      by (intro quiet_ok [OF assms(1,2) p(3)]) (auto simp: pc_ok_def split: if_splits)
    have hit: "canServe (ceCfg env) (job_credentialed env ?j) e \<Longrightarrow>
        cache_ok env view inv (set_pc i (answer FromCache (replay (to_upper (cqMethod (jqReq ?j))) e)) st)"
      using quiet_ok [OF assms(1,2) p(3), of _ "cstore st"] pc_ok_hit [OF 2(2)] i by simp
    show ?thesis using 2(1) join drop hit by (simp add: step_looked_def Let_def)
  qed
qed

lemma relooked_ok:
  assumes "cache_ok env view inv st" and "i < length (cjobs st)" and "jqPc (cjobs st ! i) = Relooked since v"
  shows "cache_ok env view inv (step_relooked env i since v st)"
proof -
  let ?j = "cjobs st ! i"
  have p: "jqFetched ?j = None" "read_ok env (cjobs st) (job_key env ?j) v" "\<not> flying (jqPc ?j)"
    using ok_pc [OF assms(1,2)] assms(3) by (simp_all add: pc_ok_def flying_def)
  note exe = execution_ok [OF assms(1,2) p(3,1)]
  have i: "inv (cstore st)" by (rule ok_good [OF assms(1)])
  consider "v = None" | e t where "v = Some (Other e)" "legitimate env (cjobs st) (job_key env ?j) e t"
    using p(2) by (auto simp: read_ok_def split: option.splits kv_value.splits)
  then show ?thesis
  proof cases
    case (2 e t)
    have hit: "canServe (ceCfg env) (job_credentialed env ?j) e \<Longrightarrow>
        cache_ok env view inv (set_pc i (answer FromCache (replay (to_upper (cqMethod (jqReq ?j))) e)) st)"
      using quiet_ok [OF assms(1,2) p(3), of _ "cstore st"] pc_ok_hit [OF 2(2)] i by simp
    show ?thesis using 2(1) exe hit by (simp add: step_relooked_def Let_def)
  qed (simp add: step_relooked_def exe)
qed

lemma execute_ok:
  assumes "cache_ok env view inv st" and "i < length (cjobs st)" and "jqPc (cjobs st ! i) = Execute"
  shows "cache_ok env view inv (step_execute env now i out st)"
proof (cases out)
  case Rejects
  then show ?thesis using settle_same_ok [OF assms(1,2)] by (simp add: step_execute_def)
next
  case (Returns r)
  let ?j = "cjobs st ! i" and ?f = "(cjobs st ! i)\<lparr>jqFetched := Some r\<rparr>"
  have none: "jqFetched ?j = None" using ok_pc [OF assms(1,2)] assms(3) by (simp add: pc_ok_def)
  have pass: "cache_ok env view inv (settle env i (Done Uncached r) (st\<lparr>cjobs := (cjobs st)[i := ?f]\<rparr>))"
    using none by (intro settle_ok [OF assms(1,2)]) (auto simp: pc_ok_def)
  have keep: "cache_ok env view inv (set_pc i (Persist r) (st\<lparr>cjobs := (cjobs st)[i := ?f]\<rparr>))"
    if "crStatus r \<in> set (statusCodes (ceCfg env))" "canStoreSharedResponse (ceCfg env) (ceDate env) now r (job_credentialed env ?j)"
  proof -
    have "pc_ok env (cjobs st) (?f\<lparr>jqPc := Persist r\<rparr>)"
      using that by (auto simp: pc_ok_def fetched_ok_def job_credentialed_def)
    then have "cache_ok env view inv \<lparr>cstore = cstore st, cjobs = (cjobs st)[i := ?f\<lparr>jqPc := Persist r\<rparr>], inFlight = inFlight st\<rparr>"
      using none ok_good [OF assms(1)] ok_flight [OF assms(1)]
      by (intro cache_ok_update [OF assms(1,2)]) (auto simp: flying_def)
    then show ?thesis using assms(2) by (simp add: set_pc_eq)
  qed
  show ?thesis using Returns pass keep by (simp add: step_execute_def Let_def)
qed

lemma persist_ok:
  assumes "cache_ok env view inv st" and "i < length (cjobs st)" and "jqPc (cjobs st ! i) = Persist r"
  shows "cache_ok env view inv (step_persist env now i out r st)"
proof (cases out)
  case Rejects
  then show ?thesis using settle_same_ok [OF assms(1,2)] by (simp add: step_persist_def Let_def)
next
  case (Returns x)
  let ?j = "cjobs st ! i" and ?k = "job_key env (cjobs st ! i)"
  let ?e = "make_entry (ceCfg env) (job_base env ?j) now r"
  let ?ttl = "Some (effectiveTtl (ceCfg env) (ceDate env) now (jqTtl ?j) r)"
  let ?s = "set_op (ceOps env) now ?k (Other ?e) ?ttl (cstore st)"
  have f: "fetched_ok env ?j r" using ok_pc [OF assms(1,2)] assms(3) by (simp add: pc_ok_def)
  have g: "inv (cstore st)" by (rule ok_good [OF assms(1)])
  have at: "enCachedAt ?e = now" by (simp add: make_entry_def)
  have legit: "legitimate env (cjobs st) ?k ?e t" if "unexpired now ?ttl t" for t
  proof -
    have "came_from env (cjobs st) ?k ?e t i r"
      unfolding came_from_def at using f that assms(2) by (simp add: fetched_ok_def)
    then show ?thesis unfolding legitimate_def by blast
  qed
  have pc: "pc_ok env (cjobs st) (?j\<lparr>jqPc := Stored r\<rparr>)"
    using f by (simp add: pc_ok_def fetched_ok_def job_credentialed_def)
  have "cache_ok env view inv \<lparr>cstore = ?s, cjobs = (cjobs st)[i := ?j\<lparr>jqPc := Stored r\<rparr>], inFlight = inFlight st\<rparr>"
  proof (rule cache_ok_update [OF assms(1,2) _ _ _ pc])
    show "view t ?s k = Some v \<Longrightarrow> view t (cstore st) k = Some v \<or> (\<exists>e. v = Other e \<and> legitimate env (cjobs st) k e t)" for t k v
      using put_written [OF g, of t now ?k "Other ?e" ?ttl v] put_other [OF g, of k ?k t now "Other ?e" ?ttl v] legit [of t]
      by (cases "k = ?k") auto
    show "inv ?s" by (rule put_inv [OF g])
    show "n = i \<and> k = ?k \<and> flying (jqPc (?j\<lparr>jqPc := Stored r\<rparr>)) \<or> n \<noteq> i \<and> map_of (inFlight st) k = Some n"
      if "map_of (inFlight st) k = Some n" for k n using ok_flight [OF assms(1) that] that by (auto simp: flying_def)
  qed simp_all
  then show ?thesis using Returns by (simp add: step_persist_def Let_def set_pc_eq)
qed

lemma start_ok:
  assumes "cache_ok env view inv st" and "i < length (cjobs st)" and "jqPc (cjobs st ! i) = Start"
  shows "cache_ok env view inv (step_start env i st)"
proof -
  have p: "jqFetched (cjobs st ! i) = None" "\<not> flying (jqPc (cjobs st ! i))"
    using ok_pc [OF assms(1,2)] assms(3) by (simp_all add: pc_ok_def flying_def)
  have "pc = Direct \<or> pc = Lookup \<Longrightarrow> cache_ok env view inv (set_pc i pc st)" for pc
    using quiet_ok [OF assms(1,2) p(2), of pc "cstore st"] ok_good [OF assms(1)] p(1) by (auto simp: pc_ok_def)
  then show ?thesis by (simp add: step_start_def Let_def)
qed

lemma run_ok:
  assumes "cache_ok env view inv st" and "i < length (cjobs st)"
  shows "cache_ok env view inv (run_job env now i out st)"
proof -
  let ?j = "cjobs st ! i"
  note pc = ok_pc [OF assms]
  have none: "jqPc ?j = Lookup \<or> jqPc ?j = Joining \<Longrightarrow> jqFetched ?j = None \<and> \<not> flying (jqPc ?j)"
    using pc by (auto simp: pc_ok_def flying_def)
  have key: "job_key env (?j\<lparr>jqPc := p\<rparr>) = job_key env ?j" for p by (simp add: job_key_def)
  show ?thesis
  proof (cases "jqPc ?j")
    case Start
    then show ?thesis using start_ok [OF assms] by (simp add: run_job_def)
  next
    case Direct
    have "cache_ok env view inv (set_pc i (case out of Rejects \<Rightarrow> Failed OriginFailed | Returns r \<Rightarrow> Done Bypassed r) (st\<lparr>cstore := cstore st\<rparr>))"
      using ok_good [OF assms(1)] Direct
      by (intro quiet_ok [OF assms]) (auto simp: flying_def pc_ok_def split: origin_outcome.splits)
    then show ?thesis using Direct by (simp add: run_job_def)
  next
    case Lookup
    have "cache_ok env view inv (read_key env now i Looked st)"
      using none Lookup key by (intro read_step_ok [OF assms]) (simp_all add: pc_ok_def)
    then show ?thesis using join_ok [OF assms] none Lookup by (simp add: run_job_def step_lookup_def)
  next
    case (Looked v)
    then show ?thesis using looked_ok [OF assms] by (simp add: run_job_def)
  next
    case Joining
    then show ?thesis using join_ok [OF assms] none by (simp add: run_job_def)
  next
    case (Wait e since)
    have "cache_ok env view inv (read_key env now i (Relooked since) st)"
      using pc Wait key by (intro read_step_ok [OF assms]) (simp_all add: pc_ok_def flying_def)
    then show ?thesis using Wait assms(1) by (simp add: run_job_def)
  next
    case (Relooked since v)
    then show ?thesis using relooked_ok [OF assms] by (simp add: run_job_def)
  next
    case Execute
    then show ?thesis using execute_ok [OF assms] by (simp add: run_job_def)
  next
    case (Persist r)
    then show ?thesis using persist_ok [OF assms] by (simp add: run_job_def)
  next
    case (Stored r)
    then show ?thesis using settle_same_ok [OF assms pc_ok_answer [of FromOrigin]] by (simp add: run_job_def)
  qed (use assms(1) in \<open>simp_all add: run_job_def\<close>)
qed

lemma arrive_ok:
  assumes "cache_ok env view inv st"
  shows "cache_ok env view inv (cache_step env now (Arrive r ttl) st)"
proof -
  let ?j = "\<lparr>jqReq = r, jqTtl = ttl, jqPc = Start, jqFetched = None\<rparr>"
  have ext: "extends (cjobs st) (cjobs st @ [?j])" by (simp add: extends_def nth_append)
  have "\<exists>e. v = Other e \<and> legitimate env (cjobs st @ [?j]) k e t" if "view t (cstore st) k = Some v" for t k v
    using ok_entry [OF assms that] legitimate_mono [OF ext] by blast
  moreover have "pc_ok env (cjobs st @ [?j]) j" if "j \<in> set (cjobs st @ [?j])" for j
  proof (cases "j \<in> set (cjobs st)")
    case True
    then have "pc_ok env (cjobs st) j" using assms by (simp add: cache_ok_def)
    then show ?thesis by (rule pc_ok_mono [OF ext])
  next
    case False
    then have "j = ?j" using that by simp
    then show ?thesis by (simp add: pc_ok_def)
  qed
  moreover have "n < length (cjobs st @ [?j]) \<and> job_key env ((cjobs st @ [?j]) ! n) = k \<and> flying (jqPc ((cjobs st @ [?j]) ! n))"
    if "map_of (inFlight st) k = Some n" for k n
    using ok_flight [OF assms that] by (simp add: nth_append)
  ultimately show ?thesis using ok_good [OF assms] by (simp add: cache_ok_def)
qed

lemma reach_ok:
  assumes "cache_reach env s0 st" and "inv s0" and "\<And>t k. view t s0 k = None"
  shows "cache_ok env view inv st"
  using assms(1)
proof (induction rule: cache_reach.induct)
  case start
  then show ?case using assms(2,3) by (simp add: cache_ok_def)
next
  case (step st now ev)
  then show ?case using arrive_ok run_ok by (cases ev) simp_all
qed

end

section \<open>Entries\<close>

lemma map_of_filter_key: "map_of (filter (\<lambda>(k, v). P k) m) k = (if P k then map_of m k else None)"
  by (induction m) auto

lemma entry_lookup:
  assumes "to_lower k = k"
  shows "map_of (enHeaders (make_entry cfg b now r)) k =
    (if k \<in> set NON_CACHEABLE_HEADERS then None
     else if k = ''vary'' then (case mergeVary (headers_get ''vary'' (crHeaders r)) (varyHeaders cfg) of
         None \<Rightarrow> headers_get ''vary'' (crHeaders r) | Some v \<Rightarrow> Some (http_trim v))
     else headers_get k (crHeaders r))"
proof -
  have v: "to_lower ''vary'' = ''vary''" by code_simp
  have "map_of (hmap (replay_headers cfg r)) k =
      (if k = ''vary'' then (case mergeVary (headers_get ''vary'' (crHeaders r)) (varyHeaders cfg) of
         None \<Rightarrow> headers_get ''vary'' (crHeaders r) | Some v \<Rightarrow> Some (http_trim v))
       else headers_get k (crHeaders r))"
    using assms v by (auto simp: replay_headers_def headers_set_def headers_get_def map_of_update split: option.splits)
  then show ?thesis using assms by (simp add: make_entry_def map_of_filter_key)
qed

lemma lower_constants:
  "to_lower ''cache-control'' = ''cache-control''" "to_lower ''pragma'' = ''pragma''" "to_lower ''vary'' = ''vary''"
  "to_lower ''expires'' = ''expires''"
  "''cache-control'' \<notin> set NON_CACHEABLE_HEADERS" "''pragma'' \<notin> set NON_CACHEABLE_HEADERS" "''vary'' \<notin> set NON_CACHEABLE_HEADERS"
  "''cache-control'' \<noteq> ''vary''" "''pragma'' \<noteq> ''vary''" "''expires'' \<noteq> ''vary''"
  by code_simp+

lemma entry_cc [simp]: "map_of (enHeaders (make_entry cfg b now r)) ''cache-control'' = headers_get ''cache-control'' (crHeaders r)"
  by (subst entry_lookup) (simp_all only: lower_constants if_False)

lemma entry_pragma [simp]: "map_of (enHeaders (make_entry cfg b now r)) ''pragma'' = headers_get ''pragma'' (crHeaders r)"
  by (subst entry_lookup) (simp_all only: lower_constants if_False)

lemma private_dropped: "list_all (\<lambda>x. to_lower x = x \<and> x \<in> set NON_CACHEABLE_HEADERS) PRIVATE_RESPONSE_HEADERS"
  by code_simp

lemma entry_private: "x \<in> set PRIVATE_RESPONSE_HEADERS \<Longrightarrow> map_of (enHeaders (make_entry cfg b now r)) x = None"
  using private_dropped by (simp add: list_all_iff entry_lookup)

text \<open>The \<open>Vary\<close> list with the configured names.\<close>

definition vary_token :: "string \<Rightarrow> bool" where
  "vary_token h = (h \<noteq> [] \<and> trim h = h \<and> CHR '','' \<notin> set h \<and> h \<noteq> ''*'')"

lemma vary_push_set: "set (vary_push hs ns seen) \<subseteq> set ns \<union> set hs"
  by (induction hs ns seen rule: vary_push.induct) auto

lemma join_ends:
  "ns \<noteq> [] \<Longrightarrow> \<forall>n \<in> set ns. n \<noteq> [] \<Longrightarrow> join sep ns \<noteq> [] \<and> hd (join sep ns) = hd (hd ns) \<and> last (join sep ns) = last (last ns)"
  by (induction ns rule: induct_list012) (auto simp: last_append)

lemma trim_edges: "trim h = h \<Longrightarrow> h \<noteq> [] \<Longrightarrow> \<not> is_ws (hd h) \<and> \<not> is_ws (last h)"
  using trim_ends [of h] by simp

lemma http_trim_id: "s \<noteq> [] \<Longrightarrow> \<not> http_ws (hd s) \<Longrightarrow> \<not> http_ws (last s) \<Longrightarrow> http_trim s = s"
  by (simp add: http_trim_def dropWhile_eq_self_iff [THEN iffD2] hd_rev)

lemma http_ws_is_ws: "http_ws c \<Longrightarrow> is_ws c"
  by (auto simp: http_ws_def is_ws_def Let_def)

lemma join_vary:
  assumes "ns \<noteq> []" and "\<forall>n \<in> set ns. n \<noteq> [] \<and> trim n = n \<and> CHR '','' \<notin> set n"
  shows "http_trim (join '', '' ns) = join '', '' ns"
    and "map trim (split_on CHR '','' (join '', '' ns)) = ns"
proof -
  have e: "join '', '' ns \<noteq> []" "hd (join '', '' ns) = hd (hd ns)" "last (join '', '' ns) = last (last ns)"
    using join_ends [OF assms(1), of "'', ''"] assms(2) by auto
  have "\<not> is_ws (hd (hd ns))" "\<not> is_ws (last (last ns))"
    using assms trim_edges [of "hd ns"] trim_edges [of "last ns"] by simp_all
  then show "http_trim (join '', '' ns) = join '', '' ns" using e http_ws_is_ws by (intro http_trim_id) auto
  have "split_on CHR '','' (join '', '' ns) = hd ns # map ((#) CHR '' '') (tl ns)"
    using assms by (intro split_join_sp) auto
  moreover have "map (trim \<circ> (#) CHR '' '') (tl ns) = tl ns"
    using assms(2) by (intro map_idI) (auto simp: trim_space dest: list.set_sel(2) [OF assms(1)])
  ultimately show "map trim (split_on CHR '','' (join '', '' ns)) = ns" using assms by simp
qed

lemma existing_vary_ok:
  assumes "n \<in> set (existing_vary old)"
  shows "n \<noteq> [] \<and> trim n = n \<and> CHR '','' \<notin> set n"
proof -
  obtain s p where s: "p \<in> set (split_on CHR '','' s)" "n = trim p" "n \<noteq> []"
    using assms by (cases old) (auto simp: existing_vary_def split: if_splits)
  have "CHR '','' \<notin> set n" using split_pieces_no_sep [OF s(1)] set_trim [of p] s(2) by blast
  then show ?thesis using s(2,3) by simp
qed

lemma merged_vary:
  assumes "mergeVary old hs = Some v" and "\<forall>h \<in> set hs. vary_token h"
  obtains ns where "http_trim v = v" "map trim (split_on CHR '','' v) = ns" "v \<noteq> []"
    "\<forall>n \<in> set ns. n \<in> set hs \<or> n \<in> set (existing_vary old)"
proof -
  define ns where "ns = vary_push hs (existing_vary old) (map to_lower (existing_vary old))"
  have ns: "ns \<noteq> []" "v = join '', '' ns" using assms(1) by (auto simp: mergeVary_def Let_def ns_def split: if_splits)
  have mem: "n \<in> set hs \<or> n \<in> set (existing_vary old)" if "n \<in> set ns" for n
    using vary_push_set [of hs "existing_vary old"] that unfolding ns_def by blast
  have all: "\<forall>n \<in> set ns. n \<noteq> [] \<and> trim n = n \<and> CHR '','' \<notin> set n"
  proof
    fix n assume "n \<in> set ns"
    then show "n \<noteq> [] \<and> trim n = n \<and> CHR '','' \<notin> set n"
      using mem [of n] existing_vary_ok [of n old] assms(2) by (auto simp: vary_token_def)
  qed
  have ne: "v \<noteq> []" unfolding ns(2) using join_ends [OF ns(1)] all by blast
  show thesis by (rule that [of ns]) (use join_vary [OF ns(1) all] ns(2) ne mem in auto)
qed

text \<open>What may be stored may be served to the same kind of request.\<close>

definition cache_config_ok :: "cache_config \<Rightarrow> bool" where
  "cache_config_ok cfg =
     (list_all (\<lambda>h. vary_token h \<and> to_lower h \<in> set (representedVaryHeaders cfg)) (varyHeaders cfg))"

lemma parseVary_existing: "parseVary v = map to_lower (existing_vary v)"
proof -
  have "to_lower h = [] \<longleftrightarrow> h = []" for h by (simp add: to_lower_def)
  then have "filter (\<lambda>h. h \<noteq> []) (map (\<lambda>h. to_lower (trim h)) ps) = map to_lower (filter (\<lambda>h. h \<noteq> []) (map trim ps))" for ps
    by (induction ps) auto
  then show ?thesis by (simp add: parseVary_def existing_vary_def split: option.split)
qed

lemma wildcard_existing: "v \<noteq> Some [] \<Longrightarrow> hasWildcardVary v \<longleftrightarrow> ''*'' \<in> set (existing_vary v)"
proof -
  assume v: "v \<noteq> Some []"
  have "w \<noteq> [] \<Longrightarrow> list_ex (\<lambda>h. trim h = w) ps \<longleftrightarrow> w \<in> set (filter (\<lambda>h. h \<noteq> []) (map trim ps))" for w ps
    by (auto simp: list_ex_iff)
  from this [OF list.distinct(2)] show ?thesis using v by (cases v) (simp_all only: hasWildcardVary_def existing_vary_def option.case list.set empty_iff option.inject if_False)
qed

lemma storable_servable:
  assumes "cache_config_ok cfg" and "canStoreSharedResponse cfg parse_date t r credentialed"
  shows "canServe cfg credentialed (make_entry cfg b now r)"
proof -
  let ?e = "make_entry cfg b now r" and ?cc = "headers_get ''cache-control'' (crHeaders r)"
  let ?v = "headers_get ''vary'' (crHeaders r)"
  have st: "\<not> (hasDirective ?cc SHARED_CACHE_PROHIBITED_DIRECTIVES \<or> hasZeroMaxAge ?cc)"
    "\<not> hasPragmaNoCache (headers_get ''pragma'' (crHeaders r))" "credentialed \<longrightarrow> isExplicitlyPublic ?cc"
    "\<not> hasWildcardVary ?v" "list_all (\<lambda>x. x \<in> set (representedVaryHeaders cfg)) (parseVary ?v)"
    using assms(2) by (auto simp: canStoreSharedResponse_def Let_def list_ex_iff list_all_iff split: if_splits)
  have ev: "map_of (enHeaders ?e) ''vary'' = (case mergeVary ?v (varyHeaders cfg) of None \<Rightarrow> ?v | Some v \<Rightarrow> Some (http_trim v))"
    by (subst entry_lookup) (simp_all only: lower_constants if_False if_True refl)
  have vary: "\<not> hasWildcardVary (map_of (enHeaders ?e) ''vary'') \<and>
      list_all (\<lambda>x. x \<in> set (representedVaryHeaders cfg)) (parseVary (map_of (enHeaders ?e) ''vary''))"
  proof (cases "mergeVary ?v (varyHeaders cfg)")
    case None
    then show ?thesis using st(4,5) unfolding ev by simp
  next
    case (Some v)
    have tok: "\<forall>h \<in> set (varyHeaders cfg). vary_token h" using assms(1) by (simp add: cache_config_ok_def list_all_iff)
    obtain ns where ns: "http_trim v = v" "map trim (split_on CHR '','' v) = ns" "v \<noteq> []"
        "\<forall>n \<in> set ns. n \<in> set (varyHeaders cfg) \<or> n \<in> set (existing_vary ?v)"
      by (rule merged_vary [OF Some tok])
    have "set (existing_vary (Some v)) \<subseteq> set ns"
      unfolding existing_vary_def option.case ns(2) [symmetric] using ns(3) by (simp only: if_False filter_is_subset)
    then have sub: "set (existing_vary (Some v)) \<subseteq> set (varyHeaders cfg) \<union> set (existing_vary ?v)" using ns(4) by blast
    have old: "''*'' \<notin> set (existing_vary ?v)"
    proof (cases "?v = Some []")
      case True
      show ?thesis unfolding True by (simp add: existing_vary_def)
    next
      case False
      show ?thesis using st(4) wildcard_existing [OF False] by simp
    qed
    have "''*'' \<notin> set (varyHeaders cfg)"
    proof
      assume "''*'' \<in> set (varyHeaders cfg)"
      then have "vary_token ''*''" using tok by (rule bspec [rotated])
      then show False unfolding vary_token_def by (simp only: simp_thms)
    qed
    then have "''*'' \<notin> set (existing_vary (Some v))" using sub old by (meson UnE subsetD)
    moreover have "Some v \<noteq> Some []" using ns(3) by (simp only: option.inject not_False_eq_True)
    ultimately have "\<not> hasWildcardVary (Some v)" using wildcard_existing [of "Some v"] by (simp only: not_False_eq_True)
    moreover have "list_all (\<lambda>x. x \<in> set (representedVaryHeaders cfg)) (parseVary (Some v))"
      using sub st(5) assms(1) by (auto simp: parseVary_existing list_all_iff cache_config_ok_def)
    ultimately show ?thesis unfolding ev using Some ns(1) by simp
  qed
  have "\<not> list_ex (\<lambda>x. map_of (enHeaders ?e) x \<noteq> None) PRIVATE_RESPONSE_HEADERS" by (auto simp: list_ex_iff entry_private)
  then have "canReplaySharedResponse cfg ?e"
    unfolding canReplaySharedResponse_def entry_cc entry_pragma Let_def using st vary by (simp add: list_ex_iff list_all_iff)
  then show ?thesis using st(3) unfolding canServe_def entry_cc by blast
qed

text \<open>The replayed response.\<close>

lemma unat_octet: "\<forall>b \<in> set (map unat (bs :: octets)). b < 256"
  using unsigned_less [where 'b = 8 and 'a = nat] by (auto simp: nat_less_iff)

lemma replay_entry:
  assumes "replay m (make_entry cfg b now r) = Inr x"
  shows "crStatus x = crStatus r \<and> crBody x = (if m = ''HEAD'' then NullBody else Bytes (response_octets r))"
proof -
  have "base64ToBytes (enBody (make_entry cfg b now r)) = Some (map unat (response_octets r))"
    using base64_roundtrip [OF unat_octet] by (simp add: make_entry_def)
  then show ?thesis
    using assms by (auto simp: replay_def make_entry_def new_response_def o_def split: if_splits)
qed

end
