(* ===== verification/Cache_Keys.thy ===== *)
theory Cache_Keys
  imports Cache_Inv
begin

text \<open>
  The keys of the response cache: what two requests with the same key have in common, and which
  entries \<open>invalidate\<close> deletes.
\<close>

section \<open>Encoded text\<close>

lemma encode_latin1: "encodeURIComponent (uni s) \<noteq> None"
proof (induction s)
  case (Cons c s)
  have "\<not> 0xDC00 \<le> (of_char c :: nat)" "\<not> 0xD800 \<le> (of_char c :: nat)"
    using nat_of_char_less_256 [of c] by linarith+
  then show ?case using Cons by (simp add: uni_def)
qed (simp add: uni_def)

text \<open>Scalar value strings are those \<open>encodeURIComponent\<close> accepts.\<close>

definition scalar :: "ustring \<Rightarrow> bool" where
  "scalar u = (encodeURIComponent u \<noteq> None \<and> list_all (\<lambda>x. x < 0x10000) u)"

lemma scalar_uni: "scalar (uni s)"
  using encode_latin1 by (auto simp: scalar_def list_all_iff uni_def intro: less_trans [OF nat_of_char_less_256])

lemma encoded_inj: "scalar u \<Longrightarrow> scalar v \<Longrightarrow> encoded u = encoded v \<Longrightarrow> u = v"
proof -
  assume s: "scalar u" "scalar v" and e: "encoded u = encoded v"
  have d: "decodeURIComponent (encoded w) = Some w" if "scalar w" for w
    using that by (auto simp: scalar_def encoded_def default_to_def list_all_iff intro: decode_encode)
  have "Some u = Some v" using d [OF s(1)] d [OF s(2)] unfolding e by (rule trans [OF sym])
  then show ?thesis by (rule option.inject [THEN iffD1])
qed

lemma encoded_chars_safe: "scalar u \<Longrightarrow> c \<in> set (encoded u) \<Longrightarrow> uri_safe_char c"
proof -
  assume u: "scalar u" and c: "c \<in> set (encoded u)"
  obtain e where e: "encodeURIComponent u = Some e" using u by (auto simp: scalar_def)
  have "\<forall>x \<in> set u. x < 0x10000" using u by (simp add: scalar_def list_all_iff)
  then show ?thesis using encode_safe [OF e] c e by (simp add: encoded_def default_to_def)
qed

lemma safe_not_special:
  "uri_safe_char c \<Longrightarrow> c \<noteq> CHR ''='' \<and> c \<noteq> CHR ''&'' \<and> c \<noteq> CHR ''|'' \<and> c \<noteq> CHR ''#'' \<and> c \<noteq> CHR ''?''"
  by (auto simp: uri_safe_char_def uri_unreserved_def)

lemma encoded_plain:
  assumes "scalar u"
  shows "CHR ''='' \<notin> set (encoded u)" "CHR ''&'' \<notin> set (encoded u)" "CHR ''|'' \<notin> set (encoded u)"
    "CHR ''#'' \<notin> set (encoded u)" "CHR ''?'' \<notin> set (encoded u)"
  using encoded_chars_safe [OF assms] safe_not_special by blast+

text \<open>Splitting equal texts at a separator.\<close>

lemma first_sep: "c \<notin> set p \<Longrightarrow> c \<notin> set q \<Longrightarrow> p @ c # s = q @ c # t \<Longrightarrow> p = q \<and> s = t"
proof (induction p arbitrary: q)
  case Nil
  then show ?case by (cases q) auto
next
  case (Cons x p)
  then show ?case by (cases q) auto
qed

lemma last_sep:
  assumes "c \<notin> set s" and "c \<notin> set t" and "p @ c # s = q @ c # t"
  shows "p = q \<and> s = t"
proof -
  have "rev s @ c # rev p = rev t @ c # rev q" using arg_cong [OF assms(3), of rev] by simp
  from first_sep [OF _ _ this] assms(1,2) show ?thesis by simp
qed

lemma tail_sep:
  "x @ a = y @ b \<Longrightarrow> c \<notin> set x \<Longrightarrow> c \<notin> set y \<Longrightarrow> a = [] \<or> (\<exists>z. a = c # z) \<Longrightarrow> b = [] \<or> (\<exists>z. b = c # z) \<Longrightarrow> x = y \<and> a = b"
proof (induction x arbitrary: y)
  case Nil
  then show ?case by (cases y) auto
next
  case (Cons d x)
  then show ?case by (cases y) auto
qed

section \<open>The parts of a key\<close>

text \<open>What the URL standard guarantees of a parsed URL, and a method that is a token.\<close>

definition scheme_of :: "cache_url \<Rightarrow> string" where
  "scheme_of u = (if ends_with (cuProtocol u) '':'' then butlast (cuProtocol u) else cuProtocol u)"

definition request_ok :: "cache_request \<Rightarrow> bool" where
  "request_ok r =
     (list_all (\<lambda>c. c \<notin> set (cqMethod r)) '':#|'' \<and>
      list_all (\<lambda>c. c \<notin> set (scheme_of (cqUrl r))) '':/#|'' \<and>
      list_all (\<lambda>c. c \<notin> set (cuHost (cqUrl r))) ''/#|'' \<and>
      starts_with (cuPathname (cqUrl r)) ''/'' \<and> list_all (\<lambda>c. c \<notin> set (cuPathname (cqUrl r))) ''?#'' \<and>
      list_all (\<lambda>(n, v). scalar n \<and> scalar v) (cuParams (cqUrl r)))"

definition selected :: "ustring list option \<Rightarrow> cache_url \<Rightarrow> (ustring \<times> ustring) list" where
  "selected qp u = sort_key fst (filter (\<lambda>(name, _). case qp of None \<Rightarrow> True | Some q \<Rightarrow> name \<in> set q) (cuParams u))"

definition pair_text :: "ustring \<times> ustring \<Rightarrow> string" where
  "pair_text p = encoded (fst p) @ ''='' @ encoded (snd p)"

lemma sort_key_Nil: "sort_key f xs = [] \<longleftrightarrow> xs = []"
  by (metis length_0_conv length_sort)

lemma normalizeSearch_eq:
  "normalizeSearch qp u = (if selected qp u = [] then [] else CHR ''?'' # join ''&'' (map pair_text (selected qp u)))"
  unfolding normalizeSearch_def selected_def Let_def sort_key_Nil
  by (auto simp: pair_text_def case_prod_beta intro!: arg_cong [where f = "join _"])

lemma selected_scalar: "request_ok r \<Longrightarrow> p \<in> set (selected qp (cqUrl r)) \<Longrightarrow> scalar (fst p) \<and> scalar (snd p)"
  by (auto simp: request_ok_def selected_def list_all_iff)

lemma pair_text_inj:
  assumes "scalar (fst p) \<and> scalar (snd p)" and "scalar (fst q) \<and> scalar (snd q)" and "pair_text p = pair_text q"
  shows "p = q"
proof -
  have "encoded (fst p) = encoded (fst q) \<and> encoded (snd p) = encoded (snd q)"
    using assms by (intro first_sep [of "CHR ''=''"]) (auto simp: pair_text_def dest: encoded_plain(1))
  then show ?thesis using assms encoded_inj [of "fst p" "fst q"] encoded_inj [of "snd p" "snd q"] by (simp add: prod_eq_iff)
qed

lemma pair_text_chars:
  assumes "scalar (fst p) \<and> scalar (snd p)"
  shows "CHR ''&'' \<notin> set (pair_text p) \<and> CHR ''|'' \<notin> set (pair_text p) \<and> CHR ''#'' \<notin> set (pair_text p)"
  using assms encoded_plain [of "fst p"] encoded_plain [of "snd p"] by (simp add: pair_text_def)

lemma search_inj:
  assumes "request_ok r" and "request_ok s" and "normalizeSearch qp (cqUrl r) = normalizeSearch qp (cqUrl s)"
  shows "selected qp (cqUrl r) = selected qp (cqUrl s)"
proof (cases "selected qp (cqUrl r) = [] \<or> selected qp (cqUrl s) = []")
  case True
  then show ?thesis using assms(3) by (auto simp: normalizeSearch_eq split: if_splits)
next
  case False
  let ?a = "selected qp (cqUrl r)" and ?b = "selected qp (cqUrl s)"
  have j: "join ''&'' (map pair_text ?a) = join ''&'' (map pair_text ?b)" using assms(3) False by (simp add: normalizeSearch_eq)
  have na: "\<forall>p \<in> set (map pair_text ?a). CHR ''&'' \<notin> set p" and nb: "\<forall>p \<in> set (map pair_text ?b). CHR ''&'' \<notin> set p"
    using selected_scalar [OF assms(1)] selected_scalar [OF assms(2)] pair_text_chars by auto
  have "split_on CHR ''&'' (join ''&'' (map pair_text ?a)) = map pair_text ?a"
    "split_on CHR ''&'' (join ''&'' (map pair_text ?b)) = map pair_text ?b"
    using False by (intro split_join na nb; simp)+
  then have "map pair_text ?a = map pair_text ?b" unfolding j by metis
  moreover have "inj_on pair_text (set ?a \<union> set ?b)"
    using pair_text_inj selected_scalar [OF assms(1)] selected_scalar [OF assms(2)] unfolding inj_on_def by blast
  ultimately show ?thesis by (simp add: inj_on_map_eq_map)
qed

lemma search_chars:
  assumes "request_ok r"
  shows "CHR ''|'' \<notin> set (normalizeSearch qp (cqUrl r))" "CHR ''#'' \<notin> set (normalizeSearch qp (cqUrl r))"
proof -
  have "CHR ''|'' \<notin> set (join ''&'' (map pair_text (selected qp (cqUrl r)))) \<and>
    CHR ''#'' \<notin> set (join ''&'' (map pair_text (selected qp (cqUrl r))))"
    using pair_text_chars selected_scalar [OF assms] by (auto dest!: join_set)
  then show "CHR ''|'' \<notin> set (normalizeSearch qp (cqUrl r))" "CHR ''#'' \<notin> set (normalizeSearch qp (cqUrl r))"
    by (auto simp: normalizeSearch_eq)
qed

text \<open>The default generator is injective in the parts it names.\<close>

lemma default_key_eq:
  "defaultKeyGenerator qp r =
     cqMethod r @ CHR '':'' # scheme_of (cqUrl r) @ CHR ''/'' # CHR ''/'' # cuHost (cqUrl r) @ CHR '':'' # cuPathname (cqUrl r) @ normalizeSearch qp (cqUrl r)"
  by (simp add: defaultKeyGenerator_def scheme_of_def Let_def)

lemma request_parts:
  assumes "request_ok r"
  shows "CHR '':'' \<notin> set (cqMethod r)" "CHR ''/'' \<notin> set (scheme_of (cqUrl r))" "CHR '':'' \<notin> set (scheme_of (cqUrl r))"
    "CHR ''/'' \<notin> set (cuHost (cqUrl r))" "CHR ''?'' \<notin> set (cuPathname (cqUrl r))" "\<exists>p. cuPathname (cqUrl r) = CHR ''/'' # p"
  using assms by (simp_all add: request_ok_def) (cases "cuPathname (cqUrl r)"; simp)

lemma default_key_inj:
  assumes "request_ok r" and "request_ok s" and "defaultKeyGenerator qp r = defaultKeyGenerator qp s"
  shows "cqMethod r = cqMethod s \<and> scheme_of (cqUrl r) = scheme_of (cqUrl s) \<and> cuHost (cqUrl r) = cuHost (cqUrl s) \<and>
    cuPathname (cqUrl r) = cuPathname (cqUrl s) \<and> selected qp (cqUrl r) = selected qp (cqUrl s)"
proof -
  note r = request_parts [OF assms(1)] and s = request_parts [OF assms(2)]
  have m: "cqMethod r = cqMethod s"
    and 1: "scheme_of (cqUrl r) @ CHR ''/'' # CHR ''/'' # cuHost (cqUrl r) @ CHR '':'' # cuPathname (cqUrl r) @ normalizeSearch qp (cqUrl r) =
      scheme_of (cqUrl s) @ CHR ''/'' # CHR ''/'' # cuHost (cqUrl s) @ CHR '':'' # cuPathname (cqUrl s) @ normalizeSearch qp (cqUrl s)"
    using first_sep [OF r(1) s(1)] assms(3) by (auto simp: default_key_eq)
  have sc: "scheme_of (cqUrl r) = scheme_of (cqUrl s)"
    and 2: "cuHost (cqUrl r) @ CHR '':'' # cuPathname (cqUrl r) @ normalizeSearch qp (cqUrl r) =
      cuHost (cqUrl s) @ CHR '':'' # cuPathname (cqUrl s) @ normalizeSearch qp (cqUrl s)"
    using first_sep [OF r(2) s(2) 1] by (simp_all only: list.inject simp_thms)
  obtain p q where pq: "cuPathname (cqUrl r) = CHR ''/'' # p" "cuPathname (cqUrl s) = CHR ''/'' # q" using r(6) s(6) by blast
  have host: "CHR ''/'' \<notin> set (cuHost (cqUrl r) @ [CHR '':''])" "CHR ''/'' \<notin> set (cuHost (cqUrl s) @ [CHR '':''])"
    using r(4) s(4) by simp_all
  have "(cuHost (cqUrl r) @ [CHR '':'']) @ CHR ''/'' # p @ normalizeSearch qp (cqUrl r) =
      (cuHost (cqUrl s) @ [CHR '':'']) @ CHR ''/'' # q @ normalizeSearch qp (cqUrl s)" using 2 pq by simp
  note split = first_sep [OF host this]
  have h: "cuHost (cqUrl r) = cuHost (cqUrl s)" using conjunct1 [OF split] by (simp only: append_same_eq)
  note 3 = conjunct2 [OF split]
  have n: "CHR ''?'' \<notin> set p" "CHR ''?'' \<notin> set q" using r(5) s(5) pq by simp_all
  have shape: "normalizeSearch qp u = [] \<or> (\<exists>z. normalizeSearch qp u = CHR ''?'' # z)" for u by (simp add: normalizeSearch_eq)
  have "p = q \<and> normalizeSearch qp (cqUrl r) = normalizeSearch qp (cqUrl s)"
    by (rule tail_sep [OF 3 n shape shape])
  then show ?thesis using m sc h pq search_inj [OF assms(1,2)] by simp
qed

section \<open>Keys\<close>

definition segments :: "cache_request \<Rightarrow> string list \<Rightarrow> string" where
  "segments r hs = concat (map (\<lambda>h. ''|'' @ h @ ''='' @ encoded (uni (default_to [] (map_of (cqHeaders r) h)))) hs)"

lemma logical_key_eq: "logical_key cfg r = keyGenerator cfg r @ segments r (representedVaryHeaders cfg)"
  by (simp add: logical_key_def segments_def)

lemma segments_inj:
  "x @ segments r hs = y @ segments s hs \<Longrightarrow>
   x = y \<and> (\<forall>h \<in> set hs. default_to [] (map_of (cqHeaders r) h) = default_to [] (map_of (cqHeaders s) h))"
proof (induction hs rule: rev_induct)
  case (snoc h hs)
  let ?e = "\<lambda>r. encoded (uni (default_to [] (map_of (cqHeaders r) h)))"
  have "(x @ segments r hs @ CHR ''|'' # h) @ CHR ''='' # ?e r = (y @ segments s hs @ CHR ''|'' # h) @ CHR ''='' # ?e s"
    using snoc.prems by (simp add: segments_def)
  then have eq: "x @ segments r hs @ CHR ''|'' # h = y @ segments s hs @ CHR ''|'' # h" "?e r = ?e s"
    using last_sep [OF encoded_plain(1) [OF scalar_uni] encoded_plain(1) [OF scalar_uni]] by blast+
  then have "x @ segments r hs = y @ segments s hs" by (metis append_assoc append_same_eq)
  moreover have "uni (default_to [] (map_of (cqHeaders r) h)) = uni (default_to [] (map_of (cqHeaders s) h))"
    by (rule encoded_inj [OF scalar_uni scalar_uni eq(2)])
  then have "default_to [] (map_of (cqHeaders r) h) = default_to [] (map_of (cqHeaders s) h)"
    using inj_map_eq_map [of "of_char :: char \<Rightarrow> nat"] by (simp add: uni_def inj_def)
  ultimately show ?case using snoc.IH by simp
qed (simp add: segments_def)

lemma no_hash_readable: "request_ok r \<Longrightarrow> CHR ''#'' \<notin> set (defaultKeyGenerator qp r)"
proof -
  assume r: "request_ok r"
  have "CHR ''#'' \<notin> set (cqMethod r)" "CHR ''#'' \<notin> set (scheme_of (cqUrl r))" "CHR ''#'' \<notin> set (cuHost (cqUrl r))"
    "CHR ''#'' \<notin> set (cuPathname (cqUrl r))"
    using r by (simp_all add: request_ok_def)
  then show ?thesis using search_chars(2) [OF r, of qp] by (simp add: default_key_eq)
qed

lemma no_hash_logical:
  assumes "request_ok r" and "keyGenerator cfg = defaultKeyGenerator qp" and "\<forall>h \<in> set (representedVaryHeaders cfg). CHR ''#'' \<notin> set h"
  shows "CHR ''#'' \<notin> set (logical_key cfg r)"
  using assms no_hash_readable [of r qp] encoded_plain(4) [OF scalar_uni]
  by (auto simp: logical_key_eq segments_def)

lemma hash_marker: "HASH_MARKER = CHR ''#'' # ''sha256=''"
  by (simp add: HASH_MARKER_def)

lemma key_cases:
  obtains (plain) "cacheKeyForRequest h cfg r = (ccPrefix cfg @ logical_key cfg r, None)" "int (length (ccPrefix cfg @ logical_key cfg r)) \<le> maxKeyLength cfg"
  | (hashed) n where "cacheKeyForRequest h cfg r =
      (ccPrefix cfg @ take n (keyGenerator cfg r) @ CHR ''#'' # ''sha256='' @ take DIGEST_LENGTH (h (logical_key cfg r)), Some (keyGenerator cfg r))"
      "maxKeyLength cfg < int (length (ccPrefix cfg @ logical_key cfg r))"
proof (cases "int (length (ccPrefix cfg @ logical_key cfg r)) \<le> maxKeyLength cfg")
  case True
  then show ?thesis using plain by (simp add: cacheKeyForRequest_def Let_def)
next
  case False
  show ?thesis
    using False by (intro hashed [of "nat (max 0 (maxKeyLength cfg - int (length (ccPrefix cfg)) - int (length HASH_MARKER) - int DIGEST_LENGTH))"])
      (simp_all add: cacheKeyForRequest_def Let_def HASH_MARKER_def)
qed

lemma same_key_logical:
  assumes "request_ok r" and "request_ok s" and "keyGenerator cfg = defaultKeyGenerator qp"
    and "\<forall>x \<in> set (representedVaryHeaders cfg). CHR ''#'' \<notin> set x"
    and "take DIGEST_LENGTH (h (logical_key cfg r)) = take DIGEST_LENGTH (h (logical_key cfg s)) \<Longrightarrow> logical_key cfg r = logical_key cfg s"
    and "fst (cacheKeyForRequest h cfg r) = fst (cacheKeyForRequest h cfg s)"
  shows "logical_key cfg r = logical_key cfg s"
proof -
  have nl: "CHR ''#'' \<notin> set (logical_key cfg r)" "CHR ''#'' \<notin> set (logical_key cfg s)"
    using no_hash_logical assms by blast+
  have nr: "CHR ''#'' \<notin> set (take n (keyGenerator cfg x))" if "request_ok x" for n x
    using no_hash_readable [OF that, of qp] assms(3) by (metis in_set_takeD)
  show ?thesis
  proof (cases rule: key_cases [of h cfg r])
    case plain
    note 1 = this
    show ?thesis
    proof (cases rule: key_cases [of h cfg s])
      case plain
      then show ?thesis using 1 assms(6) by simp
    next
      case (hashed n)
      then have "logical_key cfg r = take n (keyGenerator cfg s) @ CHR ''#'' # ''sha256='' @ take DIGEST_LENGTH (h (logical_key cfg s))"
        using 1 assms(6) by simp
      then show ?thesis using nl(1) by simp
    qed
  next
    case (hashed n)
    note 1 = this
    show ?thesis
    proof (cases rule: key_cases [of h cfg s])
      case plain
      then have "logical_key cfg s = take n (keyGenerator cfg r) @ CHR ''#'' # ''sha256='' @ take DIGEST_LENGTH (h (logical_key cfg r))"
        using 1 assms(6) by simp
      then show ?thesis using nl(2) by simp
    next
      case (hashed m)
      then have "take n (keyGenerator cfg r) @ CHR ''#'' # ''sha256='' @ take DIGEST_LENGTH (h (logical_key cfg r)) =
          take m (keyGenerator cfg s) @ CHR ''#'' # ''sha256='' @ take DIGEST_LENGTH (h (logical_key cfg s))"
        using 1 assms(6) by simp
      from first_sep [OF nr [OF assms(1)] nr [OF assms(2)] this] show ?thesis using assms(5) by simp
    qed
  qed
qed

section \<open>Invalidation\<close>

lemma starts_with_append: "starts_with (p @ s) p"
  by (auto simp: starts_with_iff)

lemma index_sub_skip: "c \<noteq> d \<Longrightarrow> index_sub (d # pat) (c # s) = map_option Suc (index_sub (d # pat) s)"
  by simp

lemma index_sub_skips:
  "d \<notin> set p \<Longrightarrow> index_sub (d # pat) (p @ s) = map_option (\<lambda>n. length p + n) (index_sub (d # pat) s)"
proof (induction p)
  case (Cons c p)
  then have "c \<noteq> d" by auto
  then show ?case using Cons by (simp add: option.map_comp o_def)
next
  case Nil
  show ?case by (cases "index_sub (d # pat) s") simp_all
qed

lemma index_sub_absent: "d \<notin> set s \<Longrightarrow> index_sub (d # pat) s = None"
  by (induction s) auto

text \<open>The end of the authority: the first colon that a slash follows.\<close>

lemma index_sub_host: "CHR ''/'' \<notin> set host \<Longrightarrow> index_sub '':/'' (host @ CHR '':'' # CHR ''/'' # s) = Some (length host)"
proof (induction host)
  case (Cons c host)
  then show ?case by (cases host) auto
qed simp

lemma cut_at: "take (length a) (a @ s) = a" "drop (Suc (length a)) (a @ c # s) = s"
  by simp_all

lemma splitBase_default:
  assumes "request_ok r"
  shows "splitBase (defaultKeyGenerator qp r) =
    \<lparr>kbMethod = Some (cqMethod r), kbAuthority = Some (scheme_of (cqUrl r) @ ''//'' @ cuHost (cqUrl r)),
      kbPath = cuPathname (cqUrl r) @ normalizeSearch qp (cqUrl r)\<rparr>"
proof -
  note r = request_parts [OF assms]
  obtain p where p: "cuPathname (cqUrl r) = CHR ''/'' # p" using r(6) by blast
  let ?auth = "scheme_of (cqUrl r) @ CHR ''/'' # CHR ''/'' # cuHost (cqUrl r)"
  let ?rest = "?auth @ CHR '':'' # CHR ''/'' # p @ normalizeSearch qp (cqUrl r)"
  have d: "defaultKeyGenerator qp r = cqMethod r @ CHR '':'' # ?rest" by (simp add: default_key_eq p)
  have sep: "index_of CHR '':'' (cqMethod r @ CHR '':'' # ?rest) = Some (length (cqMethod r))"
    by (rule index_of_append [OF r(1)])
  have path: "index_sub '':/'' ?rest = Some (length ?auth)"
    using index_sub_skips [OF r(3)] index_sub_host [OF r(4)] by simp
  have rest: "drop (Suc (length (cqMethod r))) (cqMethod r @ CHR '':'' # ?rest) = ?rest"
    "take (length (cqMethod r)) (cqMethod r @ CHR '':'' # ?rest) = cqMethod r" by simp_all
  have cut: "take (length ?auth) ?rest = ?auth" "drop (Suc (length ?auth)) ?rest = CHR ''/'' # p @ normalizeSearch qp (cqUrl r)"
    by (rule cut_at)+
  show ?thesis unfolding d splitBase_def sep option.case rest Let_def path cut p by simp
qed

lemma before_char_append: "c \<notin> set p \<Longrightarrow> s = [] \<or> (\<exists>z. s = c # z) \<Longrightarrow> before_char c (p @ s) = p"
  by (auto simp: before_char_def split_no_sep split_append_sep)

definition host_key :: "cache_request \<Rightarrow> string" where
  "host_key r = cqMethod r @ '':'' @ cuPathname (cqUrl r)"

definition full_key :: "cache_request \<Rightarrow> string" where
  "full_key r = cqMethod r @ '':'' @ (scheme_of (cqUrl r) @ ''//'' @ cuHost (cqUrl r)) @ '':'' @ cuPathname (cqUrl r)"

lemma base_matches_request:
  assumes "request_ok r" and "CHR ''?'' \<notin> set key" and "key = host_key r \<or> key = full_key r"
  shows "base_matches key (defaultKeyGenerator qp r)"
proof -
  have "before_char CHR ''?'' (cuPathname (cqUrl r) @ normalizeSearch qp (cqUrl r)) = cuPathname (cqUrl r)"
    by (rule before_char_append [OF request_parts(5) [OF assms(1)]]) (simp add: normalizeSearch_eq)
  then show ?thesis using assms(2,3)
    unfolding base_matches_def splitBase_default [OF assms(1)] Let_def host_key_def full_key_def by auto
qed

context response_cache
begin

text \<open>The base of a key the cache wrote.\<close>

lemma base_of_request:
  assumes "inv s" and "request_ok r" and "keyGenerator cfg = defaultKeyGenerator qp" and "CHR ''|'' \<notin> set (cuPathname (cqUrl r))"
    and "\<forall>x \<in> set (representedVaryHeaders cfg). CHR ''#'' \<notin> set x"
    and "view now s (fst (cacheKeyForRequest h cfg r)) = Some (Other e)" and "enKeyBase e = snd (cacheKeyForRequest h cfg r)"
  obtains s1 where "base_of_key (ceOps env) cfg now (fst (cacheKeyForRequest h cfg r)) s = (defaultKeyGenerator qp r, s1)"
    "inv s1" "\<And>t k v. view t s1 k = Some v \<Longrightarrow> view t s k = Some v"
proof (cases rule: key_cases [of h cfg r])
  case plain
  let ?R = "defaultKeyGenerator qp r"
  have "CHR ''|'' \<notin> set (cqMethod r)" "CHR ''|'' \<notin> set (scheme_of (cqUrl r))" "CHR ''|'' \<notin> set (cuHost (cqUrl r))"
    using assms(2) by (simp_all add: request_ok_def)
  then have bar: "CHR ''|'' \<notin> set ?R" using search_chars(1) [OF assms(2), of qp] assms(4) by (simp add: default_key_eq)
  have none: "index_sub HASH_MARKER (logical_key cfg r) = None"
    unfolding hash_marker by (rule index_sub_absent [OF no_hash_logical [OF assms(2,3,5)]])
  have seg: "segments r hs = [] \<or> (\<exists>z. segments r hs = CHR ''|'' # z)" for hs by (cases hs) (simp_all add: segments_def)
  have "before_char CHR ''|'' (logical_key cfg r) = ?R"
    unfolding logical_key_eq assms(3) by (rule before_char_append [OF bar seg])
  then have "base_of_key (ceOps env) cfg now (fst (cacheKeyForRequest h cfg r)) s = (?R, s)"
    using plain(1) none by (simp add: base_of_key_def)
  then show thesis using assms(1) by (rule that)
next
  case (hashed n)
  let ?k = "fst (cacheKeyForRequest h cfg r)"
  obtain v s1 where g: "get_op (ceOps env) now ?k s = (v, s1)" by fastforce
  have v: "v = Some (Other e)" using get_result [OF assms(1), of now ?k] g assms(6) by simp
  have nr: "CHR ''#'' \<notin> set (take n (keyGenerator cfg r))" unfolding assms(3) using no_hash_readable [OF assms(2), of qp] by (metis in_set_takeD)
  have "index_sub HASH_MARKER (drop (length (ccPrefix cfg)) ?k) = Some (length (take n (keyGenerator cfg r)))"
    using index_sub_skips [OF nr] hashed(1) by (simp add: hash_marker)
  then have "base_of_key (ceOps env) cfg now ?k s = (defaultKeyGenerator qp r, s1)"
    using hashed(1) assms(3,7) g v by (simp add: base_of_key_def Let_def)
  then show thesis
  proof (rule that)
    show "inv s1" using get_inv [OF assms(1), of now ?k] g by simp
    show "\<And>t k v. view t s1 k = Some v \<Longrightarrow> view t s k = Some v" using get_keeps [OF assms(1), of _ now ?k] g by simp
  qed
qed

text \<open>No step of the loop brings an entry back, and other entries stay as they are or go.\<close>

lemma invalidate_key_mono:
  assumes "inv s" and "invalidate_key (ceOps env) cfg now key c s = (b, s')"
  shows "inv s'" and "view t s' k = Some v \<Longrightarrow> view t s k = Some v" and "c \<noteq> k \<Longrightarrow> view now s' k = view now s k"
proof -
  obtain base s1 where bk: "base_of_key (ceOps env) cfg now c s = (base, s1)" by fastforce
  obtain x s2 where g: "get_op (ceOps env) now c s = (x, s2)" by fastforce
  have "s1 = s \<or> s1 = s2"
    using bk g by (auto simp: base_of_key_def Let_def split: option.splits kv_value.splits)
  then have s1: "inv s1 \<and> (\<forall>t k v. view t s1 k = Some v \<longrightarrow> view t s k = Some v) \<and> view now s1 = view now s"
    using assms(1) get_inv [OF assms(1), of now c] get_keeps [OF assms(1), of _ now c] get_view [OF assms(1), of now now c] g by auto
  have "s' = s \<or> s' = s1 \<or> s' = snd (delete_op (ceOps env) c s1)"
    using assms(2) bk by (auto simp: invalidate_key_def split: if_splits)
  then have "inv s' \<and> (\<forall>t k v. view t s' k = Some v \<longrightarrow> view t s k = Some v) \<and> (\<forall>k. c \<noteq> k \<longrightarrow> view now s' k = view now s k)"
  proof (elim disjE)
    assume d: "s' = snd (delete_op (ceOps env) c s1)"
    have v: "view t s' = (view t s1)(c := None)" for t unfolding d using remove_view s1 by blast
    have "inv s'" unfolding d using remove_inv s1 by blast
    then show ?thesis using s1 unfolding v fun_upd_apply by (metis option.distinct(1))
  next
    assume "s' = s"
    then show ?thesis using assms(1) by blast
  next
    assume d: "s' = s1"
    show ?thesis unfolding d using s1 by metis
  qed
  then show "inv s'" "view t s' k = Some v \<Longrightarrow> view t s k = Some v" "c \<noteq> k \<Longrightarrow> view now s' k = view now s k"
    by blast+
qed

lemma invalidate_loop_mono:
  "inv s \<Longrightarrow> invalidate_loop (ceOps env) cfg now key ks s = (b, s') \<Longrightarrow> view t s' k = Some v \<Longrightarrow> view t s k = Some v"
proof (induction ks arbitrary: s b)
  case (Cons c ks)
  obtain b1 s1 where 1: "invalidate_key (ceOps env) cfg now key c s = (b1, s1)" by fastforce
  obtain b2 where 2: "invalidate_loop (ceOps env) cfg now key ks s1 = (b2, s')"
    using Cons.prems(2) 1 by (auto split: prod.splits)
  show ?case using Cons.IH [OF invalidate_key_mono(1) [OF Cons.prems(1) 1] 2] Cons.prems(3) invalidate_key_mono(2) [OF Cons.prems(1) 1] by blast
qed simp

lemma invalidate_loop_deletes:
  assumes "request_ok r" and "keyGenerator cfg = defaultKeyGenerator qp" and "CHR ''|'' \<notin> set (cuPathname (cqUrl r))"
    and "\<forall>x \<in> set (representedVaryHeaders cfg). CHR ''#'' \<notin> set x" and "CHR ''?'' \<notin> set key" and "key = host_key r \<or> key = full_key r"
  shows "inv s \<Longrightarrow> fst (cacheKeyForRequest h cfg r) \<in> set ks \<Longrightarrow>
    view now s (fst (cacheKeyForRequest h cfg r)) = Some (Other e) \<Longrightarrow> enKeyBase e = snd (cacheKeyForRequest h cfg r) \<Longrightarrow>
    invalidate_loop (ceOps env) cfg now key ks s = (b, s') \<Longrightarrow> view t s' (fst (cacheKeyForRequest h cfg r)) = None"
proof (induction ks arbitrary: s b)
  case (Cons c ks)
  let ?k = "fst (cacheKeyForRequest h cfg r)"
  obtain b1 s1 where 1: "invalidate_key (ceOps env) cfg now key c s = (b1, s1)" by fastforce
  obtain b2 where 2: "invalidate_loop (ceOps env) cfg now key ks s1 = (b2, s')"
    using Cons.prems(5) 1 by (auto split: prod.splits)
  note m = invalidate_key_mono [OF Cons.prems(1) 1]
  show ?case
  proof (cases "c = ?k")
    case True
    obtain s0 where s0: "base_of_key (ceOps env) cfg now ?k s = (defaultKeyGenerator qp r, s0)" "inv s0"
      by (rule base_of_request [OF Cons.prems(1) assms(1-4) Cons.prems(3,4)])
    have "starts_with ?k (ccPrefix cfg)" by (cases rule: key_cases [of h cfg r]) (simp_all only: fst_conv starts_with_append)
    then have "s1 = snd (delete_op (ceOps env) ?k s0)"
      using 1 True s0(1) base_matches_request [OF assms(1,5,6), of qp] by (simp add: invalidate_key_def)
    then have "view t s1 ?k = None" using remove_view [OF s0(2)] by simp
    then show ?thesis using invalidate_loop_mono [OF m(1) 2] by (metis not_None_eq)
  next
    case False
    then have "view now s1 ?k = Some (Other e)" using m(3) Cons.prems(3) by simp
    then show ?thesis using Cons.IH [OF m(1) _ _ Cons.prems(4) 2] Cons.prems(2) False by simp
  qed
qed simp

lemma invalidate_loop_inv: "inv s \<Longrightarrow> inv (snd (invalidate_loop (ceOps env) cfg now key ks s))"
proof (induction ks arbitrary: s)
  case (Cons c ks)
  obtain b1 s1 where 1: "invalidate_key (ceOps env) cfg now key c s = (b1, s1)" by fastforce
  show ?case using Cons.IH [OF invalidate_key_mono(1) [OF Cons.prems 1]] 1 by (simp add: case_prod_beta)
qed simp

lemma invalidate_inv: "inv s \<Longrightarrow> inv (snd (cache_invalidate (ceOps env) cfg now key s))"
  using invalidate_loop_inv [OF enum_inv] by (simp add: cache_invalidate_def case_prod_beta)

lemma invalidate_deletes:
  assumes "request_ok r" and "keyGenerator cfg = defaultKeyGenerator qp" and "CHR ''|'' \<notin> set (cuPathname (cqUrl r))"
    and "\<forall>x \<in> set (representedVaryHeaders cfg). CHR ''#'' \<notin> set x" and "CHR ''?'' \<notin> set key" and "key = host_key r \<or> key = full_key r"
    and "inv s" and "\<And>v. view now s (fst (cacheKeyForRequest h cfg r)) = Some v \<Longrightarrow>
      \<exists>e. v = Other e \<and> enKeyBase e = snd (cacheKeyForRequest h cfg r)"
    and "now \<le> t"
  shows "view t (snd (cache_invalidate (ceOps env) cfg now key s)) (fst (cacheKeyForRequest h cfg r)) = None"
proof -
  let ?k = "fst (cacheKeyForRequest h cfg r)"
  obtain ks s1 where k: "keys_op (ceOps env) now None s = (ks, s1)" by fastforce
  obtain b s2 where l: "invalidate_loop (ceOps env) cfg now key ks s1 = (b, s2)" by fastforce
  have s1: "inv s1" "view now s1 = view now s" and ks: "set ks = {k. view now s k \<noteq> None}"
    using enum_inv [OF assms(7), of now None] enum_view [OF assms(7), of now now None] enum_result [OF assms(7), of now] k by simp_all
  have "view t s2 ?k = None"
  proof (cases "view now s ?k")
    case None
    then have "view now s1 ?k = None" using s1(2) by simp
    then have "view t s1 ?k = None" using view_earlier [OF s1(1) assms(9)] by (metis not_None_eq)
    then show ?thesis using invalidate_loop_mono [OF s1(1) l] by (metis not_None_eq)
  next
    case (Some v)
    then obtain e where "v = Other e" "enKeyBase e = snd (cacheKeyForRequest h cfg r)" using assms(8) by blast
    then show ?thesis using invalidate_loop_deletes [OF assms(1-6) s1(1) _ _ _ l, of h e] s1(2) ks Some by simp
  qed
  then show ?thesis by (simp add: cache_invalidate_def k l)
qed

end

end
