(* ===== verification/Cache_Props.thy ===== *)
theory Cache_Props
  imports Cache_Inv Cache_Keys
begin

text \<open>
  Properties of the response cache over the memory store: nothing private is shared, nothing is
  served past its lifetime, concurrent requests cause one execution, keys separate hosts and representations,
  and invalidation reaches every variant.
\<close>

lemma memory_cache: "ceOps env = memory_ops \<Longrightarrow> response_cache env kv_view kv_inv"
  by (simp add: response_cache_def memory_ops_def memory_kv_keys.kv_store_keys_axioms)

interpretation memory_cached: response_cache "\<lparr>ceCfg = cfg, ceOps = memory_ops, ceDate = dt, ceSha = h\<rparr>" kv_view kv_inv
  for cfg dt h
  by (rule memory_cache) simp

text \<open>The environment of a cache over the memory store, and its start.\<close>

definition memory_env :: "cache_config \<Rightarrow> (string \<Rightarrow> time option) \<Rightarrow> (string \<Rightarrow> string) \<Rightarrow> cache_entry kvstore cache_env" where
  "memory_env cfg dt h = \<lparr>ceCfg = cfg, ceOps = memory_ops, ceDate = dt, ceSha = h\<rparr>"

lemma memory_env_simps [simp]:
  "ceCfg (memory_env cfg dt h) = cfg" "ceOps (memory_env cfg dt h) = memory_ops"
  "ceDate (memory_env cfg dt h) = dt" "ceSha (memory_env cfg dt h) = h"
  by (simp_all add: memory_env_def)

lemma memory_reach_ok:
  assumes "cache_reach (memory_env cfg dt h) (newStore mx) st"
  shows "cache_ok (memory_env cfg dt h) kv_view kv_inv st"
  using memory_cached.reach_ok [of cfg dt h "newStore mx" st] assms
  by (simp add: memory_env_def newStore_def kv_inv_def kv_view_def)

section \<open>Nothing private is shared\<close>

lemma storable_public:
  assumes "canStoreSharedResponse cfg dt t r credentialed"
  shows "hcookies (crHeaders r) = [] \<and> headers_get ''authorization'' (crHeaders r) = None \<and>
    \<not> hasDirective (headers_get ''cache-control'' (crHeaders r)) [''private'', ''no-store'', ''no-cache''] \<and>
    (credentialed \<longrightarrow> isExplicitlyPublic (headers_get ''cache-control'' (crHeaders r)))"
proof -
  have p: "list_all (\<lambda>x. if x = ''set-cookie'' then hcookies (crHeaders r) = [] else headers_get x (crHeaders r) = None) PRIVATE_RESPONSE_HEADERS"
    using assms by (auto simp: canStoreSharedResponse_def Let_def list_ex_iff list_all_iff split: if_splits)
  then have "hcookies (crHeaders r) = []" "headers_get ''authorization'' (crHeaders r) = None"
    by (simp_all add: PRIVATE_RESPONSE_HEADERS_def)
  then show ?thesis using assms
    by (auto simp: canStoreSharedResponse_def Let_def SHARED_CACHE_PROHIBITED_DIRECTIVES_def split: if_splits)
qed

text \<open>
  C22. Nothing private is shared, however calls interleave: an answer served from the cache is the status and the
  octets (none for HEAD) that the origin returned to some request with the same cache key; that response
  set no cookie, carried no credential header, was not private, \<open>no-store\<close> or \<open>no-cache\<close>, and was explicitly
  public if either of the two requests may carry a credential.
\<close>

theorem cache_shares_nothing_private:
  assumes "cache_reach (memory_env cfg dt h) (newStore mx) st"
    and "i < length (cjobs st)" and "jqPc (cjobs st ! i) = Done FromCache x"
  shows "\<exists>j r. j < length (cjobs st) \<and> jqFetched (cjobs st ! j) = Some r \<and>
    fst (cacheKeyForRequest h cfg (jqReq (cjobs st ! j))) = fst (cacheKeyForRequest h cfg (jqReq (cjobs st ! i))) \<and>
    crStatus x = crStatus r \<and>
    crBody x = (if to_upper (cqMethod (jqReq (cjobs st ! i))) = ''HEAD'' then NullBody else Bytes (response_octets r)) \<and>
    hcookies (crHeaders r) = [] \<and> headers_get ''authorization'' (crHeaders r) = None \<and>
    \<not> hasDirective (headers_get ''cache-control'' (crHeaders r)) [''private'', ''no-store'', ''no-cache''] \<and>
    (isPossiblyCredentialed cfg (jqReq (cjobs st ! i)) \<or> isPossiblyCredentialed cfg (jqReq (cjobs st ! j)) \<longrightarrow>
       isExplicitlyPublic (headers_get ''cache-control'' (crHeaders r)))"
proof -
  let ?env = "memory_env cfg dt h" and ?i = "cjobs st ! i"
  have "pc_ok ?env (cjobs st) ?i" by (rule ok_pc [OF memory_reach_ok [OF assms(1)] assms(2)])
  then obtain e t where e: "legitimate ?env (cjobs st) (job_key ?env ?i) e t" "canServe cfg (job_credentialed ?env ?i) e"
      "replay (to_upper (cqMethod (jqReq ?i))) e = Inr x"
    using assms(3) by (auto simp: pc_ok_def)
  then obtain j r where c: "came_from ?env (cjobs st) (job_key ?env ?i) e t j r" by (auto simp: legitimate_def)
  then obtain t1 where st: "canStoreSharedResponse cfg dt t1 r (job_credentialed ?env (cjobs st ! j))"
    by (auto simp: came_from_def)
  have me: "e = make_entry cfg (job_base ?env (cjobs st ! j)) (enCachedAt e) r" using c by (simp add: came_from_def)
  have x: "crStatus x = crStatus r" "crBody x = (if to_upper (cqMethod (jqReq ?i)) = ''HEAD'' then NullBody else Bytes (response_octets r))"
    using replay_entry [of "to_upper (cqMethod (jqReq ?i))" cfg "job_base ?env (cjobs st ! j)" "enCachedAt e" r x] e(3) me by simp_all
  have "map_of (enHeaders e) ''cache-control'' = headers_get ''cache-control'' (crHeaders r)" by (subst me) simp
  then have "isPossiblyCredentialed cfg (jqReq ?i) \<longrightarrow> isExplicitlyPublic (headers_get ''cache-control'' (crHeaders r))"
    using e(2) by (simp add: canServe_def job_credentialed_def)
  then show ?thesis using c x storable_public [OF st]
    by (intro exI [of _ j] exI [of _ r]) (auto simp: came_from_def job_key_def job_credentialed_def)
qed

section \<open>Nothing is served past its lifetime\<close>

text \<open>The lifetime a response declares by \<open>s-maxage\<close> or \<open>max-age\<close>, in seconds.\<close>

definition declared_seconds :: "cache_response \<Rightarrow> int option" where
  "declared_seconds r =
     (let cc = headers_get ''cache-control'' (crHeaders r) in
      case directiveSeconds cc ''s-maxage'' of
        Some n \<Rightarrow> n
      | None \<Rightarrow> (case directiveSeconds cc ''max-age'' of Some n \<Rightarrow> n | None \<Rightarrow> None))"

lemma vary_keeps_cc: "headers_get ''cache-control'' (replay_headers cfg r) = headers_get ''cache-control'' (crHeaders r)"
proof -
  have "headers_get ''cache-control'' (headers_set ''vary'' v hm) = headers_get ''cache-control'' hm" for v hm
    unfolding headers_get_def headers_set_def lower_constants using lower_constants(8) by (simp add: map_of_update)
  then show ?thesis by (simp add: replay_headers_def split: option.split)
qed

lemma ttl_bounded:
  assumes "declared_seconds r = Some n" and "canStoreSharedResponse cfg dt t1 r credentialed"
    and "default_to (ccTtlMs cfg) custom \<noteq> 0"
  shows "effectiveTtl cfg dt now custom r \<le> n * 1000" and "effectiveTtl cfg dt now custom r \<noteq> 0"
proof -
  let ?cc = "headers_get ''cache-control'' (crHeaders r)"
  have live: "declaredFreshnessMs dt t1 ?cc (headers_get ''expires'' (crHeaders r)) \<noteq> AlreadyStale"
    using assms(2) by (auto simp: canStoreSharedResponse_def Let_def split: if_splits)
  have "0 < n \<and> declaredFreshnessMs dt now ?cc ex = Lifetime (n * 1000)" for ex
    using live assms(1) by (auto simp: declaredFreshnessMs_def declared_seconds_def Let_def split: option.splits if_splits)
  then have "effectiveTtl cfg dt now custom r = min (default_to (ccTtlMs cfg) custom) (n * 1000)" "0 < n"
    by (simp_all add: effectiveTtl_def Let_def vary_keeps_cc)
  then show "effectiveTtl cfg dt now custom r \<le> n * 1000" "effectiveTtl cfg dt now custom r \<noteq> 0"
    using assms(3) by (auto simp: min_def)
qed

text \<open>
  The cache honours declared lifetimes: when a read at time \<open>t\<close> finds an entry, the entry holds what the
  origin returned to a request with that key, and if that response declared \<open>s-maxage\<close> or \<open>max-age\<close> (and the
  configured lifetime is not 0, which means for ever), less than that time has passed since it was stored.
\<close>

theorem cache_honours_lifetime:
  assumes "cache_reach (memory_env cfg dt h) (newStore mx) st"
    and "fst (kv_get t k (cstore st)) = Some (Other e)"
  shows "\<exists>j r. j < length (cjobs st) \<and> jqFetched (cjobs st ! j) = Some r \<and>
    fst (cacheKeyForRequest h cfg (jqReq (cjobs st ! j))) = k \<and>
    e = make_entry cfg (snd (cacheKeyForRequest h cfg (jqReq (cjobs st ! j)))) (enCachedAt e) r \<and>
    (\<forall>n. declared_seconds r = Some n \<and> default_to (ccTtlMs cfg) (jqTtl (cjobs st ! j)) \<noteq> 0 \<longrightarrow> t < enCachedAt e + n * 1000)"
proof -
  let ?env = "memory_env cfg dt h"
  note ok = memory_reach_ok [OF assms(1)]
  have "kv_view t (cstore st) k = Some (Other e)"
    using assms(2) memory_kv.get_result [OF ok_good [OF ok], of t k] by simp
  then have "legitimate ?env (cjobs st) k e t" using ok_entry [OF ok] by fastforce
  then obtain j r where c: "came_from ?env (cjobs st) k e t j r" by (auto simp: legitimate_def)
  then obtain t1 where st: "canStoreSharedResponse cfg dt t1 r (job_credentialed ?env (cjobs st ! j))"
    and u: "unexpired (enCachedAt e) (Some (effectiveTtl cfg dt (enCachedAt e) (jqTtl (cjobs st ! j)) r)) t"
    and me: "e = make_entry cfg (job_base ?env (cjobs st ! j)) (enCachedAt e) r"
    by (auto simp: came_from_def)
  have "t < enCachedAt e + n * 1000" if "declared_seconds r = Some n" "default_to (ccTtlMs cfg) (jqTtl (cjobs st ! j)) \<noteq> 0" for n
    using ttl_bounded [OF that(1) st that(2), of "enCachedAt e"] u by (auto simp: unexpired_def)
  then show ?thesis using c me
    by (intro exI [of _ j] exI [of _ r]) (auto simp: came_from_def job_key_def job_base_def)
qed

section \<open>One execution for concurrent requests\<close>

definition is_hit :: "cache_job \<Rightarrow> bool" where
  "is_hit j = (case jqPc j of Done src x \<Rightarrow> src = FromCache | _ \<Rightarrow> False)"

text \<open>A waiting request is woken: it reads the key again, then goes on with what it read.\<close>

definition wake :: "'s cache_env \<Rightarrow> time \<Rightarrow> nat \<Rightarrow> 's cache_state \<Rightarrow> 's cache_state" where
  "wake env now j st = cache_step env now (Run j Rejects) (cache_step env now (Run j Rejects) st)"

definition NULL_BODY_STATUSES :: "int list" where
  "NULL_BODY_STATUSES = [101, 103, 204, 205, 304]"

lemma replay_succeeds:
  assumes "legitimate env js k e t" and "set (statusCodes (ceCfg env)) \<inter> set NULL_BODY_STATUSES = {}"
  obtains x where "replay m e = Inr x"
proof -
  obtain j r where c: "came_from env js k e t j r" using assms(1) by (auto simp: legitimate_def)
  then have st: "enStatus e \<in> set (statusCodes (ceCfg env))" and b: "enBase64 e" "enBody e = bytesToBase64 (map unat (response_octets r))"
    unfolding came_from_def make_entry_def by (metis cache_entry.select_convs)+
  have "enStatus e \<notin> {101, 103, 204, 205, 304}" using st assms(2) unfolding NULL_BODY_STATUSES_def by auto
  then have "\<exists>x. replay m e = Inr x"
    using b base64_roundtrip [OF unat_octet, of "response_octets r"] by (simp add: replay_def new_response_def)
  then show thesis using that by blast
qed

lemma legitimate_servable:
  assumes "legitimate env js k e t" and "cache_config_ok (ceCfg env)"
    and "credentialed \<longrightarrow> isExplicitlyPublic (map_of (enHeaders e) ''cache-control'')"
  shows "canServe (ceCfg env) credentialed e"
proof -
  obtain j r where c: "came_from env js k e t j r" using assms(1) by (auto simp: legitimate_def)
  then obtain t1 where st: "canStoreSharedResponse (ceCfg env) (ceDate env) t1 r (job_credentialed env (js ! j))"
    and me: "e = make_entry (ceCfg env) (job_base env (js ! j)) (enCachedAt e) r" by (auto simp: came_from_def)
  have "canServe (ceCfg env) (job_credentialed env (js ! j)) e" by (subst me) (rule storable_servable [OF assms(2) st])
  then show ?thesis using assms(3) by (simp add: canServe_def)
qed

context response_cache
begin

lemma wake_hits:
  assumes "cache_ok env view inv st" and "j < length (cjobs st)" and "jqPc (cjobs st ! j) = Wait i since"
    and "settled (jqPc (cjobs st ! i))"
    and "view now (cstore st) (job_key env (cjobs st ! j)) = Some (Other e)"
    and "canServe (ceCfg env) (job_credentialed env (cjobs st ! j)) e" and "freshEnough (jqReq (cjobs st ! j)) since e"
    and "set (statusCodes (ceCfg env)) \<inter> set NULL_BODY_STATUSES = {}"
  obtains s x where
    "wake env now j st = \<lparr>cstore = s, cjobs = (cjobs st)[j := (cjobs st ! j)\<lparr>jqPc := Done FromCache x\<rparr>], inFlight = inFlight st\<rparr>"
    "view now s = view now (cstore st)"
proof -
  let ?j = "cjobs st ! j" and ?k = "job_key env (cjobs st ! j)"
  obtain v s where g: "get_op (ceOps env) now ?k (cstore st) = (v, s)" by fastforce
  have i: "inv (cstore st)" by (rule ok_good [OF assms(1)])
  have v: "v = Some (Other e)" using get_result [OF i, of now ?k] g assms(5) by simp
  have s: "view now s = view now (cstore st)" using get_view [OF i, of now now ?k] g by simp
  have one: "cache_step env now (Run j Rejects) st =
      \<lparr>cstore = s, cjobs = (cjobs st)[j := ?j\<lparr>jqPc := Relooked since (Some (Other e))\<rparr>], inFlight = inFlight st\<rparr>"
    using assms(2-4) g v by (simp add: run_job_def read_key_def set_pc_eq)
  have "legitimate env (cjobs st) ?k e now" using ok_entry [OF assms(1,5)] by auto
  then obtain x where x: "replay (to_upper (cqMethod (jqReq ?j))) e = Inr x" by (rule replay_succeeds [OF _ assms(8)])
  have "job_credentialed env (?j\<lparr>jqPc := p\<rparr>) = job_credentialed env ?j" for p by (simp add: job_credentialed_def)
  then have "wake env now j st = \<lparr>cstore = s, cjobs = (cjobs st)[j := ?j\<lparr>jqPc := Done FromCache x\<rparr>], inFlight = inFlight st\<rparr>"
    using assms(2,6,7) x unfolding wake_def one by (simp add: run_job_def step_relooked_def Let_def set_pc_eq answer_def)
  then show thesis using s by (rule that)
qed

lemma wake_ok: "cache_ok env view inv st \<Longrightarrow> cache_ok env view inv (wake env now j st)"
  using run_ok by (simp add: wake_def)

lemma wake_all:
  assumes "cache_ok env view inv st" and "distinct js" and "i < length (cjobs st)" and "settled (jqPc (cjobs st ! i))"
    and "\<forall>j \<in> set js. \<exists>since. j < length (cjobs st) \<and> jqPc (cjobs st ! j) = Wait i since \<and> freshEnough (jqReq (cjobs st ! j)) since e \<and>
       canServe (ceCfg env) (job_credentialed env (cjobs st ! j)) e"
    and "view now (cstore st) (job_key env (cjobs st ! i)) = Some (Other e)"
    and "set (statusCodes (ceCfg env)) \<inter> set NULL_BODY_STATUSES = {}"
  shows "length (cjobs (fold (wake env now) js st)) = length (cjobs st) \<and>
    (\<forall>j < length (cjobs st). j \<notin> set js \<longrightarrow> cjobs (fold (wake env now) js st) ! j = cjobs st ! j) \<and>
    (\<forall>j \<in> set js. is_hit (cjobs (fold (wake env now) js st) ! j) \<and> jqFetched (cjobs (fold (wake env now) js st) ! j) = None)"
  using assms
proof (induction js arbitrary: st)
  case (Cons j js)
  obtain since where j: "j < length (cjobs st)" "jqPc (cjobs st ! j) = Wait i since" "freshEnough (jqReq (cjobs st ! j)) since e"
      "canServe (ceCfg env) (job_credentialed env (cjobs st ! j)) e" using Cons.prems(5) by auto
  have w: "jqFetched (cjobs st ! j) = None" "job_key env (cjobs st ! i) = job_key env (cjobs st ! j)"
    using ok_pc [OF Cons.prems(1) j(1)] j(2) by (simp_all add: pc_ok_def)
  obtain s x where st1: "wake env now j st =
      \<lparr>cstore = s, cjobs = (cjobs st)[j := (cjobs st ! j)\<lparr>jqPc := Done FromCache x\<rparr>], inFlight = inFlight st\<rparr>"
      "view now s = view now (cstore st)"
    by (rule wake_hits [OF Cons.prems(1) j(1,2) Cons.prems(4) _ j(4,3) Cons.prems(7)]) (use Cons.prems(6) w(2) in simp)
  have ij: "i \<noteq> j" using Cons.prems(4) j(2) by (auto simp: settled_def)
  have jn: "j \<notin> set js" using Cons.prems(2) by simp
  have "length (cjobs (fold (wake env now) js (wake env now j st))) = length (cjobs (wake env now j st)) \<and>
    (\<forall>n < length (cjobs (wake env now j st)). n \<notin> set js \<longrightarrow> cjobs (fold (wake env now) js (wake env now j st)) ! n = cjobs (wake env now j st) ! n) \<and>
    (\<forall>n \<in> set js. is_hit (cjobs (fold (wake env now) js (wake env now j st)) ! n) \<and>
       jqFetched (cjobs (fold (wake env now) js (wake env now j st)) ! n) = None)"
  proof (rule Cons.IH [OF wake_ok [OF Cons.prems(1)]])
    show "\<forall>n \<in> set js. \<exists>since. n < length (cjobs (wake env now j st)) \<and> jqPc (cjobs (wake env now j st) ! n) = Wait i since \<and>
        freshEnough (jqReq (cjobs (wake env now j st) ! n)) since e \<and>
        canServe (ceCfg env) (job_credentialed env (cjobs (wake env now j st) ! n)) e"
    proof
      fix n assume n: "n \<in> set js"
      then have "n \<noteq> j" using jn by blast
      then show "\<exists>since. n < length (cjobs (wake env now j st)) \<and> jqPc (cjobs (wake env now j st) ! n) = Wait i since \<and>
          freshEnough (jqReq (cjobs (wake env now j st) ! n)) since e \<and>
          canServe (ceCfg env) (job_credentialed env (cjobs (wake env now j st) ! n)) e"
        using Cons.prems(5) n by (simp add: st1(1))
    qed
  qed (use Cons.prems ij st1 in simp_all)
  then show ?case using j(1) jn w(1) by (auto simp: st1(1) is_hit_def nth_list_update)
qed simp

end

text \<open>
  C23. Concurrent requests cause one execution of the origin: when the execution a number of requests wait for has stored
  its response in the memory store, the entry is live and they are woken directly after it, each of them is answered
  from the cache without running its handler. No status without a body is configured, a request that asked for
  revalidation began to wait before the entry was stored, and one that may carry a credential has an
  explicitly public response to wait for.
\<close>

theorem cache_single_flight:
  assumes "cache_reach (memory_env cfg dt h) (newStore mx) st" and "cache_config_ok cfg"
    and "set (statusCodes cfg) \<inter> set NULL_BODY_STATUSES = {}"
    and "i < length (cjobs st)" and "jqPc (cjobs st ! i) = Stored r" and "distinct js"
    and "kv_view now (cstore st) (job_key (memory_env cfg dt h) (cjobs st ! i)) = Some (Other e)"
    and "\<forall>j \<in> set js. \<exists>since. j < length (cjobs st) \<and> jqPc (cjobs st ! j) = Wait i since \<and>
      (bypassRead (jqReq (cjobs st ! j)) \<longrightarrow> since \<le> enCachedAt e) \<and>
      (isPossiblyCredentialed cfg (jqReq (cjobs st ! j)) \<longrightarrow> isExplicitlyPublic (map_of (enHeaders e) ''cache-control''))"
    and "st' = fold (wake (memory_env cfg dt h) now) js (cache_step (memory_env cfg dt h) now (Run i out) st)"
  shows "\<forall>j \<in> set js. is_hit (cjobs st' ! j) \<and> jqFetched (cjobs st' ! j) = None"
proof -
  let ?env = "memory_env cfg dt h"
  let ?st = "cache_step ?env now (Run i out) st"
  note ok = memory_reach_ok [OF assms(1)]
  have step: "?st = settle ?env i (answer FromOrigin (miss_response cfg r)) st"
    using assms(4,5) by (simp add: run_job_def)
  have jobs: "cjobs ?st = (cjobs st)[i := (cjobs st ! i)\<lparr>jqPc := answer FromOrigin (miss_response cfg r)\<rparr>]" "cstore ?st = cstore st"
    unfolding step by (simp_all add: settle_def set_pc_eq Let_def)
  have ok1: "cache_ok ?env kv_view kv_inv ?st"
    using memory_cached.run_ok [of cfg dt h st i now out, folded memory_env_def] ok assms(4) by simp
  have legit: "legitimate ?env (cjobs st) (job_key ?env (cjobs st ! i)) e now" using ok_entry [OF ok assms(7)] by auto
  have all: "\<forall>j \<in> set js. \<exists>since. j < length (cjobs ?st) \<and> jqPc (cjobs ?st ! j) = Wait i since \<and> freshEnough (jqReq (cjobs ?st ! j)) since e \<and>
      canServe cfg (job_credentialed ?env (cjobs ?st ! j)) e"
  proof
    fix j assume "j \<in> set js"
    then obtain since where j: "j < length (cjobs st)" "jqPc (cjobs st ! j) = Wait i since"
        "bypassRead (jqReq (cjobs st ! j)) \<longrightarrow> since \<le> enCachedAt e"
        "isPossiblyCredentialed cfg (jqReq (cjobs st ! j)) \<longrightarrow> isExplicitlyPublic (map_of (enHeaders e) ''cache-control'')"
      using assms(8) by blast
    have "j \<noteq> i" using j(2) assms(5) by auto
    moreover have "canServe cfg (job_credentialed ?env (cjobs st ! j)) e"
      using legitimate_servable [OF legit, of "job_credentialed ?env (cjobs st ! j)"] assms(2) j(4) by (simp add: job_credentialed_def)
    ultimately show "\<exists>since. j < length (cjobs ?st) \<and> jqPc (cjobs ?st ! j) = Wait i since \<and> freshEnough (jqReq (cjobs ?st ! j)) since e \<and>
        canServe cfg (job_credentialed ?env (cjobs ?st ! j)) e"
      using j unfolding jobs by (auto simp: freshEnough_def)
  qed
  have i: "i < length (cjobs ?st)" "settled (jqPc (cjobs ?st ! i))" "job_key ?env (cjobs ?st ! i) = job_key ?env (cjobs st ! i)"
    unfolding jobs using assms(4) by (simp_all add: answer_def settled_def job_key_def split: sum.splits)
  show ?thesis
    unfolding assms(9)
    using memory_cached.wake_all [of cfg dt h ?st js i e now, folded memory_env_def] ok1 assms(3,6,7) i all jobs(2) by simp
qed

section \<open>Keys separate\<close>

lemma represented_default:
  "set (representedVaryHeaders (createResponseCache opts)) =
    set ([''origin'', ''accept-encoding''] @ HOST_REWRITE_HEADERS @ map to_lower (default_to [] (coVaryHeaders opts)))"
  by (simp only: createResponseCache_def Let_def cache_config.select_convs set_of_list_def set_rev set_remdups)

lemma lower_hash: "CHR ''#'' \<in> set (to_lower h) \<Longrightarrow> CHR ''#'' \<in> set h"
proof -
  assume "CHR ''#'' \<in> set (to_lower h)"
  then obtain c where c: "c \<in> set h" "lower_char c = CHR ''#''" by (auto simp: to_lower_def)
  have "c = CHR ''#''"
  proof (rule ccontr)
    assume n: "c \<noteq> CHR ''#''"
    then have "lower_char c = char_of ((of_char c :: nat) + 32)" "65 \<le> (of_char c :: nat)" "(of_char c :: nat) < 224"
      using c(2) by (auto simp: lower_char_def Let_def split: if_splits)
    then have "(of_char (lower_char c) :: nat) = of_char c + 32" by simp
    then show False using c(2) \<open>65 \<le> of_char c\<close> by simp
  qed
  then show ?thesis using c(1) by simp
qed

lemma no_hash_represented:
  assumes "\<forall>x \<in> set (default_to [] (coVaryHeaders opts)). CHR ''#'' \<notin> set x"
  shows "\<forall>x \<in> set (representedVaryHeaders (createResponseCache opts)). CHR ''#'' \<notin> set x"
proof -
  have "list_all (\<lambda>x. CHR ''#'' \<notin> set x) ([''origin'', ''accept-encoding''] @ HOST_REWRITE_HEADERS)" by code_simp
  moreover have "\<forall>x \<in> set (map to_lower (default_to [] (coVaryHeaders opts))). CHR ''#'' \<notin> set x"
    using assms lower_hash by auto
  ultimately show ?thesis unfolding represented_default list_all_iff by (metis UnE append_assoc set_append)
qed

lemma default_generator:
  "coKeyGenerator opts = None \<Longrightarrow> keyGenerator (createResponseCache opts) = defaultKeyGenerator (coQueryParams opts)"
  by (simp add: createResponseCache_def Let_def default_to_def)

text \<open>
  C24. Requests with the same cache key (generated by default, the truncated digests not colliding, no \<open>#\<close> in a name of \<open>varyHeaders\<close>)
  have the same method, scheme, host and path, the same selected query parameters in the same order per
  name, and the same value of every header that the key partitions: \<open>Origin\<close>, \<open>Accept-Encoding\<close>, \<open>Host\<close> and the
  host-rewriting headers, and those of \<open>varyHeaders\<close>. Hashing over-long keys does not weaken this.
\<close>

theorem cache_keys_separate:
  assumes "cfg = createResponseCache opts" and "coKeyGenerator opts = None"
    and "\<forall>x \<in> set (default_to [] (coVaryHeaders opts)). CHR ''#'' \<notin> set x"
    and "request_ok r" and "request_ok s"
    and "take DIGEST_LENGTH (h (logical_key cfg r)) = take DIGEST_LENGTH (h (logical_key cfg s)) \<Longrightarrow> logical_key cfg r = logical_key cfg s"
    and "fst (cacheKeyForRequest h cfg r) = fst (cacheKeyForRequest h cfg s)"
  shows "cqMethod r = cqMethod s \<and> scheme_of (cqUrl r) = scheme_of (cqUrl s) \<and> cuHost (cqUrl r) = cuHost (cqUrl s) \<and>
    cuPathname (cqUrl r) = cuPathname (cqUrl s) \<and> selected (coQueryParams opts) (cqUrl r) = selected (coQueryParams opts) (cqUrl s) \<and>
    (\<forall>x \<in> set ([''origin'', ''accept-encoding''] @ HOST_REWRITE_HEADERS @ map to_lower (default_to [] (coVaryHeaders opts))).
       default_to [] (map_of (cqHeaders r) x) = default_to [] (map_of (cqHeaders s) x))"
proof -
  note g = default_generator [OF assms(2)]
  have "logical_key cfg r = logical_key cfg s"
    using same_key_logical [OF assms(4,5) _ _ assms(6,7), of "coQueryParams opts"] g no_hash_represented [OF assms(3)] assms(1) by simp
  then have l: "defaultKeyGenerator (coQueryParams opts) r @ segments r (representedVaryHeaders cfg) =
      defaultKeyGenerator (coQueryParams opts) s @ segments s (representedVaryHeaders cfg)"
    using g assms(1) by (simp add: logical_key_eq)
  note i = segments_inj [OF l]
  show ?thesis using default_key_inj [OF assms(4,5) conjunct1 [OF i]] conjunct2 [OF i]
    unfolding assms(1) represented_default by blast
qed

text \<open>
  Invalidation reaches every variant: after \<open>invalidate\<close> with a method and a path, with or without the
  authority, nothing is found under the key of any request with that method and path (and authority), whatever
  its query and partitioned headers and whether its key was hashed.
\<close>

theorem invalidate_reaches_variants:
  assumes "cache_reach (memory_env cfg dt h) (newStore mx) st"
    and "cfg = createResponseCache opts" and "coKeyGenerator opts = None"
    and "\<forall>x \<in> set (default_to [] (coVaryHeaders opts)). CHR ''#'' \<notin> set x"
    and "\<forall>j \<in> set (cjobs st). request_ok (jqReq j) \<and>
      (take DIGEST_LENGTH (h (logical_key cfg (jqReq j))) = take DIGEST_LENGTH (h (logical_key cfg r)) \<longrightarrow>
         logical_key cfg (jqReq j) = logical_key cfg r)"
    and "request_ok r" and "CHR ''|'' \<notin> set (cuPathname (cqUrl r))"
    and "key = host_key r \<or> key = full_key r" and "CHR ''?'' \<notin> set key" and "now \<le> t"
  shows "fst (kv_get t (fst (cacheKeyForRequest h cfg r)) (snd (cache_invalidate memory_ops cfg now key (cstore st)))) = None"
proof -
  let ?env = "memory_env cfg dt h" and ?k = "fst (cacheKeyForRequest h cfg r)"
  note ok = memory_reach_ok [OF assms(1)]
  have g: "keyGenerator cfg = defaultKeyGenerator (coQueryParams opts)" using default_generator [OF assms(3)] assms(2) by simp
  have nh: "\<forall>x \<in> set (representedVaryHeaders cfg). CHR ''#'' \<notin> set x" using no_hash_represented [OF assms(4)] assms(2) by simp
  have written: "\<exists>e. v = Other e \<and> enKeyBase e = snd (cacheKeyForRequest h cfg r)" if v: "kv_view now (cstore st) ?k = Some v" for v
  proof -
    obtain e where e: "v = Other e" "legitimate ?env (cjobs st) ?k e now" using ok_entry [OF ok v] by blast
    then obtain j x where c: "came_from ?env (cjobs st) ?k e now j x" by (auto simp: legitimate_def)
    let ?j = "jqReq (cjobs st ! j)"
    have j: "j < length (cjobs st)" "fst (cacheKeyForRequest h cfg ?j) = ?k" "e = make_entry cfg (snd (cacheKeyForRequest h cfg ?j)) (enCachedAt e) x"
      using c by (simp_all add: came_from_def job_key_def job_base_def)
    have q: "request_ok ?j" "take DIGEST_LENGTH (h (logical_key cfg ?j)) = take DIGEST_LENGTH (h (logical_key cfg r)) \<Longrightarrow> logical_key cfg ?j = logical_key cfg r"
      using assms(5) j(1) nth_mem by blast+
    have l: "logical_key cfg ?j = logical_key cfg r" by (rule same_key_logical [OF q(1) assms(6) g nh q(2) j(2)])
    then have "keyGenerator cfg ?j = keyGenerator cfg r"
      using segments_inj [of "keyGenerator cfg ?j" ?j "representedVaryHeaders cfg" "keyGenerator cfg r" r] by (simp add: logical_key_eq)
    then have "snd (cacheKeyForRequest h cfg ?j) = snd (cacheKeyForRequest h cfg r)"
      using l by (simp add: cacheKeyForRequest_def Let_def)
    moreover have "enKeyBase e = snd (cacheKeyForRequest h cfg ?j)" by (subst j(3)) (simp add: make_entry_def)
    ultimately show ?thesis using e(1) by simp
  qed
  have "kv_view t (snd (cache_invalidate memory_ops cfg now key (cstore st))) ?k = None"
    using memory_cached.invalidate_deletes [OF assms(6) g assms(7) nh assms(9,8) ok_good [OF ok] written assms(10)] by simp
  moreover have "kv_inv (snd (cache_invalidate memory_ops cfg now key (cstore st)))"
    using memory_cached.invalidate_inv [OF ok_good [OF ok]] by simp
  ultimately show ?thesis using memory_kv.get_result by metis
qed

section \<open>An example run\<close>

definition run_cache :: "'s cache_env \<Rightarrow> (time \<times> cache_event) list \<Rightarrow> 's cache_state \<Rightarrow> 's cache_state" where
  "run_cache env evs st = fold (\<lambda>e st. cache_step env (fst e) (snd e) st) evs st"

lemma run_reach: "cache_reach env s0 st \<Longrightarrow> cache_reach env s0 (run_cache env evs st)"
  unfolding run_cache_def by (induction evs arbitrary: st) (auto intro: cache_reach.step)

definition demo_options :: cache_options where
  "demo_options = \<lparr>coTtlMs = None, coKeyGenerator = None, coQueryParams = None, coMaxKeyLength = None, coMethods = None, coStatusCodes = None,
     coExclude = None, coPrefix = None, coVaryHeaders = Some [''Accept-Language''], coCredentialHeaders = None, coPublicHeaders = None\<rparr>"

definition demo_cfg :: cache_config where
  "demo_cfg = createResponseCache demo_options"

definition demo_represented :: "string list" where
  "demo_represented = [''origin'', ''accept-encoding''] @ HOST_REWRITE_HEADERS @ [''accept-language'']"

text \<open>The sets of the configuration, computed once.\<close>

lemma demo_cfg_sets:
  "set_of_list ([''origin'', ''accept-encoding''] @ HOST_REWRITE_HEADERS @ map to_lower [''Accept-Language'']) = demo_represented"
  "set_of_list (map to_lower (DEFAULT_CREDENTIAL_HEADERS @ [])) = DEFAULT_CREDENTIAL_HEADERS"
  "filter (\<lambda>h. h \<notin> set DEFAULT_CREDENTIAL_HEADERS) (PUBLIC_REQUEST_HEADERS @ demo_represented @ []) = PUBLIC_REQUEST_HEADERS @ demo_represented"
  by code_simp+

lemma demo_cfg_code [code]:
  "demo_cfg = \<lparr>ccTtlMs = 60000, methods = [''GET'', ''HEAD''], statusCodes = [200], exclude = [], ccPrefix = ''rc:'',
     varyHeaders = [''Accept-Language''], representedVaryHeaders = demo_represented, credentialHeaders = DEFAULT_CREDENTIAL_HEADERS,
     publicHeaders = PUBLIC_REQUEST_HEADERS @ demo_represented, maxKeyLength = 512, keyGenerator = defaultKeyGenerator None\<rparr>"
  unfolding demo_cfg_def createResponseCache_def Let_def demo_options_def cache_options.select_convs default_to_def option.case
    demo_cfg_sets list.map(1) ..

definition demo_cache_env :: "cache_entry kvstore cache_env" where
  "demo_cache_env = memory_env demo_cfg (\<lambda>_. None) (\<lambda>s. s)"

definition demo_url :: cache_url where
  "demo_url = \<lparr>cuProtocol = ''http:'', cuHost = ''a.io'', cuPathname = ''/d'', cuParams = [([112], [49])]\<rparr>"

definition demo_first :: cache_request where
  "demo_first = \<lparr>cqMethod = ''GET'', cqUrl = demo_url, cqHeaders = [(''host'', ''a.io'')]\<rparr>"

definition demo_reload :: cache_request where
  "demo_reload = \<lparr>cqMethod = ''GET'', cqUrl = demo_url, cqHeaders = [(''host'', ''a.io''), (''cache-control'', ''no-cache'')]\<rparr>"

definition demo_response :: cache_response where
  "demo_response = \<lparr>crStatus = 200, crHeaders = \<lparr>hmap = [(''cache-control'', ''max-age=5'')], hcookies = []\<rparr>, crBody = Bytes []\<rparr>"

definition demo_c1 :: "cache_entry kvstore cache_state" where
  "demo_c1 = run_cache demo_cache_env [(0, Arrive demo_first None), (0, Run 0 Rejects), (0, Run 0 Rejects), (0, Run 0 Rejects)]
     \<lparr>cstore = newStore None, cjobs = [], inFlight = []\<rparr>"

definition demo_c2 :: "cache_entry kvstore cache_state" where
  "demo_c2 = run_cache demo_cache_env [(1, Arrive demo_reload None), (1, Run 1 Rejects), (1, Run 1 Rejects)] demo_c1"

definition demo_c3 :: "cache_entry kvstore cache_state" where
  "demo_c3 = run_cache demo_cache_env [(2, Run 0 (Returns demo_response)), (3, Run 0 (Returns demo_response))] demo_c2"

lemma demo_c3_pcs: "map jqPc (cjobs demo_c3) = [Stored demo_response, Wait 0 1]"
  by code_simp

lemma demo_c3_requests: "map jqReq (cjobs demo_c3) = [demo_first, demo_reload] \<and> map jqFetched (cjobs demo_c3) = [Some demo_response, None]"
  by code_simp

lemma demo_c3_entry:
  "kv_view 4 (cstore demo_c3) (job_key demo_cache_env (cjobs demo_c3 ! 0)) = Some (Other (make_entry demo_cfg None 3 demo_response))"
  by code_simp

lemma demo_cfg_ok: "cache_config_ok demo_cfg \<and> list_all (\<lambda>c. c \<notin> set NULL_BODY_STATUSES) (statusCodes demo_cfg) \<and>
    \<not> isPossiblyCredentialed demo_cfg demo_reload"
  by code_simp

lemma demo_c3_reach: "cache_reach (memory_env demo_cfg (\<lambda>_. None) (\<lambda>s. s)) (newStore None) demo_c3"
  unfolding demo_c3_def demo_c2_def demo_c1_def demo_cache_env_def
  by (intro run_reach cache_reach.start)

lemma demo_c3_jobs: "length (cjobs demo_c3) = 2" "jqPc (cjobs demo_c3 ! 0) = Stored demo_response" "jqPc (cjobs demo_c3 ! 1) = Wait 0 1"
  "jqReq (cjobs demo_c3 ! 0) = demo_first" "jqReq (cjobs demo_c3 ! 1) = demo_reload"
proof -
  show l: "length (cjobs demo_c3) = 2" using arg_cong [OF demo_c3_pcs, of length] by simp
  show "jqPc (cjobs demo_c3 ! 0) = Stored demo_response" "jqPc (cjobs demo_c3 ! 1) = Wait 0 1"
    using arg_cong [OF demo_c3_pcs, of "\<lambda>l. l ! 0"] arg_cong [OF demo_c3_pcs, of "\<lambda>l. l ! 1"] l by simp_all
  show "jqReq (cjobs demo_c3 ! 0) = demo_first" "jqReq (cjobs demo_c3 ! 1) = demo_reload"
    using arg_cong [OF conjunct1 [OF demo_c3_requests], of "\<lambda>l. l ! 0"] arg_cong [OF conjunct1 [OF demo_c3_requests], of "\<lambda>l. l ! 1"] l
    by simp_all
qed

definition demo_c4 :: "cache_entry kvstore cache_state" where
  "demo_c4 = fold (wake (memory_env demo_cfg (\<lambda>_. None) (\<lambda>s. s)) 4) [1]
     (cache_step (memory_env demo_cfg (\<lambda>_. None) (\<lambda>s. s)) 4 (Run 0 Rejects) demo_c3)"

theorem cache_single_flight_witness: "is_hit (cjobs demo_c4 ! 1) \<and> jqFetched (cjobs demo_c4 ! 1) = None"
proof -
  have st: "set (statusCodes demo_cfg) \<inter> set NULL_BODY_STATUSES = {}"
    using conjunct1 [OF conjunct2 [OF demo_cfg_ok]] by (auto simp only: list_all_iff)
  have e: "enCachedAt (make_entry demo_cfg None 3 demo_response) = 3" by (simp add: make_entry_def)
  have js: "\<forall>j \<in> set [1]. \<exists>since. j < length (cjobs demo_c3) \<and> jqPc (cjobs demo_c3 ! j) = Wait 0 since \<and>
      (bypassRead (jqReq (cjobs demo_c3 ! j)) \<longrightarrow> since \<le> enCachedAt (make_entry demo_cfg None 3 demo_response)) \<and>
      (isPossiblyCredentialed demo_cfg (jqReq (cjobs demo_c3 ! j)) \<longrightarrow>
         isExplicitlyPublic (map_of (enHeaders (make_entry demo_cfg None 3 demo_response)) ''cache-control''))"
    using demo_c3_jobs conjunct2 [OF conjunct2 [OF demo_cfg_ok]] e by simp
  have n: "0 < length (cjobs demo_c3)" "distinct [1::nat]" using demo_c3_jobs(1) by simp_all
  show ?thesis
    using cache_single_flight [OF demo_c3_reach conjunct1 [OF demo_cfg_ok] st n(1) demo_c3_jobs(2) n(2)
      demo_c3_entry [unfolded demo_cache_env_def] js demo_c4_def] by simp
qed

lemma demo_c4_hit: "map (\<lambda>j. case jqPc j of Done src x \<Rightarrow> Some src | _ \<Rightarrow> None) (cjobs demo_c4) = [Some FromOrigin, Some FromCache]"
  by code_simp

lemma demo_c4_reach: "cache_reach (memory_env demo_cfg (\<lambda>_. None) (\<lambda>s. s)) (newStore None) demo_c4"
  unfolding demo_c4_def wake_def fold.simps comp_apply id_apply by (intro cache_reach.step demo_c3_reach)

theorem cache_shares_nothing_private_witness:
  "\<exists>j r. j < length (cjobs demo_c4) \<and> jqFetched (cjobs demo_c4 ! j) = Some r \<and> hcookies (crHeaders r) = []"
proof -
  have l: "length (cjobs demo_c4) = 2" using arg_cong [OF demo_c4_hit, of length] by simp
  then have "(case jqPc (cjobs demo_c4 ! 1) of Done src x \<Rightarrow> Some src | _ \<Rightarrow> None) = Some FromCache"
    using arg_cong [OF demo_c4_hit, of "\<lambda>l. l ! 1"] by simp
  then obtain x where x: "jqPc (cjobs demo_c4 ! 1) = Done FromCache x" by (auto split: cache_pc.splits)
  have "1 < length (cjobs demo_c4)" using l by simp
  from cache_shares_nothing_private [OF demo_c4_reach this x] show ?thesis by blast
qed

lemma demo_c3_read: "fst (kv_get 4 (fst (cacheKeyForRequest (\<lambda>s. s) demo_cfg demo_first)) (cstore demo_c3)) =
    Some (Other (make_entry demo_cfg None 3 demo_response))"
  by code_simp

theorem cache_honours_lifetime_witness:
  "\<exists>j r. j < length (cjobs demo_c3) \<and> jqFetched (cjobs demo_c3 ! j) = Some r \<and>
    fst (cacheKeyForRequest (\<lambda>s. s) demo_cfg (jqReq (cjobs demo_c3 ! j))) = fst (cacheKeyForRequest (\<lambda>s. s) demo_cfg demo_first)"
  using cache_honours_lifetime [OF demo_c3_reach demo_c3_read] by blast

definition demo_swapped :: cache_request where
  "demo_swapped = \<lparr>cqMethod = ''GET'', cqUrl = demo_url\<lparr>cuParams := [([113], [50]), ([112], [49])]\<rparr>, cqHeaders = [(''host'', ''a.io'')]\<rparr>"

definition demo_ordered :: cache_request where
  "demo_ordered = \<lparr>cqMethod = ''GET'', cqUrl = demo_url\<lparr>cuParams := [([112], [49]), ([113], [50])]\<rparr>, cqHeaders = [(''host'', ''a.io'')]\<rparr>"

lemma demo_requests_ok: "request_ok demo_swapped \<and> request_ok demo_ordered \<and> request_ok demo_first \<and> request_ok demo_reload"
  by (simp add: request_ok_def demo_swapped_def demo_ordered_def demo_first_def demo_reload_def demo_url_def scheme_of_def ends_with_def
      scalar_def uri_unreserved_def)

lemma demo_same_key: "fst (cacheKeyForRequest (\<lambda>s. s) demo_cfg demo_swapped) = fst (cacheKeyForRequest (\<lambda>s. s) demo_cfg demo_ordered) \<and>
    logical_key demo_cfg demo_swapped = logical_key demo_cfg demo_ordered"
  by code_simp

lemma demo_vary_plain: "\<forall>x \<in> set (default_to [] (coVaryHeaders demo_options)). CHR ''#'' \<notin> set x"
  by (simp add: demo_options_def default_to_def)

theorem cache_keys_separate_witness: "selected None (cqUrl demo_swapped) = selected None (cqUrl demo_ordered)"
proof -
  have o: "coKeyGenerator demo_options = None" "coQueryParams demo_options = None" by (simp_all add: demo_options_def)
  show ?thesis
    using cache_keys_separate [OF demo_cfg_def o(1) demo_vary_plain conjunct1 [OF demo_requests_ok]
      conjunct1 [OF conjunct2 [OF demo_requests_ok]] conjunct2 [OF demo_same_key] conjunct1 [OF demo_same_key]] o(2) by simp
qed

lemma demo_logical: "logical_key demo_cfg demo_reload = logical_key demo_cfg demo_first"
  by code_simp

theorem invalidate_reaches_variants_witness:
  "fst (kv_get 9 (fst (cacheKeyForRequest (\<lambda>s. s) demo_cfg demo_first)) (snd (cache_invalidate memory_ops demo_cfg 8 ''GET:/d'' (cstore demo_c3)))) = None"
proof -
  have reqs: "set (map jqReq (cjobs demo_c3)) = {demo_first, demo_reload}" by (simp only: conjunct1 [OF demo_c3_requests] list.set)
  have j: "\<forall>j \<in> set (cjobs demo_c3). request_ok (jqReq j) \<and>
      (take DIGEST_LENGTH (logical_key demo_cfg (jqReq j)) = take DIGEST_LENGTH (logical_key demo_cfg demo_first) \<longrightarrow>
         logical_key demo_cfg (jqReq j) = logical_key demo_cfg demo_first)"
  proof
    fix j assume "j \<in> set (cjobs demo_c3)"
    then have "jqReq j = demo_first \<or> jqReq j = demo_reload" using reqs by auto
    then show "request_ok (jqReq j) \<and>
      (take DIGEST_LENGTH (logical_key demo_cfg (jqReq j)) = take DIGEST_LENGTH (logical_key demo_cfg demo_first) \<longrightarrow>
         logical_key demo_cfg (jqReq j) = logical_key demo_cfg demo_first)"
      using demo_requests_ok demo_logical by metis
  qed
  have o: "coKeyGenerator demo_options = None" by (simp add: demo_options_def)
  have p: "CHR ''|'' \<notin> set (cuPathname (cqUrl demo_first))" "''GET:/d'' = host_key demo_first \<or> ''GET:/d'' = full_key demo_first"
    "CHR ''?'' \<notin> set ''GET:/d''" "(8::int) \<le> 9"
    by (simp_all add: demo_first_def demo_url_def host_key_def)
  show ?thesis
    using invalidate_reaches_variants [OF demo_c3_reach demo_cfg_def o demo_vary_plain j conjunct1 [OF conjunct2 [OF conjunct2 [OF demo_requests_ok]]] p]
    by blast
qed

end
