(* ===== verification/Jwt.thy ===== *)
theory Jwt
  imports App Sha256
begin

text \<open>
  The JWT plugin, \<open>packages/jwt/src/index.ts\<close>: realms, their registry on the app, and the guards.

  \<^item> The library \<open>jose\<close> is a record of functions: imports of keys, \<open>jwtVerify\<close>, and \<open>SignJWT\<close> as
    \<open>buildJwt\<close>, which applies the calls of the builder in order and gives the claim set, and
    \<open>signBuilt\<close>. Imports are functions of their arguments, so \<open>once\<close>, which only memoises them, is
    the identity. \<open>urlProtocol\<close> is \<open>new URL(..).protocol\<close>.
  \<^item> A value on a request or an app is a \<open>jwt_value\<close>: a reference to the app's registry, to a
    realm in it, to the shared namespace, a payload, or a value of somebody else. The list of realms, which
    the registry refers to, is a part of the state. The symbols are their descriptions, which
    are different from each other since realms are numbered.
  \<^item> The texts of errors other than the key ones are not spelled out: \<open>say\<close> turns an error into the
    one thrown.
\<close>

section \<open>Options and configuration\<close>

type_synonym payload = "(string, json) omap"

datatype 'j key_material = Pem string | Jwk 'j

datatype str_or_list = OneStr string | StrList "string list"

datatype span = SpanText string | SpanSeconds int

text \<open>\<open>string | number | false\<close>\<close>

datatype expires = NeverExpires | ExpiresIn span

record jwks_options =
  cooldownDurationMs :: "int option"
  cacheMaxAgeMs :: "int option"
  timeoutMs :: "int option"

record 'j jwt_options =
  joSecret :: "ustring option"
  joPublicKey :: "'j key_material option"
  joPrivateKey :: "'j key_material option"
  joJwksUri :: "string option"
  joJwks :: "jwks_options option"
  joAlgorithms :: "string list option"
  joIssuer :: "str_or_list option"
  joAudience :: "str_or_list option"
  joSubject :: "string option"
  joClockTolerance :: "span option"
  joMaxTokenAge :: "span option"
  joRequireExpiration :: "bool option"
  joExpiresIn :: "expires option"

datatype 'e jwt_error =
    InvalidJwksUri string
  | InsecureJwks string
  | NoKeyMaterial
  | SeveralKeySources
  | NoAlgorithms
  | NeverExpiresRejected
  | CannotSign string
  | NoExpClaim
  | AmbiguousNamespace nat
  | RealmNotRegistered
  | SeveralRealms nat nat
  | OutsideRealms nat
  | JoseError 'e

text \<open>What \<open>createRemoteJWKSet\<close> is given: the address and three durations.\<close>

datatype 'j verify_source =
    SecretKey "nat list"
  | PublicKey "'j key_material" string
  | RemoteKeys string int int int

datatype 'j sign_source =
    SignSecret "nat list"
  | SignPrivate "'j key_material" string
  | SignNone string

record verify_options =
  voAlgorithms :: "string list"
  voIssuer :: "str_or_list option"
  voAudience :: "str_or_list option"
  voSubject :: "string option"
  voClockTolerance :: "span option"
  voMaxTokenAge :: "span option"

record 'j jwt_config =
  jcVerifyKey :: "'j verify_source"
  jcSignKey :: "'j sign_source"
  jcAlgorithms :: "string list"
  jcVerifyOptions :: verify_options
  jcRequireExpiration :: bool
  jcDefaultExpiresIn :: expires
  jcIssuer :: "str_or_list option"
  jcAudience :: "str_or_list option"

section \<open>The library\<close>

datatype builder_call = SetIssuedAt | SetIssuer "string option" | SetAudience str_or_list | SetExpirationTime span

datatype 'k lib_key = RawKey "nat list" | ImportedKey 'k | RemoteKeySet string int int int

record ('j, 'k, 'e) jose =
  importSPKI :: "string \<Rightarrow> string \<Rightarrow> 'e + 'k"
  importPKCS8 :: "string \<Rightarrow> string \<Rightarrow> 'e + 'k"
  importJWK :: "'j \<Rightarrow> string \<Rightarrow> 'e + 'k"
  jwtVerify :: "time \<Rightarrow> string \<Rightarrow> 'k lib_key \<Rightarrow> verify_options \<Rightarrow> 'e + payload"
  buildJwt :: "time \<Rightarrow> payload \<Rightarrow> builder_call list \<Rightarrow> 'e + payload"
  signBuilt :: "string \<Rightarrow> payload \<Rightarrow> 'k lib_key \<Rightarrow> 'e + string"

section \<open>Resolving options\<close>

definition MIN_HMAC_SECRET_BYTES :: nat where
  "MIN_HMAC_SECRET_BYTES = 32"

text \<open>Whether the warning is printed.\<close>

definition warnIfWeakHmacSecret :: "nat list \<Rightarrow> string list \<Rightarrow> bool" where
  "warnIfWeakHmacSecret secretKey algorithms =
     (length secretKey < MIN_HMAC_SECRET_BYTES \<and> list_ex (\<lambda>alg. starts_with alg ''HS'') algorithms)"

definition createJWKSResolver ::
    "(string \<Rightarrow> string option) \<Rightarrow> string \<Rightarrow> jwks_options option \<Rightarrow> 'e jwt_error + 'j verify_source" where
  "createJWKSResolver urlProtocol uri opt =
     (case urlProtocol uri of
        None \<Rightarrow> Inl (InvalidJwksUri uri)
      | Some p \<Rightarrow>
          if p \<noteq> ''https:'' then Inl (InsecureJwks p)
          else Inr (RemoteKeys uri
            (case Option.bind opt cooldownDurationMs of None \<Rightarrow> 30000 | Some n \<Rightarrow> n)
            (case Option.bind opt cacheMaxAgeMs of None \<Rightarrow> 600000 | Some n \<Rightarrow> n)
            (case Option.bind opt timeoutMs of None \<Rightarrow> 5000 | Some n \<Rightarrow> n)))"

definition defaultAlgorithms :: "'j jwt_options \<Rightarrow> string list" where
  "defaultAlgorithms opt = (if joSecret opt \<noteq> None then [''HS256''] else [''RS256''])"

definition signKeyFromPrivate :: "'j key_material option \<Rightarrow> string \<Rightarrow> string \<Rightarrow> 'j sign_source" where
  "signKeyFromPrivate privateKey alg mode =
     (case privateKey of None \<Rightarrow> SignNone mode | Some k \<Rightarrow> SignPrivate k alg)"

definition key_sources :: "'j jwt_options \<Rightarrow> nat" where
  "key_sources opt = length (filter id [joSecret opt \<noteq> None, joPublicKey opt \<noteq> None, joJwksUri opt \<noteq> None])"

definition resolve_keys ::
    "(string \<Rightarrow> string option) \<Rightarrow> 'j jwt_options \<Rightarrow> string \<Rightarrow> 'e jwt_error + 'j verify_source \<times> 'j sign_source" where
  "resolve_keys urlProtocol opt alg =
     (case joSecret opt of
        Some s \<Rightarrow> Inr (SecretKey (utf8_encode s), SignSecret (utf8_encode s))
      | None \<Rightarrow>
          (case joPublicKey opt of
             Some k \<Rightarrow> Inr (PublicKey k alg, signKeyFromPrivate (joPrivateKey opt) alg ''publicKey'')
           | None \<Rightarrow>
               (case createJWKSResolver urlProtocol (case joJwksUri opt of None \<Rightarrow> [] | Some u \<Rightarrow> u) (joJwks opt) of
                  Inl e \<Rightarrow> Inl e
                | Inr v \<Rightarrow> Inr (v, signKeyFromPrivate (joPrivateKey opt) alg ''jwksUri''))))"

definition resolveConfig :: "(string \<Rightarrow> string option) \<Rightarrow> 'j jwt_options \<Rightarrow> 'e jwt_error + 'j jwt_config" where
  "resolveConfig urlProtocol opt =
     (if key_sources opt = 0 then Inl NoKeyMaterial
      else if 1 < key_sources opt then Inl SeveralKeySources
      else
        (let algorithms = (case joAlgorithms opt of None \<Rightarrow> defaultAlgorithms opt | Some a \<Rightarrow> a);
             requireExpiration = (case joRequireExpiration opt of None \<Rightarrow> True | Some b \<Rightarrow> b);
             defaultExpiresIn = (case joExpiresIn opt of None \<Rightarrow> ExpiresIn (SpanText ''15m'') | Some x \<Rightarrow> x)
         in
           if algorithms = [] then Inl NoAlgorithms
           else if defaultExpiresIn = NeverExpires \<and> requireExpiration then Inl NeverExpiresRejected
           else (case resolve_keys urlProtocol opt (hd algorithms) of
               Inl e \<Rightarrow> Inl e
             | Inr (v, s) \<Rightarrow>
                 Inr \<lparr>jcVerifyKey = v, jcSignKey = s, jcAlgorithms = algorithms,
                   jcVerifyOptions = \<lparr>voAlgorithms = algorithms, voIssuer = joIssuer opt, voAudience = joAudience opt,
                     voSubject = joSubject opt, voClockTolerance = joClockTolerance opt, voMaxTokenAge = joMaxTokenAge opt\<rparr>,
                   jcRequireExpiration = requireExpiration, jcDefaultExpiresIn = defaultExpiresIn,
                   jcIssuer = joIssuer opt, jcAudience = joAudience opt\<rparr>)))"

section \<open>Verifying and signing\<close>

fun getVerifyKey :: "('j, 'k, 'e) jose \<Rightarrow> 'j verify_source \<Rightarrow> 'e + 'k lib_key" where
  "getVerifyKey J (SecretKey bs) = Inr (RawKey bs)"
| "getVerifyKey J (PublicKey (Pem t) alg) = map_sum id ImportedKey (importSPKI J t alg)"
| "getVerifyKey J (PublicKey (Jwk j) alg) = map_sum id ImportedKey (importJWK J j alg)"
| "getVerifyKey J (RemoteKeys uri a b c) = Inr (RemoteKeySet uri a b c)"

fun getSignKey :: "('j, 'k, 'e) jose \<Rightarrow> 'j sign_source \<Rightarrow> 'e jwt_error + 'k lib_key" where
  "getSignKey J (SignSecret bs) = Inr (RawKey bs)"
| "getSignKey J (SignPrivate (Pem t) alg) = map_sum JoseError ImportedKey (importPKCS8 J t alg)"
| "getSignKey J (SignPrivate (Jwk j) alg) = map_sum JoseError ImportedKey (importJWK J j alg)"
| "getSignKey J (SignNone mode) = Inl (CannotSign mode)"

definition is_number :: "json option \<Rightarrow> bool" where
  "is_number j = (case j of Some (JNum _) \<Rightarrow> True | _ \<Rightarrow> False)"

definition verifyWithConfig :: "('j, 'k, 'e) jose \<Rightarrow> time \<Rightarrow> 'j jwt_config \<Rightarrow> string \<Rightarrow> 'e jwt_error + payload" where
  "verifyWithConfig J now cfg token =
     (case getVerifyKey J (jcVerifyKey cfg) of
        Inl e \<Rightarrow> Inl (JoseError e)
      | Inr key \<Rightarrow>
          (case jwtVerify J now token key (jcVerifyOptions cfg) of
             Inl e \<Rightarrow> Inl (JoseError e)
           | Inr p \<Rightarrow>
               if jcRequireExpiration cfg \<and> \<not> is_number (map_of p ''exp'') then Inl NoExpClaim else Inr p))"

definition sign_calls :: "time \<Rightarrow> 'j jwt_config \<Rightarrow> payload \<Rightarrow> expires option \<Rightarrow> builder_call list" where
  "sign_calls now cfg p expiresIn =
     [SetIssuedAt]
     @ (case jcIssuer cfg of
          Some i \<Rightarrow>
            if map_of p ''iss'' = None
            then [SetIssuer (case i of OneStr s \<Rightarrow> Some s | StrList [] \<Rightarrow> None | StrList (s # _) \<Rightarrow> Some s)] else []
        | None \<Rightarrow> [])
     @ (case jcAudience cfg of Some a \<Rightarrow> if map_of p ''aud'' = None then [SetAudience a] else [] | None \<Rightarrow> [])
     @ (case (case expiresIn of None \<Rightarrow> jcDefaultExpiresIn cfg | Some x \<Rightarrow> x) of
          NeverExpires \<Rightarrow> []
        | ExpiresIn (SpanSeconds n) \<Rightarrow> [SetExpirationTime (SpanSeconds (now div 1000 + n))]
        | ExpiresIn (SpanText t) \<Rightarrow> [SetExpirationTime (SpanText t)])"

definition signWithConfig ::
    "('j, 'k, 'e) jose \<Rightarrow> time \<Rightarrow> 'j jwt_config \<Rightarrow> payload \<Rightarrow> expires option \<Rightarrow> 'e jwt_error + string" where
  "signWithConfig J now cfg p expiresIn =
     (case buildJwt J now p (sign_calls now cfg p expiresIn) of
        Inl e \<Rightarrow> Inl (JoseError e)
      | Inr claims \<Rightarrow>
          (case getSignKey J (jcSignKey cfg) of
             Inl e \<Rightarrow> Inl e
           | Inr key \<Rightarrow> map_sum JoseError id (signBuilt J (hd (jcAlgorithms cfg)) claims key)))"

section \<open>The realms of an app\<close>

datatype 'v jwt_value = JwtRegistry | JwtRealm nat | JwtNamespace | JwtUser payload | PlainValue 'v

record ('h, 'v, 'x, 'j) jwt_app =
  jctx :: "('h, 'v jwt_value, 'x) app_ctx"
  jrealms :: "'j jwt_config list"

definition REQUEST_REGISTRY_KEY :: string where
  "REQUEST_REGISTRY_KEY = ''@celsian/jwt/realm-registry''"

definition presenceKey :: "nat \<Rightarrow> string" where
  "presenceKey i = ''@celsian/jwt/realm#'' @ show_nat (Suc i)"

definition getOrCreateRegistry :: "cid \<Rightarrow> ('h, 'v, 'x, 'j) jwt_app \<Rightarrow> ('h, 'v, 'x, 'j) jwt_app" where
  "getOrCreateRegistry c s =
     (if ctx_getRequestDecoration c REQUEST_REGISTRY_KEY True (jctx s) \<noteq> None then s
      else \<lparr>jctx = ctx_decorateRequest c REQUEST_REGISTRY_KEY JwtRegistry True (jctx s), jrealms = []\<rparr>)"

text \<open>The plugin function of a realm, on the context \<open>c\<close> it is called with. The last call may throw.\<close>

definition jwtPlugin ::
    "cid \<Rightarrow> 'j jwt_config \<Rightarrow> ('h, 'v, 'x, 'j) jwt_app \<Rightarrow> plugin_error option \<times> ('h, 'v, 'x, 'j) jwt_app" where
  "jwtPlugin c cfg s =
     (let s1 = getOrCreateRegistry c s;
          n = length (jrealms s1);
          ac = ctx_decorateRequest c (presenceKey n) (JwtRealm n) False (jctx s1)
      in (case ctx_decorate c ''jwt'' JwtNamespace ac of
            (e, ac') \<Rightarrow> (e, \<lparr>jctx = ac', jrealms = jrealms s1 @ [cfg]\<rparr>)))"

definition soleRealm :: "'j jwt_config list \<Rightarrow> 'e jwt_error + 'j jwt_config" where
  "soleRealm rs = (case rs of [r] \<Rightarrow> Inr r | _ \<Rightarrow> Inl (AmbiguousNamespace (length rs)))"

text \<open>\<open>app.jwt.sign\<close> and \<open>app.jwt.verify\<close>\<close>

definition namespace_sign ::
    "('j, 'k, 'e) jose \<Rightarrow> time \<Rightarrow> 'j jwt_config list \<Rightarrow> payload \<Rightarrow> expires option \<Rightarrow> 'e jwt_error + string" where
  "namespace_sign J now rs p x = (case soleRealm rs of Inl e \<Rightarrow> Inl e | Inr cfg \<Rightarrow> signWithConfig J now cfg p x)"

definition namespace_verify :: "('j, 'k, 'e) jose \<Rightarrow> time \<Rightarrow> 'j jwt_config list \<Rightarrow> string \<Rightarrow> 'e jwt_error + payload" where
  "namespace_verify J now rs t = (case soleRealm rs of Inl e \<Rightarrow> Inl e | Inr cfg \<Rightarrow> verifyWithConfig J now cfg t)"

section \<open>Guards\<close>

definition deny :: "string \<Rightarrow> ('v, 'w) st \<Rightarrow> hook_outcome \<times> ('v, 'w) st" where
  "deny msg s =
     (case reply_json (JObj [(''error'', JStr msg)]) (reply_status 401 (sRep s)) of
        (r, rp) \<Rightarrow> (HResponse r, s\<lparr>sRep := rp\<rparr>))"

definition createGuardForConfig ::
    "('j, 'k, 'e) jose \<Rightarrow> ('e jwt_error \<Rightarrow> js_error) \<Rightarrow> time \<Rightarrow>
     (('v jwt_value, 'v jwt_value) request \<Rightarrow> 'e jwt_error + 'j jwt_config) \<Rightarrow>
     ('v jwt_value, 'w) st \<Rightarrow> hook_outcome \<times> ('v jwt_value, 'w) st" where
  "createGuardForConfig J say now resolve s =
     (case resolve (sReq s) of
        Inl e \<Rightarrow> (HThrew (say e), s)
      | Inr cfg \<Rightarrow>
          (case headers_get ''authorization'' (qHeaders (sReq s)) of
             None \<Rightarrow> deny ''Missing or invalid authorization header'' s
           | Some auth \<Rightarrow>
               if \<not> starts_with auth ''Bearer '' then deny ''Missing or invalid authorization header'' s
               else (case verifyWithConfig J now cfg (drop 7 auth) of
                   Inl _ \<Rightarrow> deny ''Invalid or expired token'' s
                 | Inr p \<Rightarrow> (HNothing, s\<lparr>sReq := (sReq s)\<lparr>qProps := AList.update ''user'' (JwtUser p) (qProps (sReq s))\<rparr>\<rparr>))))"

text \<open>The realm of a request: the resolver of \<open>createJWTGuard()\<close> without options.\<close>

definition realm_of_request :: "'j jwt_config list \<Rightarrow> ('v, 'f) request \<Rightarrow> 'e jwt_error + 'j jwt_config" where
  "realm_of_request rs q =
     (if map_of (qProps q) REQUEST_REGISTRY_KEY = None \<or> rs = [] then Inl RealmNotRegistered
      else (case filter (\<lambda>i. map_of (qProps q) (presenceKey i) \<noteq> None) [0..<length rs] of
          [i] \<Rightarrow> Inr (rs ! i)
        | [] \<Rightarrow> (case rs of [r] \<Rightarrow> Inr r | _ \<Rightarrow> Inl (OutsideRealms (length rs)))
        | is \<Rightarrow> Inl (SeveralRealms (length is) (length rs))))"

text \<open>\<open>createJWTGuard\<close>: with options the realm is fixed when the guard is made.\<close>

definition createJWTGuard ::
    "('j, 'k, 'e) jose \<Rightarrow> ('e jwt_error \<Rightarrow> js_error) \<Rightarrow> (string \<Rightarrow> string option) \<Rightarrow> 'j jwt_options option \<Rightarrow>
     'e jwt_error + (time \<Rightarrow> 'j jwt_config list \<Rightarrow> ('v jwt_value, 'w) st \<Rightarrow> hook_outcome \<times> ('v jwt_value, 'w) st)" where
  "createJWTGuard J say urlProtocol opts =
     (case opts of
        Some opt \<Rightarrow>
          (case resolveConfig urlProtocol opt of
             Inl e \<Rightarrow> Inl e
           | Inr cfg \<Rightarrow> Inr (\<lambda>now rs. createGuardForConfig J say now (\<lambda>_. Inr cfg)))
      | None \<Rightarrow> Inr (\<lambda>now rs. createGuardForConfig J say now (realm_of_request rs)))"

end
