(* ===== verification/Jwt_Props.thy ===== *)
theory Jwt_Props
  imports Jwt App_Props
begin

text \<open>
  Properties of the JWT plugin.

  \<^item> What a configuration that was accepted guarantees, and that a realm by default never mints a
    token its own policy rejects.
  \<^item> The registry of realms: \<open>jwt_reach\<close> are the states of an app on which realms are registered between
    other operations, with the contexts the realms were registered on; the invariant \<open>jwt_inv\<close>
    by rule induction says where the presence keys are. With \<open>applies\<close>, the
    encapsulation of \<open>Context_Props\<close>, this gives the realm an unbound guard picks.
  \<^item> A guarded handler runs with the payload of the request's own token only.
\<close>

section \<open>Configurations\<close>

lemma resolved_config:
  fixes cfg :: "'j jwt_config"
  assumes "(resolveConfig urlProtocol opt :: 'e jwt_error + 'j jwt_config) = Inr cfg"
  shows "key_sources opt = 1" and "jcAlgorithms cfg \<noteq> []" and "voAlgorithms (jcVerifyOptions cfg) = jcAlgorithms cfg"
    and "jcRequireExpiration cfg \<Longrightarrow> jcDefaultExpiresIn cfg \<noteq> NeverExpires"
    and "(resolve_keys urlProtocol opt (hd (jcAlgorithms cfg)) :: 'e jwt_error + 'j verify_source \<times> 'j sign_source) = Inr (jcVerifyKey cfg, jcSignKey cfg)"
    and "voIssuer (jcVerifyOptions cfg) = joIssuer opt" and "voAudience (jcVerifyOptions cfg) = joAudience opt"
    and "voSubject (jcVerifyOptions cfg) = joSubject opt"
  using assms by (auto simp: resolveConfig_def Let_def split: if_splits sum.splits prod.splits)

lemma remote_keys_https:
  "createJWKSResolver urlProtocol uri j = Inr (RemoteKeys u a b c) \<Longrightarrow> u = uri \<and> urlProtocol uri = Some ''https:''"
  by (simp add: createJWKSResolver_def split: option.splits if_splits)

lemma remote_source:
  assumes "resolveConfig urlProtocol opt = Inr cfg" and "jcVerifyKey cfg = RemoteKeys u a b c"
  shows "joJwksUri opt = Some u \<and> urlProtocol u = Some ''https:''"
proof -
  note k = resolved_config(5) [OF assms(1), unfolded assms(2)]
  have n: "key_sources opt = 1" by (rule resolved_config(1) [OF assms(1)])
  have none: "joSecret opt = None" "joPublicKey opt = None"
    using k by (auto simp: resolve_keys_def split: option.splits)
  then obtain x where x: "joJwksUri opt = Some x"
    using n by (cases "joJwksUri opt") (auto simp: key_sources_def)
  show ?thesis using k none x by (auto simp: resolve_keys_def split: sum.splits dest!: remote_keys_https)
qed

text \<open>
  Configurations fail loudly: one that is accepted has exactly one source of keys, a non-empty list
  of algorithms that every verification passes on, keys fetched over https only, and does
  not mint by default the non-expiring tokens it would reject.
\<close>

theorem jwt_config_sound:
  assumes "resolveConfig urlProtocol opt = Inr cfg"
  shows "(if joSecret opt \<noteq> None then 1 else 0) + (if joPublicKey opt \<noteq> None then 1 else 0) + (if joJwksUri opt \<noteq> None then 1 else 0) = (1 :: nat)
    \<and> jcAlgorithms cfg \<noteq> [] \<and> voAlgorithms (jcVerifyOptions cfg) = jcAlgorithms cfg
    \<and> (case jcVerifyKey cfg of RemoteKeys u _ _ _ \<Rightarrow> joJwksUri opt = Some u \<and> urlProtocol u = Some ''https:'' | _ \<Rightarrow> True)
    \<and> \<not> (jcRequireExpiration cfg \<and> jcDefaultExpiresIn cfg = NeverExpires)"
proof -
  have "(if joSecret opt \<noteq> None then 1 else 0) + (if joPublicKey opt \<noteq> None then 1 else 0) + (if joJwksUri opt \<noteq> None then 1 else 0) = key_sources opt"
    by (simp add: key_sources_def)
  moreover have "case jcVerifyKey cfg of RemoteKeys u _ _ _ \<Rightarrow> joJwksUri opt = Some u \<and> urlProtocol u = Some ''https:'' | _ \<Rightarrow> True"
    using remote_source [OF assms] by (cases "jcVerifyKey cfg") simp_all
  ultimately show ?thesis using resolved_config(1-4) [OF assms] by metis
qed

section \<open>Tokens of a realm\<close>

text \<open>What the documentation of \<open>jose\<close> says: the builder's \<open>setExpirationTime\<close> sets \<open>exp\<close> to a number, and
  a token that verifies, under whatever key, gives the claims it was signed with.\<close>

definition jose_documented :: "('j, 'k, 'e) jose \<Rightarrow> bool" where
  "jose_documented J \<longleftrightarrow>
     (\<forall>now p calls claims x. buildJwt J now p calls = Inr claims \<longrightarrow> SetExpirationTime x \<in> set calls \<longrightarrow>
        is_number (map_of claims ''exp''))
     \<and> (\<forall>alg claims key token now key' vo p. signBuilt J alg claims key = Inr token \<longrightarrow> jwtVerify J now token key' vo = Inr p \<longrightarrow> p = claims)"

lemma default_calls_expire:
  "jcDefaultExpiresIn cfg \<noteq> NeverExpires \<Longrightarrow> \<exists>x. SetExpirationTime x \<in> set (sign_calls now cfg p None)"
  by (cases "jcDefaultExpiresIn cfg") (auto simp: sign_calls_def split: span.split)

text \<open>
  A realm stands by its own tokens: one minted without an explicit lifetime is never turned down
  for missing an expiry; verification by the same realm gives what \<open>jwtVerify\<close> gives.
\<close>

theorem own_tokens_accepted:
  assumes "resolveConfig urlProtocol opt = Inr cfg" and doc: "jose_documented J"
    and sign: "signWithConfig J t0 cfg claims None = Inr token" and key: "getVerifyKey J (jcVerifyKey cfg) = Inr key"
  shows "verifyWithConfig J t1 cfg token = map_sum JoseError id (jwtVerify J t1 token key (jcVerifyOptions cfg))"
proof -
  obtain built k where b: "buildJwt J t0 claims (sign_calls t0 cfg claims None) = Inr built"
      "signBuilt J (hd (jcAlgorithms cfg)) built k = Inr token"
    using sign by (auto simp: signWithConfig_def map_sum_Inr split: sum.splits)
  show ?thesis
  proof (cases "jwtVerify J t1 token key (jcVerifyOptions cfg)")
    case (Inr p)
    then have p: "p = built" using doc b(2) unfolding jose_documented_def by blast
    have "is_number (map_of p ''exp'')" if req: "jcRequireExpiration cfg"
    proof -
      obtain x where "SetExpirationTime x \<in> set (sign_calls t0 cfg claims None)"
        using default_calls_expire resolved_config(4) [OF assms(1) req] by blast
      then show ?thesis using doc b(1) p unfolding jose_documented_def by blast
    qed
    then show ?thesis using Inr key by (simp add: verifyWithConfig_def)
  qed (simp add: verifyWithConfig_def key)
qed

section \<open>Names of the plugin's decorations\<close>

definition private_key :: "string \<Rightarrow> bool" where
  "private_key k = starts_with k ''@celsian/jwt/realm''"

lemma presence_inj [simp]: "presenceKey i = presenceKey j \<longleftrightarrow> i = j"
  by (metis dec_val_show nat.inject presenceKey_def same_append_eq)

lemma registry_not_presence [simp]: "presenceKey i \<noteq> REQUEST_REGISTRY_KEY" "REQUEST_REGISTRY_KEY \<noteq> presenceKey i"
  by (simp_all add: presenceKey_def REQUEST_REGISTRY_KEY_def)

lemma private_keys [simp]: "private_key (presenceKey i)" "private_key REQUEST_REGISTRY_KEY"
  by (simp_all add: private_key_def presenceKey_def REQUEST_REGISTRY_KEY_def)

lemma private_not_own: "private_key k \<Longrightarrow> k \<notin> set (own_names @ object_names @ [''ip''])"
proof -
  assume k: "private_key k"
  have "list_all (\<lambda>n. \<not> private_key n) (own_names @ object_names @ [''ip''])" by code_simp
  then show ?thesis using k by (auto simp only: list_all_iff)
qed

section \<open>Decorations that reach a request\<close>

lemma set_all_key: "map_of (set_all src tgt) k \<noteq> None \<longleftrightarrow> map_of src k \<noteq> None \<or> map_of tgt k \<noteq> None"
  unfolding set_all_def by (induction src arbitrary: tgt) (auto simp: map_of_update)

lemma fold_request_key:
  "map_of (sRequestDecorations (fold (\<lambda>c. add_context (cs ! c)) xs sc)) k \<noteq> None \<longleftrightarrow>
   map_of (sRequestDecorations sc) k \<noteq> None \<or> (\<exists>c \<in> set xs. map_of (requestDecorations (cs ! c)) k \<noteq> None)"
proof (induction xs arbitrary: sc)
  case (Cons x xs)
  have "map_of (sRequestDecorations (add_context (cs ! x) sc)) k \<noteq> None \<longleftrightarrow>
      map_of (requestDecorations (cs ! x)) k \<noteq> None \<or> map_of (sRequestDecorations sc) k \<noteq> None"
    by (simp add: add_context_def set_all_key del: not_None_eq)
  with Cons.IH [of "add_context (cs ! x) sc"] show ?case by (auto simp del: not_None_eq)
qed simp

lemma resolved_decoration:
  assumes "ctx_tree cs" and "leaf < length cs"
  shows "map_of (sRequestDecorations (resolved_scope cs leaf l)) k \<noteq> None \<longleftrightarrow>
    (\<exists>c < length cs. applies cs c leaf \<and> map_of (requestDecorations (cs ! c)) k \<noteq> None)"
proof -
  have "map_of (sRequestDecorations (resolved_scope cs leaf l)) k \<noteq> None \<longleftrightarrow>
      (\<exists>c \<in> set (collectScopeContexts cs leaf). map_of (requestDecorations (cs ! c)) k \<noteq> None)"
    using fold_request_key [of cs "collectScopeContexts cs leaf" createScope k]
    by (simp add: resolved_scope_def Let_def createScope_def del: not_None_eq)
  then show ?thesis unfolding scope_contexts_set [OF assms] by blast
qed

lemma add_decorations_key:
  "k \<notin> set names \<Longrightarrow> map_of (add_decorations f names ds ps) k \<noteq> None \<longleftrightarrow> map_of ds k \<noteq> None \<or> map_of ps k \<noteq> None"
proof (induction ds arbitrary: ps)
  case (Cons d ds)
  obtain n v where d: "d = (n, v)" by (cases d)
  let ?ps = "if n \<in> set names \<or> map_of ps n \<noteq> None then ps else AList.update n (f v) ps"
  have "map_of ?ps k \<noteq> None \<longleftrightarrow> n = k \<or> map_of ps k \<noteq> None" using Cons.prems by (auto simp: map_of_update)
  moreover have "add_decorations f names (d # ds) ps = add_decorations f names ds ?ps" by (simp add: add_decorations_def d)
  ultimately show ?case using Cons.IH [OF Cons.prems, of ?ps] by (auto simp: d)
qed (simp add: add_decorations_def)

lemma matched_decoration:
  assumes "private_key k" and "map_of (wCustom w) k = None"
  shows "map_of (qProps (sReq (matched_state E w q url ps sc t world))) k \<noteq> None \<longleftrightarrow> map_of (sRequestDecorations sc) k \<noteq> None"
proof -
  have n: "k \<notin> set (own_names @ object_names @ [''ip''])" by (rule private_not_own [OF assms(1)])
  have "map_of (copy_custom names (wCustom w)) k = None" for names
    using assms(2) unfolding copy_custom_def map_of_None_keys by auto
  then show ?thesis
    using add_decorations_key [OF n, of "decoValue E" "sRequestDecorations sc"]
    by (auto simp add: matched_state_def Let_def with_ip_def buildRequestFast_def del: not_None_eq set_append)
qed

section \<open>Where the presence keys are\<close>

abbreviation deco :: "('h, 'v, 'x) app_ctx \<Rightarrow> cid \<Rightarrow> string \<Rightarrow> 'v option" where
  "deco ac c k \<equiv> map_of (requestDecorations (ctxs ac ! c)) k"

fun writes_private :: "('h, 'v, 'x) ctx_op \<Rightarrow> bool" where
  "writes_private (DecorateRequest c name v a) = private_key name"
| "writes_private _ = False"

text \<open>An operation that decorates other names leaves a key as it was, and a new context has none.\<close>

definition deco_kept :: "string \<Rightarrow> ('h, 'v, 'x) app_ctx \<Rightarrow> ('h, 'v, 'x) app_ctx \<Rightarrow> bool" where
  "deco_kept k s t \<longleftrightarrow> length (ctxs s) \<le> length (ctxs t)
     \<and> (\<forall>c < length (ctxs t). deco t c k = (if c < length (ctxs s) then deco s c k else None))"

lemma deco_kept_refl [simp]: "deco_kept k s s"
  by (simp add: deco_kept_def)

lemma nth_update_any: "c < length xs \<Longrightarrow> xs[d := y] ! c = (if d = c then y else xs ! c)"
  by (cases "d < length xs") (auto simp: nth_list_update)

lemma deco_kept_update:
  "(\<And>x. map_of (requestDecorations (f x)) k = map_of (requestDecorations x) k) \<Longrightarrow> deco_kept k s (update_ctx c f s)"
  by (auto simp: deco_kept_def update_ctx_def nth_update_any)

lemma deco_kept_parts [simp]:
  "deco_kept k s (invalidate t) = deco_kept k s t" "deco_kept k s (t\<lparr>bindings := bs\<rparr>) = deco_kept k s t"
  "deco_kept k s (t\<lparr>dirty := d\<rparr>) = deco_kept k s t" "deco_kept k s (t\<lparr>crouter := r\<rparr>) = deco_kept k s t"
  by (simp_all add: deco_kept_def invalidate_def)

lemma createChild_kept: "deco_kept k s (snd (createChild c p s))"
  by (auto simp: deco_kept_def createChild_def Let_def invalidate_def update_ctx_def new_context_def nth_append nth_update_any)

lemma request_kept: "name \<noteq> k \<Longrightarrow> deco_kept k s (ctx_decorateRequest c name v a s)"
  by (auto simp: ctx_decorateRequest_def map_of_update intro!: deco_kept_update)

lemma decorate_kept: "deco_kept k s (snd (ctx_decorate c name v s))"
  by (auto simp: ctx_decorate_def intro!: deco_kept_update)

lemma op_kept:
  assumes "private_key k" and "\<not> writes_private x"
  shows "deco_kept k s (run_ctx_op x s)"
proof (cases x)
  case (DecorateRequest c name v a)
  then show ?thesis using assms by (auto intro: request_kept)
qed (use assms in \<open>auto simp: ctx_register_def createChild_kept decorate_kept createContextScope_def register_binding_def
      ctx_addRoute_def flush_def ctx_addHook_def ctx_decorateReply_def Let_def
      intro!: deco_kept_update split: prod.splits\<close>)

inductive jwt_reach :: "cid list \<Rightarrow> ('h, 'v, 'x, 'j) jwt_app \<Rightarrow> bool" where
  jwt_start: "jwt_reach [] \<lparr>jctx = newAppCtx p r, jrealms = []\<rparr>"
| jwt_other: "jwt_reach cs s \<Longrightarrow> \<not> writes_private x \<Longrightarrow> jwt_reach cs (s\<lparr>jctx := run_ctx_op x (jctx s)\<rparr>)"
| jwt_realm: "jwt_reach cs s \<Longrightarrow> c < length (ctxs (jctx s)) \<Longrightarrow> jwt_reach (cs @ [c]) (snd (jwtPlugin c cfg s))"

definition jwt_inv :: "cid list \<Rightarrow> ('h, 'v, 'x, 'j) jwt_app \<Rightarrow> bool" where
  "jwt_inv cs s \<longleftrightarrow> ctx_inv (jctx s) \<and> length cs = length (jrealms s)
     \<and> (\<forall>c < length (ctxs (jctx s)). (deco (jctx s) c REQUEST_REGISTRY_KEY \<noteq> None \<longleftrightarrow> cs \<noteq> [] \<and> c = 0)
         \<and> (\<forall>i. deco (jctx s) c (presenceKey i) \<noteq> None \<longleftrightarrow> i < length cs \<and> c = cs ! i))
     \<and> (\<forall>c \<in> set cs. c < length (ctxs (jctx s)))"

lemma jwt_invD:
  assumes "jwt_inv cs s"
  shows "ctx_inv (jctx s)" "length cs = length (jrealms s)"
    and "c < length (ctxs (jctx s)) \<Longrightarrow> deco (jctx s) c REQUEST_REGISTRY_KEY \<noteq> None \<longleftrightarrow> cs \<noteq> [] \<and> c = 0"
    and "c < length (ctxs (jctx s)) \<Longrightarrow> deco (jctx s) c (presenceKey i) \<noteq> None \<longleftrightarrow> i < length cs \<and> c = cs ! i"
    and "i < length cs \<Longrightarrow> cs ! i < length (ctxs (jctx s))"
  using assms unfolding jwt_inv_def by (simp_all del: not_None_eq)

lemma jwt_inv_kept:
  assumes "jwt_inv cs s" and "ctx_inv t" and kept: "\<And>k. private_key k \<Longrightarrow> deco_kept k (jctx s) t"
  shows "jwt_inv cs (s\<lparr>jctx := t\<rparr>)"
proof -
  have le: "length (ctxs (jctx s)) \<le> length (ctxs t)" using kept [of REQUEST_REGISTRY_KEY] by (simp add: deco_kept_def)
  have d: "deco t c k = (if c < length (ctxs (jctx s)) then deco (jctx s) c k else None)"
    if "private_key k" and "c < length (ctxs t)" for c k
    using kept [OF that(1)] that(2) by (simp add: deco_kept_def)
  have tree: "0 < length (ctxs (jctx s))" using assms(1) tree_root by (auto simp: jwt_inv_def ctx_inv_def)
  show ?thesis
    using assms(1,2) le tree unfolding jwt_inv_def
    by (auto simp: d simp del: not_None_eq dest: nth_mem)
qed

lemma decorate_request_deco:
  assumes "decoration_target a c s < length (ctxs s)" and "c' < length (ctxs s)"
  shows "deco (ctx_decorateRequest c name v a s) c' k = (if k = name \<and> c' = decoration_target a c s then Some v else deco s c' k)"
  using assms by (auto simp: ctx_decorateRequest_def invalidate_def update_ctx_def nth_update_any map_of_update)

lemma decorate_request_inv:
  "ctx_inv s \<Longrightarrow> c < length (ctxs s) \<Longrightarrow> ctx_inv (ctx_decorateRequest c name v a s) \<and> length (ctxs (ctx_decorateRequest c name v a s)) = length (ctxs s)"
  using run_ctx_op_inv [of s "DecorateRequest c name v a"] by (simp add: ctx_decorateRequest_def invalidate_def update_ctx_def)

lemma root_target: "ctx_inv s \<Longrightarrow> c < length (ctxs s) \<Longrightarrow> decoration_target True c s = 0"
  by (simp add: decoration_target_def ctx_inv_def to_root_root)

lemma registry_step:
  assumes inv: "jwt_inv cs s" and c: "c < length (ctxs (jctx s))" and s1: "s1 = getOrCreateRegistry c s"
  shows "ctx_inv (jctx s1) \<and> jrealms s1 = jrealms s \<and> length (ctxs (jctx s1)) = length (ctxs (jctx s))
    \<and> (\<forall>d < length (ctxs (jctx s)). (deco (jctx s1) d REQUEST_REGISTRY_KEY \<noteq> None \<longleftrightarrow> d = 0)
         \<and> (\<forall>i. deco (jctx s1) d (presenceKey i) \<noteq> None \<longleftrightarrow> i < length cs \<and> d = cs ! i))"
proof -
  have ci: "ctx_inv (jctx s)" using inv by (simp add: jwt_inv_def)
  note t = root_target [OF ci c]
  have z: "0 < length (ctxs (jctx s))" using c by linarith
  have reg: "ctx_getRequestDecoration c REQUEST_REGISTRY_KEY True (jctx s) \<noteq> None \<longleftrightarrow> cs \<noteq> []"
    using inv z unfolding ctx_getRequestDecoration_def t jwt_inv_def by blast
  show ?thesis
  proof (cases "cs = []")
    case True
    then have "jrealms s = []" using inv by (simp add: jwt_inv_def)
    with True reg s1 have e: "s1 = \<lparr>jctx = ctx_decorateRequest c REQUEST_REGISTRY_KEY JwtRegistry True (jctx s), jrealms = jrealms s\<rparr>"
      by (simp add: getOrCreateRegistry_def)
    have d: "deco (jctx s1) d k = (if k = REQUEST_REGISTRY_KEY \<and> d = 0 then Some JwtRegistry else deco (jctx s) d k)"
      if "d < length (ctxs (jctx s))" for d k
      using decorate_request_deco [of True c "jctx s" d] z that by (simp add: e t)
    have "\<forall>d < length (ctxs (jctx s)). deco (jctx s) d REQUEST_REGISTRY_KEY = None \<and> (\<forall>i. deco (jctx s) d (presenceKey i) = None)"
      using inv True by (simp add: jwt_inv_def)
    with d True have "\<forall>d < length (ctxs (jctx s)). (deco (jctx s1) d REQUEST_REGISTRY_KEY \<noteq> None \<longleftrightarrow> d = 0)
         \<and> (\<forall>i. deco (jctx s1) d (presenceKey i) \<noteq> None \<longleftrightarrow> i < length cs \<and> d = cs ! i)" by simp
    then show ?thesis using decorate_request_inv [OF ci c] by (simp add: e del: not_None_eq)
  next
    case False
    then have e: "s1 = s" using reg s1 by (simp add: getOrCreateRegistry_def)
    show ?thesis using inv False unfolding e jwt_inv_def by blast
  qed
qed

lemma jwtPlugin_inv:
  assumes inv: "jwt_inv cs s" and c: "c < length (ctxs (jctx s))"
  shows "jwt_inv (cs @ [c]) (snd (jwtPlugin c cfg s))"
proof -
  define s1 where "s1 = getOrCreateRegistry c s"
  note s1 = registry_step [OF inv c s1_def]
  define n where "n = length (jrealms s1)"
  have n: "n = length cs" using inv s1 by (simp add: n_def jwt_inv_def)
  define ac where "ac = ctx_decorateRequest c (presenceKey n) (JwtRealm n) False (jctx s1)"
  have ac: "ctx_inv ac" "length (ctxs ac) = length (ctxs (jctx s))"
    using decorate_request_inv [of "jctx s1" c] s1 c unfolding ac_def by metis+
  have d: "deco ac d k = (if k = presenceKey n \<and> d = c then Some (JwtRealm n) else deco (jctx s1) d k)"
    if "d < length (ctxs (jctx s))" for d k
    using decorate_request_deco [of False c "jctx s1" d "presenceKey n"] s1 c that unfolding ac_def decoration_target_def by metis
  obtain e ac' where ac': "ctx_decorate c ''jwt'' JwtNamespace ac = (e, ac')" by fastforce
  have i': "ctx_inv ac'" using decorate_inv [OF ac(1), of c "''jwt''" JwtNamespace] c ac(2) ac' by simp
  have l': "length (ctxs ac') = length (ctxs ac)"
    using ac' by (auto simp: ctx_decorate_def update_ctx_def split: if_splits)
  have d': "deco ac' d k = deco ac d k" if "d < length (ctxs (jctx s))" for d k
    using decorate_kept [of k ac c "''jwt''" JwtNamespace] that l' ac(2) ac' by (simp add: deco_kept_def)
  have "snd (jwtPlugin c cfg s) = \<lparr>jctx = ac', jrealms = jrealms s1 @ [cfg]\<rparr>"
    by (simp add: jwtPlugin_def Let_def ac' flip: s1_def n_def ac_def)
  then have p: "snd (jwtPlugin c cfg s) = \<lparr>jctx = ac', jrealms = jrealms s @ [cfg]\<rparr>" using s1 by simp
  have table: "(deco ac' x REQUEST_REGISTRY_KEY \<noteq> None \<longleftrightarrow> x = 0)
      \<and> (\<forall>i. deco ac' x (presenceKey i) \<noteq> None \<longleftrightarrow> i < length (cs @ [c]) \<and> x = (cs @ [c]) ! i)"
    if "x < length (ctxs (jctx s))" for x
    using s1 that unfolding d' [OF that] d [OF that] n by (auto simp: nth_append)
  show ?thesis using inv i' l' ac(2) c table unfolding p jwt_inv_def by simp
qed

lemma jwt_inv_reach: "jwt_reach cs s \<Longrightarrow> jwt_inv cs s"
proof (induction rule: jwt_reach.induct)
  case (jwt_start p r)
  have "ctx_inv (newAppCtx p r)" by (rule newAppCtx_inv)
  then show ?case by (simp add: jwt_inv_def newAppCtx_def new_context_def)
next
  case (jwt_other cs s x)
  then have "ctx_inv (run_ctx_op x (jctx s))" by (simp add: jwt_inv_def run_ctx_op_inv)
  then show ?case using jwt_inv_kept [OF jwt_other.IH] op_kept jwt_other.hyps by blast
next
  case (jwt_realm cs s c cfg)
  then show ?case by (intro jwtPlugin_inv)
qed

section \<open>The realm of a request\<close>

lemma pick_cases:
  "xs \<noteq> [] \<Longrightarrow> (case picked of [i] \<Rightarrow> A i | [] \<Rightarrow> (case xs of [r] \<Rightarrow> Inr r | _ \<Rightarrow> Inl (B (length xs))) | is \<Rightarrow> C is)
   = (case picked of [i] \<Rightarrow> A i | [] \<Rightarrow> (case xs of [] \<Rightarrow> N | [r] \<Rightarrow> Inr r | rs \<Rightarrow> Inl (B (length rs))) | is \<Rightarrow> C is)"
  by (cases picked; cases xs; cases "tl xs") (auto split: list.split)

text \<open>
  C8.
  Which realm an unbound guard picks: the one whose plugin context applies to the matched route, if
  there is exactly one, or the only realm of the app if none applies. Several realms on a
  route, or none where the app has several, are an error: the guard never guesses. So a token
  of one tenant does not open a route of another.
\<close>

theorem guard_picks_realm:
  assumes "jwt_reach cs s" and b: "b \<in> set (bindings (flush (jctx s)))" and w: "\<And>k. private_key k \<Longrightarrow> map_of (wCustom w) k = None"
  shows "realm_of_request (jrealms s) (sReq (matched_state E w q url ps (bscope b) t world)) =
    (case filter (\<lambda>i. applies (ctxs (jctx s)) (cs ! i) (bctx b)) [0..<length cs] of
       [i] \<Rightarrow> Inr (jrealms s ! i)
     | [] \<Rightarrow> (case jrealms s of [] \<Rightarrow> Inl RealmNotRegistered | [r] \<Rightarrow> Inr r | rs \<Rightarrow> Inl (OutsideRealms (length rs)))
     | is \<Rightarrow> Inl (SeveralRealms (length is) (length cs)))"
proof -
  let ?cs = "ctxs (jctx s)" and ?q = "sReq (matched_state E w q url ps (bscope b) t world)"
  have inv: "jwt_inv cs s" by (rule jwt_inv_reach [OF assms(1)])
  then have ci: "ctx_inv (jctx s)" by (simp add: jwt_inv_def)
  have flushed: "ctxs (flush (jctx s)) = ?cs" by (simp add: flush_def)
  have tree: "ctx_tree ?cs" using ci by (simp add: ctx_inv_def)
  have leaf: "bctx b < length ?cs" using flush_inv [OF ci] b flushed by (simp add: ctx_inv_def)
  have sc: "bscope b = resolved_scope ?cs (bctx b) (blocal b)"
    using flush_current [OF ci b] flushed by (simp add: current_def)
  have key: "map_of (qProps ?q) k \<noteq> None \<longleftrightarrow> (\<exists>c < length ?cs. applies ?cs c (bctx b) \<and> deco (jctx s) c k \<noteq> None)" if "private_key k" for k
    using matched_decoration [OF that w [OF that], of E q url ps "bscope b" t world] resolved_decoration [OF tree leaf, of "blocal b" k]
    unfolding sc by blast
  have len: "length cs = length (jrealms s)" using inv by (simp add: jwt_inv_def)
  have here: "map_of (qProps ?q) (presenceKey i) \<noteq> None \<longleftrightarrow> applies ?cs (cs ! i) (bctx b)" if "i < length cs" for i
    unfolding key [OF private_keys(1)] using jwt_invD(4) [OF inv] jwt_invD(5) [OF inv that] that by (metis (full_types))
  have "0 < length ?cs" "applies ?cs 0 (bctx b)" using tree_root [OF tree] applies_root [OF tree] by blast+
  then have reg: "map_of (qProps ?q) REQUEST_REGISTRY_KEY \<noteq> None \<longleftrightarrow> cs \<noteq> []"
    unfolding key [OF private_keys(2)] using jwt_invD(3) [OF inv] by (metis (full_types))
  have scopes: "filter (\<lambda>i. map_of (qProps ?q) (presenceKey i) \<noteq> None) [0..<length (jrealms s)]
      = filter (\<lambda>i. applies ?cs (cs ! i) (bctx b)) [0..<length cs]"
    using here len by (intro filter_cong) auto
  show ?thesis
  proof (cases "jrealms s = []")
    case True
    then show ?thesis using len by (simp add: realm_of_request_def)
  next
    case False
    then have "map_of (qProps ?q) REQUEST_REGISTRY_KEY \<noteq> None" using reg len by (metis length_0_conv)
    with False have c: "(map_of (qProps ?q) REQUEST_REGISTRY_KEY = None \<or> jrealms s = []) = False" by blast
    show ?thesis unfolding realm_of_request_def scopes c if_False len by (rule pick_cases [OF False])
  qed
qed

text \<open>Realms under prefixes of their own: a route below one of them only is that realm's.\<close>

lemma prefixed_realm:
  assumes "ctx_tree cs" and "c < length cs" and "\<not> transparent (cs ! c)" and "parent (cs ! c) = Some p"
    and "c \<notin> set (ancestors cs leaf)"
  shows "\<not> applies cs c leaf"
  using applies_child [OF assms(1,2,4)] assms(3,5) by blast

text \<open>A request that matched no route carries no decorations, so even the only realm is not found there.\<close>

lemma miss_has_no_realm:
  assumes "createMissContext E w url world a = Inr t" and "map_of (wCustom w) REQUEST_REGISTRY_KEY = None"
  shows "realm_of_request rs (sReq t) = Inl RealmNotRegistered"
proof -
  have "map_of (copy_custom own_names (wCustom w)) REQUEST_REGISTRY_KEY = None"
    using assms(2) unfolding copy_custom_def map_of_None_keys by auto
  then have "map_of (qProps (sReq t)) REQUEST_REGISTRY_KEY = None"
    using assms(1) by (auto simp: createMissContext_def with_ip_def buildRequest_def split: option.splits)
  then show ?thesis by (simp add: realm_of_request_def)
qed

text \<open>
  \<open>app.jwt\<close> never mints one tenant's token with another's secret: in a state with registered realms it signs and
  verifies as the only realm, and refuses as soon as there is a second one.
\<close>

theorem shared_namespace_unambiguous:
  assumes "jwt_reach cs s"
  shows "namespace_sign J now (jrealms s) p x =
      (if length cs = 1 then signWithConfig J now (jrealms s ! 0) p x else Inl (AmbiguousNamespace (length cs)))
    \<and> namespace_verify J now (jrealms s) token =
      (if length cs = 1 then verifyWithConfig J now (jrealms s ! 0) token else Inl (AmbiguousNamespace (length cs)))"
proof -
  have "length cs = length (jrealms s)" using jwt_inv_reach [OF assms] by (simp add: jwt_inv_def)
  then show ?thesis
    by (cases "jrealms s" rule: list.exhaust; cases "tl (jrealms s)")
      (auto simp: namespace_sign_def namespace_verify_def soleRealm_def)
qed

section \<open>Guarded handlers\<close>

lemma deny_answers: "\<exists>r s'. deny msg s = (HResponse r, s')"
  by (simp add: deny_def split: prod.splits)

lemma guard_passes:
  assumes "createGuardForConfig J say now resolve s = (res, s')" and "res \<notin> range HThrew \<union> range HResponse"
  shows "\<exists>cfg token p. resolve (sReq s) = Inr cfg \<and> headers_get ''authorization'' (qHeaders (sReq s)) = Some (''Bearer '' @ token)
    \<and> verifyWithConfig J now cfg token = Inr p
    \<and> s' = s\<lparr>sReq := (sReq s)\<lparr>qProps := AList.update ''user'' (JwtUser p) (qProps (sReq s))\<rparr>\<rparr>"
proof -
  have d: "deny msg s \<noteq> (res, s')" for msg using deny_answers [of msg s] assms(2) by auto
  obtain cfg where c: "resolve (sReq s) = Inr cfg"
    using assms by (auto simp: createGuardForConfig_def split: sum.splits)
  obtain auth where a: "headers_get ''authorization'' (qHeaders (sReq s)) = Some auth"
    using assms(1) c d by (auto simp: createGuardForConfig_def split: option.splits)
  have sw: "starts_with auth ''Bearer ''" using assms(1) c a d by (auto simp: createGuardForConfig_def simp del: starts_with.simps split: if_splits)
  then obtain token where t: "auth = ''Bearer '' @ token" by (auto simp only: starts_with_iff)
  then have dr: "drop 7 auth = token" by simp
  have "deny ''Invalid or expired token'' s \<noteq> (res, s')" by (rule d)
  then obtain p where p: "verifyWithConfig J now cfg token = Inr p"
    using assms(1) by (auto simp: createGuardForConfig_def c a sw dr simp del: starts_with.simps split: sum.splits)
  have "s' = s\<lparr>sReq := (sReq s)\<lparr>qProps := AList.update ''user'' (JwtUser p) (qProps (sReq s))\<rparr>\<rparr>"
    using assms(1) by (simp add: createGuardForConfig_def c a sw dr p del: starts_with.simps)
  then show ?thesis using c a t p by blast
qed

lemma runHooks_append:
  "runHooks E (xs @ ys) s = (Inr None, s1) \<Longrightarrow> \<exists>s0. runHooks E xs s = (Inr None, s0) \<and> runHooks E ys s0 = (Inr None, s1)"
proof (induction xs arbitrary: s)
  case (Cons h hs)
  obtain res s2 where h: "runHook E h s = (res, s2)" by fastforce
  with Cons.prems have "runHooks E (hs @ ys) s2 = (Inr None, s1)" "\<not> rpSent (sRep s2)" "res \<notin> range HThrew \<union> range HResponse"
    by (auto split: hook_outcome.splits if_splits prod.splits)
  then show ?case using Cons.IH [of s2] h by (auto split: hook_outcome.splits)
qed simp

lemma hooks_keep:
  assumes "\<And>h s. h \<in> set hs \<Longrightarrow> P s \<Longrightarrow> P (snd (runHook E h s))" and "P s" and "runHooks E hs s = (Inr None, s')"
  shows "P s'"
  using assms
proof (induction hs arbitrary: s)
  case (Cons h hs)
  obtain res s1 where h: "runHook E h s = (res, s1)" by fastforce
  then have "runHooks E hs s1 = (Inr None, s')" using Cons.prems(3) by (auto split: hook_outcome.splits if_splits prod.splits)
  moreover have "P s1" using Cons.prems(1) [of h s] Cons.prems(2) h by simp
  ultimately show ?case using Cons.IH Cons.prems(1) by simp
qed simp

text \<open>What the handler can rely on: the user is the payload of the token in the request's own header.\<close>

definition authenticated ::
    "('j, 'k, 'e) jose \<Rightarrow> time \<Rightarrow> (('v jwt_value, 'v jwt_value) request \<Rightarrow> 'e jwt_error + 'j jwt_config) \<Rightarrow>
     ('v jwt_value, 'v jwt_value) request \<Rightarrow> bool" where
  "authenticated J now resolve q \<longleftrightarrow>
     (\<exists>r cfg token p. resolve r = Inr cfg \<and> headers_get ''authorization'' (qHeaders q) = Some (''Bearer '' @ token)
        \<and> verifyWithConfig J now cfg token = Inr p \<and> map_of (qProps q) ''user'' = Some (JwtUser p))"

lemma guarded_hooks:
  assumes run: "runHooks E (before @ g # post) s = (Inr None, s1)"
    and g: "\<And>s. runHook E g s = createGuardForConfig J say now resolve s"
    and keep: "\<And>h s. h \<in> set post \<Longrightarrow> map_of (qProps (sReq (snd (runHook E h s)))) ''user'' = map_of (qProps (sReq s)) ''user''
      \<and> qHeaders (sReq (snd (runHook E h s))) = qHeaders (sReq s)"
  shows "authenticated J now resolve (sReq s1)"
proof -
  obtain s0 where s0: "runHooks E (g # post) s0 = (Inr None, s1)" using runHooks_append [OF run] by blast
  obtain res s2 where h: "createGuardForConfig J say now resolve s0 = (res, s2)" by fastforce
  with s0 have rest: "runHooks E post s2 = (Inr None, s1)" and res: "res \<notin> range HThrew \<union> range HResponse"
    by (auto simp: g split: hook_outcome.splits if_splits prod.splits)
  have "authenticated J now resolve (sReq s2)"
    using guard_passes [OF h res] unfolding authenticated_def by (fastforce simp: map_of_update)
  then show ?thesis
    by (rule hooks_keep [where P = "\<lambda>s. authenticated J now resolve (sReq s)", rotated, OF _ rest])
      (simp add: authenticated_def keep)
qed


section \<open>Examples\<close>

text \<open>A stand-in for \<open>jose\<close> whose tokens are the expiry in decimal.\<close>

definition demo_jose :: "(nat, nat, string) jose" where
  "demo_jose =
     \<lparr>importSPKI = (\<lambda>t a. Inl ''no keys''), importPKCS8 = (\<lambda>t a. Inl ''no keys''), importJWK = (\<lambda>j a. Inr j),
      jwtVerify = (\<lambda>now t key vo. if now < 1000 * int (dec_val t) then Inr [(''exp'', JNum (of_nat (dec_val t)))] else Inl ''expired''),
      buildJwt = (\<lambda>now p calls. Inr [(''exp'', JNum (of_int (now div 1000 + 900)))]),
      signBuilt = (\<lambda>alg claims key. case claims of
          [(k, JNum n)] \<Rightarrow> if k = ''exp'' \<and> 0 \<le> n \<and> n = of_int \<lfloor>n\<rfloor> then Inr (show_nat (nat \<lfloor>n\<rfloor>)) else Inl ''claims''
        | _ \<Rightarrow> Inl ''claims'')\<rparr>"

lemma demo_jose_documented: "jose_documented demo_jose"
  unfolding jose_documented_def demo_jose_def by (auto simp: is_number_def split: list.splits prod.splits json.splits if_splits)

definition demo_realm :: "string \<Rightarrow> nat jwt_options" where
  "demo_realm uri =
     \<lparr>joSecret = None, joPublicKey = None, joPrivateKey = Some (Jwk 3), joJwksUri = Some uri, joJwks = None, joAlgorithms = None,
      joIssuer = Some (OneStr ''me''), joAudience = None, joSubject = None, joClockTolerance = None, joMaxTokenAge = None,
      joRequireExpiration = None, joExpiresIn = None\<rparr>"

definition demo_protocol :: "string \<Rightarrow> string option" where
  "demo_protocol u = (if starts_with u ''https://'' then Some ''https:'' else None)"

definition demo_config :: "string \<Rightarrow> nat jwt_config" where
  "demo_config uri =
     (case (resolveConfig demo_protocol (demo_realm uri) :: string jwt_error + nat jwt_config) of Inr cfg \<Rightarrow> cfg | Inl _ \<Rightarrow> undefined)"

lemma demo_resolved:
  "(resolveConfig demo_protocol (demo_realm ''https://a'') :: string jwt_error + nat jwt_config) = Inr (demo_config ''https://a'')"
  by code_simp

theorem jwt_config_sound_witness:
  "jcAlgorithms (demo_config ''https://a'') = [''RS256''] \<and> voAlgorithms (jcVerifyOptions (demo_config ''https://a'')) = [''RS256'']"
proof -
  have "jcAlgorithms (demo_config ''https://a'') = [''RS256'']" by code_simp
  then show ?thesis using jwt_config_sound [OF demo_resolved] by metis
qed

theorem own_tokens_accepted_witness:
  "verifyWithConfig demo_jose 2000 (demo_config ''https://a'') ''901'' = Inr [(''exp'', JNum 901)]"
proof -
  have sign: "signWithConfig demo_jose 1000 (demo_config ''https://a'') [] None = Inr ''901''" by code_simp
  have key: "getVerifyKey demo_jose (jcVerifyKey (demo_config ''https://a'')) = Inr (RemoteKeySet ''https://a'' 30000 600000 5000)" by code_simp
  have "jwtVerify demo_jose 2000 ''901'' (RemoteKeySet ''https://a'' 30000 600000 5000) vo = Inr [(''exp'', JNum 901)]" for vo
    by (simp add: demo_jose_def dec_val_def digit_val_def)
  then show ?thesis using own_tokens_accepted [OF demo_resolved demo_jose_documented sign key, of 2000] by simp
qed

text \<open>Two realms, each registered below a prefix of its own, and a route of the first.\<close>

definition demo_jwt :: "(nat, unit, nat, nat) jwt_app" where
  "demo_jwt =
     (let s0 = \<lparr>jctx = newAppCtx [] (newRouter None None), jrealms = []\<rparr>;
          s1 = s0\<lparr>jctx := run_ctx_op (Register 0 None (Some ''/a'')) (jctx s0)\<rparr>;
          s2 = s1\<lparr>jctx := run_ctx_op (Register 0 None (Some ''/b'')) (jctx s1)\<rparr>;
          s3 = s2\<lparr>jctx := run_ctx_op (AddRoute 1 GET ''/x'' 10 None) (jctx s2)\<rparr>;
          s4 = snd (jwtPlugin 1 (demo_config ''https://a'') s3)
      in snd (jwtPlugin 2 (demo_config ''https://b'') s4))"

lemma demo_jwt_reach: "jwt_reach [1, 2] demo_jwt"
proof -
  have "jwt_reach ([] @ [1] @ [2]) demo_jwt"
    unfolding demo_jwt_def Let_def append_assoc [symmetric]
    by (intro jwt_reach.intros) (code_simp+)
  then show ?thesis by simp
qed

definition demo_route_binding :: "(nat, unit jwt_value) binding" where
  "demo_route_binding = bindings (flush (jctx demo_jwt)) ! 0"

lemma demo_jwt_facts:
  "map bctx (bindings (flush (jctx demo_jwt))) = [1]"
  "filter (\<lambda>i. applies (ctxs (jctx demo_jwt)) ([1, 2] ! i) 1) [0..<2] = [0]"
  "jrealms demo_jwt = [demo_config ''https://a'', demo_config ''https://b'']"
  by code_simp+

definition demo_web :: "unit jwt_value web_request" where
  "demo_web = \<lparr>wMethod = GET, wUrl = ''/a/x'', wHeaders = new_headers [(''Authorization'', ''Bearer 901'')], wCustom = [], wIp = None, wPeer = None\<rparr>"

definition demo_jwt_env :: "(nat, unit jwt_value, nat, nat, nat) env" where
  "demo_jwt_env =
     \<lparr>runHook = (\<lambda>h s. if h = 5 then createGuardForConfig demo_jose (\<lambda>e. OtherErr ''jwt'' None None) 2000 (\<lambda>q. Inr (demo_config ''https://a'')) s
        else (HNothing, s)),
      runHandler = (\<lambda>h s. (HJson (JNum (of_nat h)), s)), runOnErrorHook = (\<lambda>h e s. (NoResponse, s)), decoValue = id,
      schemaParts = (\<lambda>x. \<lparr>scBody = None, scQuery = None, scParams = None, scResponse = None\<rparr>),
      vBody = (\<lambda>sc b. Invalid []), vQuery = (\<lambda>sc q. Valid q), vParams = (\<lambda>sc p. Valid p), vResponse = (\<lambda>sc j. Valid j),
      textDecode = (\<lambda>_. []), jsonParse = (\<lambda>_. Inr JNull), formParse = (\<lambda>_ _. Inr JwtNamespace), searchParams = (\<lambda>_. []),
      parseHref = (\<lambda>u. Some (u, [])), stackOf = None, bullet = [], devMode = False, production = True\<rparr>"

definition demo_matched :: "(unit jwt_value, nat) st" where
  "demo_matched = matched_state demo_jwt_env demo_web [] ''/a/x'' [] (bscope demo_route_binding) (optTrust demo_options) 0"

theorem guard_picks_realm_witness:
  "(realm_of_request (jrealms demo_jwt) (sReq demo_matched) :: string jwt_error + nat jwt_config) = Inr (demo_config ''https://a'')"
proof -
  have "length (map bctx (bindings (flush (jctx demo_jwt)))) = 1" "map bctx (bindings (flush (jctx demo_jwt))) ! 0 = 1"
    unfolding demo_jwt_facts(1) by simp_all
  then have b: "demo_route_binding \<in> set (bindings (flush (jctx demo_jwt)))" "bctx demo_route_binding = 1"
    by (simp_all add: demo_route_binding_def)
  have two: "length [1, 2 :: nat] = 2" by simp
  have w: "map_of (wCustom demo_web) k = None" for k by (simp add: demo_web_def)
  show ?thesis
    unfolding demo_matched_def guard_picks_realm [OF demo_jwt_reach b(1) w] b(2) two demo_jwt_facts(2)
    by (simp add: demo_jwt_facts(3))
qed

theorem shared_namespace_unambiguous_witness:
  "namespace_sign demo_jose 0 (jrealms demo_jwt) [] None = Inl (AmbiguousNamespace 2)
   \<and> namespace_verify demo_jose 0 (jrealms demo_jwt) ''901'' = Inl (AmbiguousNamespace 2)"
  using shared_namespace_unambiguous [OF demo_jwt_reach, of demo_jose 0 "[]" None "''901''"] by simp


end
