(* ===== verification/Header_Plugins.thy ===== *)
theory Header_Plugins
  imports App Ip_Address
begin

text \<open>
  Three small plugins of \<open>packages/core/src/plugins\<close>: \<open>cors.ts\<close>, \<open>security.ts\<close>, \<open>etag.ts\<close>.

  \<^item> An absent option is \<open>None\<close>; an option that may also be \<open>false\<close> has a second \<open>option\<close>, whose \<open>None\<close>
    is \<open>false\<close>. Maximum ages are integers.
  \<^item> The platform's SHA-256 and \<open>JSON.stringify\<close> are parameters of \<open>withETag\<close>.
\<close>

section \<open>CORS\<close>

datatype cors_origin = OriginText string | OriginList "string list" | OriginTest "string \<Rightarrow> bool"

record cors_options =
  coOrigin :: "cors_origin option"
  coMethods :: "string list option"
  coAllowedHeaders :: "string list option"
  coExposedHeaders :: "string list option"
  coCredentials :: "bool option"
  coMaxAge :: "int option"

record cors_config =
  kcOrigin :: cors_origin
  kcMethods :: "string list"
  kcAllowedHeaders :: "string list"
  kcExposedHeaders :: "string list"
  kcCredentials :: bool
  kcMaxAge :: int

definition cors_defaults :: cors_config where
  "cors_defaults =
     \<lparr>kcOrigin = OriginText ''*'', kcMethods = [''GET'', ''HEAD'', ''PUT'', ''PATCH'', ''POST'', ''DELETE''],
      kcAllowedHeaders = [], kcExposedHeaders = [], kcCredentials = False, kcMaxAge = 0\<rparr>"

fun isOriginAllowed :: "string \<Rightarrow> cors_origin \<Rightarrow> bool" where
  "isOriginAllowed requestOrigin (OriginText t) = (t = ''*'' \<or> requestOrigin = t)"
| "isOriginAllowed requestOrigin (OriginList ts) = (requestOrigin \<in> set ts)"
| "isOriginAllowed requestOrigin (OriginTest f) = f requestOrigin"

definition any_origin :: "cors_config \<Rightarrow> bool" where
  "any_origin cfg = (case kcOrigin cfg of OriginText t \<Rightarrow> t = ''*'' | _ \<Rightarrow> False)"

definition resolveOriginHeader :: "string \<Rightarrow> cors_config \<Rightarrow> string" where
  "resolveOriginHeader origin cfg =
     (if \<not> isOriginAllowed origin (kcOrigin cfg) then []
      else if any_origin cfg \<and> \<not> kcCredentials cfg then ''*'' else origin)"

definition appendVaryOrigin :: "string option \<Rightarrow> string" where
  "appendVaryOrigin existing =
     (case existing of
        None \<Rightarrow> ''Origin''
      | Some v \<Rightarrow>
          if v = [] then ''Origin''
          else (let parts = map (\<lambda>p. to_lower (trim p)) (split_on CHR '','' v) in
            if ''origin'' \<in> set parts \<or> ''*'' \<in> set parts then v else v @ '', Origin''))"

definition varyByOrigin :: "cors_config \<Rightarrow> bool" where
  "varyByOrigin cfg = (\<not> any_origin cfg)"

datatype cors_error = WildcardWithCredentials

definition cors :: "cors_options \<Rightarrow> cors_error + cors_config" where
  "cors opt =
     (let cfg = \<lparr>kcOrigin = (case coOrigin opt of None \<Rightarrow> kcOrigin cors_defaults | Some x \<Rightarrow> x),
            kcMethods = (case coMethods opt of None \<Rightarrow> kcMethods cors_defaults | Some x \<Rightarrow> x),
            kcAllowedHeaders = (case coAllowedHeaders opt of None \<Rightarrow> kcAllowedHeaders cors_defaults | Some x \<Rightarrow> x),
            kcExposedHeaders = (case coExposedHeaders opt of None \<Rightarrow> kcExposedHeaders cors_defaults | Some x \<Rightarrow> x),
            kcCredentials = (case coCredentials opt of None \<Rightarrow> kcCredentials cors_defaults | Some x \<Rightarrow> x),
            kcMaxAge = (case coMaxAge opt of None \<Rightarrow> kcMaxAge cors_defaults | Some x \<Rightarrow> x)\<rparr>
      in if any_origin cfg \<and> kcCredentials cfg then Inl WildcardWithCredentials else Inr cfg)"

definition origin_of :: "('v, 'f) request \<Rightarrow> string" where
  "origin_of q = (case headers_get ''origin'' (qHeaders q) of None \<Rightarrow> [] | Some v \<Rightarrow> v)"

text \<open>The handler of the catch-all \<open>OPTIONS\<close> route.\<close>

definition preflight :: "cors_config \<Rightarrow> ('v, 'f) request \<Rightarrow> resp" where
  "preflight cfg q =
     (let allowOrigin = resolveOriginHeader (origin_of q) cfg;
          vary = (if varyByOrigin cfg then [(''vary'', ''Origin'')] else []);
          answer = (\<lambda>hs. \<lparr>rsStatus = 204, rsHeaders = new_headers hs, rsBody = NoBody, rsFast = False\<rparr>) in
      if allowOrigin = [] then answer vary
      else answer (vary
        @ [(''access-control-allow-origin'', allowOrigin), (''access-control-allow-methods'', join '', '' (kcMethods cfg))]
        @ (if kcAllowedHeaders cfg \<noteq> [] then [(''access-control-allow-headers'', join '', '' (kcAllowedHeaders cfg))]
           else (case headers_get ''access-control-request-headers'' (qHeaders q) of
               None \<Rightarrow> [] | Some h \<Rightarrow> if h = [] then [] else [(''access-control-allow-headers'', h)]))
        @ (if kcCredentials cfg then [(''access-control-allow-credentials'', ''true'')] else [])
        @ (if 0 < kcMaxAge cfg then [(''access-control-max-age'', show_int (kcMaxAge cfg))] else [])))"

definition cors_send_hook :: "cors_config \<Rightarrow> ('v, 'f) request \<Rightarrow> reply \<Rightarrow> reply" where
  "cors_send_hook cfg q r =
     (let allowOrigin = resolveOriginHeader (origin_of q) cfg;
          r1 = (if varyByOrigin cfg then reply_header ''vary'' (appendVaryOrigin (map_of (rpHeaders r) ''vary'')) r else r) in
      if allowOrigin = [] then r1
      else
        (let r2 = reply_header ''access-control-allow-origin'' allowOrigin r1;
             r3 = (if kcCredentials cfg then reply_header ''access-control-allow-credentials'' ''true'' r2 else r2)
         in if kcExposedHeaders cfg \<noteq> []
            then reply_header ''access-control-expose-headers'' (join '', '' (kcExposedHeaders cfg)) r3 else r3))"

text \<open>What the plugin registers: the route with its handler, and the hook.\<close>

definition corsPlugin ::
    "cid \<Rightarrow> 'h \<Rightarrow> 'h \<Rightarrow> ('h, 'x) route_options \<Rightarrow> ('h, 'v, 'x) app_ctx \<Rightarrow> ('h \<times> nat, 'x) route_error option \<times> ('h, 'v, 'x) app_ctx" where
  "corsPlugin c handler sendHook opts s =
     (case ctx_route c [OPTIONS] ''/*path'' handler opts s of
        (Some e, s1) \<Rightarrow> (Some e, s1)
      | (None, s1) \<Rightarrow> (None, ctx_addHook c OnSend sendHook s1))"

section \<open>Security headers\<close>

record hsts_options =
  hsMaxAge :: "int option"
  hsIncludeSubDomains :: "bool option"
  hsPreload :: "bool option"

record security_options =
  seContentTypeOptions :: "bool option"
  seFrameOptions :: "string option option"
  seXssProtection :: "bool option"
  seHsts :: "hsts_options option option"
  seReferrerPolicy :: "string option option"
  seCrossDomainPolicy :: "string option option"
  seDnsPrefetchControl :: "string option option"
  seDownloadOptions :: "string option option"
  seContentSecurityPolicy :: "string option option"

definition chosen :: "'a \<Rightarrow> 'a option option \<Rightarrow> 'a option" where
  "chosen fallback x = (case x of None \<Rightarrow> Some fallback | Some y \<Rightarrow> y)"

definition header_unless_off :: "string \<Rightarrow> string option \<Rightarrow> reply \<Rightarrow> reply" where
  "header_unless_off name v r = (case v of None \<Rightarrow> r | Some t \<Rightarrow> reply_header name t r)"

definition hsts_text :: "hsts_options \<Rightarrow> string" where
  "hsts_text h =
     ''max-age='' @ show_int (case hsMaxAge h of None \<Rightarrow> 31536000 | Some n \<Rightarrow> n)
     @ (if hsIncludeSubDomains h \<noteq> Some False then ''; includeSubDomains'' else [])
     @ (if hsPreload h = Some True then ''; preload'' else [])"

definition security_hook :: "security_options \<Rightarrow> reply \<Rightarrow> reply" where
  "security_hook o1 r0 =
     (let r1 = (if seContentTypeOptions o1 \<noteq> Some False then reply_header ''x-content-type-options'' ''nosniff'' r0 else r0);
          r2 = header_unless_off ''x-frame-options'' (chosen ''DENY'' (seFrameOptions o1)) r1;
          r3 = (if seXssProtection o1 \<noteq> Some False then reply_header ''x-xss-protection'' ''0'' r2 else r2);
          r4 = header_unless_off ''strict-transport-security''
            (map_option hsts_text (chosen \<lparr>hsMaxAge = Some 31536000, hsIncludeSubDomains = Some True, hsPreload = None\<rparr> (seHsts o1))) r3;
          r5 = header_unless_off ''referrer-policy'' (chosen ''strict-origin-when-cross-origin'' (seReferrerPolicy o1)) r4;
          r6 = header_unless_off ''x-permitted-cross-domain-policies'' (chosen ''none'' (seCrossDomainPolicy o1)) r5;
          r7 = header_unless_off ''x-dns-prefetch-control'' (chosen ''off'' (seDnsPrefetchControl o1)) r6;
          r8 = header_unless_off ''x-download-options'' (chosen ''noopen'' (seDownloadOptions o1)) r7
      in (case seContentSecurityPolicy o1 of
            Some (Some p) \<Rightarrow> if p = [] then r8 else reply_header ''content-security-policy'' p r8
          | _ \<Rightarrow> r8))"

definition securityPlugin :: "cid \<Rightarrow> 'h \<Rightarrow> ('h, 'v, 'x) app_ctx \<Rightarrow> ('h, 'v, 'x) app_ctx" where
  "securityPlugin c hook s = ctx_addHook c OnSend hook s"

section \<open>ETags\<close>

datatype etag_data = DataText string | DataJson json

definition hashBody :: "(string \<Rightarrow> nat list) \<Rightarrow> string \<Rightarrow> string" where
  "hashBody digest str = concat (map (\<lambda>b. padStart 2 CHR ''0'' (show_hex b)) (take 16 (digest str)))"

definition body_text :: "(json \<Rightarrow> string) \<Rightarrow> etag_data \<Rightarrow> string" where
  "body_text stringify d = (case d of DataText t \<Rightarrow> t | DataJson j \<Rightarrow> stringify j)"

definition etagValue :: "(string \<Rightarrow> nat list) \<Rightarrow> bool option \<Rightarrow> string \<Rightarrow> string" where
  "etagValue digest weak str =
     (if weak \<noteq> Some False then ''W/'' else []) @ [CHR 0x22] @ hashBody digest str @ [CHR 0x22]"

definition withETag ::
    "(string \<Rightarrow> nat list) \<Rightarrow> (json \<Rightarrow> string) \<Rightarrow> bool option \<Rightarrow> header_map \<Rightarrow> etag_data \<Rightarrow> resp" where
  "withETag digest stringify weak requestHeaders d =
     (let str = body_text stringify d; tag = etagValue digest weak str in
      if headers_get ''if-none-match'' requestHeaders = Some tag
      then \<lparr>rsStatus = 304, rsHeaders = new_headers [(''etag'', tag)], rsBody = NoBody, rsFast = False\<rparr>
      else \<lparr>rsStatus = 200,
            rsHeaders = new_headers [(''content-type'', case d of DataText _ \<Rightarrow> ''text/plain; charset=utf-8'' | DataJson _ \<Rightarrow> ''application/json; charset=utf-8''),
              (''etag'', tag)],
            rsBody = TextBody str, rsFast = False\<rparr>)"

end
