(* ===== verification/Csrf.thy ===== *)
theory Csrf
  imports App Sha256
begin

unbundle bit_operations_syntax

text \<open>
  The CSRF plugin, \<open>packages/core/src/plugins/csrf.ts\<close>.

  \<^item> Tokens, sessions and cookie values are texts in UTF-16 units (\<open>ustring\<close>); header values are
    Latin-1. \<open>utf8_encode\<close> (of the theory of SHA-256) is \<open>TextEncoder.encode\<close>, which replaces a lone surrogate by U+FFFD.
  \<^item> Parameters: HMAC-SHA256 of the platform as a function of key and message octets; \<open>new URL(u, base)\<close>
    as the path and the URL, \<open>None\<close> when it throws; random octets; how errors are thrown.
  \<^item> The hook threads the state of the request and the warn-once state of the cookie module. The
    plugin registers it on the context it is called with, for \<open>onRequest\<close>. A cookie is not named
    like a property of \<open>Object.prototype\<close>.
\<close>

section \<open>Texts and octets\<close>

definition toHex :: "nat list \<Rightarrow> string" where
  "toHex bytes = concat (map (\<lambda>b. padStart 2 CHR ''0'' (show_hex b)) bytes)"

text \<open>An octet beyond the end of the second buffer is \<open>undefined\<close>, which \<open>^\<close> reads as 0.\<close>

definition timingSafeEqual :: "ustring \<Rightarrow> ustring \<Rightarrow> bool" where
  "timingSafeEqual a b =
     (length a = length b \<and>
      (let bufA = utf8_encode a; bufB = utf8_encode b in
       fold (\<lambda>i result. result OR (bufA ! i XOR (if i < length bufB then bufB ! i else 0))) [0..<length bufA] 0 = 0))"

section \<open>Options\<close>

record csrf_cookie =
  ccPath :: "string option"
  ccSecure :: "bool option"
  ccSameSite :: "same_site option"
  ccDomain :: "string option"

record 'v csrf_options =
  csCookieName :: "string option"
  csHeaderName :: "string option"
  csTokenLength :: "nat option"
  csCookie :: "csrf_cookie option"
  csProtectedMethods :: "string list option"
  csSecret :: "ustring option"
  csGetSessionId :: "(('v, 'v) request \<Rightarrow> ustring option) option"
  csTrustedOrigins :: "string list option"
  csCheckOrigin :: "bool option"
  csExcludePaths :: "string list option"

text \<open>The variables \<open>csrf\<close> closes over; the key is that of the secret.\<close>

record 'v csrf_config =
  cfCookieName :: string
  cfHeaderName :: string
  cfTokenLength :: nat
  cfCookie :: csrf_cookie
  cfProtected :: "string list"
  cfExclude :: "string list"
  cfGetSessionId :: "(('v, 'v) request \<Rightarrow> ustring option) option"
  cfTrusted :: "string list"
  cfCheckOrigin :: bool
  cfKey :: "nat list"

definition MUTATING_METHODS :: "string list" where
  "MUTATING_METHODS = [''POST'', ''PUT'', ''PATCH'', ''DELETE'']"

text \<open>\<open>random\<close> are the 32 octets of the secret made up when none is configured.\<close>

definition csrf :: "nat list \<Rightarrow> 'v csrf_options \<Rightarrow> 'v csrf_config" where
  "csrf random opt =
     \<lparr>cfCookieName = (case csCookieName opt of None \<Rightarrow> ''_csrf'' | Some n \<Rightarrow> n),
      cfHeaderName = (case csHeaderName opt of None \<Rightarrow> ''x-csrf-token'' | Some n \<Rightarrow> n),
      cfTokenLength = (case csTokenLength opt of None \<Rightarrow> 32 | Some n \<Rightarrow> n),
      cfCookie = (case csCookie opt of
          None \<Rightarrow> \<lparr>ccPath = None, ccSecure = None, ccSameSite = None, ccDomain = None\<rparr> | Some c \<Rightarrow> c),
      cfProtected = (case csProtectedMethods opt of None \<Rightarrow> MUTATING_METHODS | Some ms \<Rightarrow> ms),
      cfExclude = (case csExcludePaths opt of None \<Rightarrow> [] | Some ps \<Rightarrow> ps),
      cfGetSessionId = csGetSessionId opt,
      cfTrusted = (case csTrustedOrigins opt of None \<Rightarrow> [] | Some ts \<Rightarrow> ts),
      cfCheckOrigin = (csCheckOrigin opt \<noteq> Some False),
      cfKey = utf8_encode (case csSecret opt of None \<Rightarrow> uni (toHex random) | Some s \<Rightarrow> s)\<rparr>"

record csrf_env =
  newURL :: "string \<Rightarrow> string \<Rightarrow> (string \<times> url) option"
  parseOrigin :: "string \<Rightarrow> url option"
  hmacSha256 :: "nat list \<Rightarrow> nat list \<Rightarrow> nat list"
  urlError :: js_error
  cookieErr :: "cookie_error \<Rightarrow> js_error"

section \<open>Tokens\<close>

definition generateToken :: "nat \<Rightarrow> nat list \<Rightarrow> string" where
  "generateToken byteLength random = toHex (take byteLength random)"

text \<open>The text under the MAC.\<close>

definition signed_text :: "ustring \<Rightarrow> ustring \<Rightarrow> ustring" where
  "signed_text nonce sessionId = nonce @ [46] @ sessionId"

definition signNonce :: "csrf_env \<Rightarrow> nat list \<Rightarrow> ustring \<Rightarrow> ustring \<Rightarrow> string" where
  "signNonce E key nonce sessionId = toHex (take 16 (hmacSha256 E key (utf8_encode (signed_text nonce sessionId))))"

definition issueToken :: "csrf_env \<Rightarrow> 'v csrf_config \<Rightarrow> nat list \<Rightarrow> ustring \<Rightarrow> ustring" where
  "issueToken E cfg random sessionId =
     (let nonce = uni (generateToken (cfTokenLength cfg) random)
      in nonce @ [46] @ uni (signNonce E (cfKey cfg) nonce sessionId))"

text \<open>\<open>lastIndexOf\<close>\<close>

fun last_position :: "nat \<Rightarrow> ustring \<Rightarrow> nat option" where
  "last_position c [] = None"
| "last_position c (x # xs) =
     (case last_position c xs of Some i \<Rightarrow> Some (Suc i) | None \<Rightarrow> if x = c then Some 0 else None)"

definition verifyToken :: "csrf_env \<Rightarrow> nat list \<Rightarrow> ustring \<Rightarrow> ustring \<Rightarrow> bool" where
  "verifyToken E key token sessionId =
     (case last_position 46 token of
        None \<Rightarrow> False
      | Some dot \<Rightarrow>
          0 < dot \<and> timingSafeEqual (drop (Suc dot) token) (uni (signNonce E key (take dot token) sessionId)))"

section \<open>The request\<close>

definition requestUrl :: "csrf_env \<Rightarrow> ('v, 'f) request \<Rightarrow> (string \<times> url) option" where
  "requestUrl E q =
     (let fallback = newURL E (qUrl q) ''http://localhost'' in
      case headers_get ''host'' (qHeaders q) of
        None \<Rightarrow> fallback
      | Some host \<Rightarrow>
          if host = [] then fallback
          else (case newURL E (qUrl q) (''http://'' @ host) of Some u \<Rightarrow> Some u | None \<Rightarrow> fallback))"

definition exclude_base :: "string \<Rightarrow> string" where
  "exclude_base entry =
     (let base = (if ends_with entry ''/*'' then take (length entry - 2) entry else entry)
      in if ends_with base ''/'' \<and> base \<noteq> ''/'' then butlast base else base)"

fun isPathExcluded :: "string \<Rightarrow> string list \<Rightarrow> bool" where
  "isPathExcluded pathname [] = False"
| "isPathExcluded pathname (entry # rest) =
     (let base = exclude_base entry in
      if base = [] \<or> base = ''/'' then True
      else if pathname = base \<or> starts_with pathname (base @ ''/'') then True
      else isPathExcluded pathname rest)"

definition cookie_token :: "'v csrf_config \<Rightarrow> ('v, 'v) request \<Rightarrow> ustring option" where
  "cookie_token cfg q =
     map_of (parseCookies (case headers_get ''cookie'' (qHeaders q) of None \<Rightarrow> [] | Some c \<Rightarrow> c)) (cfCookieName cfg)"

definition session_of :: "'v csrf_config \<Rightarrow> ('v, 'v) request \<Rightarrow> ustring" where
  "session_of cfg q =
     (case cfGetSessionId cfg of None \<Rightarrow> [] | Some f \<Rightarrow> (case f q of None \<Rightarrow> [] | Some s \<Rightarrow> s))"

text \<open>The block under \<open>checkOrigin\<close>: whether the request may go on.\<close>

definition usable_origin :: "('v, 'f) request \<Rightarrow> string option" where
  "usable_origin q =
     (case headers_get ''origin'' (qHeaders q) of
        None \<Rightarrow> None
      | Some origin \<Rightarrow> if origin = [] \<or> origin = ''null'' then None else Some origin)"

definition origin_admitted :: "csrf_env \<Rightarrow> 'v csrf_config \<Rightarrow> url \<Rightarrow> ('v, 'v) request \<Rightarrow> bool" where
  "origin_admitted E cfg u q =
     (let site = (case headers_get ''sec-fetch-site'' (qHeaders q) of None \<Rightarrow> [] | Some s \<Rightarrow> s) in
      case usable_origin q of
        None \<Rightarrow>
          if site = ''same-site'' \<or> site = ''cross-site'' then False
          else site = [] \<or> site = ''same-origin'' \<or> site = ''none''
      | Some origin \<Rightarrow>
          (case map_option (\<lambda>v. to_lower (uhost v)) (parseOrigin E origin) of
             None \<Rightarrow> False
           | Some originHost \<Rightarrow>
               (let isTrusted = (origin \<in> set (cfTrusted cfg) \<or> originHost \<in> set (cfTrusted cfg)) in
                if site = ''same-site'' \<or> site = ''cross-site'' then isTrusted
                else if site \<noteq> [] \<and> site \<noteq> ''same-origin'' \<and> site \<noteq> ''none'' then False
                else originHost = to_lower (uhost u) \<or> isTrusted)))"

section \<open>The hook\<close>

definition forbid :: "string \<Rightarrow> ('v, 'w) st \<Rightarrow> hook_outcome \<times> ('v, 'w) st" where
  "forbid msg s =
     (case reply_json (JObj [(''error'', JStr msg), (''statusCode'', JNum 403)]) (reply_status 403 (sRep s)) of
        (r, rp) \<Rightarrow> (HResponse r, s\<lparr>sRep := rp\<rparr>))"

definition csrf_cookie_options :: "csrf_cookie \<Rightarrow> cookie_options" where
  "csrf_cookie_options c =
     \<lparr>cdomain = ccDomain c, cexpires = None, httpOnly = Some (Some False), maxAge = None,
      cpath = Some (case ccPath c of None \<Rightarrow> ''/'' | Some p \<Rightarrow> p),
      sameSite = Some (Some (case ccSameSite c of None \<Rightarrow> Lax | Some x \<Rightarrow> x)), csecure = ccSecure c\<rparr>"

text \<open>A safe method: the token is replaced unless it is bound to the session.\<close>

definition csrf_refresh ::
    "csrf_env \<Rightarrow> 'v csrf_config \<Rightarrow> nat list \<Rightarrow> url \<Rightarrow> ('v, 'w) st \<Rightarrow> warn_state \<Rightarrow> hook_outcome \<times> ('v, 'w) st \<times> warn_state" where
  "csrf_refresh E cfg random u s w =
     (let q = sReq s; sessionId = session_of cfg q in
      if (case cookie_token cfg q of None \<Rightarrow> True | Some t \<Rightarrow> t = [] \<or> \<not> verifyToken E (cfKey cfg) t sessionId)
      then
        (case serializeCookie (parseOrigin E) (cfCookieName cfg) (issueToken E cfg random sessionId)
            (csrf_cookie_options (cfCookie cfg)) \<lparr>curl = Some (UrlObject u), headers = Some (\<lambda>n. headers_get n (qHeaders q))\<rparr> w of
           (Inl e, ws, w') \<Rightarrow> (HThrew (cookieErr E e), s, w')
         | (Inr c, ws, w') \<Rightarrow> (HNothing, s\<lparr>sRep := reply_header ''set-cookie'' c (sRep s)\<rparr>, w'))
      else (HNothing, s, w))"

text \<open>A mutating method: the origin, then the two copies of the token, then its signature.\<close>

definition csrf_check :: "csrf_env \<Rightarrow> 'v csrf_config \<Rightarrow> url \<Rightarrow> ('v, 'w) st \<Rightarrow> hook_outcome \<times> ('v, 'w) st" where
  "csrf_check E cfg u s =
     (let q = sReq s in
      if cfCheckOrigin cfg \<and> \<not> origin_admitted E cfg u q then forbid ''CSRF origin mismatch'' s
      else
        (case (cookie_token cfg q, headers_get (cfHeaderName cfg) (qHeaders q)) of
           (Some cookieToken, Some headerToken) \<Rightarrow>
             if cookieToken = [] \<or> headerToken = [] \<or> \<not> timingSafeEqual cookieToken (uni headerToken)
             then forbid ''CSRF token mismatch'' s
             else if \<not> verifyToken E (cfKey cfg) cookieToken (session_of cfg q) then forbid ''CSRF token mismatch'' s
             else (HNothing, s)
         | _ \<Rightarrow> forbid ''CSRF token mismatch'' s))"

definition csrf_hook ::
    "csrf_env \<Rightarrow> 'v csrf_config \<Rightarrow> nat list \<Rightarrow> ('v, 'w) st \<Rightarrow> warn_state \<Rightarrow> hook_outcome \<times> ('v, 'w) st \<times> warn_state" where
  "csrf_hook E cfg random s w =
     (case requestUrl E (sReq s) of
        None \<Rightarrow> (HThrew (urlError E), s, w)
      | Some (pathname, u) \<Rightarrow>
          if cfExclude cfg \<noteq> [] \<and> isPathExcluded pathname (cfExclude cfg) then (HNothing, s, w)
          else if method_name (qMethod (sReq s)) \<notin> set (cfProtected cfg) then csrf_refresh E cfg random u s w
          else (case csrf_check E cfg u s of (r, s') \<Rightarrow> (r, s', w)))"

definition csrfPlugin :: "cid \<Rightarrow> 'h \<Rightarrow> ('h, 'v, 'x) app_ctx \<Rightarrow> ('h, 'v, 'x) app_ctx" where
  "csrfPlugin c hook s = ctx_addHook c OnRequest hook s"

end
