(* ===== verification/Csrf_Props.thy ===== *)
theory Csrf_Props
  imports Csrf Cookie_Props Jwt_Props
begin

text \<open>
  Properties of the CSRF plugin.

  \<^item> The comparison in constant time is equality of texts.
  \<^item> A protected request that passes presented, as cookie and as header, one token signed for its
    session, from an origin that is its own or trusted (\<open>csrf_needs_signed_token\<close>).
  \<^item> A signature serves one session only, if session ids have no dot; with dots it can be
    transplanted.
  \<^item> The round trip through the browser: a token handed out on a safe request is accepted.
\<close>

section \<open>Comparing texts\<close>

lemma xor_zero: "(x :: nat) XOR y = 0 \<longleftrightarrow> x = y"
proof
  assume "x XOR y = 0"
  then have "bit x n = bit y n" for n using bit_xor_iff [of x y n] by simp
  then show "x = y" by (rule bit_eqI)
qed simp

lemma fold_or_zero:
  "fold (\<lambda>i result. result OR f i) is (r :: nat) = 0 \<longleftrightarrow> r = 0 \<and> (\<forall>i \<in> set is. f i = 0)"
  by (induction "is" arbitrary: r) (auto simp: or_eq_0_iff)

lemma timing_safe_pointwise:
  "timingSafeEqual a b \<longleftrightarrow> length a = length b \<and>
     (\<forall>i < length (utf8_encode a). utf8_encode a ! i = (if i < length (utf8_encode b) then utf8_encode b ! i else 0))"
  by (auto simp: timingSafeEqual_def Let_def fold_or_zero xor_zero)

lemma timing_safe_refl [simp]: "timingSafeEqual a a"
  by (simp add: timing_safe_pointwise)

definition padded_prefix :: "nat list \<Rightarrow> nat list \<Rightarrow> bool" where
  "padded_prefix xs ys \<longleftrightarrow> (\<forall>i < length xs. xs ! i = (if i < length ys then ys ! i else 0))"

lemma padded_prefix_Cons: "padded_prefix (x # xs) (y # ys) \<longleftrightarrow> x = y \<and> padded_prefix xs ys"
  by (auto simp: padded_prefix_def less_Suc_eq_0_disj nth_Cons split: nat.splits)

lemma latin1_encode: "u < 256 \<Longrightarrow> utf8_encode (u # us) = utf8_of_cp u @ utf8_encode us"
  by simp

lemma lead_octet:
  assumes "utf8_encode (u # us) = x # xs" and "0x100 \<le> u"
  shows "0xC4 \<le> x"
  using assms by (auto simp: utf8_of_cp_def split: if_splits list.splits)

lemma encode_Cons_ne: "\<exists>x xs. utf8_encode (u # us) = x # xs"
  by (cases us) (auto simp: utf8_of_cp_def)

lemma padded_prefix_eq:
  "length a = length b \<Longrightarrow> list_all (\<lambda>u. u < 256) b \<Longrightarrow> padded_prefix (utf8_encode a) (utf8_encode b) \<Longrightarrow> a = b"
proof (induction a b rule: list_induct2)
  case (Cons u us v vs)
  have v: "v < 256" using Cons.prems(1) by simp
  have u: "u < 256"
  proof (rule ccontr)
    assume "\<not> u < 256"
    then have big: "0x100 \<le> u" by simp
    obtain x xs where x: "utf8_encode (u # us) = x # xs" using encode_Cons_ne by blast
    have "0xC4 \<le> x" by (rule lead_octet [OF x big])
    moreover obtain y ys where y: "utf8_encode (v # vs) = y # ys" using encode_Cons_ne by blast
    moreover have "y < 0xC4" using y v latin1_encode [OF v, of vs] by (auto simp: utf8_of_cp_def split: if_splits)
    ultimately show False using Cons.prems(2) x y by (simp add: padded_prefix_Cons)
  qed
  have e: "padded_prefix (utf8_of_cp u @ utf8_encode us) (utf8_of_cp v @ utf8_encode vs)"
    using Cons.prems(2) latin1_encode [OF u] latin1_encode [OF v] by simp
  have d: "u = v" "padded_prefix (utf8_encode us) (utf8_encode vs)"
  proof -
    have "u = v \<and> padded_prefix (utf8_encode us) (utf8_encode vs)"
    proof (cases "u < 0x80"; cases "v < 0x80")
      assume "\<not> u < 0x80" "\<not> v < 0x80"
      then have "0xC0 + u div 64 = 0xC0 + v div 64 \<and> 0x80 + u mod 64 = 0x80 + v mod 64 \<and> padded_prefix (utf8_encode us) (utf8_encode vs)"
        using e u v by (simp add: utf8_of_cp_def padded_prefix_Cons)
      then show ?thesis by (metis add_left_cancel div_mult_mod_eq)
    qed (use e u v in \<open>auto simp: utf8_of_cp_def padded_prefix_Cons\<close>)
    then show "u = v" "padded_prefix (utf8_encode us) (utf8_encode vs)" by auto
  qed
  then show ?case using Cons by simp
qed simp

lemma timing_safe_latin1: "list_all (\<lambda>u. u < 256) b \<Longrightarrow> timingSafeEqual a b \<longleftrightarrow> a = b"
  using padded_prefix_eq [of a b] by (auto simp: timing_safe_pointwise padded_prefix_def)

lemma uni_latin1: "list_all (\<lambda>u. u < 256) (uni s)"
  by (auto simp: uni_def list_all_iff)

section \<open>Tokens\<close>

lemma last_position_split:
  "last_position c xs = Some i \<longleftrightarrow> (\<exists>us vs. xs = us @ c # vs \<and> length us = i \<and> c \<notin> set vs)"
proof (induction xs arbitrary: i)
  case (Cons x xs)
  have none: "last_position c xs = None \<longleftrightarrow> c \<notin> set xs" for xs :: ustring
    by (induction xs) (auto split: option.splits)
  show ?case
  proof (cases "last_position c xs")
    case None
    then have c: "c \<notin> set xs" using none by blast
    show ?thesis
    proof
      assume "last_position c (x # xs) = Some i"
      then have "x = c" "i = 0" using None by (auto split: if_splits)
      then have "x # xs = [] @ c # xs \<and> length [] = i \<and> c \<notin> set xs" using c by simp
      then show "\<exists>us vs. x # xs = us @ c # vs \<and> length us = i \<and> c \<notin> set vs" by blast
    next
      assume "\<exists>us vs. x # xs = us @ c # vs \<and> length us = i \<and> c \<notin> set vs"
      then obtain us vs where s: "x # xs = us @ c # vs" "length us = i" by blast
      then show "last_position c (x # xs) = Some i" using None c by (cases us) auto
    qed
  next
    case (Some j)
    then obtain us vs where s: "xs = us @ c # vs" "length us = j" "c \<notin> set vs" using Cons.IH by blast
    have "last_position c (x # xs) = Some (Suc j)" using Some by simp
    moreover have "(\<exists>us vs. x # xs = us @ c # vs \<and> length us = i \<and> c \<notin> set vs) \<longleftrightarrow> i = Suc j"
    proof
      assume "\<exists>us vs. x # xs = us @ c # vs \<and> length us = i \<and> c \<notin> set vs"
      then obtain us' vs' where t: "x # xs = us' @ c # vs'" "length us' = i" "c \<notin> set vs'" by blast
      then have "(x # us) @ c # vs = us' @ c # vs'" using s by simp
      then have "length (x # us) = length us'" using s(3) t(3) by (auto simp: append_eq_append_conv2 Cons_eq_append_conv append_eq_Cons_conv)
      then show "i = Suc j" using s t by simp
    next
      assume "i = Suc j"
      then have "x # xs = (x # us) @ c # vs \<and> length (x # us) = i \<and> c \<notin> set vs" using s by simp
      then show "\<exists>us vs. x # xs = us @ c # vs \<and> length us = i \<and> c \<notin> set vs" by blast
    qed
    ultimately show ?thesis by auto
  qed
qed simp

lemma verify_iff:
  "verifyToken E key token sessionId \<longleftrightarrow>
    (\<exists>nonce. nonce \<noteq> [] \<and> token = nonce @ [46] @ uni (signNonce E key nonce sessionId) \<and> 46 \<notin> set (uni (signNonce E key nonce sessionId)))"
proof
  assume "verifyToken E key token sessionId"
  then obtain i where i: "last_position 46 token = Some i" "0 < i" "drop (Suc i) token = uni (signNonce E key (take i token) sessionId)"
    by (auto simp: verifyToken_def timing_safe_latin1 uni_latin1 split: option.splits)
  then obtain us vs where "token = us @ 46 # vs" "length us = i" "46 \<notin> set vs" by (auto simp: last_position_split)
  then show "\<exists>nonce. nonce \<noteq> [] \<and> token = nonce @ [46] @ uni (signNonce E key nonce sessionId) \<and> 46 \<notin> set (uni (signNonce E key nonce sessionId))"
    using i by (intro exI [of _ us]) auto
next
  assume "\<exists>nonce. nonce \<noteq> [] \<and> token = nonce @ [46] @ uni (signNonce E key nonce sessionId) \<and> 46 \<notin> set (uni (signNonce E key nonce sessionId))"
  then obtain nonce where n: "nonce \<noteq> []" "token = nonce @ 46 # uni (signNonce E key nonce sessionId)"
      "46 \<notin> set (uni (signNonce E key nonce sessionId))" by auto
  then have "last_position 46 token = Some (length nonce)" unfolding last_position_split by blast
  then show "verifyToken E key token sessionId" using n by (simp add: verifyToken_def)
qed

section \<open>Hexadecimal\<close>

lemma hex_octet: "b < 256 \<Longrightarrow> padStart 2 CHR ''0'' (show_hex b) = [hex_char (b div 16), hex_char (b mod 16)]"
proof (cases "b < 16")
  case True
  have "hex_char 0 = CHR ''0''" by code_simp
  then show ?thesis using True by (simp add: show_hex.simps padStart_def)
next
  case False
  assume "b < 256"
  then have "b div 16 < 16" by simp
  then show ?thesis using False by (simp add: show_hex.simps padStart_def)
qed

lemma hex_char_inj: "d < 16 \<Longrightarrow> e < 16 \<Longrightarrow> hex_char d = hex_char e \<longleftrightarrow> d = e"
  by (metis hex_char_val option.inject)

lemma toHex_inj: "list_all (\<lambda>b. b < 256) xs \<Longrightarrow> list_all (\<lambda>b. b < 256) ys \<Longrightarrow> toHex xs = toHex ys \<Longrightarrow> xs = ys"
proof (induction xs arbitrary: ys)
  case Nil
  then show ?case by (cases ys) (auto simp: toHex_def hex_octet)
next
  case (Cons x xs)
  then obtain y zs where y: "ys = y # zs" by (cases ys) (auto simp: toHex_def hex_octet)
  have b: "x div 16 < 16" "y div 16 < 16" using Cons.prems y by auto
  have "hex_char (x div 16) = hex_char (y div 16)" "hex_char (x mod 16) = hex_char (y mod 16)" "toHex xs = toHex zs"
    using Cons.prems y by (auto simp: toHex_def hex_octet)
  then have "x div 16 = y div 16" "x mod 16 = y mod 16" "xs = zs"
    using Cons b y by (auto simp: hex_char_inj)
  then show ?case using y by (metis div_mult_mod_eq)
qed

lemma toHex_no_dot: "46 \<notin> set (uni (toHex bs))"
proof -
  have "hex_val c \<noteq> None" if "c \<in> set (toHex bs)" for c
    using that show_hex_chars by (auto simp: toHex_def padStart_def hex_val_def split: if_splits)
  moreover have "hex_val c = None" if "of_char c = (46 :: nat)" for c using that by (simp add: hex_val_def)
  ultimately show ?thesis by (fastforce simp: uni_def)
qed

lemma sign_no_dot: "46 \<notin> set (uni (signNonce E key nonce sessionId))"
  unfolding signNonce_def by (rule toHex_no_dot)

section \<open>What a protected request has shown\<close>

lemma forbid_answers: "\<exists>r s'. forbid msg s = (HResponse r, s')"
  by (simp add: forbid_def split: prod.splits)

lemma uni_inj: "uni s = uni t \<longleftrightarrow> s = t"
  by (auto simp: uni_def inj_map_eq_map inj_def)

lemma admitted_origin:
  assumes "origin_admitted E cfg u q"
  shows "case usable_origin q of
      None \<Rightarrow> headers_get ''sec-fetch-site'' (qHeaders q) \<notin> {Some ''same-site'', Some ''cross-site''}
    | Some origin \<Rightarrow> (\<exists>v. parseOrigin E origin = Some v \<and>
        (origin \<in> set (cfTrusted cfg) \<or> to_lower (uhost v) \<in> set (cfTrusted cfg)
         \<or> to_lower (uhost v) = to_lower (uhost u) \<and> headers_get ''sec-fetch-site'' (qHeaders q) \<notin> {Some ''same-site'', Some ''cross-site''}))"
proof (cases "usable_origin q")
  case None
  then show ?thesis using assms by (auto simp: origin_admitted_def Let_def split: if_splits)
next
  case (Some origin)
  then show ?thesis using assms by (auto simp: origin_admitted_def Let_def split: if_splits option.splits)
qed

text \<open>
  C38.
  A request by a protected method to a path that is not excluded passes the hook only if it carries,
  in the cookie and in the header, one and the same token, signed with the app's key for the
  session of this request; and, with the origin check on, if no browser announced it as coming from another site,
  unless the origin it names is its own host or a trusted one. The hook leaves such a request alone.
\<close>

theorem csrf_needs_signed_token:
  assumes "csrf_hook E cfg random s w = (HNothing, s', w')" and "requestUrl E (sReq s) = Some (p, u)"
    and "method_name (qMethod (sReq s)) \<in> set (cfProtected cfg)" and "\<not> isPathExcluded p (cfExclude cfg)"
  shows "s' = s \<and> w' = w
    \<and> (\<exists>nonce token. nonce \<noteq> [] \<and> token = nonce @ [46] @ uni (signNonce E (cfKey cfg) nonce (session_of cfg (sReq s)))
        \<and> cookie_token cfg (sReq s) = Some token \<and> map_option uni (headers_get (cfHeaderName cfg) (qHeaders (sReq s))) = Some token)
    \<and> (cfCheckOrigin cfg \<longrightarrow> (case usable_origin (sReq s) of
        None \<Rightarrow> headers_get ''sec-fetch-site'' (qHeaders (sReq s)) \<notin> {Some ''same-site'', Some ''cross-site''}
      | Some origin \<Rightarrow> (\<exists>v. parseOrigin E origin = Some v \<and>
          (origin \<in> set (cfTrusted cfg) \<or> to_lower (uhost v) \<in> set (cfTrusted cfg) \<or> to_lower (uhost v) = to_lower (uhost u)
            \<and> headers_get ''sec-fetch-site'' (qHeaders (sReq s)) \<notin> {Some ''same-site'', Some ''cross-site''}))))"
proof -
  have check: "csrf_check E cfg u s = (HNothing, s')" and w: "w' = w"
    using assms by (auto simp: csrf_hook_def split: prod.splits if_splits)
  have d: "forbid msg s \<noteq> (HNothing, s')" for msg using forbid_answers [of msg s] by auto
  have origin: "cfCheckOrigin cfg \<longrightarrow> origin_admitted E cfg u (sReq s)"
    using check d by (auto simp: csrf_check_def Let_def split: if_splits)
  obtain ct ht where t: "cookie_token cfg (sReq s) = Some ct" "headers_get (cfHeaderName cfg) (qHeaders (sReq s)) = Some ht"
    using check d by (auto simp: csrf_check_def Let_def split: if_splits option.splits)
  have eq: "timingSafeEqual ct (uni ht)" "verifyToken E (cfKey cfg) ct (session_of cfg (sReq s))" "s' = s"
    using check d t by (auto simp: csrf_check_def Let_def split: if_splits)
  have "ct = uni ht" using eq(1) timing_safe_latin1 [OF uni_latin1] by blast
  then show ?thesis
    using w eq(2,3) t admitted_origin origin unfolding verify_iff by (intro conjI impI) (blast | simp)+
qed

text \<open>
  A signature is good for the session it was made for only: if session ids have no dot, a token
  that carries the signature made for one session and is accepted for another needs a collision of the
  truncated MAC.
\<close>

theorem csrf_signature_session_bound:
  assumes "verifyToken E key (nonce' @ [46] @ uni (signNonce E key nonce sid)) sid'"
    and "46 \<notin> set sid" and "46 \<notin> set sid'"
    and bytes: "\<And>m. list_all (\<lambda>b. b < 256) (hmacSha256 E key m)"
    and collision: "take 16 (hmacSha256 E key (utf8_encode (signed_text nonce' sid'))) = take 16 (hmacSha256 E key (utf8_encode (signed_text nonce sid)))
      \<Longrightarrow> signed_text nonce' sid' = signed_text nonce sid"
  shows "sid' = sid"
proof -
  obtain n where n: "nonce' @ [46] @ uni (signNonce E key nonce sid) = n @ [46] @ uni (signNonce E key n sid')"
    using assms(1) unfolding verify_iff by blast
  have "last_position 46 (nonce' @ [46] @ uni (signNonce E key nonce sid)) = Some (length nonce')"
    unfolding last_position_split using sign_no_dot by fastforce
  moreover have "last_position 46 (n @ [46] @ uni (signNonce E key n sid')) = Some (length n)"
    unfolding last_position_split using sign_no_dot by fastforce
  ultimately have "length nonce' = length n" using n by simp
  then have s: "uni (signNonce E key nonce sid) = uni (signNonce E key nonce' sid')" using n by simp
  have b: "list_all (\<lambda>b. b < 256) (take 16 (hmacSha256 E key m))" for m
    using bytes [of m] by (auto simp: list_all_iff dest: in_set_takeD)
  have "take 16 (hmacSha256 E key (utf8_encode (signed_text nonce' sid'))) = take 16 (hmacSha256 E key (utf8_encode (signed_text nonce sid)))"
    using toHex_inj [OF b b] s unfolding uni_inj signNonce_def by metis
  then have e: "signed_text nonce' sid' = signed_text nonce sid" by (rule collision)
  have "last_position 46 (signed_text n t) = Some (length n)" if "46 \<notin> set t" for n t
    unfolding last_position_split signed_text_def using that by (intro exI [of _ n] exI [of _ t]) simp
  then have "length nonce' = length nonce" using e assms(2,3) by (metis option.inject)
  then show ?thesis using e by (simp add: signed_text_def)
qed

text \<open>With dots this fails: nonce and session are not kept apart under the MAC. From a token
  for the session \<open>a.b\<close> anyone can make one for the session \<open>b\<close>.\<close>

theorem csrf_token_transplant:
  assumes "verifyToken E key (nonce @ [46] @ sig) (a @ [46] @ b)" and "46 \<notin> set sig"
  shows "verifyToken E key ((nonce @ [46] @ a) @ [46] @ sig) b"
proof -
  obtain n where n: "n \<noteq> []" "nonce @ [46] @ sig = n @ [46] @ uni (signNonce E key n (a @ [46] @ b))"
    using assms(1) unfolding verify_iff by blast
  have "last_position 46 (nonce @ [46] @ sig) = Some (length nonce)"
    "last_position 46 (n @ [46] @ uni (signNonce E key n (a @ [46] @ b))) = Some (length n)"
    unfolding last_position_split using assms(2) sign_no_dot by fastforce+
  then have "nonce = n" "sig = uni (signNonce E key n (a @ [46] @ b))" using n by auto
  moreover have "signNonce E key n (a @ [46] @ b) = signNonce E key (n @ [46] @ a) b" by (simp add: signNonce_def signed_text_def)
  ultimately show ?thesis unfolding verify_iff using sign_no_dot by (metis append_is_Nil_conv n(1))
qed

section \<open>The round trip\<close>

lemma token_verifies:
  assumes "0 < cfTokenLength cfg" and "random \<noteq> []"
  shows "verifyToken E (cfKey cfg) (issueToken E cfg random sid) sid"
proof -
  have "generateToken (cfTokenLength cfg) random \<noteq> []"
    using assms by (cases random; cases "cfTokenLength cfg") (auto simp: generateToken_def toHex_def padStart_def)
  then have "uni (generateToken (cfTokenLength cfg) random) \<noteq> []" by (simp add: uni_def)
  then show ?thesis unfolding verify_iff using sign_no_dot by (auto simp: issueToken_def Let_def)
qed

lemma issued_units: "\<forall>u \<in> set (issueToken E cfg random sid). u < 0x10000"
proof -
  have "u < 0x10000" if "u \<in> set (uni t)" for u t using uni_latin1 [of t] that by (fastforce simp: list_all_iff)
  then show ?thesis by (auto simp: issueToken_def Let_def)
qed

text \<open>
  The plugin lets the honest browser through: when it hands out a token on a safe request, the cookie is in the
  reply, and a later protected request of the same session that sends that cookie back, with the
  token in the header and from an admitted origin, passes.
\<close>

theorem csrf_token_roundtrip:
  assumes issue: "csrf_hook E cfg random s w = (HNothing, s1, w1)" and url: "requestUrl E (sReq s) = Some (p, u)"
    and safe: "method_name (qMethod (sReq s)) \<notin> set (cfProtected cfg)" "\<not> isPathExcluded p (cfExclude cfg)" "cookie_token cfg (sReq s) = None"
    and name: "cfCookieName cfg \<notin> set BLOCKED_KEYS" "trim (cfCookieName cfg) = cfCookieName cfg"
    and nonce: "0 < cfTokenLength cfg" "random \<noteq> []"
    and next_request: "requestUrl E (sReq s2) = Some (p2, u2)" "method_name (qMethod (sReq s2)) \<in> set (cfProtected cfg)"
      "\<not> isPathExcluded p2 (cfExclude cfg)" "origin_admitted E cfg u2 (sReq s2)" "session_of cfg (sReq s2) = session_of cfg (sReq s)"
    and sent: "map_option (\<lambda>c. cookie_header [c]) (map_of (rpHeaders (sRep s1)) ''set-cookie'') = headers_get ''cookie'' (qHeaders (sReq s2))"
      "map_option uni (headers_get (cfHeaderName cfg) (qHeaders (sReq s2))) = Some (issueToken E cfg random (session_of cfg (sReq s)))"
  shows "csrf_hook E cfg random2 s2 w2 = (HNothing, s2, w2)"
proof -
  let ?token = "issueToken E cfg random (session_of cfg (sReq s))"
  let ?ctx = "\<lparr>curl = Some (UrlObject u), headers = Some (\<lambda>n. headers_get n (qHeaders (sReq s)))\<rparr>"
  have "csrf_refresh E cfg random u s w = (HNothing, s1, w1)"
    using issue url safe by (auto simp: csrf_hook_def split: if_splits)
  then obtain c where c: "fst (serializeCookie (parseOrigin E) (cfCookieName cfg) ?token (csrf_cookie_options (cfCookie cfg)) ?ctx w) = Inr c"
      "s1 = s\<lparr>sRep := reply_header ''set-cookie'' c (sRep s)\<rparr>"
    using safe(3) by (auto simp: csrf_refresh_def Let_def split: prod.splits sum.splits)
  have "\<not> hasControlChar c" using serialized_cookie [OF c(1) issued_units] by blast
  then have "filter (\<lambda>x. x \<noteq> CHR 0x0D \<and> x \<noteq> CHR 0x0A) c = c"
    by (auto simp: hasControlChar_def list_ex_iff Let_def intro!: filter_True)
  moreover have "to_lower ''set-cookie'' = ''set-cookie''" by code_simp
  ultimately have "map_of (rpHeaders (sRep s1)) ''set-cookie'' = Some c"
    by (simp add: c(2) reply_header_def map_of_update)
  then have cookie: "headers_get ''cookie'' (qHeaders (sReq s2)) = Some (cookie_header [c])" using sent(1) by simp
  have "serialized (cfCookieName cfg, ?token) (cookie_pair c)"
    using serialized_pair [OF c(1)] name issued_units by blast
  then have "parseCookies (cookie_header [c]) = [(cfCookieName cfg, ?token)]"
    unfolding cookie_header_def by (intro parse_header) auto
  then have ct: "cookie_token cfg (sReq s2) = Some ?token" by (simp add: cookie_token_def cookie)
  obtain h where h: "headers_get (cfHeaderName cfg) (qHeaders (sReq s2)) = Some h" "uni h = ?token" using sent(2) by auto
  have "?token \<noteq> []" by (simp add: issueToken_def Let_def)
  moreover have "h \<noteq> []" using h(2) calculation by (auto simp: uni_def)
  ultimately have "csrf_check E cfg u2 s2 = (HNothing, s2)"
    using token_verifies [OF nonce] next_request(4,5) by (simp add: csrf_check_def Let_def ct h)
  then show ?thesis using next_request by (simp add: csrf_hook_def)
qed

section \<open>Examples\<close>

text \<open>ASCII units first, for evaluation.\<close>

definition utf8_encode_any :: "ustring \<Rightarrow> nat list" where
  "utf8_encode_any us = utf8_encode us"

lemma utf8_encode_ascii [code]:
  "utf8_encode [] = []" "utf8_encode (u # us) = (if u < 0x80 then u # utf8_encode us else utf8_encode_any (u # us))"
  by (simp_all add: utf8_encode_any_def utf8_of_cp_def)

definition demo_csrf_env :: csrf_env where
  "demo_csrf_env =
     \<lparr>newURL = (\<lambda>u b. Some (u, \<lparr>protocol = ''https:'', uhost = ''h''\<rparr>)), parseOrigin = (\<lambda>s. Some \<lparr>protocol = ''https:'', uhost = drop 8 s\<rparr>),
      hmacSha256 = (\<lambda>key m. replicate 2 (length m mod 256)), urlError = OtherErr ''Invalid URL'' None None,
      cookieErr = (\<lambda>e. OtherErr ''Invalid cookie'' None None)\<rparr>"

definition demo_csrf :: "unit csrf_config" where
  "demo_csrf = csrf [] \<lparr>csCookieName = None, csHeaderName = None, csTokenLength = Some 1,
     csCookie = Some \<lparr>ccPath = None, ccSecure = Some True, ccSameSite = None, ccDomain = None\<rparr>, csProtectedMethods = None,
     csSecret = Some [115], csGetSessionId = None, csTrustedOrigins = None, csCheckOrigin = None, csExcludePaths = None\<rparr>"

definition csrf_demo_st :: "methd \<Rightarrow> (string, string) omap \<Rightarrow> (unit, nat) st" where
  "csrf_demo_st m hs =
     \<lparr>sReq = buildRequest \<lparr>wMethod = m, wUrl = ''/x'', wHeaders = new_headers hs, wCustom = [], wIp = None, wPeer = None\<rparr> ''/x'' [] [],
      sRep = createReply, sRepProps = [], sWorld = 0\<rparr>"

definition demo_token :: string where
  "demo_token = ''ab.0303''"

definition demo_post :: "(unit, nat) st" where
  "demo_post = csrf_demo_st POST [(''Cookie'', ''_csrf='' @ demo_token), (''X-Csrf-Token'', demo_token), (''Origin'', ''https://h'')]"

definition demo_safe :: "(unit, nat) st" where
  "demo_safe = csrf_demo_st GET []"

lemma demo_post_facts:
  "csrf_hook demo_csrf_env demo_csrf [] demo_post quiet = (HNothing, demo_post, quiet)"
  "requestUrl demo_csrf_env (sReq demo_post) = Some (''/x'', \<lparr>protocol = ''https:'', uhost = ''h''\<rparr>)"
  "method_name (qMethod (sReq demo_post)) \<in> set (cfProtected demo_csrf)" "\<not> isPathExcluded ''/x'' (cfExclude demo_csrf)"
  by code_simp+

theorem csrf_needs_signed_token_witness:
  "cookie_token demo_csrf (sReq demo_post) = map_option uni (headers_get (cfHeaderName demo_csrf) (qHeaders (sReq demo_post)))"
  using csrf_needs_signed_token [OF demo_post_facts] by metis

theorem csrf_signature_session_bound_witness:
  "verifyToken demo_csrf_env [1] ([97] @ [46] @ uni (signNonce demo_csrf_env [1] [97] [115])) [115] \<and> [115] = ([115] :: ustring)"
proof
  show v: "verifyToken demo_csrf_env [1] ([97] @ [46] @ uni (signNonce demo_csrf_env [1] [97] [115])) [115]" by code_simp
  show "[115] = ([115] :: ustring)"
    by (rule csrf_signature_session_bound [OF v]) (simp_all add: demo_csrf_env_def list_all_iff)
qed

theorem csrf_token_transplant_witness:
  "verifyToken demo_csrf_env [1] (([97] @ [46] @ [120]) @ [46] @ uni (signNonce demo_csrf_env [1] [97] ([120] @ [46] @ [121]))) [121]"
proof (rule csrf_token_transplant)
  show "verifyToken demo_csrf_env [1] ([97] @ [46] @ uni (signNonce demo_csrf_env [1] [97] ([120] @ [46] @ [121]))) ([120] @ [46] @ [121])"
    by code_simp
qed (rule sign_no_dot)

lemma demo_safe_facts:
  "fst (csrf_hook demo_csrf_env demo_csrf [171] demo_safe quiet) = HNothing"
  "requestUrl demo_csrf_env (sReq demo_safe) = Some (''/x'', \<lparr>protocol = ''https:'', uhost = ''h''\<rparr>)"
  "method_name (qMethod (sReq demo_safe)) \<notin> set (cfProtected demo_csrf)" "cookie_token demo_csrf (sReq demo_safe) = None"
  "cfCookieName demo_csrf \<notin> set BLOCKED_KEYS" "trim (cfCookieName demo_csrf) = cfCookieName demo_csrf" "0 < cfTokenLength demo_csrf"
  "origin_admitted demo_csrf_env demo_csrf \<lparr>protocol = ''https:'', uhost = ''h''\<rparr> (sReq demo_post)"
  "session_of demo_csrf (sReq demo_post) = session_of demo_csrf (sReq demo_safe)"
  "map_option (\<lambda>c. cookie_header [c]) (map_of (rpHeaders (sRep (fst (snd (csrf_hook demo_csrf_env demo_csrf [171] demo_safe quiet))))) ''set-cookie'')
    = headers_get ''cookie'' (qHeaders (sReq demo_post))"
  "map_option uni (headers_get (cfHeaderName demo_csrf) (qHeaders (sReq demo_post))) = Some (issueToken demo_csrf_env demo_csrf [171] (session_of demo_csrf (sReq demo_safe)))"
  by code_simp+

theorem csrf_token_roundtrip_witness:
  "csrf_hook demo_csrf_env demo_csrf [] demo_post quiet = (HNothing, demo_post, quiet)"
proof -
  obtain s1 w1 where h: "csrf_hook demo_csrf_env demo_csrf [171] demo_safe quiet = (HNothing, s1, w1)"
    using demo_safe_facts(1) by (metis fst_conv prod.exhaust)
  then have s1: "fst (snd (csrf_hook demo_csrf_env demo_csrf [171] demo_safe quiet)) = s1" by simp
  show ?thesis
    by (rule csrf_token_roundtrip [OF h demo_safe_facts(2,3) demo_post_facts(4) demo_safe_facts(4-7) _ demo_post_facts(2-4)
          demo_safe_facts(8,9) demo_safe_facts(10) [unfolded s1] demo_safe_facts(11)]) simp
qed

end
