(* ===== verification/Header_Plugins_Props.thy ===== *)
theory Header_Plugins_Props
  imports Header_Plugins Csrf_Props Reply_Props
begin

text \<open>
  Properties of the header plugins: which origins CORS answers to and that caches are told, which
  security headers a reply carries, and what a conditional request relies on.
\<close>

section \<open>CORS\<close>

lemma reply_header_map:
  "map_of (rpHeaders (reply_header k v r)) =
     (map_of (rpHeaders r))(to_lower k \<mapsto> filter (\<lambda>c. c \<noteq> CHR 0x0D \<and> c \<noteq> CHR 0x0A) v)"
  by (simp add: reply_header_def map_of_update)

definition names_origin :: "string \<Rightarrow> bool" where
  "names_origin v = list_ex (\<lambda>p. to_lower (trim p) = ''origin'' \<or> to_lower (trim p) = ''*'') (split_on CHR '','' v)"

lemma lower_names:
  "to_lower ''vary'' = ''vary''" "to_lower ''access-control-allow-origin'' = ''access-control-allow-origin''"
  "to_lower ''access-control-allow-credentials'' = ''access-control-allow-credentials''"
  "to_lower ''access-control-expose-headers'' = ''access-control-expose-headers''"
  by code_simp+

definition no_breaks :: "string \<Rightarrow> bool" where
  "no_breaks v = list_all (\<lambda>c. c \<noteq> CHR 0x0D \<and> c \<noteq> CHR 0x0A) v"

lemma no_breaks_filter: "no_breaks v \<Longrightarrow> filter (\<lambda>c. c \<noteq> CHR 0x0D \<and> c \<noteq> CHR 0x0A) v = v"
  by (auto simp: no_breaks_def list_all_iff intro!: filter_True)

lemma literals_no_breaks: "no_breaks ''Origin''" "no_breaks ''*''" "no_breaks ''true''" "no_breaks '', Origin''"
  by code_simp+

lemma list_ex_map: "x \<in> set (map f xs) \<or> y \<in> set (map f xs) \<Longrightarrow> list_ex (\<lambda>p. f p = x \<or> f p = y) xs"
  by (auto simp: list_ex_iff)

lemma vary_named: "names_origin (appendVaryOrigin existing)"
proof -
  have o: "names_origin ''Origin''" by code_simp
  have lit: "to_lower (trim '' Origin'') = ''origin''" by code_simp
  have app: "names_origin (v @ '', Origin'')" for v
  proof -
    have "split_on CHR '','' (v @ CHR '','' # '' Origin'') = split_on CHR '','' v @ split_on CHR '','' '' Origin''" by (rule split_append)
    moreover have "split_on CHR '','' '' Origin'' = ['' Origin'']" by code_simp
    ultimately show ?thesis unfolding names_origin_def using lit by simp
  qed
  show ?thesis
  proof (cases existing)
    case (Some v)
    define named where "named \<longleftrightarrow> ''origin'' \<in> set (map (\<lambda>p. to_lower (trim p)) (split_on CHR '','' v))
      \<or> ''*'' \<in> set (map (\<lambda>p. to_lower (trim p)) (split_on CHR '','' v))"
    have n: "names_origin v" if named
      using that unfolding named_def names_origin_def by (rule list_ex_map)
    have "appendVaryOrigin existing = (if v = [] then ''Origin'' else if named then v else v @ '', Origin'')"
      unfolding appendVaryOrigin_def Some option.case Let_def named_def by (rule refl)
    then show ?thesis using o app [of v] n by (cases "v = []"; cases named) simp_all
  qed (simp add: appendVaryOrigin_def o)
qed

lemma vary_no_breaks:
  assumes "case existing of None \<Rightarrow> True | Some v \<Rightarrow> no_breaks v"
  shows "no_breaks (appendVaryOrigin existing)"
proof (cases existing)
  case (Some v)
  then have "no_breaks v" using assms by simp
  then have "no_breaks (v @ '', Origin'')" using literals_no_breaks(4) unfolding no_breaks_def list_all_append by (rule conjI)
  moreover have "appendVaryOrigin (Some v) = ''Origin'' \<or> appendVaryOrigin (Some v) = v \<or> appendVaryOrigin (Some v) = v @ '', Origin''"
    unfolding appendVaryOrigin_def option.case Let_def by presburger
  ultimately show ?thesis using Some \<open>no_breaks v\<close> literals_no_breaks(1) by metis
qed (simp add: appendVaryOrigin_def literals_no_breaks)

lemma star_pair: "cors opt = Inr cfg \<Longrightarrow> any_origin cfg \<Longrightarrow> \<not> kcCredentials cfg"
  by (auto simp: cors_def Let_def split: if_splits)

definition allow_name :: string where
  "allow_name = ''access-control-allow-origin''"

definition credentials_name :: string where
  "credentials_name = ''access-control-allow-credentials''"

lemma cors_names:
  "to_lower allow_name = allow_name" "to_lower credentials_name = credentials_name" "allow_name \<noteq> ''vary''" "credentials_name \<noteq> ''vary''"
  "allow_name \<noteq> credentials_name" "allow_name \<noteq> ''access-control-expose-headers''" "credentials_name \<noteq> ''access-control-expose-headers''"
  "''vary'' \<noteq> ''access-control-expose-headers''"
  by code_simp+

text \<open>
  What CORS may answer to an origin: the allow header is present just when the origin is allowed, and then it is that
  origin, or \<open>*\<close> if every origin is allowed, which never goes with credentials; and \<open>Vary\<close> tells caches that the
  answer depends on the origin, for refused origins too.
\<close>

definition cors_confined :: "cors_config \<Rightarrow> string \<Rightarrow> (string \<Rightarrow> string option) \<Rightarrow> bool" where
  "cors_confined cfg origin h \<longleftrightarrow>
     h allow_name = (if \<not> isOriginAllowed origin (kcOrigin cfg) then None
       else if any_origin cfg then Some ''*'' else if origin = [] then None else Some origin)
     \<and> (any_origin cfg \<longrightarrow> h credentials_name = None)
     \<and> (\<not> any_origin cfg \<longrightarrow> (\<exists>v. h ''vary'' = Some v \<and> names_origin v))"

lemma star_with_credentials: "cors_confined cfg origin h \<Longrightarrow> h allow_name = Some ''*'' \<Longrightarrow> h credentials_name \<noteq> None \<Longrightarrow> origin = ''*''"
  by (auto simp: cors_confined_def split: if_splits)

lemma allow_value:
  "cors opt = Inr cfg \<Longrightarrow> resolveOriginHeader origin cfg =
     (if \<not> isOriginAllowed origin (kcOrigin cfg) then [] else if any_origin cfg then ''*'' else origin)"
  using star_pair [of opt cfg] by (simp add: resolveOriginHeader_def)

lemma send_hook_confined:
  assumes cfg: "cors opt = Inr cfg" and fresh: "map_of (rpHeaders r) allow_name = None" "map_of (rpHeaders r) credentials_name = None"
    and clean: "no_breaks (origin_of q)" "case map_of (rpHeaders r) ''vary'' of None \<Rightarrow> True | Some v \<Rightarrow> no_breaks v"
  shows "cors_confined cfg (origin_of q) (map_of (rpHeaders (cors_send_hook cfg q r)))"
proof -
  let ?v = "appendVaryOrigin (map_of (rpHeaders r) ''vary'')"
  define r1 where "r1 = (if varyByOrigin cfg then reply_header ''vary'' ?v r else r)"
  have r1: "map_of (rpHeaders r1) n = (if varyByOrigin cfg \<and> n = ''vary'' then Some ?v else map_of (rpHeaders r) n)" for n
    by (auto simp: r1_def reply_header_map lower_names no_breaks_filter vary_no_breaks [OF clean(2)])
  define allow where "allow = resolveOriginHeader (origin_of q) cfg"
  have allow: "allow = (if \<not> isOriginAllowed (origin_of q) (kcOrigin cfg) then [] else if any_origin cfg then ''*'' else origin_of q)"
    unfolding allow_def by (rule allow_value [OF cfg])
  have nb: "no_breaks allow" using clean(1) literals_no_breaks by (auto simp: allow no_breaks_def)
  have hook: "cors_send_hook cfg q r = (if allow = [] then r1
      else (let r2 = reply_header allow_name allow r1;
               r3 = (if kcCredentials cfg then reply_header credentials_name ''true'' r2 else r2)
           in if kcExposedHeaders cfg \<noteq> [] then reply_header ''access-control-expose-headers'' (join '', '' (kcExposedHeaders cfg)) r3 else r3))"
    by (simp add: cors_send_hook_def Let_def allow_def r1_def allow_name_def credentials_name_def)
  have out: "map_of (rpHeaders (cors_send_hook cfg q r)) n = (if allow = [] then map_of (rpHeaders r1) n
      else if n = allow_name then Some allow
      else if n = credentials_name then (if kcCredentials cfg then Some ''true'' else map_of (rpHeaders r1) n)
      else map_of (rpHeaders r1) n)" if "n \<noteq> ''access-control-expose-headers''" for n
    using that unfolding hook Let_def
    by (simp add: reply_header_map lower_names(4) cors_names(1,2,5) cors_names(5-7) cors_names(5-7) [THEN not_sym] no_breaks_filter nb literals_no_breaks)
  have "map_of (rpHeaders (cors_send_hook cfg q r)) allow_name = (if allow = [] then None else Some allow)"
    unfolding out [OF cors_names(6)] using fresh(1) cors_names(3) by (simp add: r1)
  moreover have "map_of (rpHeaders (cors_send_hook cfg q r)) credentials_name = None" if "any_origin cfg"
    unfolding out [OF cors_names(7)] using fresh(2) cors_names(4,5) star_pair [OF cfg that] by (auto simp: r1)
  moreover have "map_of (rpHeaders (cors_send_hook cfg q r)) ''vary'' = Some ?v" if "\<not> any_origin cfg"
    unfolding out [OF cors_names(8)] using cors_names(3,4) that by (auto simp: r1 varyByOrigin_def)
  ultimately show ?thesis using vary_named unfolding allow cors_confined_def by auto
qed

lemma preflight_names:
  "to_lower ''access-control-allow-methods'' = ''access-control-allow-methods''"
  "to_lower ''access-control-allow-headers'' = ''access-control-allow-headers''"
  "to_lower ''access-control-max-age'' = ''access-control-max-age''"
  by code_simp+

text \<open>The headers of a preflight are a plain object with distinct lower-case names.\<close>

lemma preflight_headers:
  assumes "http_trim (resolveOriginHeader (origin_of q) cfg) = resolveOriginHeader (origin_of q) cfg"
  defines "h \<equiv> map_of (hmap (rsHeaders (preflight cfg q)))"
  shows "h allow_name = (if resolveOriginHeader (origin_of q) cfg = [] then None else Some (resolveOriginHeader (origin_of q) cfg))"
    and "h credentials_name = (if resolveOriginHeader (origin_of q) cfg = [] \<or> \<not> kcCredentials cfg then None else Some ''true'')"
    and "h ''vary'' = (if varyByOrigin cfg then Some ''Origin'' else None)"
proof -
  let ?a = "resolveOriginHeader (origin_of q) cfg"
  define ah where "ah = (if kcAllowedHeaders cfg \<noteq> [] then [(''access-control-allow-headers'', join '', '' (kcAllowedHeaders cfg))]
           else (case headers_get ''access-control-request-headers'' (qHeaders q) of
               None \<Rightarrow> [] | Some h \<Rightarrow> if h = [] then [] else [(''access-control-allow-headers'', h)]))"
  define hs where "hs = (if varyByOrigin cfg then [(''vary'', ''Origin'')] else []) @
    (if ?a = [] then [] else [(''access-control-allow-origin'', ?a), (''access-control-allow-methods'', join '', '' (kcMethods cfg))] @ ah
        @ (if kcCredentials cfg then [(''access-control-allow-credentials'', ''true'')] else [])
        @ (if 0 < kcMaxAge cfg then [(''access-control-max-age'', show_int (kcMaxAge cfg))] else []))"
  have p: "rsHeaders (preflight cfg q) = new_headers hs" by (simp add: preflight_def hs_def ah_def Let_def)
  have "ah = [] \<or> (\<exists>v. ah = [(''access-control-allow-headers'', v)])" by (simp add: ah_def split: option.split)
  then have lk: "lower_keys hs"
    and mo: "map_of hs allow_name = (if ?a = [] then None else Some ?a)"
      "map_of hs credentials_name = (if ?a = [] \<or> \<not> kcCredentials cfg then None else Some ''true'')"
      "map_of hs ''vary'' = (if varyByOrigin cfg then Some ''Origin'' else None)"
    by (auto simp: lower_keys_def hs_def lower_names preflight_names allow_name_def credentials_name_def)
  have m: "h n = map_option http_trim (map_of hs n)" if "n \<noteq> ''set-cookie''" for n
    using fold_append_value [OF lk that, of "\<lparr>hmap = [], hcookies = []\<rparr>"] by (simp add: h_def p new_headers_def split: option.split)
  have t: "http_trim ''Origin'' = ''Origin''" "http_trim ''true'' = ''true''" by code_simp+
  have n: "allow_name \<noteq> ''set-cookie''" "credentials_name \<noteq> ''set-cookie''" "''vary'' \<noteq> ''set-cookie''"
    by (simp_all add: allow_name_def credentials_name_def)
  show "h allow_name = (if ?a = [] then None else Some ?a)" using assms(1) by (simp add: m [OF n(1)] mo)
  show "h credentials_name = (if ?a = [] \<or> \<not> kcCredentials cfg then None else Some ''true'')" using t by (simp add: m [OF n(2)] mo)
  show "h ''vary'' = (if varyByOrigin cfg then Some ''Origin'' else None)" using t by (simp add: m [OF n(3)] mo)
qed

text \<open>
  C39.
  CORS answers the allowed origins only, on an actual request, through the onSend hook, as on a preflight: the allow
  header is present just when the origin of the request is allowed, and then it is that origin, or \<open>*\<close> if every
  origin is allowed. The configuration \<open>*\<close> never goes with credentials; the header \<open>*\<close> goes with credentials
  only if the request's own \<open>Origin\<close> is the text \<open>*\<close>. Whenever the answer depends on the origin, \<open>Vary\<close> says so, for refused
  origins too. The reply has no CORS headers before the hook, and the values come from parsed headers.
\<close>

theorem cors_origin_confined:
  assumes cfg: "cors opt = Inr cfg" and fresh: "map_of (rpHeaders r) allow_name = None" "map_of (rpHeaders r) credentials_name = None"
    and clean: "no_breaks (origin_of q)" "http_trim (origin_of q) = origin_of q"
      "case map_of (rpHeaders r) ''vary'' of None \<Rightarrow> True | Some v \<Rightarrow> no_breaks v"
  shows "let sent = map_of (rpHeaders (cors_send_hook cfg q r)); preflighted = map_of (hmap (rsHeaders (preflight cfg q)))
    in cors_confined cfg (origin_of q) sent \<and> cors_confined cfg (origin_of q) preflighted
      \<and> (\<forall>h \<in> {sent, preflighted}. h allow_name = Some ''*'' \<and> h credentials_name \<noteq> None \<longrightarrow> origin_of q = ''*'')"
proof -
  have "cors_confined cfg (origin_of q) (map_of (rpHeaders (cors_send_hook cfg q r)))"
    by (rule send_hook_confined [OF cfg fresh clean(1,3)])
  moreover have "cors_confined cfg (origin_of q) (map_of (hmap (rsHeaders (preflight cfg q))))"
  proof -
    have star: "http_trim ''*'' = ''*''" "http_trim [] = []" by code_simp+
    have t: "http_trim (resolveOriginHeader (origin_of q) cfg) = resolveOriginHeader (origin_of q) cfg"
      using clean(2) star by (simp add: resolveOriginHeader_def)
    have "names_origin ''Origin''" by code_simp
    then show ?thesis using star_pair [OF cfg] unfolding cors_confined_def preflight_headers [OF t] allow_value [OF cfg]
      by (simp add: varyByOrigin_def)
  qed
  ultimately show ?thesis using star_with_credentials by (auto simp: Let_def)
qed

lemma preflight_denied:
  assumes "\<not> isOriginAllowed (origin_of q) (kcOrigin cfg)"
  shows "rsHeaders (preflight cfg q) = new_headers (if varyByOrigin cfg then [(''vary'', ''Origin'')] else [])"
  using assms by (simp add: preflight_def Let_def resolveOriginHeader_def)

section \<open>Security headers\<close>

definition no_choices :: security_options where
  "no_choices =
     \<lparr>seContentTypeOptions = None, seFrameOptions = None, seXssProtection = None, seHsts = None, seReferrerPolicy = None,
      seCrossDomainPolicy = None, seDnsPrefetchControl = None, seDownloadOptions = None, seContentSecurityPolicy = None\<rparr>"

definition default_security_headers :: "(string, string) omap" where
  "default_security_headers =
     [(''x-content-type-options'', ''nosniff''), (''x-frame-options'', ''DENY''), (''x-xss-protection'', ''0''),
      (''strict-transport-security'', ''max-age=31536000; includeSubDomains''), (''referrer-policy'', ''strict-origin-when-cross-origin''),
      (''x-permitted-cross-domain-policies'', ''none''), (''x-dns-prefetch-control'', ''off''), (''x-download-options'', ''noopen'')]"

lemma security_hook_as_fold:
  "security_hook no_choices r = fold (\<lambda>(k, v). reply_header k v) default_security_headers r"
proof -
  have "hsts_text \<lparr>hsMaxAge = Some 31536000, hsIncludeSubDomains = Some True, hsPreload = None\<rparr> = ''max-age=31536000; includeSubDomains''"
  proof -
    have "digit_char 3 = CHR ''3''" "digit_char 1 = CHR ''1''" "digit_char 5 = CHR ''5''" "digit_char 6 = CHR ''6''" "digit_char 0 = CHR ''0''"
      by code_simp+
    then show ?thesis by (simp add: hsts_text_def show_int_def show_nat.simps)
  qed
  then show ?thesis
    by (simp add: security_hook_def no_choices_def default_security_headers_def chosen_def header_unless_off_def Let_def)
qed

section \<open>ETags\<close>

lemma etag_trim: "http_trim (etagValue digest weak str) = etagValue digest weak str"
proof -
  have "\<not> http_ws CHR ''W''" "\<not> http_ws (CHR 0x22)" by code_simp+
  then show ?thesis by (auto simp: http_trim_def etagValue_def)
qed

lemma etag_headers:
  "headers_get ''etag'' (rsHeaders (withETag digest stringify weak h d)) = Some (etagValue digest weak (body_text stringify d))"
proof -
  have n: "to_lower ''etag'' = ''etag''" "to_lower ''content-type'' = ''content-type''" by code_simp+
  show ?thesis
    by (auto simp: withETag_def Let_def new_headers_def headers_append_def headers_set_def headers_get_def n etag_trim map_of_update)
qed

lemma etag_inj: "etagValue digest weak s = etagValue digest weak t \<longleftrightarrow> hashBody digest s = hashBody digest t"
  by (simp add: etagValue_def)

text \<open>
  Conditional requests are answered by content: a client that sends back the tag of an earlier response gets a 304
  without body if the first 16 octets of the digests of the two bodies agree, and otherwise the new
  body under its own tag. So a 304 for a body the client has not seen needs a collision.
\<close>

theorem etag_revalidation:
  assumes "headers_get ''if-none-match'' h2 = headers_get ''etag'' (rsHeaders (withETag digest stringify weak h1 d1))"
    and bytes: "\<And>s. list_all (\<lambda>b. b < 256) (digest s)"
  shows "withETag digest stringify weak h2 d2 =
    (if take 16 (digest (body_text stringify d1)) = take 16 (digest (body_text stringify d2))
     then \<lparr>rsStatus = 304, rsHeaders = new_headers [(''etag'', etagValue digest weak (body_text stringify d1))], rsBody = NoBody, rsFast = False\<rparr>
     else \<lparr>rsStatus = 200,
           rsHeaders = new_headers [(''content-type'', case d2 of DataText _ \<Rightarrow> ''text/plain; charset=utf-8'' | DataJson _ \<Rightarrow> ''application/json; charset=utf-8''),
             (''etag'', etagValue digest weak (body_text stringify d2))],
           rsBody = TextBody (body_text stringify d2), rsFast = False\<rparr>)"
proof -
  have hex: "hashBody digest s = toHex (take 16 (digest s))" for s by (simp add: hashBody_def toHex_def)
  have b: "list_all (\<lambda>b. b < 256) (take 16 (digest s))" for s
    using bytes [of s] by (auto simp: list_all_iff dest: in_set_takeD)
  have "hashBody digest (body_text stringify d1) = hashBody digest (body_text stringify d2)
      \<longleftrightarrow> take 16 (digest (body_text stringify d1)) = take 16 (digest (body_text stringify d2))"
    unfolding hex using toHex_inj [OF b b] by metis
  then have "headers_get ''if-none-match'' h2 = Some (etagValue digest weak (body_text stringify d2))
      \<longleftrightarrow> take 16 (digest (body_text stringify d1)) = take 16 (digest (body_text stringify d2))"
    unfolding assms(1) etag_headers option.inject etag_inj .
  moreover have "etagValue digest weak (body_text stringify d1) = etagValue digest weak (body_text stringify d2)"
    if "take 16 (digest (body_text stringify d1)) = take 16 (digest (body_text stringify d2))"
    using that by (simp add: etagValue_def hashBody_def)
  ultimately show ?thesis unfolding withETag_def Let_def by simp
qed

section \<open>Examples\<close>

definition demo_cors :: cors_config where
  "demo_cors = cors_defaults\<lparr>kcOrigin := OriginList [''https://a''], kcCredentials := True\<rparr>"

definition demo_cors_options :: cors_options where
  "demo_cors_options = \<lparr>coOrigin = Some (OriginList [''https://a'']), coMethods = None, coAllowedHeaders = None,
     coExposedHeaders = None, coCredentials = Some True, coMaxAge = None\<rparr>"

theorem cors_origin_confined_witness:
  "map_of (rpHeaders (cors_send_hook demo_cors (sReq demo_post) createReply)) allow_name = None
   \<and> (\<exists>v. map_of (rpHeaders (cors_send_hook demo_cors (sReq demo_post) createReply)) ''vary'' = Some v \<and> names_origin v)
   \<and> map_of (hmap (rsHeaders (preflight demo_cors (sReq demo_post)))) allow_name = None"
proof -
  have c: "cors demo_cors_options = Inr demo_cors"
    by (simp add: cors_def demo_cors_options_def demo_cors_def cors_defaults_def any_origin_def Let_def)
  have f: "no_breaks (origin_of (sReq demo_post))" "http_trim (origin_of (sReq demo_post)) = origin_of (sReq demo_post)"
    "\<not> isOriginAllowed (origin_of (sReq demo_post)) (kcOrigin demo_cors)" "\<not> any_origin demo_cors"
    by code_simp+
  show ?thesis
    using cors_origin_confined [OF c, of createReply "sReq demo_post"] f by (simp add: createReply_def cors_confined_def Let_def)
qed

definition demo_digest :: "string \<Rightarrow> nat list" where
  "demo_digest s = replicate 20 (length s mod 256)"

definition demo_data :: etag_data where
  "demo_data = DataText ''abc''"

definition demo_revisit :: header_map where
  "demo_revisit = new_headers [(''If-None-Match'', etagValue demo_digest None ''abc'')]"

theorem etag_revalidation_witness:
  "rsStatus (withETag demo_digest (\<lambda>_. []) None demo_revisit demo_data) = 304"
proof -
  have t: "body_text (\<lambda>_. []) demo_data = ''abc''" by (simp add: body_text_def demo_data_def)
  have "headers_get ''if-none-match'' demo_revisit = Some (etagValue demo_digest None ''abc'')" by code_simp
  then have "headers_get ''if-none-match'' demo_revisit = headers_get ''etag'' (rsHeaders (withETag demo_digest (\<lambda>_. []) None (new_headers []) demo_data))"
    unfolding etag_headers t .
  moreover have "list_all (\<lambda>b. b < 256) (demo_digest s)" for s by (simp add: demo_digest_def list_all_iff)
  ultimately show ?thesis using etag_revalidation [of demo_revisit demo_digest "\<lambda>_. []" None "new_headers []" demo_data demo_data] by simp
qed

end
