(* ===== verification/Rpc_Wire.thy ===== *)
theory Rpc_Wire
  imports Body_Props
begin

text \<open>
  The wire format of remote procedure calls: \<open>packages/rpc/src/wire.ts\<close>.

  \<^item> \<open>js_value\<close> is a value a procedure takes or returns, functions and symbols apart; an object is
    the list of its own enumerable properties in order, a \<open>Set\<close> the list of its elements, a \<open>Map\<close> that
    of its entries. A finite number is a rational, but for -0. A \<open>RegExp\<close> is its text, a \<open>Date\<close> its time value, \<open>None\<close> for an invalid one.
  \<^item> \<open>wire_platform\<close> holds the runtime: \<open>JSON.parse\<close> and \<open>JSON.stringify\<close>, the conversion to a string,
    \<open>new Date\<close> and \<open>toISOString\<close>, \<open>BigInt\<close>. \<open>None\<close> is a throw.
  \<^item> What is decoded is a JSON value, or \<open>undefined\<close> (\<open>None\<close>) where an entry of a \<open>Map\<close> is too short.
\<close>

section \<open>Values and the platform\<close>

datatype non_finite = NotANumber | PlusInfinity | MinusInfinity

datatype js_value =
    VUndefined
  | VNull
  | VBool bool
  | VNum rat
  | VNegZero
  | VNonFinite non_finite
  | VStr string
  | VDate "int option"
  | VBigInt int
  | VRegExp string
  | VSet "js_value list"
  | VMap "(js_value \<times> js_value) list"
  | VArr "js_value list"
  | VObj "(string \<times> js_value) list"

record wire_platform =
  wpParse :: "string \<Rightarrow> json option"
  wpStringify :: "json \<Rightarrow> string"
  wpToString :: "json \<Rightarrow> string option"
  wpDate :: "json \<Rightarrow> int option option"
  wpIso :: "int \<Rightarrow> string"
  wpBigInt :: "json \<Rightarrow> int option"

datatype wire_error = TooDeep | NotAnArray | PlatformThrew

definition MAX_DECODE_DEPTH :: nat where
  "MAX_DECODE_DEPTH = 32"

text \<open>\<open>xs.map(f)\<close> where \<open>f\<close> may throw.\<close>

fun traverse :: "('a \<Rightarrow> 'e + 'b) \<Rightarrow> 'a list \<Rightarrow> 'e + 'b list" where
  "traverse f [] = Inr []"
| "traverse f (x # xs) =
     (case f x of Inl e \<Rightarrow> Inl e | Inr y \<Rightarrow> (case traverse f xs of Inl e \<Rightarrow> Inl e | Inr ys \<Rightarrow> Inr (y # ys)))"

lemma traverse_cong [fundef_cong]: "xs = ys \<Longrightarrow> (\<And>x. x \<in> set ys \<Longrightarrow> f x = g x) \<Longrightarrow> traverse f xs = traverse g ys"
  by (induction xs arbitrary: ys) (auto split: sum.splits)

lemma traverse_InrE:
  "traverse f xs = Inr ys \<Longrightarrow> list_all2 (\<lambda>x y. f x = Inr y) xs ys"
  by (induction xs arbitrary: ys) (auto split: sum.splits)

lemma traverse_Inr: "(\<And>x. x \<in> set xs \<Longrightarrow> f x = Inr (g x)) \<Longrightarrow> traverse f xs = Inr (map g xs)"
  by (induction xs) auto

lemma traverse_map: "traverse f (map g xs) = traverse (f \<circ> g) xs"
  by (induction xs) (auto split: sum.splits)

text \<open>Two elements of a \<open>Set\<close>, or two keys of a \<open>Map\<close>, are the same when they are equal primitives;
  objects are the same only by identity, and decoding makes fresh ones.\<close>

fun primitive :: "js_value \<Rightarrow> bool" where
  "primitive (VDate t) = False"
| "primitive (VRegExp s) = False"
| "primitive (VSet vs) = False"
| "primitive (VMap es) = False"
| "primitive (VArr vs) = False"
| "primitive (VObj ps) = False"
| "primitive v = True"

definition same_value :: "js_value \<Rightarrow> js_value \<Rightarrow> bool" where
  "same_value a b = (primitive a \<and> a = b)"

definition set_add :: "js_value list \<Rightarrow> js_value \<Rightarrow> js_value list" where
  "set_add vs v = (if list_ex (same_value v) vs then vs else vs @ [v])"

definition new_Set :: "js_value list \<Rightarrow> js_value" where
  "new_Set vs = VSet (foldl set_add [] vs)"

fun map_put :: "(js_value \<times> js_value) list \<Rightarrow> js_value \<times> js_value \<Rightarrow> (js_value \<times> js_value) list" where
  "map_put [] e = [e]"
| "map_put (d # es) e = (if same_value (fst d) (fst e) then (fst d, snd e) # es else d # map_put es e)"

definition new_Map :: "(js_value \<times> js_value) list \<Rightarrow> js_value" where
  "new_Map es = VMap (foldl map_put [] es)"

text \<open>A JSON value as it is, with own properties of any name.\<close>

fun of_json :: "json \<Rightarrow> js_value" where
  "of_json JNull = VNull"
| "of_json (JBool b) = VBool b"
| "of_json (JNum n) = VNum n"
| "of_json (JStr s) = VStr s"
| "of_json (JArr js) = VArr (map of_json js)"
| "of_json (JObj ps) = VObj (map (\<lambda>(k, j). (k, of_json j)) ps)"

section \<open>encode\<close>

definition tagged :: "string \<Rightarrow> string \<Rightarrow> json" where
  "tagged t s = JObj [(''__t'', JStr t), (''v'', JStr s)]"

text \<open>What \<open>encode\<close> returns is given as \<open>JSON.stringify\<close>, to which every caller hands it, writes it: -0 is
  written \<open>0\<close>, and a number that is not finite \<open>null\<close>.
  \<open>toISOString\<close> throws on an invalid date. Assigning \<open>__proto__\<close> does not make an own property.\<close>

fun encode :: "wire_platform \<Rightarrow> js_value \<Rightarrow> wire_error + json" where
  "encode pf VUndefined = Inr (tagged ''Undefined'' [])"
| "encode pf VNull = Inr JNull"
| "encode pf (VBool b) = Inr (JBool b)"
| "encode pf (VNum n) = Inr (JNum n)"
| "encode pf VNegZero = Inr (JNum 0)"
| "encode pf (VNonFinite n) = Inr JNull"
| "encode pf (VStr s) = Inr (JStr s)"
| "encode pf (VDate None) = Inl PlatformThrew"
| "encode pf (VDate (Some t)) = Inr (tagged ''Date'' (wpIso pf t))"
| "encode pf (VBigInt i) = Inr (tagged ''BigInt'' (show_int i))"
| "encode pf (VSet vs) = map_sum id (\<lambda>js. tagged ''Set'' (wpStringify pf (JArr js))) (traverse (encode pf) vs)"
| "encode pf (VMap es) =
     map_sum id (\<lambda>js. tagged ''Map'' (wpStringify pf (JArr js)))
       (traverse (\<lambda>(k, v). (case encode pf k of
            Inl e \<Rightarrow> Inl e
          | Inr a \<Rightarrow> map_sum id (\<lambda>b. JArr [a, b]) (encode pf v))) es)"
| "encode pf (VRegExp s) = Inr (tagged ''RegExp'' s)"
| "encode pf (VArr vs) = map_sum id JArr (traverse (encode pf) vs)"
| "encode pf (VObj ps) =
     map_sum id (\<lambda>qs. JObj (filter (\<lambda>q. fst q \<noteq> ''__proto__'') qs))
       (traverse (\<lambda>(k, v). map_sum id (Pair k) (encode pf v)) ps)"

section \<open>decode\<close>

text \<open>\<open>JSON.parse\<close> of a payload converts it to a string first.\<close>

definition parseNested :: "wire_platform \<Rightarrow> json \<Rightarrow> nat \<Rightarrow> wire_error + json list" where
  "parseNested pf raw depth =
     (if MAX_DECODE_DEPTH \<le> depth then Inl TooDeep
      else (case (case (case raw of JStr s \<Rightarrow> Some s | _ \<Rightarrow> wpToString pf raw) of None \<Rightarrow> None | Some s \<Rightarrow> wpParse pf s) of
              None \<Rightarrow> Inl PlatformThrew
            | Some (JArr js) \<Rightarrow> Inr js
            | Some _ \<Rightarrow> Inl NotAnArray))"

text \<open>\<open>const [k, val] = entry\<close>: an array, or the characters of a string; another value is not iterable.\<close>

fun destructure :: "json \<Rightarrow> (json option \<times> json option) option" where
  "destructure (JArr []) = Some (None, None)"
| "destructure (JArr [k]) = Some (Some k, None)"
| "destructure (JArr (k # v # js)) = Some (Some k, Some v)"
| "destructure (JStr []) = Some (None, None)"
| "destructure (JStr [k]) = Some (Some (JStr [k]), None)"
| "destructure (JStr (k # v # cs)) = Some (Some (JStr [k]), Some (JStr [v]))"
| "destructure _ = None"

text \<open>\<open>dec\<close> decodes a member one level down.\<close>

definition rebuildPlainObject :: "(json option \<Rightarrow> wire_error + js_value) \<Rightarrow> (string \<times> json) list \<Rightarrow> wire_error + js_value" where
  "rebuildPlainObject dec obj =
     map_sum id VObj (traverse (\<lambda>(k, j). map_sum id (Pair k) (dec (Some j))) (filter (\<lambda>(k, j). k \<notin> set BLOCKED_KEYS) obj))"

definition decode_entry :: "(json option \<Rightarrow> wire_error + js_value) \<Rightarrow> json \<Rightarrow> wire_error + js_value \<times> js_value" where
  "decode_entry dec entry =
     (case destructure entry of
        None \<Rightarrow> Inl PlatformThrew
      | Some (k, val) \<Rightarrow> (case dec k of Inl e \<Rightarrow> Inl e | Inr a \<Rightarrow> map_sum id (Pair a) (dec val)))"

definition decode_object ::
    "wire_platform \<Rightarrow> (json option \<Rightarrow> wire_error + js_value) \<Rightarrow> nat \<Rightarrow> (string \<times> json) list \<Rightarrow> wire_error + js_value" where
  "decode_object pf dec depth obj =
     (case (map_of obj ''__t'', map_of obj ''v'') of
        (Some (JStr tag), Some v) \<Rightarrow>
          if tag = ''Date'' then (case wpDate pf v of None \<Rightarrow> Inl PlatformThrew | Some d \<Rightarrow> Inr (VDate d))
          else if tag = ''BigInt'' then (case wpBigInt pf v of None \<Rightarrow> Inl PlatformThrew | Some i \<Rightarrow> Inr (VBigInt i))
          else if tag = ''Undefined'' then Inr VUndefined
          else if tag = ''Set'' then
            (case parseNested pf v depth of Inl e \<Rightarrow> Inl e | Inr js \<Rightarrow> map_sum id new_Set (traverse (\<lambda>j. dec (Some j)) js))
          else if tag = ''Map'' then
            (case parseNested pf v depth of Inl e \<Rightarrow> Inl e | Inr js \<Rightarrow> map_sum id new_Map (traverse (decode_entry dec) js))
          else if tag = ''RegExp'' then Inr (of_json v)
          else rebuildPlainObject dec obj
      | _ \<Rightarrow> rebuildPlainObject dec obj)"

text \<open>The depth bounds the recursion, also through the strings parsed on the way.\<close>

function decodeValue :: "wire_platform \<Rightarrow> json option \<Rightarrow> nat \<Rightarrow> wire_error + js_value" where
  "decodeValue pf wire depth =
     (case wire of
        None \<Rightarrow> if MAX_DECODE_DEPTH \<le> depth then Inl TooDeep else Inr VUndefined
      | Some JNull \<Rightarrow> Inr VNull
      | Some (JBool b) \<Rightarrow> Inr (VBool b)
      | Some (JNum n) \<Rightarrow> Inr (VNum n)
      | Some (JStr s) \<Rightarrow> Inr (VStr s)
      | Some (JArr js) \<Rightarrow>
          if MAX_DECODE_DEPTH \<le> depth then Inl TooDeep
          else map_sum id VArr (traverse (\<lambda>j. decodeValue pf (Some j) (depth + 1)) js)
      | Some (JObj obj) \<Rightarrow>
          if MAX_DECODE_DEPTH \<le> depth then Inl TooDeep
          else decode_object pf (\<lambda>j. decodeValue pf j (depth + 1)) depth obj)"
  by pat_completeness auto
termination by (relation "measure (\<lambda>(pf, wire, depth). MAX_DECODE_DEPTH - depth)") auto

declare decodeValue.simps [simp del]

definition decode :: "wire_platform \<Rightarrow> json \<Rightarrow> wire_error + js_value" where
  "decode pf j = decodeValue pf (Some j) 0"

end
