(* ===== verification/Rpc.thy ===== *)
theory Rpc
  imports Rpc_Wire
begin

text \<open>
  Remote procedure calls: \<open>packages/rpc/src/procedure.ts\<close>, \<open>router.ts\<close>, \<open>openapi.ts\<close> and \<open>client.ts\<close>.

  \<^item> A procedure's handler and middlewares act on the state \<open>'c \<times> 'w\<close>: the context of the call, which they
    share, and the world. A middleware's run is a tree (\<open>act\<close>): it ends with a result, or calls \<open>next\<close>
    and goes on with what that gave; it awaits each call of \<open>next\<close>. A result is a value or a throw.
  \<^item> What is thrown is \<open>null\<close> or \<open>undefined\<close> (\<open>ThrownNullish\<close>), or has a \<open>statusCode\<close>, a \<open>code\<close> and, if it is an
    \<open>Error\<close>, a message.
  \<^item> The request carries its parsed URL and what \<open>json()\<close> and \<open>formData()\<close> give, \<open>None\<close> for a rejection.
  \<^item> Schemas are values of type \<open>'sc\<close>; \<open>rpc_env\<close> says how they validate and convert, holds the platform and the
    production mode. \<open>Escapes\<close> is a rejection of the promise \<open>handle()\<close> returns.
\<close>

section \<open>Procedures\<close>

datatype proc_type = QueryProc | MutationProc

datatype rpc_thrown = ThrownNullish | Thrown (tStatus: "int option") (tCode: "string option") (tMessage: "string option")

type_synonym rpc_result = "rpc_thrown + js_value"

datatype 's act = Done rpc_result 's | CallNext 's "rpc_result \<Rightarrow> 's \<Rightarrow> 's act"

type_synonym 's middleware = "'s \<Rightarrow> 's act"

datatype 'f rpc_input = Decoded js_value | FormInput 'f

record ('f, 's, 'sc) procedure_def =
  prType :: proc_type
  prInput :: "'sc option"
  prOutput :: "'sc option"
  prHandler :: "'f rpc_input \<Rightarrow> 's \<Rightarrow> rpc_result \<times> 's"
  prMiddlewares :: "'s middleware list"
  prAllowFormData :: bool

text \<open>\<open>ProcedureBuilder\<close>: every step gives a new builder. \<open>fs\<close> is \<open>fromSchema\<close>, which may throw.\<close>

record ('s, 'sc) proc_builder =
  pbInput :: "'sc option"
  pbOutput :: "'sc option"
  pbMiddlewares :: "'s middleware list"
  pbAllowFormData :: bool

definition new_builder :: "'s middleware list \<Rightarrow> ('s, 'sc) proc_builder" where
  "new_builder mws = \<lparr>pbInput = None, pbOutput = None, pbMiddlewares = mws, pbAllowFormData = False\<rparr>"

definition builder_carry :: "('s, 'sc) proc_builder \<Rightarrow> ('s, 'sc) proc_builder \<Rightarrow> ('s, 'sc) proc_builder" where
  "builder_carry this next = next\<lparr>pbAllowFormData := pbAllowFormData this\<rparr>"

definition builder_input :: "('raw \<Rightarrow> 'e + 'sc) \<Rightarrow> 'raw \<Rightarrow> ('s, 'sc) proc_builder \<Rightarrow> 'e + ('s, 'sc) proc_builder" where
  "builder_input fs schema this =
     map_sum id (\<lambda>sc. (builder_carry this (new_builder (pbMiddlewares this)))\<lparr>pbInput := Some sc, pbOutput := pbOutput this\<rparr>) (fs schema)"

definition builder_output :: "('raw \<Rightarrow> 'e + 'sc) \<Rightarrow> 'raw \<Rightarrow> ('s, 'sc) proc_builder \<Rightarrow> 'e + ('s, 'sc) proc_builder" where
  "builder_output fs schema this =
     map_sum id (\<lambda>sc. (builder_carry this (new_builder (pbMiddlewares this)))\<lparr>pbInput := pbInput this, pbOutput := Some sc\<rparr>) (fs schema)"

definition builder_use :: "'s middleware \<Rightarrow> ('s, 'sc) proc_builder \<Rightarrow> ('s, 'sc) proc_builder" where
  "builder_use mw this =
     (builder_carry this (new_builder (pbMiddlewares this @ [mw])))\<lparr>pbInput := pbInput this, pbOutput := pbOutput this\<rparr>"

definition builder_allowFormData :: "('s, 'sc) proc_builder \<Rightarrow> ('s, 'sc) proc_builder" where
  "builder_allowFormData this =
     (builder_carry this (new_builder (pbMiddlewares this)))\<lparr>pbInput := pbInput this, pbOutput := pbOutput this, pbAllowFormData := True\<rparr>"

definition builder_build ::
    "proc_type \<Rightarrow> ('f rpc_input \<Rightarrow> 's \<Rightarrow> rpc_result \<times> 's) \<Rightarrow> ('s, 'sc) proc_builder \<Rightarrow> ('f, 's, 'sc) procedure_def" where
  "builder_build t handler this =
     \<lparr>prType = t, prInput = pbInput this, prOutput = pbOutput this, prHandler = handler,
      prMiddlewares = pbMiddlewares this, prAllowFormData = pbAllowFormData this\<rparr>"

section \<open>The handler object\<close>

datatype 'p rpc_tree = Procedure 'p | SubRouter "(string \<times> 'p rpc_tree) list"

datatype introspection_mode = InDevelopment | Always | Never

record 'f rpc_request =
  rqMethod :: string
  rqOrigin :: string
  rqPathname :: string
  rqInputParam :: "string option"
  rqHeaders :: header_map
  rqParsedBody :: "'f parsed_body option"
  rqJson :: "json option"
  rqFormData :: "'f option"

record ('f, 'c, 'w, 'sc) rpc_handler =
  flatRoutes :: "(string, ('f, 'c \<times> 'w, 'sc) procedure_def) omap"
  contextFactory :: "'f rpc_request \<Rightarrow> 'w \<Rightarrow> (rpc_thrown + 'c) \<times> 'w"
  basePath :: string
  introspection :: introspection_mode
  introspectionMiddlewares :: "('c \<times> 'w) middleware list"
  originCheck :: bool
  allowedOrigins :: "string list"
  loggerError :: "string \<Rightarrow> rpc_thrown \<Rightarrow> 'w \<Rightarrow> 'w"

record ('f, 'sc) rpc_env =
  rePlatform :: wire_platform
  reValidateInput :: "'sc \<Rightarrow> 'f rpc_input \<Rightarrow> rpc_thrown + issue list + 'f rpc_input"
  reValidateOutput :: "'sc \<Rightarrow> js_value \<Rightarrow> rpc_thrown + bool"
  reJsonSchema :: "'sc \<Rightarrow> json"
  reProduction :: bool

datatype rpc_outcome = Responds resp | Escapes

definition dotted_path :: "string \<Rightarrow> string \<Rightarrow> string" where
  "dotted_path pref key = (if pref \<noteq> [] then pref @ ''.'' @ key else key)"

fun flattenRoutes :: "(string \<times> 'p rpc_tree) list \<Rightarrow> string \<Rightarrow> (string, 'p) omap \<Rightarrow> (string, 'p) omap" where
  "flattenRoutes [] pref flat = flat"
| "flattenRoutes ((key, Procedure p) # routers) pref flat = flattenRoutes routers pref (AList.update (dotted_path pref key) p flat)"
| "flattenRoutes ((key, SubRouter sub) # routers) pref flat = flattenRoutes routers pref (flattenRoutes sub (dotted_path pref key) flat)"

record ('f, 'c, 'w) rpc_options =
  opContextFactory :: "('f rpc_request \<Rightarrow> 'w \<Rightarrow> (rpc_thrown + 'c) \<times> 'w) option"
  opBasePath :: "string option"
  opIntrospection :: "introspection_mode option"
  opIntrospectionMiddlewares :: "('c \<times> 'w) middleware list option"
  opOriginCheck :: "bool option"
  opAllowedOrigins :: "string list option"
  opLogger :: "(string \<Rightarrow> rpc_thrown \<Rightarrow> 'w \<Rightarrow> 'w) option"

text \<open>The constructor; \<open>bare\<close> is the context \<open>{ request }\<close>, \<open>console\<close> is \<open>console.error\<close>.\<close>

definition new_RPCHandler ::
    "('f rpc_request \<Rightarrow> 'c) \<Rightarrow> (string \<Rightarrow> rpc_thrown \<Rightarrow> 'w \<Rightarrow> 'w) \<Rightarrow>
     (string \<times> ('f, 'c \<times> 'w, 'sc) procedure_def rpc_tree) list \<Rightarrow> ('f, 'c, 'w) rpc_options \<Rightarrow> ('f, 'c, 'w, 'sc) rpc_handler" where
  "new_RPCHandler bare console routers op =
     \<lparr>flatRoutes = flattenRoutes routers [] [],
      contextFactory = (case opContextFactory op of Some f \<Rightarrow> f | None \<Rightarrow> (\<lambda>q w. (Inr (bare q), w))),
      basePath = (case opBasePath op of Some b \<Rightarrow> b | None \<Rightarrow> ''/_rpc''),
      introspection = (case opIntrospection op of Some i \<Rightarrow> i | None \<Rightarrow> InDevelopment),
      introspectionMiddlewares = (case opIntrospectionMiddlewares op of Some ms \<Rightarrow> ms | None \<Rightarrow> []),
      originCheck = (case opOriginCheck op of Some b \<Rightarrow> b | None \<Rightarrow> True),
      allowedOrigins = (case opAllowedOrigins op of Some l \<Rightarrow> l | None \<Rightarrow> []),
      loggerError = (case opLogger op of Some l \<Rightarrow> l | None \<Rightarrow> console)\<rparr>"

text \<open>\<open>mount\<close> sets the base path and registers the two routes.\<close>

definition rpc_mount :: "string option \<Rightarrow> ('f, 'c, 'w, 'sc) rpc_handler \<Rightarrow> (methd \<times> string) list \<times> ('f, 'c, 'w, 'sc) rpc_handler" where
  "rpc_mount pref H =
     (let H1 = (case pref of
            Some (c # cs) \<Rightarrow> H\<lparr>basePath := (if ends_with (c # cs) ''/'' then butlast (c # cs) else c # cs)\<rparr>
          | _ \<Rightarrow> H)
      in ([(GET, basePath H1 @ ''/*path''), (POST, basePath H1 @ ''/*path'')], H1))"

section \<open>Running middlewares\<close>

text \<open>\<open>next\<close> runs the middleware after the last one started, however often it is called; the list is
  what is left to start. Its length bounds the recursion.\<close>

primrec drive :: "('s middleware list \<Rightarrow> 's \<Rightarrow> rpc_result \<times> 's \<times> 's middleware list) \<Rightarrow>
    's act \<Rightarrow> 's middleware list \<Rightarrow> rpc_result \<times> 's \<times> 's middleware list" where
  "drive nxt (Done r s) = (\<lambda>rest. (r, s, rest))"
| "drive nxt (CallNext s k) = (\<lambda>rest. case nxt rest s of (r, s1, rest1) \<Rightarrow> drive nxt (k r s1) rest1)"

fun chain_next :: "nat \<Rightarrow> ('s \<Rightarrow> rpc_result \<times> 's) \<Rightarrow> 's middleware list \<Rightarrow> 's \<Rightarrow> rpc_result \<times> 's \<times> 's middleware list" where
  "chain_next (Suc n) terminal (mw # rest) s = drive (chain_next n terminal) (mw s) rest"
| "chain_next n terminal rest s = (case terminal s of (r, s1) \<Rightarrow> (r, s1, rest))"

definition runChain :: "'s middleware list \<Rightarrow> 's \<Rightarrow> ('s \<Rightarrow> rpc_result \<times> 's) \<Rightarrow> rpc_result \<times> 's" where
  "runChain mws s terminal = (case chain_next (length mws) terminal mws s of (r, s1, rest) \<Rightarrow> (r, s1))"

definition runProcedure :: "('f, 's, 'sc) procedure_def \<Rightarrow> 'f rpc_input \<Rightarrow> 's \<Rightarrow> rpc_result \<times> 's" where
  "runProcedure p input s = runChain (prMiddlewares p) s (prHandler p input)"

section \<open>Responses\<close>

definition opt_field :: "string \<Rightarrow> json option \<Rightarrow> (string \<times> json) list" where
  "opt_field k j = (case j of None \<Rightarrow> [] | Some v \<Rightarrow> [(k, v)])"

text \<open>\<open>new Response\<close> throws on a status out of range, or one that has no body.\<close>

definition rpc_json_response :: "int \<Rightarrow> json \<Rightarrow> rpc_outcome" where
  "rpc_json_response status j =
     (if status < 200 \<or> 599 < status \<or> status \<in> {204, 205, 304} then Escapes
      else Responds \<lparr>rsStatus = status, rsHeaders = new_headers [(''content-type'', ''application/json'')], rsBody = JsonBody j, rsFast = False\<rparr>)"

definition errorResponse :: "int \<Rightarrow> string \<Rightarrow> string \<Rightarrow> issue list option \<Rightarrow> rpc_outcome" where
  "errorResponse status code message issues =
     rpc_json_response status (JObj [(''error'', JObj ([(''message'', JStr message), (''code'', JStr code)]
       @ opt_field ''issues'' (map_option (\<lambda>is. JArr (map issue_json is)) issues)))])"

text \<open>\<open>error.statusCode\<close> on \<open>null\<close> throws again.\<close>

definition rpc_handleError ::
    "('f, 'sc) rpc_env \<Rightarrow> ('f, 'c, 'w, 'sc) rpc_handler \<Rightarrow> rpc_thrown \<Rightarrow> string \<Rightarrow> 'w \<Rightarrow> rpc_outcome \<times> 'w" where
  "rpc_handleError E H err rpcPath w =
     (case err of
        ThrownNullish \<Rightarrow> (Escapes, w)
      | Thrown st cd msg \<Rightarrow>
          (let status = (case st of None \<Rightarrow> 500 | Some n \<Rightarrow> n);
               w1 = (if 500 \<le> status then loggerError H (''[@celsian/rpc] procedure '' @ [CHR 0x22] @ rpcPath @ [CHR 0x22] @ '' error'') err w else w)
           in if reProduction E \<and> 500 \<le> status then (errorResponse status ''INTERNAL_ERROR'' ''Internal error'' None, w1)
              else (errorResponse status (case cd of None \<Rightarrow> ''INTERNAL_ERROR'' | Some c \<Rightarrow> c)
                      (case msg of None \<Rightarrow> ''Internal error'' | Some m \<Rightarrow> m) None, w1)))"

section \<open>Checks on the request\<close>

definition mimeEssence :: "string \<Rightarrow> string" where
  "mimeEssence contentType = to_lower (trim (takeWhile (\<lambda>c. c \<noteq> CHR '';'') contentType))"

definition isJsonEssence :: "string \<Rightarrow> bool" where
  "isJsonEssence essence = (essence = ''application/json'' \<or> ends_with essence ''+json'')"

definition FORM_CONTENT_TYPES :: "string list" where
  "FORM_CONTENT_TYPES = [''multipart/form-data'', ''application/x-www-form-urlencoded'']"

definition introspectionEnabled :: "('f, 'sc) rpc_env \<Rightarrow> ('f, 'c, 'w, 'sc) rpc_handler \<Rightarrow> bool" where
  "introspectionEnabled E H = (case introspection H of InDevelopment \<Rightarrow> \<not> reProduction E | Always \<Rightarrow> True | Never \<Rightarrow> False)"

definition checkOrigin :: "('f, 'c, 'w, 'sc) rpc_handler \<Rightarrow> 'f rpc_request \<Rightarrow> rpc_outcome option" where
  "checkOrigin H q =
     (let denied = Some (errorResponse 403 ''CROSS_ORIGIN_DENIED'' ''Cross-origin request rejected'' None) in
      if \<not> originCheck H then None
      else (case headers_get ''origin'' (rqHeaders q) of
          Some og \<Rightarrow> if og = rqOrigin q \<or> og \<in> set (allowedOrigins H) then None else denied
        | None \<Rightarrow>
            (case headers_get ''sec-fetch-site'' (rqHeaders q) of
               Some site \<Rightarrow> if site \<noteq> ''same-origin'' \<and> site \<noteq> ''none'' then denied else None
             | None \<Rightarrow> None)))"

text \<open>The decoded body: what the app parsed before, or what \<open>json()\<close> gives. A \<open>FormData\<close> has no own
  enumerable properties.\<close>

definition decode_body :: "wire_platform \<Rightarrow> 'f rpc_request \<Rightarrow> js_value option" where
  "decode_body pf q =
     (case rqParsedBody q of
        Some (ParsedForm f) \<Rightarrow> Some (VObj [])
      | Some (ParsedJson j) \<Rightarrow> (case decode pf j of Inl e \<Rightarrow> None | Inr v \<Rightarrow> Some v)
      | Some (ParsedText t) \<Rightarrow> (case decode pf (JStr t) of Inl e \<Rightarrow> None | Inr v \<Rightarrow> Some v)
      | None \<Rightarrow> (case rqJson q of None \<Rightarrow> None | Some j \<Rightarrow> (case decode pf j of Inl e \<Rightarrow> None | Inr v \<Rightarrow> Some v)))"

definition rpc_parseBody :: "wire_platform \<Rightarrow> 'f rpc_request \<Rightarrow> ('f, 's, 'sc) procedure_def \<Rightarrow> rpc_outcome + 'f rpc_input" where
  "rpc_parseBody pf q p =
     (let contentType = (case headers_get ''content-type'' (rqHeaders q) of None \<Rightarrow> [] | Some c \<Rightarrow> c);
          essence = mimeEssence contentType
      in if essence \<in> set FORM_CONTENT_TYPES then
           (if \<not> prAllowFormData p then
              Inl (errorResponse 415 ''UNSUPPORTED_MEDIA_TYPE''
                ''Form-encoded bodies are not accepted. Send application/json, or enable .allowFormData() on this procedure.'' None)
            else (case rqParsedBody q of
                Some (ParsedForm f) \<Rightarrow> Inr (FormInput f)
              | _ \<Rightarrow> (case rqFormData q of None \<Rightarrow> Inl Escapes | Some f \<Rightarrow> Inr (FormInput f))))
         else if \<not> isJsonEssence essence then
           Inl (errorResponse 415 ''UNSUPPORTED_MEDIA_TYPE''
             (''Expected content-type application/json, received '' @ [CHR 0x22] @ (if contentType = [] then ''none'' else contentType) @ [CHR 0x22] @ ''.'') None)
         else (case decode_body pf q of
             None \<Rightarrow> Inl (errorResponse 400 ''PARSE_ERROR'' ''Invalid JSON body'' None)
           | Some v \<Rightarrow> Inr (Decoded v)))"

text \<open>The input of a \<open>GET\<close>: the parameter \<open>input\<close>, unless it is absent or empty.\<close>

definition query_input :: "wire_platform \<Rightarrow> 'f rpc_request \<Rightarrow> rpc_outcome + 'f rpc_input" where
  "query_input pf q =
     (case rqInputParam q of
        None \<Rightarrow> Inr (Decoded VUndefined)
      | Some [] \<Rightarrow> Inr (Decoded VUndefined)
      | Some s \<Rightarrow>
          (case wpParse pf s of
             None \<Rightarrow> Inl (errorResponse 400 ''PARSE_ERROR'' ''Invalid input parameter'' None)
           | Some j \<Rightarrow> (case decode pf j of
                 Inl e \<Rightarrow> Inl (errorResponse 400 ''PARSE_ERROR'' ''Invalid input parameter'' None)
               | Inr v \<Rightarrow> Inr (Decoded v))))"

section \<open>Introspection\<close>

definition proc_method :: "proc_type \<Rightarrow> string" where
  "proc_method t = (case t of QueryProc \<Rightarrow> ''get'' | MutationProc \<Rightarrow> ''post'')"

definition schema_content :: "json \<Rightarrow> json" where
  "schema_content sc = JObj [(''application/json'', JObj [(''schema'', sc)])]"

text \<open>One operation of the document; an assignment to an own key of an object literal.\<close>

definition openapi_operation :: "('sc \<Rightarrow> json) \<Rightarrow> string \<Rightarrow> ('f, 's, 'sc) procedure_def \<Rightarrow> json" where
  "openapi_operation js path p =
     JObj ([(''operationId'', JStr path), (''tags'', JArr [JStr (takeWhile (\<lambda>c. c \<noteq> CHR ''.'') path)]), (''summary'', JStr path)]
       @ (case prInput p of
            None \<Rightarrow> []
          | Some sc \<Rightarrow>
              if prType p = QueryProc
              then [(''parameters'', JArr [JObj [(''name'', JStr ''input''), (''in'', JStr ''query''), (''required'', JBool True),
                      (''description'', JStr ''JSON-encoded input''), (''content'', schema_content (js sc))]])]
              else [(''requestBody'', JObj [(''required'', JBool True), (''content'', schema_content (js sc))])])
       @ [(''responses'', JObj [(''200'', JObj ((''description'', JStr ''Successful response'')
            # (case prOutput p of None \<Rightarrow> [] | Some sc \<Rightarrow> [(''content'', schema_content (js sc))])))])])"

definition rpc_generateOpenAPI ::
    "('sc \<Rightarrow> json) \<Rightarrow> (string, ('f, 's, 'sc) procedure_def) omap \<Rightarrow> string option \<Rightarrow> string option \<Rightarrow> string option \<Rightarrow> string \<Rightarrow> json" where
  "rpc_generateOpenAPI js flat title version description base =
     JObj [(''openapi'', JStr ''3.1.0''),
       (''info'', JObj ([(''title'', JStr (case title of None \<Rightarrow> ''Celsian RPC API'' | Some t \<Rightarrow> t)),
          (''version'', JStr (case version of None \<Rightarrow> ''1.0.0'' | Some v \<Rightarrow> v))] @ opt_field ''description'' (map_option JStr description))),
       (''paths'', JObj (fold (\<lambda>(path, p). AList.update (base @ ''/'' @ path) (JObj [(proc_method (prType p), openapi_operation js path p)])) flat []))]"

text \<open>The manifest is built by assignments to a plain object, where \<open>__proto__\<close> makes no own key.\<close>

definition getManifest :: "('sc \<Rightarrow> json) \<Rightarrow> (string, ('f, 's, 'sc) procedure_def) omap \<Rightarrow> json" where
  "getManifest js flat =
     JObj [(''procedures'', JObj (map (\<lambda>(path, p). (path, JObj ([(''type'', JStr (case prType p of QueryProc \<Rightarrow> ''query'' | MutationProc \<Rightarrow> ''mutation'')),
         (''path'', JStr path)] @ opt_field ''inputSchema'' (map_option js (prInput p)) @ opt_field ''outputSchema'' (map_option js (prOutput p)))))
       (filter (\<lambda>(path, p). path \<noteq> ''__proto__'') flat)))]"

definition rpc_not_found :: "string \<Rightarrow> rpc_outcome" where
  "rpc_not_found rpcPath = errorResponse 404 ''NOT_FOUND'' (''Procedure '' @ [CHR 0x22] @ rpcPath @ [CHR 0x22] @ '' not found'') None"

definition serveIntrospection ::
    "('f, 'sc) rpc_env \<Rightarrow> ('f, 'c, 'w, 'sc) rpc_handler \<Rightarrow> string \<Rightarrow> 'f rpc_request \<Rightarrow> 'w \<Rightarrow> rpc_outcome \<times> 'w" where
  "serveIntrospection E H rpcPath q w =
     (if \<not> introspectionEnabled E H then (rpc_not_found rpcPath, w)
      else
        (let payload = rpc_json_response 200 (if rpcPath = ''openapi.json'' then rpc_generateOpenAPI (reJsonSchema E) (flatRoutes H) None None None (basePath H)
                                          else getManifest (reJsonSchema E) (flatRoutes H))
         in if introspectionMiddlewares H = [] then (payload, w)
            else (case contextFactory H q w of
                (Inl err, w1) \<Rightarrow> (Escapes, w1)
              | (Inr c, w1) \<Rightarrow>
                  (case runChain (introspectionMiddlewares H) (c, w1) (\<lambda>s. (Inr VUndefined, s)) of
                     (Inl err, c1, w2) \<Rightarrow> rpc_handleError E H err rpcPath w2
                   | (Inr v, c1, w2) \<Rightarrow> (payload, w2)))))"

section \<open>handle\<close>

definition rpc_path :: "('f, 'c, 'w, 'sc) rpc_handler \<Rightarrow> 'f rpc_request \<Rightarrow> string" where
  "rpc_path H q =
     (if starts_with (rqPathname q) (basePath H @ ''/'') then drop (length (basePath H) + 1) (rqPathname q) else rqPathname q)"

text \<open>Validation of the input and the context, under one handler of errors.\<close>

definition validate_and_context ::
    "('f, 'sc) rpc_env \<Rightarrow> ('f, 'c, 'w, 'sc) rpc_handler \<Rightarrow> ('f, 'c \<times> 'w, 'sc) procedure_def \<Rightarrow> string \<Rightarrow> 'f rpc_request \<Rightarrow>
     'f rpc_input \<Rightarrow> 'w \<Rightarrow> (rpc_outcome + 'f rpc_input \<times> 'c) \<times> 'w" where
  "validate_and_context E H p rpcPath q rawInput w =
     (case (case prInput p of None \<Rightarrow> Inr (Inr rawInput) | Some sc \<Rightarrow> reValidateInput E sc rawInput) of
        Inl err \<Rightarrow> (case rpc_handleError E H err rpcPath w of (r, w1) \<Rightarrow> (Inl r, w1))
      | Inr (Inl issues) \<Rightarrow> (Inl (errorResponse 400 ''VALIDATION_ERROR'' ''Input validation failed'' (Some issues)), w)
      | Inr (Inr input) \<Rightarrow>
          (case contextFactory H q w of
             (Inl err, w1) \<Rightarrow> (case rpc_handleError E H err rpcPath w1 of (r, w2) \<Rightarrow> (Inl r, w2))
           | (Inr c, w1) \<Rightarrow> (Inr (input, c), w1)))"

text \<open>\<open>toISOString\<close> of an invalid date throws a \<open>RangeError\<close>.\<close>

definition finish_call ::
    "('f, 'sc) rpc_env \<Rightarrow> ('f, 'c, 'w, 'sc) rpc_handler \<Rightarrow> ('f, 'c \<times> 'w, 'sc) procedure_def \<Rightarrow> string \<Rightarrow> js_value \<Rightarrow> 'w \<Rightarrow> rpc_outcome \<times> 'w" where
  "finish_call E H p rpcPath out w =
     (case (case prOutput p of None \<Rightarrow> Inr True | Some sc \<Rightarrow> reValidateOutput E sc out) of
        Inl err \<Rightarrow> rpc_handleError E H err rpcPath w
      | Inr False \<Rightarrow> (errorResponse 500 ''OUTPUT_VALIDATION_ERROR'' ''Output validation failed'' None, w)
      | Inr True \<Rightarrow>
          (case encode (rePlatform E) out of
             Inl e \<Rightarrow> rpc_handleError E H (Thrown None None (Some ''Invalid time value'')) rpcPath w
           | Inr j \<Rightarrow> (rpc_json_response 200 (JObj [(''result'', j)]), w)))"

definition call_procedure ::
    "('f, 'sc) rpc_env \<Rightarrow> ('f, 'c, 'w, 'sc) rpc_handler \<Rightarrow> ('f, 'c \<times> 'w, 'sc) procedure_def \<Rightarrow> string \<Rightarrow> 'f rpc_request \<Rightarrow> 'w \<Rightarrow> rpc_outcome \<times> 'w" where
  "call_procedure E H p rpcPath q w =
     (case (if rqMethod q = ''GET'' then query_input (rePlatform E) q else rpc_parseBody (rePlatform E) q p) of
        Inl r \<Rightarrow> (r, w)
      | Inr rawInput \<Rightarrow>
          (case validate_and_context E H p rpcPath q rawInput w of
             (Inl r, w1) \<Rightarrow> (r, w1)
           | (Inr (input, c), w1) \<Rightarrow>
               (case runProcedure p input (c, w1) of
                  (Inl err, c1, w2) \<Rightarrow> rpc_handleError E H err rpcPath w2
                | (Inr out, c1, w2) \<Rightarrow> finish_call E H p rpcPath out w2)))"

definition rpc_handle :: "('f, 'sc) rpc_env \<Rightarrow> ('f, 'c, 'w, 'sc) rpc_handler \<Rightarrow> 'f rpc_request \<Rightarrow> 'w \<Rightarrow> rpc_outcome \<times> 'w" where
  "rpc_handle E H q w =
     (let rpcPath = rpc_path H q in
      if rpcPath = ''openapi.json'' \<or> rpcPath = ''manifest.json'' then serveIntrospection E H rpcPath q w
      else (case map_of (flatRoutes H) rpcPath of
          None \<Rightarrow> (rpc_not_found rpcPath, w)
        | Some p \<Rightarrow>
            if prType p = MutationProc \<and> rqMethod q \<noteq> ''POST'' then (errorResponse 405 ''METHOD_NOT_ALLOWED'' ''Mutations require POST'' None, w)
            else (case (if prType p = MutationProc \<or> rqMethod q \<noteq> ''GET'' then checkOrigin H q else None) of
                Some denied \<Rightarrow> (denied, w)
              | None \<Rightarrow> call_procedure E H p rpcPath q w)))"

section \<open>The client\<close>

record rpc_client =
  clBaseUrl :: string
  clHeaders :: "(string, string) omap"

record fetch_call =
  fcUrl :: string
  fcParam :: "string option"
  fcMethod :: string
  fcHeaders :: "(string, string) omap"
  fcBody :: "string option"

datatype call_error = BadInput | ServerError json | BadAnswer

definition client_url :: "rpc_client \<Rightarrow> string list \<Rightarrow> string" where
  "client_url C path = clBaseUrl C @ ''/'' @ join ''.'' path"

definition client_query :: "wire_platform \<Rightarrow> rpc_client \<Rightarrow> string list \<Rightarrow> js_value \<Rightarrow> wire_error + fetch_call" where
  "client_query pf C path input =
     map_sum id (\<lambda>param. \<lparr>fcUrl = client_url C path, fcParam = param, fcMethod = ''GET'', fcHeaders = clHeaders C, fcBody = None\<rparr>)
       (if input = VUndefined then Inr None else map_sum id (\<lambda>j. Some (wpStringify pf j)) (encode pf input))"

definition client_mutate :: "wire_platform \<Rightarrow> rpc_client \<Rightarrow> string list \<Rightarrow> js_value \<Rightarrow> wire_error + fetch_call" where
  "client_mutate pf C path input =
     map_sum id (\<lambda>j. \<lparr>fcUrl = client_url C path, fcParam = None, fcMethod = ''POST'',
         fcHeaders = spread [(''content-type'', ''application/json'')] (clHeaders C), fcBody = Some (wpStringify pf j)\<rparr>)
       (encode pf input)"

text \<open>What both make of the parsed answer; an \<open>error\<close> counts if it is truthy.\<close>

fun truthy :: "json \<Rightarrow> bool" where
  "truthy JNull = False"
| "truthy (JBool b) = b"
| "truthy (JNum n) = (n \<noteq> 0)"
| "truthy (JStr s) = (s \<noteq> [])"
| "truthy j = True"

definition client_answer :: "wire_platform \<Rightarrow> (string \<times> json) list \<Rightarrow> call_error + js_value" where
  "client_answer pf data =
     (case map_of data ''error'' of
        Some err \<Rightarrow> if truthy err then Inl (ServerError err)
          else (case decodeValue pf (map_of data ''result'') 0 of Inl e \<Rightarrow> Inl BadAnswer | Inr v \<Rightarrow> Inr v)
      | None \<Rightarrow> (case decodeValue pf (map_of data ''result'') 0 of Inl e \<Rightarrow> Inl BadAnswer | Inr v \<Rightarrow> Inr v))"

end
