(* ===== verification/Rpc_Wire_Props.thy ===== *)
theory Rpc_Wire_Props
  imports Rpc_Wire "HOL-Library.Countable"
begin

text \<open>
  Properties of the wire format: what \<open>encode\<close> makes of a value, \<open>decode\<close> takes back, up to the nesting
  the decoder accepts; and what \<open>decode\<close> gives for any payload has no blocked key and bounded depth,
  but for the payload of a \<open>RegExp\<close> tag, which passes as it is.
\<close>

section \<open>Nesting, and what is received for a value sent\<close>

definition maxl :: "nat list \<Rightarrow> nat" where
  "maxl ns = foldr max ns 0"

lemma maxl_le: "maxl ns \<le> n \<longleftrightarrow> (\<forall>m \<in> set ns. m \<le> n)"
  by (induction ns) (auto simp: maxl_def)

fun levels :: "js_value \<Rightarrow> nat" where
  "levels (VSet vs) = Suc (maxl (map levels vs))"
| "levels (VMap es) = Suc (maxl (map (\<lambda>(k, v). max (levels k) (levels v)) es))"
| "levels (VArr vs) = Suc (maxl (map levels vs))"
| "levels (VObj ps) = Suc (maxl (map (\<lambda>(k, v). levels v) ps))"
| "levels VNull = 0"
| "levels (VBool b) = 0"
| "levels (VNum n) = 0"
| "levels VNegZero = 0"
| "levels (VNonFinite n) = 0"
| "levels (VStr s) = 0"
| "levels VUndefined = 1"
| "levels (VDate d) = 1"
| "levels (VBigInt i) = 1"
| "levels (VRegExp s) = 1"

fun received :: "js_value \<Rightarrow> js_value" where
  "received (VRegExp s) = VStr s"
| "received VNegZero = VNum 0"
| "received (VNonFinite n) = VNull"
| "received (VSet vs) = VSet (map received vs)"
| "received (VMap es) = VMap (map (\<lambda>(k, v). (received k, received v)) es)"
| "received (VArr vs) = VArr (map received vs)"
| "received (VObj ps) = VObj (map (\<lambda>(k, v). (k, received v)) ps)"
| "received v = v"

fun distinct_values :: "js_value list \<Rightarrow> bool" where
  "distinct_values [] = True"
| "distinct_values (v # vs) = (list_all (\<lambda>w. \<not> same_value v w) vs \<and> distinct_values vs)"

definition wire_tags :: "string list" where
  "wire_tags = [''Date'', ''BigInt'', ''Undefined'', ''Set'', ''Map'', ''RegExp'']"

text \<open>An object that the decoder would take for a tagged value.\<close>

definition looks_tagged :: "(string \<times> js_value) list \<Rightarrow> bool" where
  "looks_tagged ps = (''v'' \<in> set (keys_of ps) \<and> (case map_of ps ''__t'' of Some (VStr t) \<Rightarrow> t \<in> set wire_tags | _ \<Rightarrow> False))"

definition valid_time :: "int \<Rightarrow> bool" where
  "valid_time t = (\<bar>t\<bar> \<le> 8640000000000000)"

fun sendable :: "js_value \<Rightarrow> bool" where
  "sendable (VDate d) = (case d of None \<Rightarrow> False | Some t \<Rightarrow> valid_time t)"
| "sendable (VSet vs) = (list_all sendable vs \<and> distinct_values (map received vs))"
| "sendable (VMap es) = (list_all (\<lambda>(k, v). sendable k \<and> sendable v) es \<and> distinct_values (map (\<lambda>(k, v). received k) es))"
| "sendable (VArr vs) = list_all sendable vs"
| "sendable (VObj ps) =
     (list_all (\<lambda>(k, v). k \<notin> set BLOCKED_KEYS \<and> sendable v) ps \<and> distinct (keys_of ps) \<and> \<not> looks_tagged ps)"
| "sendable v = True"

fun unique_keys :: "json \<Rightarrow> bool" where
  "unique_keys (JArr js) = list_all unique_keys js"
| "unique_keys (JObj ps) = (distinct (keys_of ps) \<and> list_all (\<lambda>(k, j). unique_keys j) ps)"
| "unique_keys j = True"

definition wire_laws :: "wire_platform \<Rightarrow> bool" where
  "wire_laws pf = ((\<forall>j. unique_keys j \<longrightarrow> wpParse pf (wpStringify pf j) = Some j)
     \<and> (\<forall>j. wpStringify pf j \<noteq> [])
     \<and> (\<forall>t. valid_time t \<longrightarrow> wpDate pf (JStr (wpIso pf t)) = Some (Some t))
     \<and> (\<forall>i. wpBigInt pf (JStr (show_int i)) = Some i))"

section \<open>Sets and maps rebuilt from their elements\<close>

lemma same_value_sym: "same_value a b = same_value b a"
  by (auto simp: same_value_def)

lemma distinct_values_append:
  "distinct_values (us @ vs) \<longleftrightarrow> distinct_values us \<and> distinct_values vs \<and> (\<forall>u \<in> set us. \<forall>v \<in> set vs. \<not> same_value u v)"
  by (induction us) (auto simp: list_all_iff)

lemma foldl_set_add: "distinct_values (us @ vs) \<Longrightarrow> foldl set_add us vs = us @ vs"
proof (induction vs arbitrary: us)
  case Nil
  then show ?case by simp
next
  case (Cons v vs)
  have "\<not> list_ex (same_value v) us"
    using Cons.prems by (auto simp: distinct_values_append list_ex_iff same_value_sym [of v])
  then show ?case using Cons.IH [of "us @ [v]"] Cons.prems by (simp add: set_add_def)
qed

lemma map_put_new: "\<forall>d \<in> set es. \<not> same_value (fst d) (fst e) \<Longrightarrow> map_put es e = es @ [e]"
  by (induction es) auto

lemma foldl_map_put: "distinct_values (map fst (us @ vs)) \<Longrightarrow> foldl map_put us vs = us @ vs"
proof (induction vs arbitrary: us)
  case Nil
  then show ?case by simp
next
  case (Cons v vs)
  have "\<forall>d \<in> set us. \<not> same_value (fst d) (fst v)"
    using Cons.prems by (auto simp: distinct_values_append)
  then show ?case using Cons.IH [of "us @ [v]"] Cons.prems by (simp add: map_put_new)
qed

lemma new_Set_distinct: "distinct_values vs \<Longrightarrow> new_Set vs = VSet vs"
  using foldl_set_add [of "[]" vs] by (simp add: new_Set_def)

lemma new_Map_distinct: "distinct_values (map fst es) \<Longrightarrow> new_Map es = VMap es"
  using foldl_map_put [of "[]" es] by (simp add: new_Map_def)

section \<open>The round trip\<close>

lemma traverse_if:
  assumes "\<And>x. x \<in> set xs \<Longrightarrow> f x = (if P x then Inr (g x) else Inl e)"
  shows "traverse f xs = (if list_all P xs then Inr (map g xs) else Inl e)"
  using assms by (induction xs) auto

definition trips :: "wire_platform \<Rightarrow> js_value \<Rightarrow> bool" where
  "trips pf v \<longleftrightarrow> (\<exists>j. encode pf v = Inr j \<and> unique_keys j \<and> (\<forall>t. j = JStr t \<longrightarrow> v = VStr t)
     \<and> (\<forall>d \<le> MAX_DECODE_DEPTH. decodeValue pf (Some j) d =
          (if levels v + d \<le> MAX_DECODE_DEPTH then Inr (received v) else Inl TooDeep)))"

abbreviation enc :: "wire_platform \<Rightarrow> js_value \<Rightarrow> json" where
  "enc pf v \<equiv> projr (encode pf v)"

lemma trips_enc:
  assumes "trips pf v"
  shows "encode pf v = Inr (enc pf v)" and "unique_keys (enc pf v)" and "enc pf v = JStr t \<Longrightarrow> v = VStr t"
    and "d \<le> MAX_DECODE_DEPTH \<Longrightarrow> decodeValue pf (Some (enc pf v)) d =
          (if levels v + d \<le> MAX_DECODE_DEPTH then Inr (received v) else Inl TooDeep)"
  using assms by (auto simp: trips_def)

lemma tripsI:
  assumes "encode pf v = Inr j" "unique_keys j" "\<And>t. j = JStr t \<Longrightarrow> v = VStr t"
    and "\<And>d. d \<le> MAX_DECODE_DEPTH \<Longrightarrow> decodeValue pf (Some j) d =
          (if levels v + d \<le> MAX_DECODE_DEPTH then Inr (received v) else Inl TooDeep)"
  shows "trips pf v"
  using assms by (auto simp: trips_def)

lemma decode_tagged:
  "decodeValue pf (Some (tagged t s)) d =
     (if MAX_DECODE_DEPTH \<le> d then Inl TooDeep
      else decode_object pf (\<lambda>j. decodeValue pf j (Suc d)) d [(''__t'', JStr t), (''v'', JStr s)])"
  by (simp add: tagged_def decodeValue.simps [of pf "Some (JObj _)"])

lemma tagged_not_text: "tagged t s \<noteq> JStr u"
  by (simp add: tagged_def)

lemma tagged_unique: "unique_keys (tagged t s)"
  by (simp add: tagged_def)

lemma trips_array:
  assumes all: "\<And>v. v \<in> set vs \<Longrightarrow> trips pf v"
  shows "traverse (encode pf) vs = Inr (map (enc pf) vs)" and "list_all unique_keys (map (enc pf) vs)"
    and "d < MAX_DECODE_DEPTH \<Longrightarrow> traverse (\<lambda>j. decodeValue pf (Some j) (Suc d)) (map (enc pf) vs) =
      (if Suc (maxl (map levels vs)) + d \<le> MAX_DECODE_DEPTH then Inr (map received vs) else Inl TooDeep)"
proof -
  show "traverse (encode pf) vs = Inr (map (enc pf) vs)" by (rule traverse_Inr) (rule trips_enc(1) [OF all])
  show "list_all unique_keys (map (enc pf) vs)" using trips_enc(2) [OF all] by (auto simp: list_all_iff)
  assume d: "d < MAX_DECODE_DEPTH"
  have "traverse (\<lambda>j. decodeValue pf (Some j) (Suc d)) (map (enc pf) vs) =
      (if list_all (\<lambda>v. levels v + Suc d \<le> MAX_DECODE_DEPTH) vs then Inr (map received vs) else Inl TooDeep)"
    unfolding traverse_map by (rule traverse_if) (use trips_enc(4) [OF all] d in simp)
  moreover have "list_all (\<lambda>v. levels v + Suc d \<le> MAX_DECODE_DEPTH) vs \<longleftrightarrow> maxl (map levels vs) \<le> MAX_DECODE_DEPTH - Suc d"
    using d by (auto simp: maxl_le list_all_iff)
  ultimately show "traverse (\<lambda>j. decodeValue pf (Some j) (Suc d)) (map (enc pf) vs) =
      (if Suc (maxl (map levels vs)) + d \<le> MAX_DECODE_DEPTH then Inr (map received vs) else Inl TooDeep)"
    using d by auto
qed

lemma trips_VArr: "(\<And>v. v \<in> set vs \<Longrightarrow> trips pf v) \<Longrightarrow> trips pf (VArr vs)"
  by (rule tripsI [where j = "JArr (map (enc pf) vs)"])
     (auto simp: trips_array decodeValue.simps [of pf "Some (JArr _)"])

lemma trips_VSet:
  assumes all: "\<And>v. v \<in> set vs \<Longrightarrow> trips pf v" and law: "wire_laws pf" and dv: "distinct_values (map received vs)"
  shows "trips pf (VSet vs)"
proof (rule tripsI [where j = "tagged ''Set'' (wpStringify pf (JArr (map (enc pf) vs)))"])
  have p: "wpParse pf (wpStringify pf (JArr (map (enc pf) vs))) = Some (JArr (map (enc pf) vs))"
    using law trips_array(2) [of vs pf] all by (auto simp: wire_laws_def)
  fix d :: nat
  show "decodeValue pf (Some (tagged ''Set'' (wpStringify pf (JArr (map (enc pf) vs))))) d =
      (if levels (VSet vs) + d \<le> MAX_DECODE_DEPTH then Inr (received (VSet vs)) else Inl TooDeep)"
    using trips_array(3) [of vs pf d] all
    by (auto simp: decode_tagged decode_object_def parseNested_def p new_Set_distinct [OF dv])
qed (auto simp: trips_array(1) all tagged_not_text tagged_unique)

lemma trips_VMap:
  assumes all: "\<And>k v. (k, v) \<in> set es \<Longrightarrow> trips pf k \<and> trips pf v" and law: "wire_laws pf"
    and dv: "distinct_values (map (\<lambda>(k, v). received k) es)"
  shows "trips pf (VMap es)"
proof -
  define js where "js = map (\<lambda>(k, v). JArr [enc pf k, enc pf v]) es"
  have e: "encode pf (VMap es) = Inr (tagged ''Map'' (wpStringify pf (JArr js)))"
  proof -
    have "traverse (\<lambda>(k, v). (case encode pf k of Inl e \<Rightarrow> Inl e | Inr a \<Rightarrow> map_sum id (\<lambda>b. JArr [a, b]) (encode pf v))) es = Inr js"
      unfolding js_def
    proof (rule traverse_Inr)
      fix e assume e: "e \<in> set es"
      obtain k v where kv: "e = (k, v)" by (cases e)
      have "encode pf k = Inr (enc pf k)" "encode pf v = Inr (enc pf v)" using all [of k v] e kv trips_enc(1) by auto
      then obtain a b where "encode pf k = Inr a" "encode pf v = Inr b" by blast
      then show "(case e of (k, v) \<Rightarrow> case encode pf k of Inl e \<Rightarrow> Inl e | Inr a \<Rightarrow> map_sum id (\<lambda>b. JArr [a, b]) (encode pf v))
          = Inr (case e of (k, v) \<Rightarrow> JArr [enc pf k, enc pf v])" by (simp add: kv)
    qed
    then show ?thesis by simp
  qed
  have "unique_keys (JArr js)" using all trips_enc(2) by (auto simp: js_def list_all_iff)
  then have p: "wpParse pf (wpStringify pf (JArr js)) = Some (JArr js)" using law by (simp add: wire_laws_def)
  have t: "traverse (decode_entry (\<lambda>j. decodeValue pf j (Suc d))) js =
      (if levels (VMap es) + d \<le> MAX_DECODE_DEPTH then Inr (map (\<lambda>(k, v). (received k, received v)) es) else Inl TooDeep)"
    if d: "d < MAX_DECODE_DEPTH" for d
  proof -
    have "traverse (decode_entry (\<lambda>j. decodeValue pf j (Suc d))) js =
       (if list_all (\<lambda>(k, v). levels k + Suc d \<le> MAX_DECODE_DEPTH \<and> levels v + Suc d \<le> MAX_DECODE_DEPTH) es
        then Inr (map (\<lambda>(k, v). (received k, received v)) es) else Inl TooDeep)"
      unfolding js_def traverse_map
    proof (rule traverse_if)
      fix e assume e: "e \<in> set es"
      obtain k v where kv: "e = (k, v)" by (cases e)
      have "decodeValue pf (Some (enc pf w)) (Suc d) = (if levels w + Suc d \<le> MAX_DECODE_DEPTH then Inr (received w) else Inl TooDeep)"
        if "w = k \<or> w = v" for w
        using trips_enc(4) [of pf w "Suc d"] all [of k v] e kv that d by auto
      then show "(decode_entry (\<lambda>j. decodeValue pf j (Suc d)) \<circ> (\<lambda>(k, v). JArr [enc pf k, enc pf v])) e =
          (if case e of (k, v) \<Rightarrow> levels k + Suc d \<le> MAX_DECODE_DEPTH \<and> levels v + Suc d \<le> MAX_DECODE_DEPTH
           then Inr (case e of (k, v) \<Rightarrow> (received k, received v)) else Inl TooDeep)"
        by (simp add: kv decode_entry_def)
    qed
    moreover have "list_all (\<lambda>(k, v). levels k + Suc d \<le> MAX_DECODE_DEPTH \<and> levels v + Suc d \<le> MAX_DECODE_DEPTH) es
        \<longleftrightarrow> maxl (map (\<lambda>(k, v). max (levels k) (levels v)) es) \<le> MAX_DECODE_DEPTH - Suc d"
      using d by (fastforce simp: maxl_le list_all_iff)
    ultimately show ?thesis using d by auto
  qed
  have n: "new_Map (map (\<lambda>(k, v). (received k, received v)) es) = received (VMap es)"
    using new_Map_distinct [of "map (\<lambda>(k, v). (received k, received v)) es"] dv by (simp add: comp_def case_prod_unfold)
  show ?thesis
    by (rule tripsI [OF e])
       (auto simp: decode_tagged decode_object_def parseNested_def p t n tagged_not_text tagged_unique)
qed

lemma map_of_map_val: "map_of (map (\<lambda>(k, v). (k, f v)) ps) k = map_option f (map_of ps k)"
  by (induction ps) auto

lemma trips_VObj:
  assumes all: "\<And>k v. (k, v) \<in> set ps \<Longrightarrow> trips pf v" and nb: "\<And>k v. (k, v) \<in> set ps \<Longrightarrow> k \<notin> set BLOCKED_KEYS"
    and dk: "distinct (keys_of ps)" and nt: "\<not> looks_tagged ps"
  shows "trips pf (VObj ps)"
proof -
  define qs where "qs = map (\<lambda>(k, v). (k, enc pf v)) ps"
  have t: "traverse (\<lambda>(k, v). map_sum id (Pair k) (encode pf v)) ps = Inr qs"
    unfolding qs_def
  proof (rule traverse_Inr)
    fix p assume p: "p \<in> set ps"
    obtain k v where kv: "p = (k, v)" by (cases p)
    have "encode pf v = Inr (enc pf v)" using all [of k v] p kv trips_enc(1) by auto
    then obtain b where "encode pf v = Inr b" by blast
    then show "(case p of (k, v) \<Rightarrow> map_sum id (Pair k) (encode pf v)) = Inr (case p of (k, v) \<Rightarrow> (k, enc pf v))" by (simp add: kv)
  qed
  have np: "filter (\<lambda>q. fst q \<noteq> ''__proto__'') qs = qs" "filter (\<lambda>(k, j). k \<notin> set BLOCKED_KEYS) qs = qs"
    using nb by (auto simp: qs_def filter_id_conv BLOCKED_KEYS_def)
  have e: "encode pf (VObj ps) = Inr (JObj qs)" by (simp add: t np(1))
  have kq: "keys_of qs = keys_of ps" by (simp add: qs_def case_prod_unfold)
  have u: "unique_keys (JObj qs)" using all trips_enc(2) dk by (auto simp: kq list_all_iff) (auto simp: qs_def)
  have obj: "decode_object pf dec d qs = rebuildPlainObject dec qs" for dec d
  proof (cases "''v'' \<in> set (keys_of ps)")
    case False
    then have "map_of qs ''v'' = None" by (simp add: map_of_None_keys kq)
    then show ?thesis by (simp add: decode_object_def split: option.splits json.splits)
  next
    case True
    have "t \<notin> set wire_tags" if m: "map_of qs ''__t'' = Some (JStr t)" for t
    proof -
      obtain v where v: "map_of ps ''__t'' = Some v" "enc pf v = JStr t"
        using m by (auto simp: qs_def map_of_map_val)
      then have "v = VStr t" using all trips_enc(3) by (metis map_of_SomeD)
      with nt True v(1) show ?thesis by (simp add: looks_tagged_def)
    qed
    then show ?thesis
      by (auto simp: decode_object_def wire_tags_def split: option.splits json.splits)
  qed
  have r: "rebuildPlainObject (\<lambda>j. decodeValue pf j (Suc d)) qs =
      (if levels (VObj ps) + d \<le> MAX_DECODE_DEPTH then Inr (received (VObj ps)) else Inl TooDeep)"
    if d: "d < MAX_DECODE_DEPTH" for d
  proof -
    have "traverse (\<lambda>(k, j). map_sum id (Pair k) (decodeValue pf (Some j) (Suc d))) qs =
       (if list_all (\<lambda>(k, v). levels v + Suc d \<le> MAX_DECODE_DEPTH) ps then Inr (map (\<lambda>(k, v). (k, received v)) ps) else Inl TooDeep)"
      unfolding qs_def traverse_map by (rule traverse_if) (use all trips_enc(4) d in auto)
    moreover have "list_all (\<lambda>(k, v). levels v + Suc d \<le> MAX_DECODE_DEPTH) ps
        \<longleftrightarrow> maxl (map (\<lambda>(k, v). levels v) ps) \<le> MAX_DECODE_DEPTH - Suc d"
      using d by (auto simp: maxl_le list_all_iff)
    ultimately show ?thesis using d by (auto simp: rebuildPlainObject_def np(2))
  qed
  show ?thesis
    by (rule tripsI [OF e u]) (auto simp: decodeValue.simps [of pf "Some (JObj _)"] obj r)
qed

lemma decode_atoms:
  "decodeValue pf (Some JNull) d = Inr VNull" "decodeValue pf (Some (JBool b)) d = Inr (VBool b)"
  "decodeValue pf (Some (JNum n)) d = Inr (VNum n)" "decodeValue pf (Some (JStr s)) d = Inr (VStr s)"
  by (simp_all add: decodeValue.simps [of pf "Some JNull"] decodeValue.simps [of pf "Some (JBool b)"]
      decodeValue.simps [of pf "Some (JNum n)"] decodeValue.simps [of pf "Some (JStr s)"])

lemma trips_tagged:
  assumes "encode pf v = Inr (tagged t s)" "levels v = 1"
    and "\<And>dec d. decode_object pf dec d [(''__t'', JStr t), (''v'', JStr s)] = Inr (received v)"
  shows "trips pf v"
  by (rule tripsI [OF assms(1)]) (auto simp: assms(2,3) decode_tagged tagged_not_text tagged_unique)

lemma trips_atom:
  assumes "encode pf v = Inr j" "levels v = 0" "unique_keys j" "\<And>t. j = JStr t \<Longrightarrow> v = VStr t"
    and "\<And>d. decodeValue pf (Some j) d = Inr (received v)"
  shows "trips pf v"
  using assms by (auto intro!: tripsI)

lemma sendable_trips:
  assumes "wire_laws pf" and "sendable v"
  shows "trips pf v"
  using assms(2)
proof (induction v rule: levels.induct)
  case (1 vs)
  then show ?case using assms(1) by (intro trips_VSet) (auto simp: list_all_iff)
next
  case (2 es)
  then show ?case using assms(1) by (intro trips_VMap) (auto simp: list_all_iff)
next
  case (3 vs)
  then show ?case by (intro trips_VArr) (auto simp: list_all_iff)
next
  case (4 ps)
  then show ?case by (intro trips_VObj) (auto simp: list_all_iff)
next
  case (12 d)
  then obtain t where t: "d = Some t" "valid_time t" by (cases d) auto
  then have "wpDate pf (JStr (wpIso pf t)) = Some (Some t)" using assms(1) by (simp add: wire_laws_def)
  then show ?case unfolding t(1) by (intro trips_tagged [OF encode.simps(9)]) (simp_all add: decode_object_def)
next
  case (13 i)
  have "wpBigInt pf (JStr (show_int i)) = Some i" using assms(1) by (simp add: wire_laws_def)
  then show ?case by (intro trips_tagged [OF encode.simps(10)]) (simp_all add: decode_object_def)
next
  case 5
  show ?case by (rule trips_atom [OF encode.simps(2)]) (simp_all add: decode_atoms)
next
  case (6 b)
  show ?case by (rule trips_atom [OF encode.simps(3)]) (simp_all add: decode_atoms)
next
  case (7 n)
  show ?case by (rule trips_atom [OF encode.simps(4)]) (simp_all add: decode_atoms)
next
  case 8
  show ?case by (rule trips_atom [OF encode.simps(5)]) (simp_all add: decode_atoms)
next
  case (9 n)
  show ?case by (rule trips_atom [OF encode.simps(6)]) (simp_all add: decode_atoms)
next
  case (10 s)
  show ?case by (rule trips_atom [OF encode.simps(7)]) (simp_all add: decode_atoms)
next
  case 11
  show ?case by (rule trips_tagged [OF encode.simps(1)]) (simp_all add: decode_object_def)
next
  case (14 s)
  show ?case by (rule trips_tagged [OF encode.simps(13)]) (simp_all add: decode_object_def)
qed

section \<open>Any payload\<close>

fun plain_keys :: "js_value \<Rightarrow> bool" where
  "plain_keys (VSet vs) = list_all plain_keys vs"
| "plain_keys (VMap es) = list_all (\<lambda>(k, v). plain_keys k \<and> plain_keys v) es"
| "plain_keys (VArr vs) = list_all plain_keys vs"
| "plain_keys (VObj ps) = list_all (\<lambda>(k, v). k \<notin> set BLOCKED_KEYS \<and> plain_keys v) ps"
| "plain_keys v = True"

text \<open>The payload of every \<open>RegExp\<close> tag within \<open>n\<close> levels is a text, as \<open>encode\<close> writes it.\<close>

fun regexp_texts :: "wire_platform \<Rightarrow> nat \<Rightarrow> json \<Rightarrow> bool" where
  "regexp_texts pf 0 j = True"
| "regexp_texts pf (Suc n) (JArr js) = list_all (regexp_texts pf n) js"
| "regexp_texts pf (Suc n) (JObj obj) =
     (case (map_of obj ''__t'', map_of obj ''v'') of
        (Some (JStr tag), Some v) \<Rightarrow>
          if tag = ''RegExp'' then (\<exists>s. v = JStr s)
          else if tag = ''Set'' then (case parseNested pf v 0 of Inl e \<Rightarrow> True | Inr js \<Rightarrow> list_all (regexp_texts pf n) js)
          else if tag = ''Map'' then
            (case parseNested pf v 0 of Inl e \<Rightarrow> True
             | Inr js \<Rightarrow> list_all (\<lambda>e. case destructure e of None \<Rightarrow> True
                 | Some (a, b) \<Rightarrow> pred_option (regexp_texts pf n) a \<and> pred_option (regexp_texts pf n) b) js)
          else list_all (\<lambda>(k, j). regexp_texts pf n j) obj
      | _ \<Rightarrow> list_all (\<lambda>(k, j). regexp_texts pf n j) obj)"
| "regexp_texts pf (Suc n) j = True"

definition scrubbed :: "nat \<Rightarrow> js_value \<Rightarrow> bool" where
  "scrubbed n v = (plain_keys v \<and> levels v \<le> n)"

lemma set_foldl_add: "set (foldl set_add us vs) \<subseteq> set us \<union> set vs"
  by (induction vs arbitrary: us) (force simp: set_add_def split: if_splits)+

lemma map_put_parts: "(a, b) \<in> set (map_put es e) \<Longrightarrow> a \<in> fst ` set (es @ [e]) \<and> b \<in> snd ` set (es @ [e])"
  by (induction es) (auto split: if_splits, (force)+)

lemma map_foldl_parts:
  "(a, b) \<in> set (foldl map_put us vs) \<Longrightarrow> a \<in> fst ` set (us @ vs) \<and> b \<in> snd ` set (us @ vs)"
proof (induction vs arbitrary: us)
  case Nil
  then show ?case by force
next
  case (Cons v vs)
  have "a \<in> fst ` set (map_put us v @ vs)" "b \<in> snd ` set (map_put us v @ vs)"
    using Cons.IH [of "map_put us v"] Cons.prems by auto
  moreover have "fst e \<in> fst ` set (us @ [v]) \<and> snd e \<in> snd ` set (us @ [v])" if "e \<in> set (map_put us v)" for e
    using map_put_parts [of "fst e" "snd e" us v] that by simp
  then have "fst ` set (map_put us v) \<subseteq> fst ` set (us @ [v])" "snd ` set (map_put us v) \<subseteq> snd ` set (us @ [v])"
    by blast+
  ultimately show ?case by (auto simp: image_Un)
qed

lemma scrubbed_list:
  assumes "\<And>v. v \<in> set vs \<Longrightarrow> scrubbed n v"
  shows "scrubbed (Suc n) (VArr vs)" and "scrubbed (Suc n) (new_Set vs)"
  using assms set_foldl_add [of "[]" vs] by (auto simp: scrubbed_def new_Set_def maxl_le list_all_iff)

lemma scrubbed_map:
  assumes "\<And>a b. (a, b) \<in> set es \<Longrightarrow> scrubbed n a \<and> scrubbed n b"
  shows "scrubbed (Suc n) (new_Map es)"
proof -
  have "scrubbed n a \<and> scrubbed n b" if "(a, b) \<in> set (foldl map_put [] es)" for a b
    using map_foldl_parts [OF that] assms by auto
  then show ?thesis by (auto simp: scrubbed_def new_Map_def maxl_le list_all_iff)
qed

lemma traverse_all:
  assumes "traverse f xs = Inr ys" and "\<And>x y. x \<in> set xs \<Longrightarrow> f x = Inr y \<Longrightarrow> P y"
  shows "\<forall>y \<in> set ys. P y"
proof
  fix y assume "y \<in> set ys"
  then obtain i where "i < length ys" "ys ! i = y" by (auto simp: in_set_conv_nth)
  with traverse_InrE [OF assms(1)] have "xs ! i \<in> set xs" "f (xs ! i) = Inr y" by (auto simp: list_all2_conv_all_nth)
  then show "P y" by (rule assms(2))
qed

lemma map_sum_InrE: "map_sum id f r = Inr y \<Longrightarrow> (\<And>x. r = Inr x \<Longrightarrow> y = f x \<Longrightarrow> P) \<Longrightarrow> P"
  by (cases r) auto

lemma rebuild_scrubbed:
  assumes r: "rebuildPlainObject dec obj = Inr v"
    and dec: "\<And>k j w. (k, j) \<in> set obj \<Longrightarrow> dec (Some j) = Inr w \<Longrightarrow> scrubbed n w"
  shows "scrubbed (Suc n) v"
proof -
  let ?f = "\<lambda>(k, j). map_sum id (Pair k) (dec (Some j))"
  obtain ps where t: "traverse ?f (filter (\<lambda>(k, j). k \<notin> set BLOCKED_KEYS) obj) = Inr ps" and v: "v = VObj ps"
    using r unfolding rebuildPlainObject_def by (rule map_sum_InrE)
  have "\<forall>p \<in> set ps. fst p \<notin> set BLOCKED_KEYS \<and> scrubbed n (snd p)"
    by (rule traverse_all [OF t]) (auto elim!: map_sum_InrE dest: dec)
  then show ?thesis by (auto simp: v scrubbed_def maxl_le list_all_iff)
qed

lemma parseNested_depth: "d < MAX_DECODE_DEPTH \<Longrightarrow> parseNested pf raw d = parseNested pf raw 0"
  by (simp add: parseNested_def)

lemma object_scrubbed:
  assumes r: "decode_object pf dec d obj = Inr v" and d: "d < MAX_DECODE_DEPTH"
    and dec: "\<And>j w. dec (Some j) = Inr w \<Longrightarrow> regexp_texts pf n j \<Longrightarrow> scrubbed n w" and none: "\<And>w. dec None = Inr w \<Longrightarrow> scrubbed n w"
    and texts: "regexp_texts pf (Suc n) (JObj obj)"
  shows "scrubbed (Suc n) v"
proof (cases "\<exists>tag raw. map_of obj ''__t'' = Some (JStr tag) \<and> map_of obj ''v'' = Some raw \<and> tag \<in> set wire_tags")
  case False
  then have "rebuildPlainObject dec obj = Inr v" and "list_all (\<lambda>(k, j). regexp_texts pf n j) obj"
    using r texts by (auto simp: decode_object_def wire_tags_def split: option.splits json.splits if_splits)
  then show ?thesis using dec by (intro rebuild_scrubbed [of dec obj]) (auto simp: list_all_iff)
next
  case True
  then obtain tag raw where t: "map_of obj ''__t'' = Some (JStr tag)" "map_of obj ''v'' = Some raw" and tag: "tag \<in> set wire_tags"
    by blast
  have leaf: "scrubbed (Suc n) w" if "plain_keys w" "levels w \<le> 1" for w using that by (simp add: scrubbed_def)
  consider "tag \<in> {''Date'', ''BigInt'', ''Undefined'', ''RegExp''}" | "tag = ''Set''" | "tag = ''Map''"
    using tag by (auto simp: wire_tags_def)
  then show ?thesis
  proof cases
    case 1
    then have "plain_keys v \<and> levels v \<le> 1" using r texts t by (auto simp: decode_object_def split: option.splits if_splits)
    then show ?thesis using leaf by simp
  next
    case 2
    then obtain js vs where js: "parseNested pf raw 0 = Inr js" "traverse (\<lambda>j. dec (Some j)) js = Inr vs" "v = new_Set vs"
      using r t by (auto simp: decode_object_def parseNested_depth [OF d] split: sum.splits elim!: map_sum_InrE)
    have "list_all (regexp_texts pf n) js" using texts t js(1) 2 by simp
    then have "\<forall>w \<in> set vs. scrubbed n w" using dec by (intro traverse_all [OF js(2)]) (auto simp: list_all_iff)
    then show ?thesis using scrubbed_list(2) by (simp add: js(3))
  next
    case 3
    then obtain js es where js: "parseNested pf raw 0 = Inr js" "traverse (decode_entry dec) js = Inr es" "v = new_Map es"
      using r t by (auto simp: decode_object_def parseNested_depth [OF d] split: sum.splits elim!: map_sum_InrE)
    have texts': "list_all (\<lambda>e. case destructure e of None \<Rightarrow> True
        | Some (a, b) \<Rightarrow> pred_option (regexp_texts pf n) a \<and> pred_option (regexp_texts pf n) b) js"
      using texts t js(1) 3 by simp
    have one: "scrubbed n w" if "dec x = Inr w" "pred_option (regexp_texts pf n) x" for x w
      using that dec none by (cases x) auto
    have "\<forall>e \<in> set es. scrubbed n (fst e) \<and> scrubbed n (snd e)"
    proof (rule traverse_all [OF js(2)])
      fix e p assume e: "e \<in> set js" and p: "decode_entry dec e = Inr p"
      then obtain a b where ab: "destructure e = Some (a, b)" by (auto simp: decode_entry_def split: option.splits)
      with p obtain x y where "dec a = Inr x" "dec b = Inr y" "p = (x, y)"
        by (auto simp: decode_entry_def split: sum.splits elim!: map_sum_InrE)
      moreover have "pred_option (regexp_texts pf n) a" "pred_option (regexp_texts pf n) b"
        using texts' e ab by (auto simp: list_all_iff)
      ultimately show "scrubbed n (fst p) \<and> scrubbed n (snd p)" using one by simp
    qed
    then show ?thesis unfolding js(3) by (intro scrubbed_map) force
  qed
qed

lemma value_scrubbed:
  "decodeValue pf wire d = Inr v \<Longrightarrow> d \<le> MAX_DECODE_DEPTH \<Longrightarrow>
   pred_option (regexp_texts pf (MAX_DECODE_DEPTH - d)) wire \<Longrightarrow> scrubbed (MAX_DECODE_DEPTH - d) v"
proof (induction "MAX_DECODE_DEPTH - d" arbitrary: wire d v rule: less_induct)
  case less
  note eq = decodeValue.simps [of pf wire d]
  show ?case
  proof (cases "d < MAX_DECODE_DEPTH")
    case False
    then have "plain_keys v \<and> levels v = 0"
      using less.prems(1,2) unfolding eq by (auto split: option.splits json.splits)
    then show ?thesis by (simp add: scrubbed_def)
  next
    case True
    define n where "n = MAX_DECODE_DEPTH - Suc d"
    have n: "MAX_DECODE_DEPTH - d = Suc n" using True by (simp add: n_def)
    have IH: "decodeValue pf x (Suc d) = Inr w \<Longrightarrow> pred_option (regexp_texts pf n) x \<Longrightarrow> scrubbed n w" for x w
      using less.hyps [of "Suc d" x w] True by (simp add: n_def)
    have leaf: "scrubbed (Suc n) w" if "plain_keys w" "levels w \<le> 1" for w using that by (simp add: scrubbed_def)
    show ?thesis
    proof (cases wire)
      case None
      then show ?thesis using less.prems(1) True leaf unfolding eq n by auto
    next
      case (Some j)
      show ?thesis
      proof (cases j)
        case (JArr js)
        then obtain vs where vs: "traverse (\<lambda>j. decodeValue pf (Some j) (Suc d)) js = Inr vs" "v = VArr vs"
          using less.prems(1) True Some unfolding eq by (auto elim!: map_sum_InrE)
        have "\<forall>w \<in> set vs. scrubbed n w"
          using less.prems(3) by (intro traverse_all [OF vs(1)] IH) (auto simp: Some JArr n list_all_iff)
        then show ?thesis unfolding n vs(2) by (intro scrubbed_list) auto
      next
        case (JObj obj)
        then have "decode_object pf (\<lambda>j. decodeValue pf j (Suc d)) d obj = Inr v" using less.prems(1) True Some unfolding eq by simp
        then show ?thesis unfolding n
          by (rule object_scrubbed [OF _ True]) (use IH less.prems(3) in \<open>auto simp: Some JObj n\<close>)
      qed (use less.prems(1) Some in \<open>auto simp: decode_atoms n scrubbed_def\<close>)
    qed
  qed
qed

section \<open>The properties\<close>

text \<open>
  C5.
  The wire format round trip: every value procedures exchange encodes, its JSON text parses back, and what
  was parsed decodes exactly if it nests at most 32 levels; one that nests deeper is refused. Decoded is
  what is received for the value: itself, but a \<open>RegExp\<close> comes as its text, a number that is not finite as
  \<open>null\<close>, and -0 as 0. The values are those with valid dates, objects without blocked keys that do not pose
  as tagged values, and sets and maps whose elements and keys are still different when received.
\<close>

theorem wire_roundtrip:
  assumes "wire_laws pf" and "sendable v"
  shows "\<exists>j. encode pf v = Inr j \<and> unique_keys j \<and> wpParse pf (wpStringify pf j) = Some j
    \<and> decode pf j = (if levels v \<le> MAX_DECODE_DEPTH then Inr (received v) else Inl TooDeep)"
  using sendable_trips [OF assms] assms(1) by (auto simp: trips_def decode_def wire_laws_def)

text \<open>
  C6.
  What \<open>decode\<close> returns for any payload, well formed or not, nests at most 32 levels and has no object with a
  blocked key, nested payloads of sets and maps included, as long as each \<open>RegExp\<close> tag it meets carries a text.
\<close>

theorem decode_scrubs:
  assumes "decode pf j = Inr v" and "regexp_texts pf MAX_DECODE_DEPTH j"
  shows "plain_keys v \<and> levels v \<le> MAX_DECODE_DEPTH"
  using value_scrubbed [of pf "Some j" 0 v] assms by (simp add: decode_def scrubbed_def)

text \<open>
  A \<open>RegExp\<close> tag takes a payload around the scrub: whatever JSON value it carries is returned as it is, so
  with an own \<open>__proto__\<close> property if it has one.
\<close>

lemma regexp_payload_untouched:
  "decode pf (JObj [(''__t'', JStr ''RegExp''), (''v'', j)]) = Inr (of_json j)
   \<and> \<not> plain_keys (of_json (JObj [(''__proto__'', j)]))"
  by (simp add: decode_def decodeValue.simps [of pf "Some (JObj _)"] decode_object_def MAX_DECODE_DEPTH_def BLOCKED_KEYS_def)

section \<open>Witnesses\<close>

instance json :: countable by countable_datatype

text \<open>A platform that writes the number of a JSON value, and of a time, in unary.\<close>

definition demo_platform :: wire_platform where
  "demo_platform =
     \<lparr>wpParse = (\<lambda>s. Some (from_nat (length s - 1))), wpStringify = (\<lambda>j. replicate (Suc (to_nat j)) CHR ''x''),
      wpToString = (\<lambda>j. None), wpDate = (\<lambda>j. case j of JStr s \<Rightarrow> Some (Some (from_nat (length s))) | _ \<Rightarrow> None),
      wpIso = (\<lambda>t. replicate (to_nat t) CHR ''x''),
      wpBigInt = (\<lambda>j. case j of JStr s \<Rightarrow> parse_int s | _ \<Rightarrow> None)\<rparr>"

lemma parse_int_show_int: "parse_int (show_int i) = Some i"
proof -
  define n where "n = nat \<bar>i\<bar>"
  have dig: "\<forall>c \<in> set (show_nat n). is_digit c" using show_nat_digits by blast
  then have tw: "takeWhile is_digit (show_nat n) = show_nat n" by (simp add: takeWhile_eq_all_conv)
  obtain c s where cs: "show_nat n = c # s" by (cases "show_nat n") auto
  with dig have c: "is_digit c" by simp
  then have "\<not> is_ws c" "c \<noteq> CHR ''-''" "c \<noteq> CHR ''+''" by (auto simp: is_digit_def is_ws_def Let_def)
  moreover have "\<not> is_ws CHR ''-''" by (simp add: is_ws_def Let_def)
  moreover have "takeWhile is_digit s = s" "dec_val (c # s) = n" using tw cs c dec_val_show [of n] by simp_all
  moreover have "show_int i = (if i < 0 then CHR ''-'' # c # s else c # s)" using cs by (auto simp: show_int_def n_def)
  ultimately show ?thesis using c by (auto simp: parse_int_def n_def Let_def simp del: takeWhile_eq_all_conv)
qed

lemma demo_platform_laws: "wire_laws demo_platform"
  by (simp add: wire_laws_def demo_platform_def parse_int_show_int)

definition demo_value :: js_value where
  "demo_value = VObj [(''tags'', VSet [VStr ''a'', VBigInt 3]), (''at'', VDate (Some 5)), (''by'', VUndefined)]"

theorem wire_roundtrip_witness:
  "\<exists>j. encode demo_platform demo_value = Inr j \<and> decode demo_platform j = Inr demo_value"
proof -
  have "sendable demo_value" "levels demo_value \<le> MAX_DECODE_DEPTH" "received demo_value = demo_value"
    by (simp_all add: demo_value_def BLOCKED_KEYS_def same_value_def valid_time_def looks_tagged_def maxl_def MAX_DECODE_DEPTH_def)
  then show ?thesis using wire_roundtrip [OF demo_platform_laws, of demo_value] by auto
qed

definition demo_payload :: json where
  "demo_payload = JObj [(''__proto__'', JObj [(''isAdmin'', JBool True)]), (''n'', JArr [JNum 1])]"

theorem decode_scrubs_witness:
  "decode demo_platform demo_payload = Inr (VObj [(''n'', VArr [VNum 1])]) \<and> plain_keys (VObj [(''n'', VArr [VNum 1])])"
proof -
  have d: "decode demo_platform demo_payload = Inr (VObj [(''n'', VArr [VNum 1])])"
    by (simp add: decode_def demo_payload_def decodeValue.simps [of demo_platform "Some (JObj _)"]
        decodeValue.simps [of demo_platform "Some (JArr _)"] decode_atoms decode_object_def rebuildPlainObject_def
        MAX_DECODE_DEPTH_def BLOCKED_KEYS_def)
  have "regexp_texts demo_platform MAX_DECODE_DEPTH demo_payload"
    by (simp add: demo_payload_def MAX_DECODE_DEPTH_def eval_nat_numeral)
  then show ?thesis using decode_scrubs [OF d] d by simp
qed

end
