(* ===== verification/Rpc_Props.thy ===== *)
theory Rpc_Props
  imports Rpc Rpc_Wire_Props
begin

text \<open>
  Properties of remote procedure calls: names of procedures, the builder, the chain of middlewares, which
  requests reach a procedure, what escapes, and a call from the client through the server and back.
\<close>

section \<open>The builder\<close>

datatype ('s, 'sc) builder_step = StepInput 'sc | StepOutput 'sc | StepUse "'s middleware" | StepForm

fun apply_step :: "('s, 'sc) builder_step \<Rightarrow> ('s, 'sc) proc_builder \<Rightarrow> ('s, 'sc) proc_builder" where
  "apply_step (StepInput sc) b = projr (builder_input (Inr :: 'sc \<Rightarrow> unit + 'sc) sc b)"
| "apply_step (StepOutput sc) b = projr (builder_output (Inr :: 'sc \<Rightarrow> unit + 'sc) sc b)"
| "apply_step (StepUse mw) b = builder_use mw b"
| "apply_step StepForm b = builder_allowFormData b"

fun last_of :: "('a \<Rightarrow> 'b option) \<Rightarrow> 'a list \<Rightarrow> 'b option \<Rightarrow> 'b option" where
  "last_of f [] z = z"
| "last_of f (x # xs) z = last_of f xs (case f x of None \<Rightarrow> z | Some y \<Rightarrow> Some y)"

definition step_input :: "('s, 'sc) builder_step \<Rightarrow> 'sc option" where
  "step_input st = (case st of StepInput sc \<Rightarrow> Some sc | _ \<Rightarrow> None)"

definition step_output :: "('s, 'sc) builder_step \<Rightarrow> 'sc option" where
  "step_output st = (case st of StepOutput sc \<Rightarrow> Some sc | _ \<Rightarrow> None)"

definition step_uses :: "('s, 'sc) builder_step \<Rightarrow> 's middleware list" where
  "step_uses st = (case st of StepUse mw \<Rightarrow> [mw] | _ \<Rightarrow> [])"

lemmas builder_ops = builder_input_def builder_output_def builder_use_def builder_allowFormData_def builder_carry_def new_builder_def

lemma steps_fold:
  "fold apply_step steps b =
     \<lparr>pbInput = last_of step_input steps (pbInput b), pbOutput = last_of step_output steps (pbOutput b),
      pbMiddlewares = pbMiddlewares b @ concat (map step_uses steps), pbAllowFormData = (pbAllowFormData b \<or> StepForm \<in> set steps)\<rparr>"
proof (induction steps arbitrary: b)
  case Nil
  then show ?case by simp
next
  case (Cons st steps)
  then show ?case
    by (cases st) (simp_all add: builder_ops step_input_def step_output_def step_uses_def)
qed

section \<open>Names of procedures\<close>

fun leaves :: "(string \<times> 'p rpc_tree) list \<Rightarrow> string \<Rightarrow> (string \<times> 'p) list" where
  "leaves [] pref = []"
| "leaves ((key, Procedure p) # rs) pref = (dotted_path pref key, p) # leaves rs pref"
| "leaves ((key, SubRouter sub) # rs) pref = leaves sub (dotted_path pref key) @ leaves rs pref"

lemma flatten_leaves: "flattenRoutes rs pref flat = fold (\<lambda>(k, p). AList.update k p) (leaves rs pref) flat"
  by (induction rs pref flat rule: flattenRoutes.induct) simp_all

text \<open>The walk from router to router that a client's path stands for.\<close>

fun walk :: "(string \<times> 'p rpc_tree) list \<Rightarrow> string list \<Rightarrow> 'p option" where
  "walk rs [] = None"
| "walk rs [k] = (case map_of rs k of Some (Procedure p) \<Rightarrow> Some p | _ \<Rightarrow> None)"
| "walk rs (k # l # ks) = (case map_of rs k of Some (SubRouter sub) \<Rightarrow> walk sub (l # ks) | _ \<Rightarrow> None)"

definition plain_key :: "string \<Rightarrow> bool" where
  "plain_key k = (k \<noteq> [] \<and> CHR ''.'' \<notin> set k)"

fun plain_tree :: "'p rpc_tree \<Rightarrow> bool" where
  "plain_tree (Procedure p) = True"
| "plain_tree (SubRouter rs) = (distinct (keys_of rs) \<and> list_all (\<lambda>(k, t). plain_key k \<and> plain_tree t) rs)"

lemma dotted_path_twice: "k \<noteq> [] \<Longrightarrow> ks \<noteq> [] \<Longrightarrow> dotted_path (dotted_path pref k) (join ''.'' ks) = dotted_path pref (join ''.'' (k # ks))"
  by (simp add: dotted_path_def join_Cons)

lemma walk_Cons:
  "walk ((key, t) # rs) (k # ks) =
     (if k = key then (case t of Procedure p \<Rightarrow> if ks = [] then Some p else None | SubRouter sub \<Rightarrow> walk sub ks)
      else walk rs (k # ks))"
  by (cases ks) (auto split: rpc_tree.splits)

lemma walk_Nil: "walk [] ks = None"
  by (cases ks; cases "tl ks") auto

lemma walk_keys: "walk rs (k # ks) = Some p \<Longrightarrow> k \<in> set (keys_of rs)"
  by (cases ks) (auto split: option.splits dest: map_of_SomeD intro: rev_image_eqI)

lemma leaves_walk:
  "plain_tree (SubRouter rs) \<Longrightarrow> (x, p) \<in> set (leaves rs pref) \<longleftrightarrow>
     (\<exists>ks. ks \<noteq> [] \<and> list_all plain_key ks \<and> x = dotted_path pref (join ''.'' ks) \<and> walk rs ks = Some p)"
proof (induction rs pref rule: leaves.induct)
  case (1 pref)
  then show ?case by (auto simp: walk_Nil)
next
  case (2 key q rs pref)
  then have rs: "plain_tree (SubRouter rs)" and k: "key \<notin> set (keys_of rs)" "plain_key key" by auto
  show ?case (is "?l \<longleftrightarrow> (\<exists>ks. ?R ks)")
  proof
    assume ?l
    then consider "x = dotted_path pref key" "p = q" | ks where "ks \<noteq> []" "list_all plain_key ks" "x = dotted_path pref (join ''.'' ks)" "walk rs ks = Some p"
      using 2(1) [OF rs] by auto
    then show "\<exists>ks. ?R ks"
    proof cases
      case 1
      then have "?R [key]" using k by simp
      then show ?thesis by blast
    next
      case (2 ks)
      then obtain l ls where l: "ks = l # ls" by (cases ks) auto
      then have "l \<noteq> key" using 2 walk_keys [of rs l ls p] k by auto
      then have "?R ks" using 2 by (simp add: l walk_Cons)
      then show ?thesis by blast
    qed
  next
    assume "\<exists>ks. ?R ks"
    then obtain k ks where ks: "?R (k # ks)" by (metis neq_Nil_conv)
    then show ?l using 2(1) [OF rs] by (cases "k = key") (auto simp: walk_Cons split: if_splits)
  qed
next
  case (3 key sub rs pref)
  then have rs: "plain_tree (SubRouter rs)" and sub: "plain_tree (SubRouter sub)" and k: "key \<notin> set (keys_of rs)" "plain_key key" by auto
  have ne: "key \<noteq> []" using k(2) by (simp add: plain_key_def)
  show ?case (is "?l \<longleftrightarrow> (\<exists>ks. ?R ks)")
  proof
    assume ?l
    then consider ks where "ks \<noteq> []" "list_all plain_key ks" "x = dotted_path (dotted_path pref key) (join ''.'' ks)" "walk sub ks = Some p"
      | ks where "ks \<noteq> []" "list_all plain_key ks" "x = dotted_path pref (join ''.'' ks)" "walk rs ks = Some p"
      using 3(1) [OF sub] 3(2) [OF rs] by auto
    then show "\<exists>ks. ?R ks"
    proof cases
      case (1 ks)
      then have "?R (key # ks)" using k by (simp add: dotted_path_twice [OF ne] walk_Cons)
      then show ?thesis by blast
    next
      case (2 ks)
      then obtain l ls where l: "ks = l # ls" by (cases ks) auto
      then have "l \<noteq> key" using 2 walk_keys [of rs l ls p] k by auto
      then have "?R ks" using 2 by (simp add: l walk_Cons)
      then show ?thesis by blast
    qed
  next
    assume "\<exists>ks. ?R ks"
    then obtain k ks where ks: "?R (k # ks)" by (metis neq_Nil_conv)
    show ?l
    proof (cases "k = key")
      case True
      then have "walk sub ks = Some p" using ks by (simp add: walk_Cons)
      moreover from this have "ks \<noteq> []" by auto
      moreover have "x = dotted_path (dotted_path pref key) (join ''.'' ks)" using ks True by (simp add: dotted_path_twice [OF ne \<open>ks \<noteq> []\<close>])
      ultimately show ?thesis using 3(1) [OF sub] ks by auto
    next
      case False
      then show ?thesis using 3(2) [OF rs] ks by (auto simp: walk_Cons)
    qed
  qed
qed

lemma join_dots_inj:
  assumes "list_all plain_key ks" "list_all plain_key ls" "ks \<noteq> []" "ls \<noteq> []" "join ''.'' ks = join ''.'' ls"
  shows "ks = ls"
proof -
  have "split_on CHR ''.'' (join ''.'' ks) = ks" by (rule split_join) (use assms(1,3) in \<open>auto simp: list_all_iff plain_key_def\<close>)
  moreover have "split_on CHR ''.'' (join ''.'' ls) = ls" by (rule split_join) (use assms(2,4) in \<open>auto simp: list_all_iff plain_key_def\<close>)
  ultimately show ?thesis unfolding assms(5) by (rule trans [OF sym])
qed

lemma map_of_fold_update: "map_of (fold (\<lambda>(k, p). AList.update k p) es flat) k = (case map_of (rev es) k of None \<Rightarrow> map_of flat k | Some p \<Rightarrow> Some p)"
proof (induction es arbitrary: flat)
  case Nil
  then show ?case by simp
next
  case (Cons e es)
  then show ?case by (cases e) (auto simp: map_of_update map_add_def split: option.splits)
qed

lemma flat_lookup:
  assumes t: "plain_tree (SubRouter rs)" and ks: "ks \<noteq> []" "list_all plain_key ks"
  shows "map_of (flattenRoutes rs [] []) (join ''.'' ks) = walk rs ks"
proof -
  have in_leaves: "(join ''.'' ks, p) \<in> set (leaves rs []) \<longleftrightarrow> walk rs ks = Some p" for p
    unfolding leaves_walk [OF t] dotted_path_def using join_dots_inj [of ks] ks by auto
  have "map_of (flattenRoutes rs [] []) (join ''.'' ks) = map_of (rev (leaves rs [])) (join ''.'' ks)"
    by (simp add: flatten_leaves map_of_fold_update split: option.splits)
  also have "\<dots> = walk rs ks"
  proof (cases "walk rs ks")
    case None
    then show ?thesis using in_leaves by (auto simp: map_of_eq_None_iff)
  next
    case (Some p)
    then have "join ''.'' ks \<in> fst ` set (rev (leaves rs []))" using in_leaves by (force intro: rev_image_eqI)
    then obtain q where q: "map_of (rev (leaves rs [])) (join ''.'' ks) = Some q" by (metis map_of_eq_None_iff option.exhaust)
    then have "(join ''.'' ks, q) \<in> set (leaves rs [])" using map_of_SomeD by fastforce
    then show ?thesis using q in_leaves by simp
  qed
  finally show ?thesis .
qed

section \<open>The chain of middlewares\<close>

lemma drive_shrinks:
  assumes nxt: "\<And>rest s r s1 rest1. nxt rest s = (r, s1, rest1) \<Longrightarrow> length rest1 \<le> length rest"
  shows "drive nxt a rest = (r, s1, rest1) \<Longrightarrow> length rest1 \<le> length rest"
proof (induction a arbitrary: rest)
  case (Done r s)
  then show ?case by simp
next
  case (CallNext s k)
  obtain r0 s0 rest0 where n: "nxt rest s = (r0, s0, rest0)" by (cases "nxt rest s")
  then have "drive nxt (k r0 s0) rest0 = (r, s1, rest1)" using CallNext.prems by simp
  then have "length rest1 \<le> length rest0" using CallNext.IH by blast
  then show ?case using nxt [OF n] by simp
qed

lemma chain_shrinks: "chain_next n t rest s = (r, s1, rest1) \<Longrightarrow> length rest1 \<le> length rest"
proof (induction n t rest s arbitrary: r s1 rest1 rule: chain_next.induct)
  case (1 n t mw rest s)
  have "length rest1 \<le> length rest"
    by (rule drive_shrinks [of "chain_next n t" "mw s" rest r s1]) (use 1 in auto)
  then show ?case by simp
qed (auto split: prod.splits)

lemma drive_cong:
  assumes same: "\<And>rest s. length rest \<le> n \<Longrightarrow> nxt rest s = nxt' rest s"
    and shrinks: "\<And>rest s r s1 rest1. nxt' rest s = (r, s1, rest1) \<Longrightarrow> length rest1 \<le> length rest"
  shows "length rest \<le> n \<Longrightarrow> drive nxt a rest = drive nxt' a rest"
proof (induction a arbitrary: rest)
  case (Done r s)
  then show ?case by simp
next
  case (CallNext s k)
  obtain r0 s0 rest0 where n: "nxt' rest s = (r0, s0, rest0)" by (cases "nxt' rest s")
  then have "length rest0 \<le> n" using shrinks CallNext.prems by fastforce
  then have "drive nxt (k r0 s0) rest0 = drive nxt' (k r0 s0) rest0" using CallNext.IH by blast
  then show ?case using CallNext.prems n same by simp
qed

text \<open>The bound is enough: from the length on it makes no difference.\<close>

lemma chain_fuel: "length rest \<le> n \<Longrightarrow> length rest \<le> m \<Longrightarrow> chain_next n t rest s = chain_next m t rest s"
proof (induction n arbitrary: m rest s)
  case 0
  then show ?case by (cases m) auto
next
  case (Suc n)
  show ?case
  proof (cases rest)
    case Nil
    then show ?thesis by (cases m) auto
  next
    case (Cons mw ms)
    with Suc.prems obtain m' where m: "m = Suc m'" by (cases m) auto
    have "drive (chain_next n t) (mw s) ms = drive (chain_next m' t) (mw s) ms"
    proof (rule drive_cong [where n = "length ms"])
      show "chain_next n t r u = chain_next m' t r u" if "length r \<le> length ms" for r u
        using that Suc.prems Cons m by (intro Suc.IH) auto
    qed (auto dest: chain_shrinks)
    then show ?thesis by (simp add: Cons m)
  qed
qed

text \<open>\<open>next\<close> of the code: the first middleware left is started, and each of its calls of \<open>next\<close> goes on there.\<close>

definition rpc_next :: "('s \<Rightarrow> rpc_result \<times> 's) \<Rightarrow> 's middleware list \<Rightarrow> 's \<Rightarrow> rpc_result \<times> 's \<times> 's middleware list" where
  "rpc_next t rest s = chain_next (length rest) t rest s"

lemma rpc_next_rec:
  "rpc_next t [] s = (case t s of (r, s1) \<Rightarrow> (r, s1, []))"
  "rpc_next t (mw # rest) s = drive (rpc_next t) (mw s) rest"
proof -
  show "rpc_next t [] s = (case t s of (r, s1) \<Rightarrow> (r, s1, []))" by (simp add: rpc_next_def)
  have "drive (chain_next (length rest) t) (mw s) rest = drive (rpc_next t) (mw s) rest"
    by (rule drive_cong [where n = "length rest"]) (auto simp: rpc_next_def intro: chain_fuel dest: chain_shrinks)
  then show "rpc_next t (mw # rest) s = drive (rpc_next t) (mw s) rest" by (simp add: rpc_next_def)
qed

lemma runChain_next: "runChain mws s t = (case rpc_next t mws s of (r, s1, rest) \<Rightarrow> (r, s1))"
  by (simp add: runChain_def rpc_next_def)

text \<open>A middleware that calls \<open>next\<close> once, with work before and after.\<close>

definition around :: "('s \<Rightarrow> 's) \<Rightarrow> (rpc_result \<Rightarrow> 's \<Rightarrow> rpc_result \<times> 's) \<Rightarrow> 's middleware" where
  "around before after = (\<lambda>s. CallNext (before s) (\<lambda>r s1. case after r s1 of (r2, s2) \<Rightarrow> Done r2 s2))"

text \<open>A middleware that answers by itself.\<close>

definition guard_mw :: "('s \<Rightarrow> rpc_result \<times> 's) \<Rightarrow> 's middleware" where
  "guard_mw g = (\<lambda>s. case g s of (r, s1) \<Rightarrow> Done r s1)"

fun onion :: "(('s \<Rightarrow> 's) \<times> (rpc_result \<Rightarrow> 's \<Rightarrow> rpc_result \<times> 's)) list \<Rightarrow> ('s \<Rightarrow> rpc_result \<times> 's) \<Rightarrow> 's \<Rightarrow> rpc_result \<times> 's" where
  "onion [] core s = core s"
| "onion ((before, after) # ws) core s = (case onion ws core (before s) of (r, s1) \<Rightarrow> after r s1)"

lemma next_onion:
  assumes "\<And>s. \<exists>rest2. rpc_next t rest s = (fst (core s), snd (core s), rest2)"
  shows "\<exists>rest2. rpc_next t (map (\<lambda>(b, a). around b a) ws @ rest) s = (fst (onion ws core s), snd (onion ws core s), rest2)"
proof (induction ws arbitrary: s)
  case Nil
  then show ?case using assms by simp
next
  case (Cons w ws)
  obtain b a where w: "w = (b, a)" by (cases w)
  obtain rest2 where "rpc_next t (map (\<lambda>(b, a). around b a) ws @ rest) (b s) = (fst (onion ws core (b s)), snd (onion ws core (b s)), rest2)"
    using Cons by blast
  then show ?case by (simp add: w rpc_next_rec around_def split: prod.splits)
qed

lemma ex_onion:
  "\<exists>rest2. rpc_next t [] s = (fst (t s), snd (t s), rest2)"
  "\<exists>rest2. rpc_next t (guard_mw g # later) s = (fst (g s), snd (g s), rest2)"
  by (auto simp: rpc_next_rec guard_mw_def split: prod.splits)

lemma chain_onion: "runChain (map (\<lambda>(b, a). around b a) ws) s t = onion ws t s"
proof -
  obtain rest2 where "rpc_next t (map (\<lambda>(b, a). around b a) ws @ []) s = (fst (onion ws t s), snd (onion ws t s), rest2)"
    using next_onion [of t "[]" t ws s, OF ex_onion(1)] by blast
  then show ?thesis by (simp add: runChain_next)
qed

lemma chain_guard: "runChain (map (\<lambda>(b, a). around b a) ws @ guard_mw g # later) s t = onion ws g s"
proof -
  obtain rest2 where "rpc_next t (map (\<lambda>(b, a). around b a) ws @ guard_mw g # later) s = (fst (onion ws g s), snd (onion ws g s), rest2)"
    using next_onion [of t "guard_mw g # later" g ws s, OF ex_onion(2)] by blast
  then show ?thesis by (simp add: runChain_next)
qed

section \<open>Which requests reach a procedure\<close>

fun outcome_status :: "rpc_outcome \<Rightarrow> int option" where
  "outcome_status (Responds r) = Some (rsStatus r)"
| "outcome_status Escapes = None"

definition introspection_paths :: "string list" where
  "introspection_paths = [''openapi.json'', ''manifest.json'']"

definition trusted_origin :: "('f, 'c, 'w, 'sc) rpc_handler \<Rightarrow> 'f rpc_request \<Rightarrow> bool" where
  "trusted_origin H q \<longleftrightarrow> \<not> originCheck H
     \<or> (case headers_get ''origin'' (rqHeaders q) of
          Some og \<Rightarrow> og = rqOrigin q \<or> og \<in> set (allowedOrigins H)
        | None \<Rightarrow> (case headers_get ''sec-fetch-site'' (rqHeaders q) of None \<Rightarrow> True | Some s \<Rightarrow> s = ''same-origin'' \<or> s = ''none''))"

definition typed_body :: "'f rpc_request \<Rightarrow> ('f, 's, 'sc) procedure_def \<Rightarrow> bool" where
  "typed_body q p =
     (let e = mimeEssence (case headers_get ''content-type'' (rqHeaders q) of None \<Rightarrow> [] | Some c \<Rightarrow> c)
      in if e \<in> set FORM_CONTENT_TYPES then prAllowFormData p else isJsonEssence e)"

definition rpc_admits :: "('f, 'c, 'w, 'sc) rpc_handler \<Rightarrow> 'f rpc_request \<Rightarrow> ('f, 'c \<times> 'w, 'sc) procedure_def \<Rightarrow> bool" where
  "rpc_admits H q p =
     (if rqMethod q = ''GET'' then prType p = QueryProc
      else (prType p = MutationProc \<longrightarrow> rqMethod q = ''POST'') \<and> trusted_origin H q \<and> typed_body q p)"

lemma error_status: "200 \<le> n \<Longrightarrow> n \<le> 599 \<Longrightarrow> n \<notin> {204, 205, 304} \<Longrightarrow> outcome_status (errorResponse n c m i) = Some n"
  by (simp add: errorResponse_def rpc_json_response_def)

lemma checkOrigin_trusted: "checkOrigin H q = (if trusted_origin H q then None
    else Some (errorResponse 403 ''CROSS_ORIGIN_DENIED'' ''Cross-origin request rejected'' None))"
  by (auto simp: checkOrigin_def trusted_origin_def Let_def split: option.splits)

lemma parseBody_typed:
  assumes "\<not> typed_body q p"
  shows "\<exists>r. rpc_parseBody pf q p = Inl r \<and> outcome_status r = Some 415"
  using assms by (auto simp: rpc_parseBody_def typed_body_def Let_def error_status)

lemma refused_untouched:
  assumes "map_of (flatRoutes H) (rpc_path H q) = Some p" and "rpc_path H q \<notin> set introspection_paths" and "\<not> rpc_admits H q p"
  shows "\<exists>r. rpc_handle E H q w = (r, w) \<and> outcome_status r \<in> {Some 403, Some 405, Some 415}"
proof (cases "prType p = MutationProc \<and> rqMethod q \<noteq> ''POST''")
  case True
  then show ?thesis using assms(1,2) by (simp add: rpc_handle_def introspection_paths_def error_status)
next
  case not_mutation: False
  with assms(3) have not_get: "rqMethod q \<noteq> ''GET''" by (auto simp: rpc_admits_def intro: proc_type.exhaust [of "prType p"])
  show ?thesis
  proof (cases "trusted_origin H q")
    case False
    then show ?thesis using assms(1,2) not_mutation not_get by (auto simp: rpc_handle_def introspection_paths_def error_status checkOrigin_trusted)
  next
    case True
    then have "\<not> typed_body q p" using assms(3) not_mutation not_get by (simp add: rpc_admits_def)
    then obtain r where "rpc_parseBody (rePlatform E) q p = Inl r" "outcome_status r = Some 415" using parseBody_typed by blast
    then show ?thesis using assms(1,2) not_mutation not_get True
      by (auto simp: rpc_handle_def introspection_paths_def checkOrigin_trusted call_procedure_def)
  qed
qed

lemma admitted_call:
  assumes "map_of (flatRoutes H) (rpc_path H q) = Some p" and "rpc_path H q \<notin> set introspection_paths" and "rpc_admits H q p"
  shows "rpc_handle E H q w = call_procedure E H p (rpc_path H q) q w"
proof (cases "rqMethod q = ''GET''")
  case True
  then have "prType p = QueryProc" using assms(3) by (simp add: rpc_admits_def)
  then show ?thesis using assms(1,2) True by (simp add: rpc_handle_def introspection_paths_def)
next
  case False
  then have "prType p = MutationProc \<longrightarrow> rqMethod q = ''POST''" "checkOrigin H q = None"
    using assms(3) by (simp_all add: rpc_admits_def checkOrigin_trusted)
  then show ?thesis using assms(1,2) by (cases "prType p = MutationProc") (simp_all add: rpc_handle_def introspection_paths_def)
qed

section \<open>What escapes\<close>

definition answerable :: "rpc_thrown \<Rightarrow> bool" where
  "answerable e = (case e of ThrownNullish \<Rightarrow> False
     | Thrown st cd msg \<Rightarrow> (case st of None \<Rightarrow> True | Some n \<Rightarrow> 200 \<le> n \<and> n \<le> 599 \<and> n \<notin> {204, 205, 304}))"

lemma errorResponse_answers: "200 \<le> n \<Longrightarrow> n \<le> 599 \<Longrightarrow> n \<notin> {204, 205, 304} \<Longrightarrow> errorResponse n c m i \<noteq> Escapes"
  by (simp add: errorResponse_def rpc_json_response_def)

lemma handleError_answers: "answerable e \<Longrightarrow> fst (rpc_handleError E H e path w) \<noteq> Escapes"
  by (cases e) (auto simp: answerable_def rpc_handleError_def Let_def errorResponse_answers split: option.splits)

lemma inputs_answer:
  "query_input pf q = Inl r \<Longrightarrow> r \<noteq> Escapes"
  "rqFormData q \<noteq> None \<Longrightarrow> rpc_parseBody pf q p = Inl r \<Longrightarrow> r \<noteq> Escapes"
  by (auto simp: query_input_def rpc_parseBody_def Let_def errorResponse_answers
      split: option.splits list.splits sum.splits if_splits parsed_body.splits)

lemma validate_answers:
  assumes "validate_and_context E H p path q x w = (Inl r, w1)"
    and "\<And>sc e. reValidateInput E sc x = Inl e \<Longrightarrow> answerable e" and "\<And>e w2. contextFactory H q w = (Inl e, w2) \<Longrightarrow> answerable e"
  shows "r \<noteq> Escapes"
  using assms handleError_answers [of _ E H path w] handleError_answers [of _ E H path]
  by (auto simp: validate_and_context_def errorResponse_answers split: option.splits sum.splits prod.splits if_splits; metis fst_conv)

lemma finish_answers:
  assumes "\<And>sc e. reValidateOutput E sc out = Inl e \<Longrightarrow> answerable e"
  shows "fst (finish_call E H p path out w) \<noteq> Escapes"
proof -
  have "answerable (Thrown None None (Some m))" for m by (simp add: answerable_def)
  then show ?thesis using assms handleError_answers [of _ E H path w]
    by (auto simp: finish_call_def errorResponse_answers rpc_json_response_def split: option.splits sum.splits bool.splits)
qed

section \<open>A call from the client and back\<close>

text \<open>What the network makes of a call: \<open>url\<close> splits a URL in origin and path name.\<close>

definition deliver :: "wire_platform \<Rightarrow> (string \<Rightarrow> string \<times> string) \<Rightarrow> fetch_call \<Rightarrow> 'f rpc_request" where
  "deliver pf url c =
     \<lparr>rqMethod = fcMethod c, rqOrigin = fst (url (fcUrl c)), rqPathname = snd (url (fcUrl c)), rqInputParam = fcParam c,
      rqHeaders = new_headers (fcHeaders c), rqParsedBody = None,
      rqJson = (case fcBody c of None \<Rightarrow> None | Some t \<Rightarrow> wpParse pf t), rqFormData = None\<rparr>"

definition client_call :: "wire_platform \<Rightarrow> rpc_client \<Rightarrow> proc_type \<Rightarrow> string list \<Rightarrow> js_value \<Rightarrow> wire_error + fetch_call" where
  "client_call pf C t path v = (case t of QueryProc \<Rightarrow> client_query pf C path v | MutationProc \<Rightarrow> client_mutate pf C path v)"

definition accepts_input :: "('f, 'sc) rpc_env \<Rightarrow> ('f, 's, 'sc) procedure_def \<Rightarrow> 'f rpc_input \<Rightarrow> 'f rpc_input \<Rightarrow> bool" where
  "accepts_input E p x y = (case prInput p of None \<Rightarrow> y = x | Some sc \<Rightarrow> reValidateInput E sc x = Inr (Inr y))"

definition accepts_output :: "('f, 'sc) rpc_env \<Rightarrow> ('f, 's, 'sc) procedure_def \<Rightarrow> js_value \<Rightarrow> bool" where
  "accepts_output E p out = (case prOutput p of None \<Rightarrow> True | Some sc \<Rightarrow> reValidateOutput E sc out = Inr True)"

definition portable :: "js_value \<Rightarrow> bool" where
  "portable v = (sendable v \<and> levels v \<le> MAX_DECODE_DEPTH)"

lemma wire_trip: "wire_laws pf \<Longrightarrow> portable v \<Longrightarrow> \<exists>j. encode pf v = Inr j \<and> unique_keys j \<and> decode pf j = Inr (received v)"
  using sendable_trips [of pf v] by (auto simp: trips_def decode_def portable_def)

definition sends_json :: "'f rpc_request \<Rightarrow> bool" where
  "sends_json q = isJsonEssence (mimeEssence (case headers_get ''content-type'' (rqHeaders q) of None \<Rightarrow> [] | Some c \<Rightarrow> c))"

lemma json_not_form: "isJsonEssence e \<Longrightarrow> e \<notin> set FORM_CONTENT_TYPES"
  by (auto simp: FORM_CONTENT_TYPES_def isJsonEssence_def ends_with_def)

text \<open>The input a call carries is what the server decodes.\<close>

lemma call_input:
  assumes law: "wire_laws pf" and v: "portable v" and call: "client_call pf C (prType p) path v = Inr c"
    and json: "prType p = MutationProc \<Longrightarrow> sends_json (deliver pf url c :: 'f rpc_request)"
  shows "(if rqMethod (deliver pf url c :: 'f rpc_request) = ''GET'' then query_input pf (deliver pf url c) else rpc_parseBody pf (deliver pf url c) p)
      = (Inr (Decoded (received v)) :: rpc_outcome + 'f rpc_input)" and "fcUrl c = client_url C path"
proof -
  let ?q = "deliver pf url c :: 'f rpc_request"
  obtain j where j: "encode pf v = Inr j" "unique_keys j" "decode pf j = Inr (received v)" using wire_trip [OF law v] by blast
  have parse: "wpParse pf (wpStringify pf j) = Some j" and ne: "wpStringify pf j \<noteq> []" using law j(2) by (auto simp: wire_laws_def)
  have "(if rqMethod ?q = ''GET'' then query_input pf ?q else rpc_parseBody pf ?q p) = Inr (Decoded (received v)) \<and> fcUrl c = client_url C path"
  proof (cases "prType p")
    case QueryProc
    show ?thesis
    proof (cases "v = VUndefined")
      case True
      then have "c = \<lparr>fcUrl = client_url C path, fcParam = None, fcMethod = ''GET'', fcHeaders = clHeaders C, fcBody = None\<rparr>"
        using call QueryProc by (simp add: client_call_def client_query_def)
      then show ?thesis using True by (simp add: deliver_def query_input_def)
    next
      case False
      then have c: "c = \<lparr>fcUrl = client_url C path, fcParam = Some (wpStringify pf j), fcMethod = ''GET'', fcHeaders = clHeaders C, fcBody = None\<rparr>"
        using call QueryProc j(1) by (simp add: client_call_def client_query_def)
      obtain ch t where "wpStringify pf j = ch # t" using ne by (cases "wpStringify pf j") auto
      then show ?thesis using parse by (simp add: c deliver_def query_input_def j(3))
    qed
  next
    case MutationProc
    then have c: "c = \<lparr>fcUrl = client_url C path, fcParam = None, fcMethod = ''POST'',
        fcHeaders = spread [(''content-type'', ''application/json'')] (clHeaders C), fcBody = Some (wpStringify pf j)\<rparr>"
      using call j(1) by (simp add: client_call_def client_mutate_def)
    have "sends_json ?q" using json MutationProc by blast
    moreover have "rqParsedBody ?q = None" "rqJson ?q = Some j" "rqMethod ?q \<noteq> ''GET''" by (simp_all add: c deliver_def parse)
    ultimately show ?thesis
      by (simp add: rpc_parseBody_def sends_json_def json_not_form decode_body_def Let_def j(3)) (simp add: c)
  qed
  then show "(if rqMethod ?q = ''GET'' then query_input pf ?q else rpc_parseBody pf ?q p) = Inr (Decoded (received v))" "fcUrl c = client_url C path"
    by blast+
qed

section \<open>The properties\<close>

text \<open>
  The builder carries its settings: after any sequence of steps the procedure has the last input schema, the last output
  schema, all middlewares in order, and takes forms exactly if that was asked for.
\<close>

theorem builder_carries:
  "builder_build t handler (fold apply_step steps (new_builder mws)) =
     \<lparr>prType = t, prInput = last_of step_input steps None, prOutput = last_of step_output steps None, prHandler = handler,
      prMiddlewares = mws @ concat (map step_uses steps), prAllowFormData = (StepForm \<in> set steps)\<rparr>"
  by (simp add: builder_build_def steps_fold new_builder_def)

text \<open>
  A procedure is called by its path: where keys are free of dots and distinct, the handler finds under the joined path of
  the client what the walk from router to router reaches, and nothing where that ends elsewhere.
\<close>

theorem rpc_names_resolve:
  assumes "plain_tree (SubRouter rs)" and "path \<noteq> []" and "list_all plain_key path"
  shows "map_of (flatRoutes (new_RPCHandler bare console rs op)) (join ''.'' path) = walk rs path"
  using flat_lookup [OF assms] by (simp add: new_RPCHandler_def)

text \<open>
  C4.
  A request that could be forged does not reach a procedure: unless a request is a \<open>GET\<close> of a query, or has the right method,
  comes from a trusted origin and carries a JSON body, or a form where that is allowed, it is answered 403, 405 or 415, and
  neither the context, a middleware nor the handler has run.
\<close>

theorem rpc_refuses_untouched:
  assumes "map_of (flatRoutes H) (rpc_path H q) = Some p" and "rpc_path H q \<notin> set introspection_paths" and "\<not> rpc_admits H q p"
  shows "\<exists>r. rpc_handle E H q w = (r, w) \<and> outcome_status r \<in> {Some 403, Some 405, Some 415}"
  using assms by (rule refused_untouched)

text \<open>
  C40.
  Middlewares nest: those that call \<open>next\<close> once run before and after what they enclose, in order and in reverse, and once
  one answers without \<open>next\<close>, neither the handler nor a later middleware has any effect.
\<close>

theorem rpc_middlewares_nest:
  "runProcedure (p\<lparr>prMiddlewares := map (\<lambda>(b, a). around b a) ws\<rparr>) input s = onion ws (prHandler p input) s
   \<and> runProcedure (p\<lparr>prMiddlewares := map (\<lambda>(b, a). around b a) ws @ guard_mw g # later\<rparr>) input s = onion ws g s"
  by (simp add: runProcedure_def chain_onion chain_guard)

text \<open>Introspection stays closed: when it is off, its two paths are answered like an unknown procedure and nothing has
  run; when a guard among its middlewares throws, the answer does not depend on the procedures there are.\<close>

lemma introspection_off:
  assumes "rpc_path H q \<in> set introspection_paths" and "\<not> introspectionEnabled E H"
  shows "rpc_handle E H q w = (rpc_not_found (rpc_path H q), w)"
  using assms by (auto simp: introspection_paths_def rpc_handle_def Let_def serveIntrospection_def)

lemma introspection_guarded:
  assumes "rpc_path H q \<in> set introspection_paths" and mws: "introspectionMiddlewares H = map (\<lambda>(b, a). around b a) ws @ guard_mw g # later"
    and refuses: "\<And>c w1. contextFactory H q w = (Inr c, w1) \<Longrightarrow> \<exists>err s. onion ws g (c, w1) = (Inl err, s)"
  shows "rpc_handle E (H\<lparr>flatRoutes := other\<rparr>) q w = rpc_handle E H q w"
proof -
  have path: "rpc_path H q = ''openapi.json'' \<or> rpc_path H q = ''manifest.json''" using assms(1) by (simp add: introspection_paths_def)
  then have handle: "rpc_handle E H q w = serveIntrospection E H (rpc_path H q) q w" by (auto simp: rpc_handle_def Let_def)
  have "rpc_handleError E (H\<lparr>flatRoutes := other\<rparr>) err path u = rpc_handleError E H err path u" for err path u
    by (cases err) (auto simp: rpc_handleError_def Let_def)
  then have same: "rpc_handleError E (H\<lparr>flatRoutes := other\<rparr>) = rpc_handleError E H"
      "rpc_path (H\<lparr>flatRoutes := other\<rparr>) q = rpc_path H q" "introspectionEnabled E (H\<lparr>flatRoutes := other\<rparr>) = introspectionEnabled E H"
    by (simp_all add: fun_eq_iff rpc_path_def introspectionEnabled_def)
  have "rpc_handle E (H\<lparr>flatRoutes := other\<rparr>) q w = serveIntrospection E (H\<lparr>flatRoutes := other\<rparr>) (rpc_path H q) q w"
    using path by (auto simp: rpc_handle_def Let_def same)
  also have "\<dots> = serveIntrospection E H (rpc_path H q) q w"
    using refuses by (auto simp: serveIntrospection_def same mws chain_guard split: prod.splits sum.splits)
  finally show ?thesis by (simp add: handle)
qed

text \<open>With guards configured, a context that cannot be made rejects the promise of \<open>handle\<close>: the call stands outside
  the \<open>try\<close> of \<open>serveIntrospection\<close>. So does reading a malformed form.\<close>

lemma context_failure_escapes:
  assumes "rpc_path H q \<in> set introspection_paths" and "introspectionEnabled E H" and "introspectionMiddlewares H \<noteq> []"
    and "contextFactory H q w = (Inl err, w1)"
  shows "rpc_handle E H q w = (Escapes, w1)"
  using assms by (auto simp: introspection_paths_def rpc_handle_def Let_def serveIntrospection_def)

lemma malformed_form_escapes:
  assumes "mimeEssence (case headers_get ''content-type'' (rqHeaders q) of None \<Rightarrow> [] | Some c \<Rightarrow> c) \<in> set FORM_CONTENT_TYPES"
    and "prAllowFormData p" and "rqFormData q = None" and "rqParsedBody q = None"
  shows "rpc_parseBody pf q p = Inl Escapes"
  using assms by (simp add: rpc_parseBody_def)

text \<open>
  Every call is answered: if what schemas, context, middlewares and handler throw are errors with a status a response can have,
  or none, and a form that was sent can be read, \<open>handle\<close> gives a response for any request to a procedure, known or not.
\<close>

theorem rpc_always_answers:
  assumes "rpc_path H q \<notin> set introspection_paths" and "rqFormData q \<noteq> None"
    and "\<And>sc x e. reValidateInput E sc x = Inl e \<Longrightarrow> answerable e" and "\<And>sc out e. reValidateOutput E sc out = Inl e \<Longrightarrow> answerable e"
    and "\<And>e w1. contextFactory H q w = (Inl e, w1) \<Longrightarrow> answerable e"
    and "\<And>p x s e s1. map_of (flatRoutes H) (rpc_path H q) = Some p \<Longrightarrow> runProcedure p x s = (Inl e, s1) \<Longrightarrow> answerable e"
  shows "fst (rpc_handle E H q w) \<noteq> Escapes"
proof (cases "map_of (flatRoutes H) (rpc_path H q)")
  case None
  then show ?thesis using assms(1) by (simp add: rpc_handle_def introspection_paths_def rpc_not_found_def errorResponse_answers)
next
  case (Some p)
  have "fst (call_procedure E H p (rpc_path H q) q w) \<noteq> Escapes"
  proof (cases "if rqMethod q = ''GET'' then query_input (rePlatform E) q else rpc_parseBody (rePlatform E) q p")
    case (Inl r)
    then have "r \<noteq> Escapes" using assms(2) inputs_answer(1) [of "rePlatform E" q r] inputs_answer(2) [of q "rePlatform E" p r]
      by (cases "rqMethod q = ''GET''") simp_all
    then show ?thesis using Inl by (simp add: call_procedure_def)
  next
    case input: (Inr x)
    show ?thesis
    proof (cases "validate_and_context E H p (rpc_path H q) q x w")
      case (Pair v w1)
      show ?thesis
      proof (cases v)
        case (Inl r)
        then have "r \<noteq> Escapes" using validate_answers [OF Pair [unfolded Inl]] assms(3,5) by blast
        then show ?thesis using input Pair Inl by (simp add: call_procedure_def)
      next
        case (Inr yc)
        obtain y c where yc: "yc = (y, c)" by (cases yc)
        obtain res c1 w2 where run: "runProcedure p y (c, w1) = (res, c1, w2)" by (cases "runProcedure p y (c, w1)")
        have "fst (rpc_handleError E H e (rpc_path H q) w2) \<noteq> Escapes" if "res = Inl e" for e
          by (rule handleError_answers, rule assms(6) [OF Some, of y "(c, w1)" e "(c1, w2)"]) (simp add: run that)
        moreover have "fst (finish_call E H p (rpc_path H q) out w2) \<noteq> Escapes" for out by (rule finish_answers) (rule assms(4))
        ultimately show ?thesis using input Pair Inr yc run by (cases res) (simp_all add: call_procedure_def)
      qed
    qed
  qed
  moreover obtain r where "rpc_handle E H q w = (r, w)" "outcome_status r \<noteq> None" if "\<not> rpc_admits H q p"
    using refused_untouched [OF Some assms(1), of E w] by fastforce
  ultimately show ?thesis using admitted_call [OF Some assms(1)] by (cases "rpc_admits H q p") auto
qed


section \<open>Witnesses\<close>

definition demo_env :: "(unit, unit) rpc_env" where
  "demo_env = \<lparr>rePlatform = demo_platform, reValidateInput = (\<lambda>sc x. Inr (Inr x)), reValidateOutput = (\<lambda>sc v. Inr True),
     reJsonSchema = (\<lambda>sc. JNull), reProduction = True\<rparr>"

text \<open>A mutation that counts its calls in the world, behind a middleware that writes to the context.\<close>

definition demo_proc :: "(unit, nat \<times> nat, unit) procedure_def" where
  "demo_proc = builder_build MutationProc (\<lambda>x s. (Inr (VStr ''done''), (fst s, Suc (snd s))))
     (builder_use (around (\<lambda>s. (Suc (fst s), snd s)) (\<lambda>r s. (r, s))) (new_builder []))"

definition demo_options :: "(unit, nat, nat) rpc_options" where
  "demo_options = \<lparr>opContextFactory = None, opBasePath = None, opIntrospection = None, opIntrospectionMiddlewares = None,
     opOriginCheck = None, opAllowedOrigins = None, opLogger = None\<rparr>"

definition demo_routes :: "(string \<times> (unit, nat \<times> nat, unit) procedure_def rpc_tree) list" where
  "demo_routes = [(''users'', SubRouter [(''add'', Procedure demo_proc)])]"

definition demo_rpc :: "(unit, nat, nat, unit) rpc_handler" where
  "demo_rpc = new_RPCHandler (\<lambda>q. 0) (\<lambda>m e w. w) demo_routes demo_options"

lemma demo_routes_plain: "plain_tree (SubRouter demo_routes)" "list_all plain_key [''users'', ''add'']"
  by (simp_all add: demo_routes_def plain_key_def)

lemma demo_rpc_fields:
  "basePath demo_rpc = ''/_rpc''" "introspectionMiddlewares demo_rpc = []" "originCheck demo_rpc"
  "allowedOrigins demo_rpc = []" "contextFactory demo_rpc q w = (Inr 0, w)"
  by (simp_all add: demo_rpc_def new_RPCHandler_def demo_options_def)

theorem rpc_names_resolve_witness: "map_of (flatRoutes demo_rpc) (join ''.'' [''users'', ''add'']) = Some demo_proc"
  using rpc_names_resolve [OF demo_routes_plain(1) _ demo_routes_plain(2)] by (simp add: demo_rpc_def demo_routes_def)

lemma demo_proc_found: "map_of (flatRoutes demo_rpc) ''users.add'' = Some demo_proc"
  using flat_lookup [OF demo_routes_plain(1) _ demo_routes_plain(2)] by (simp add: demo_rpc_def demo_routes_def new_RPCHandler_def)

text \<open>A cross-site form and a request of the client.\<close>

definition demo_forged :: "unit rpc_request" where
  "demo_forged = \<lparr>rqMethod = ''POST'', rqOrigin = ''https://a'', rqPathname = ''/_rpc/users.add'', rqInputParam = None,
     rqHeaders = new_headers [(''Origin'', ''https://evil''), (''Content-Type'', ''text/plain; charset=application/json'')],
     rqParsedBody = None, rqJson = Some JNull, rqFormData = Some ()\<rparr>"

lemma demo_path: "rqPathname q = ''/_rpc/users.add'' \<Longrightarrow> rpc_path demo_rpc q = ''users.add''"
  by (simp add: rpc_path_def demo_rpc_fields)

lemma demo_not_introspection: "''users.add'' \<notin> set introspection_paths"
  by (simp add: introspection_paths_def)

theorem rpc_refuses_untouched_witness: "\<exists>r. rpc_handle demo_env demo_rpc demo_forged 7 = (r, 7) \<and> outcome_status r \<noteq> Some 200"
proof -
  have "headers_get ''origin'' (rqHeaders demo_forged) = Some ''https://evil''" by code_simp
  then have "\<not> rpc_admits demo_rpc demo_forged demo_proc"
    by (simp add: rpc_admits_def trusted_origin_def demo_rpc_fields demo_forged_def)
  moreover have "rpc_path demo_rpc demo_forged = ''users.add''" by (rule demo_path) (simp add: demo_forged_def)
  ultimately show ?thesis
    using rpc_refuses_untouched [of demo_rpc demo_forged demo_proc demo_env 7] demo_proc_found demo_not_introspection by auto
qed

lemma demo_run: "runProcedure demo_proc x (c, w) = (Inr (VStr ''done''), (Suc c, Suc w))"
  using chain_onion [of "[(\<lambda>s. (Suc (fst s), snd s), \<lambda>r s. (r, s))]" "(c, w)" "prHandler demo_proc x"]
  by (simp add: runProcedure_def demo_proc_def builder_build_def builder_use_def builder_carry_def new_builder_def)

lemma demo_proc_fields: "prType demo_proc = MutationProc" "prInput demo_proc = None" "prOutput demo_proc = None" "\<not> prAllowFormData demo_proc"
  by (simp_all add: demo_proc_def builder_build_def builder_use_def builder_carry_def new_builder_def)

theorem rpc_always_answers_witness: "fst (rpc_handle demo_env demo_rpc demo_forged 0) \<noteq> Escapes"
proof (rule rpc_always_answers)
  have path: "rpc_path demo_rpc demo_forged = ''users.add''" by (rule demo_path) (simp add: demo_forged_def)
  then show "rpc_path demo_rpc demo_forged \<notin> set introspection_paths" using demo_not_introspection by simp
  show "answerable e" if "map_of (flatRoutes demo_rpc) (rpc_path demo_rpc demo_forged) = Some p" "runProcedure p x s = (Inl e, s1)" for p x s e s1
    using that demo_run [of x "fst s" "snd s"] by (simp add: path demo_proc_found)
qed (simp_all add: demo_env_def demo_rpc_fields demo_forged_def)

definition demo_client :: rpc_client where
  "demo_client = \<lparr>clBaseUrl = ''https://a/_rpc'', clHeaders = []\<rparr>"

definition demo_url :: "string \<Rightarrow> string \<times> string" where
  "demo_url u = (take 9 u, drop 9 u)"


end
