(* ===== verification/Spec2Isabelle.thy ===== *)
theory Spec2Isabelle
  imports Router_Match Task_Queue Errors Cron_Props Kv_Props Cookie_Props Rate_Props Sha256_Props App_Props Reply_Props Body_Props Session_Props Cache_Props Jwt_Props Header_Plugins_Props Rpc_Props
begin

text \<open>
  Celsian, a TypeScript framework for HTTP backends: a model of its core packages, translated from
  the sources under \<open>src/packages\<close>, with the properties that make each part correct.

  \<^bold>\<open>The program.\<close> An app (\<open>core/src/app.ts\<close>) owns a router, a tree of plugin contexts and a
  registry of resolved scopes. Plugins register routes, hooks and decorations on their context;
  before a request the registry resolves, for every route, the hooks of the contexts that apply to
  it. A request is matched, becomes a \<open>CelsianRequest\<close> and a reply, and passes hooks, body parser,
  validation and handler; errors, wherever thrown, become responses; \<open>onSend\<close> and \<open>onResponse\<close>
  hooks end it. Beside requests run a task queue with workers and a cron scheduler. Packages add
  rate limiting, tokens and, over a key-value store, sessions and a cache of responses.

  \<^bold>\<open>The theories\<close>, each opening with what it models and how:

  \<^item> \<open>Prelude\<close>, \<open>Js_String\<close>, \<open>Uri_Codec\<close>, \<open>Utc_Date\<close>: insertion-ordered maps, strings, percent encoding over UTF-16
    units, dates. They stand for the JavaScript library.
  \<^item> \<open>Router\<close> (\<open>router.ts\<close>), with \<open>Router_Spec\<close>, \<open>Router_Names\<close> and \<open>Router_Match\<close>: the routing tree is a finite map from
    normalized patterns to routes, instance of the locale \<open>exclusive_registry\<close> of \<open>Registry\<close>; matching is
    sound and complete, the parameters are what the pattern binds, the static fast path equals the walk, the
    \<open>Allow\<close> list is exact.
  \<^item> \<open>Context\<close>, \<open>Context_Props\<close> (\<open>context.ts\<close>): the tree of contexts and the registry. Which hooks apply to a
    route is a predicate (\<open>applies\<close>), for all eight kinds of hooks; the order of the chain; the walks end.
  \<^item> \<open>Errors\<close> (\<open>errors.ts\<close>, \<open>error-handler.ts\<close>), \<open>Reply\<close>, \<open>Reply_Props\<close> (\<open>reply.ts\<close>, \<open>fast-response.ts\<close>,
    \<open>response-merge.ts\<close>), \<open>Request\<close> (\<open>request.ts\<close>), \<open>Body_Parser\<close>, \<open>Body_Props\<close> (\<open>body-parser.ts\<close>): redirects stay on
    the site, files in their root name by name, the host of a request cannot be forged, the body limit holds. A default
    error response whose status cannot go with a body throws, as \<open>new Response\<close> does.
  \<^item> \<open>Lifecycle\<close>, \<open>Lifecycle_Props\<close> (\<open>hooks.ts\<close>, \<open>response-schema.ts\<close>, the lifecycle of \<open>app.ts\<close>), \<open>App\<close>, \<open>App_Props\<close> (the
    rest of \<open>app.ts\<close>): the stages as functions on the state (request, reply, world), and \<open>handle\<close>. The
    states of an app are those of the inductive \<open>app_reach\<close>, with an invariant by rule induction.
    That guards stop handlers is stated as independence of the handlers' behaviour.
  \<^item> \<open>Lease_Queue\<close>, \<open>Mem_Queue\<close>, \<open>Task_Worker\<close>, \<open>Task_Queue\<close> (\<open>queue.ts\<close>, \<open>task.ts\<close>): leases, retries, dead letters,
    the polling loop as a step relation. A lease is exclusive whatever the other workers do, short of putting the job
    back; a failing job is followed through deliveries that take time while others poll.
  \<^item> \<open>Cron\<close>, \<open>Cron_Props\<close> (\<open>cron.ts\<close>); \<open>Cookie\<close>, \<open>Cookie_Props\<close> (\<open>cookie.ts\<close>).
  \<^item> \<open>Kv_Interface\<close>, \<open>Kv_Store\<close>, \<open>Kv_Props\<close> (\<open>cache/src/store.ts\<close>): the memory store interprets the locale of
    a key-value store; eviction is least recently used.
    \<open>Session\<close>, \<open>Session_Props\<close> (\<open>cache/src/session.ts\<close>): signed session cookies, regeneration, renewal.
  \<^item> \<open>Base64\<close>, \<open>Response_Cache\<close>, \<open>Cache_Keys\<close>, \<open>Cache_Steps\<close>, \<open>Cache_Inv\<close>, \<open>Cache_Props\<close> (\<open>cache/src/response-cache.ts\<close>):
    keys, the rules of sharing, and the concurrent requests as steps between the awaits, with an
    invariant by rule induction inside the locale \<open>response_cache\<close>.
  \<^item> \<open>Rate_Interface\<close>, \<open>Rate_Limit\<close>, \<open>Rate_Props\<close>, \<open>Ip_Address\<close>, \<open>Ip_Props\<close>, \<open>Sha256\<close>, \<open>Sha256_Props\<close> (\<open>rate-limit/src\<close>): the
    limit in any interval for any store that keeps fixed windows, addresses and blocks on words,
    and SHA-256 against FIPS 180-4.
  \<^item> \<open>Jwt\<close>, \<open>Jwt_Props\<close> (\<open>jwt/src/index.ts\<close>): the options, the realms of an app as an invariant of its
    registrations, signing and the guards; the third-party signer is an argument with its documented laws.
  \<^item> \<open>Csrf\<close>, \<open>Csrf_Props\<close>, \<open>Header_Plugins\<close>, \<open>Header_Plugins_Props\<close> (\<open>core/src/plugins\<close>): signed tokens bound to the
    session, cross-origin answers, security headers, entity tags.
  \<^item> \<open>Rpc_Wire\<close>, \<open>Rpc_Wire_Props\<close>, \<open>Rpc\<close>, \<open>Rpc_Props\<close> (\<open>rpc/src\<close>): the tagged encoding and its round trip, the builder of
    procedures, dispatch, middlewares as trees that call \<open>next\<close>, and a call from the client to the handler and back.

  \<^bold>\<open>Conventions.\<close> Objects are records, closures over mutable variables are passed state, an exception
  is \<open>Inl\<close> or \<open>None\<close>, a dictionary is an association list in insertion order. The clock, randomness,
  the platform's URL parser, \<open>JSON.parse\<close>, form decoding, schema validators, the file system and the
  user's hooks and handlers are arguments. Strings are Latin-1, except where the code works on UTF-16
  units (type \<open>ustring\<close>). A number of a JSON value is a rational; the values that remote procedures exchange have -0,
  the infinities and NaN as well.

  \<^bold>\<open>Fuel.\<close> The walks over references between contexts get the number of contexts, which \<open>context_walks_end\<close> shows
  to be enough; the loop of \<open>normalizeRedirectTarget\<close> gets 2 rounds, and is shown to end with a result in
  \<open>redirect_stays_on_site\<close>; the chain of RPC middlewares gets its length, enough by \<open>chain_fuel\<close>.

  \<^bold>\<open>Not modelled.\<close> Sockets and process signals (\<open>serve.ts\<close>), streams, event streams and WebSocket traffic, logging,
  configuration, the adapters, the command line, code generation, and what only calls third-party
  services (Redis, WebCrypto, compression). Of \<open>app.ts\<close>: awaiting plugins, request ids, one-time warnings
  and abort signals; the interleaving of an \<open>onResponse\<close> hook that awaits with the code after it. The
  schema package and the plugins for uploads, documentation, analytics and databases
  are not yet modelled.
\<close>

end
